(* ===== verification/Obe_Prelude.thy ===== *)
theory Obe_Prelude
  imports "HOL-Library.Word" "HOL-Library.Monad_Syntax" "HOL-Library.Signed_Division"
begin

text \<open>
  Shared vocabulary of the development: the machine integer types of the code, the view of a C
  memory block as a list of cells with checked reads and writes (an access outside the block is
  the value \<^const>\<open>None\<close>), big-endian bit strings, and the lemmas on them that the component
  theories use.
\<close>

unbundle bit_operations_syntax

named_theorems obe_defs
  "definitions the component proofs unfold"

type_synonym u8 = "8 word"
type_synonym u16 = "16 word"
type_synonym u32 = "32 word"
type_synonym u64 = "64 word"
type_synonym bytes = "u8 list"


section \<open>Memory blocks\<close>

text \<open>Overwrite the cells from \<open>off\<close> on; \<open>memcpy\<close> and \<open>memmove\<close> into a block.\<close>

definition splice :: "nat \<Rightarrow> 'a list \<Rightarrow> 'a list \<Rightarrow> 'a list" where
  "splice off new xs = take off xs @ new @ drop (off + length new) xs"

definition mem_put :: "nat \<Rightarrow> 'a list \<Rightarrow> 'a list \<Rightarrow> 'a list option" where
  "mem_put off new xs =
     (if off + length new \<le> length xs then Some (splice off new xs) else None)"

definition mem_get :: "nat \<Rightarrow> nat \<Rightarrow> 'a list \<Rightarrow> 'a list option" where
  "mem_get off n xs = (if off + n \<le> length xs then Some (take n (drop off xs)) else None)"

definition at :: "'a list \<Rightarrow> nat \<Rightarrow> 'a option" where
  "at xs i = (if i < length xs then Some (xs ! i) else None)"

lemma length_splice [simp]:
  "off + length new \<le> length xs \<Longrightarrow> length (splice off new xs) = length xs"
  by (simp add: splice_def)

lemma take_splice [simp]:
  "off \<le> length xs \<Longrightarrow> take off (splice off new xs) = take off xs"
  by (simp add: splice_def)

lemma take_splice_end:
  "off \<le> length xs \<Longrightarrow> take (off + length new) (splice off new xs) = take off xs @ new"
  by (simp add: splice_def)

lemma drop_splice_end:
  "off \<le> length xs \<Longrightarrow> drop (off + length new) (splice off new xs) = drop (off + length new) xs"
  by (simp add: splice_def)

lemma splice_nth:
  assumes "off + length new \<le> length xs" "i < length xs"
  shows "splice off new xs ! i
         = (if off \<le> i \<and> i < off + length new then new ! (i - off) else xs ! i)"
  using assms by (auto simp: splice_def nth_append min_def)

lemma mem_put_Some [simp]:
  "off + length new \<le> length xs \<Longrightarrow> mem_put off new xs = Some (splice off new xs)"
  by (simp add: mem_put_def)

lemma mem_put_None [simp]:
  "length xs < off + length new \<Longrightarrow> mem_put off new xs = None"
  by (simp add: mem_put_def)

lemma mem_put_eq_Some:
  "mem_put off new xs = Some ys \<longleftrightarrow> off + length new \<le> length xs \<and> ys = splice off new xs"
  by (auto simp: mem_put_def)

lemma mem_get_Some [simp]:
  "off + n \<le> length xs \<Longrightarrow> mem_get off n xs = Some (take n (drop off xs))"
  by (simp add: mem_get_def)

lemma mem_get_None [simp]: "length xs < off + n \<Longrightarrow> mem_get off n xs = None"
  by (simp add: mem_get_def)

lemma at_Some [simp]: "i < length xs \<Longrightarrow> at xs i = Some (xs ! i)"
  by (simp add: at_def)

lemma at_None [simp]: "length xs \<le> i \<Longrightarrow> at xs i = None"
  by (simp add: at_def)

lemma at_eq_Some: "at xs i = Some v \<longleftrightarrow> i < length xs \<and> xs ! i = v"
  by (auto simp: at_def)

lemma at_eq_None: "at xs i = None \<longleftrightarrow> length xs \<le> i"
  by (auto simp: at_def)


section \<open>Lists\<close>

lemma take_drop_app: "k \<le> n \<Longrightarrow> take k xs @ take (n - k) (drop k xs) = take n xs"
  by (metis le_add_diff_inverse take_add)

lemma drop_nth_conv: "i < length xs \<Longrightarrow> drop i xs = xs ! i # drop (Suc i) xs"
  by (rule Cons_nth_drop_Suc [symmetric])

lemma list_update_take:
  "i < length xs \<Longrightarrow> xs[i := v] = take i xs @ v # drop (Suc i) xs"
  by (rule upd_conv_take_nth_drop)


lemma those_map_Some [simp]: "those (map Some xs) = Some xs"
  by (induction xs) simp_all

section \<open>Big-endian bit strings\<close>

text \<open>The \<open>n\<close> low bits of a value, most significant first: the order a bit stream has them in.\<close>

definition bits_be :: "nat \<Rightarrow> 'a::semiring_bit_operations \<Rightarrow> bool list" where
  "bits_be n x = map (\<lambda>i. bit x (n - 1 - i)) [0..<n]"

definition byte_bits :: "u8 \<Rightarrow> bool list" where
  "byte_bits b = bits_be 8 b"

definition bytes_bits :: "bytes \<Rightarrow> bool list" where
  "bytes_bits bs = concat (map byte_bits bs)"

lemma length_bits_be [simp]: "length (bits_be n x) = n"
  by (simp add: bits_be_def)

lemma bits_be_nth [simp]: "i < n \<Longrightarrow> bits_be n x ! i = bit x (n - 1 - i)"
  by (simp add: bits_be_def)

lemma bits_be_0 [simp]: "bits_be 0 x = []"
  by (simp add: bits_be_def)

lemma bits_be_Suc: "bits_be (Suc n) x = bit x n # bits_be n x"
  by (rule nth_equalityI) (auto simp: nth_Cons' simp del: bits_be_nth simp: bits_be_def nth_append)

lemma length_byte_bits [simp]: "length (byte_bits b) = 8"
  by (simp add: byte_bits_def)

lemma bytes_bits_Nil [simp]: "bytes_bits [] = []"
  by (simp add: bytes_bits_def)

lemma bytes_bits_Cons [simp]: "bytes_bits (b # bs) = byte_bits b @ bytes_bits bs"
  by (simp add: bytes_bits_def)

lemma bytes_bits_append [simp]: "bytes_bits (xs @ ys) = bytes_bits xs @ bytes_bits ys"
  by (simp add: bytes_bits_def)

lemma length_bytes_bits [simp]: "length (bytes_bits bs) = 8 * length bs"
  by (induction bs) simp_all

lemma bits_be_append:
  "bits_be (m + n) x = bits_be m (drop_bit n x) @ bits_be n x"
proof (rule nth_equalityI)
  fix i assume "i < length (bits_be (m + n) x)"
  then show "bits_be (m + n) x ! i = (bits_be m (drop_bit n x) @ bits_be n x) ! i"
    by (auto simp: nth_append bit_drop_bit_eq add.commute [of m n])
qed simp

lemma bits_be_cong:
  "(\<And>i. i < n \<Longrightarrow> bit x i = bit y i) \<Longrightarrow> bits_be n x = bits_be n y"
  by (rule nth_equalityI) auto

lemma bits_be_zero [simp]: "bits_be n 0 = replicate n False"
  by (rule nth_equalityI) auto


section \<open>Bounds and bits\<close>

lemma uint_lt_bit: "uint (v :: 'a::len word) < 2 ^ n \<Longrightarrow> bit v i \<Longrightarrow> i < n"
  using take_bit_int_eq_self [of "uint v" n] bit_take_bit_iff [of n "uint v" i]
  by (auto simp: bit_uint_iff dest: bit_imp_le_length)

lemma uint_lt_bitI:
  assumes "\<And>i. bit v i \<Longrightarrow> i < n"
  shows "uint (v :: 'a::len word) < 2 ^ n"
proof -
  have "take_bit n (uint v) = uint v"
    using assms by (intro bit_eqI) (auto simp: bit_simps)
  then show ?thesis
    by (metis take_bit_int_less_exp)
qed

end
