(* ===== verification/Obe_Queue.thy ===== *)
theory Obe_Queue
  imports Obe_Prelude
begin

text \<open>
  \<open>common/queue.c\<close>: the growable pointer array with a mutex and two condition variables that
  connects every pair of threads of the encoder (capture to filter, filter to encoder, encoder to
  mux, mux to output).

  A queue is the block \<open>queue->queue\<close> (\<open>q_buf\<close>, whose length is the number of allocated cells),
  the \<open>int\<close> \<open>size\<close>, whether the mutex is held, and the number of signals sent on each condition
  variable.  The outcome of \<open>realloc\<close> is a parameter; a request of zero cells frees the block and
  yields NULL, and a negative size, converted to \<open>size_t\<close>, can never be met.  An operation that
  takes the mutex while it is held does not return: its value is \<^const>\<open>None\<close>.
\<close>

record 'a obe_queue =
  q_name :: string
  q_buf :: "'a list"
  q_size :: int
  q_locked :: bool
  q_in :: nat
  q_out :: nat

text \<open>The queues are members of zeroed structures, so the block and the size start out empty.\<close>

(* src: common/queue.c 8-14 obe_init_queue *)
definition obe_init_queue :: "string \<Rightarrow> 'a obe_queue \<Rightarrow> 'a obe_queue option" where
  "obe_init_queue name q =
     (if length name < 128
      then Some (q\<lparr>q_name := name, q_locked := False, q_in := 0, q_out := 0\<rparr>) else None)"

definition zeroed_queue :: "'a obe_queue" where
  "zeroed_queue = \<lparr>q_name = [], q_buf = [], q_size = 0, q_locked = False, q_in = 0, q_out = 0\<rparr>"

(* src: common/queue.c 16-24 obe_destroy_queue *)
definition obe_destroy_queue :: "'a obe_queue \<Rightarrow> 'a obe_queue" where
  "obe_destroy_queue q = q\<lparr>q_buf := [], q_locked := False\<rparr>"

definition realloc_cells :: "bool \<Rightarrow> int \<Rightarrow> 'a list \<Rightarrow> 'a list option" where
  "realloc_cells ok n buf = (if n \<le> 0 \<or> \<not> ok then None else Some (take (nat n) buf))"

(* src: common/queue.c 26-45 add_to_queue *)
definition add_to_queue :: "bool \<Rightarrow> 'a \<Rightarrow> 'a obe_queue \<Rightarrow> (int \<times> 'a obe_queue) option" where
  "add_to_queue ok item q =
     (if q_locked q then None
      else (case realloc_cells ok (q_size q + 1) (q_buf q) of
              None \<Rightarrow> Some (-1, q\<lparr>q_locked := True\<rparr>)
            | Some b \<Rightarrow>
                Some (0, q\<lparr>q_buf := take (nat (q_size q)) b @ [item], q_size := q_size q + 1,
                           q_in := q_in q + 1\<rparr>)))"

(* src: common/queue.c 47-62 remove_from_queue_without_lock *)
definition remove_from_queue_without_lock :: "bool \<Rightarrow> 'a obe_queue \<Rightarrow> int \<times> 'a obe_queue" where
  "remove_from_queue_without_lock ok q =
     (let b = (if 1 < q_size q
               then splice 0 (take (nat (q_size q - 1)) (drop 1 (q_buf q))) (q_buf q)
               else q_buf q);
          n = q_size q - 1
      in case realloc_cells ok n b of
           Some b' \<Rightarrow> (0, q\<lparr>q_buf := b', q_size := n\<rparr>)
         | None \<Rightarrow> if n \<noteq> 0 then (-1, q\<lparr>q_buf := b, q_size := n\<rparr>)
                   else (0, q\<lparr>q_buf := [], q_size := n\<rparr>))"

text \<open>
  \<open>remove_from_queue\<close> repeats that body between the lock and the unlock; its error return comes
  before the unlock.
\<close>

(* src: common/queue.c 64-84 remove_from_queue *)
definition remove_from_queue :: "bool \<Rightarrow> 'a obe_queue \<Rightarrow> (int \<times> 'a obe_queue) option" where
  "remove_from_queue ok q =
     (if q_locked q then None
      else (case remove_from_queue_without_lock ok q of (r, q') \<Rightarrow>
              if r < 0 then Some (r, q'\<lparr>q_locked := True\<rparr>)
              else Some (0, q'\<lparr>q_out := q_out q' + 1\<rparr>)))"

text \<open>The scan of \<open>remove_item_from_queue\<close>: the first cell that holds the item.\<close>

fun find_item :: "'a \<Rightarrow> nat \<Rightarrow> 'a list \<Rightarrow> nat option" where
  "find_item item i [] = None"
| "find_item item i (x # xs) = (if x = item then Some i else find_item item (Suc i) xs)"

(* src: common/queue.c 86-112 remove_item_from_queue *)
definition remove_item_from_queue ::
  "bool \<Rightarrow> 'a \<Rightarrow> 'a obe_queue \<Rightarrow> (int \<times> 'a obe_queue) option" where
  "remove_item_from_queue ok item q =
     (if q_locked q then None
      else (case find_item item 0 (take (nat (q_size q)) (q_buf q)) of
              None \<Rightarrow> Some (0, q\<lparr>q_out := q_out q + 1\<rparr>)
            | Some i \<Rightarrow>
                (let n = q_size q - 1;
                     b = splice i (take (nat n - i) (drop (i + 1) (q_buf q))) (q_buf q)
                 in case realloc_cells ok n b of
                      Some b' \<Rightarrow> Some (0, q\<lparr>q_buf := b', q_size := n, q_out := q_out q + 1\<rparr>)
                    | None \<Rightarrow> if n \<noteq> 0 then Some (-1, q\<lparr>q_buf := b, q_size := n, q_locked := True\<rparr>)
                              else Some (0, q\<lparr>q_buf := [], q_size := n, q_out := q_out q + 1\<rparr>))))"


section \<open>Abstraction and invariant\<close>

definition queue_ok :: "'a obe_queue \<Rightarrow> bool" where
  "queue_ok q \<longleftrightarrow> 0 \<le> q_size q \<and> nat (q_size q) \<le> length (q_buf q)"

definition queue_list :: "'a obe_queue \<Rightarrow> 'a list" where
  "queue_list q = take (nat (q_size q)) (q_buf q)"

lemma length_queue_list [simp]: "queue_ok q \<Longrightarrow> length (queue_list q) = nat (q_size q)"
  by (simp add: queue_ok_def queue_list_def)

lemma queue_list_update [simp]:
  "queue_list (q\<lparr>q_locked := l\<rparr>) = queue_list q"
  "queue_list (q\<lparr>q_in := n\<rparr>) = queue_list q"
  "queue_list (q\<lparr>q_out := n\<rparr>) = queue_list q"
  "queue_ok (q\<lparr>q_locked := l\<rparr>) = queue_ok q"
  "queue_ok (q\<lparr>q_in := n\<rparr>) = queue_ok q"
  "queue_ok (q\<lparr>q_out := n\<rparr>) = queue_ok q"
  by (simp_all add: queue_list_def queue_ok_def)

lemma zeroed_queue_ok [simp]:
  "queue_ok zeroed_queue" "queue_list zeroed_queue = []" "\<not> q_locked zeroed_queue"
  by (simp_all add: zeroed_queue_def queue_ok_def queue_list_def)

lemma add_ok:
  assumes "queue_ok q" "\<not> q_locked q"
  obtains q' where "add_to_queue True x q = Some (0, q')" "queue_ok q'" "\<not> q_locked q'"
    "queue_list q' = queue_list q @ [x]" "q_in q' = q_in q + 1" "q_out q' = q_out q"
  using assms
  by (auto simp: add_to_queue_def realloc_cells_def queue_ok_def queue_list_def nat_add_distrib
                 min_def)

lemma add_fail:
  "\<not> q_locked q \<Longrightarrow> add_to_queue False x q = Some (-1, q\<lparr>q_locked := True\<rparr>)"
  by (simp add: add_to_queue_def realloc_cells_def)

lemma remove_core:
  assumes "queue_ok q" "queue_list q = x # xs"
    and "remove_from_queue_without_lock ok q = (r, q')"
  shows "queue_ok q'" "queue_list q' = xs" "q_locked q' = q_locked q"
    "q_in q' = q_in q" "q_out q' = q_out q" "r = (if ok \<or> xs = [] then 0 else -1)"
proof -
  have sz: "0 < q_size q" "nat (q_size q) \<le> length (q_buf q)"
    using assms(1,2) by (auto simp: queue_ok_def queue_list_def order.order_iff_strict)
  have xs: "xs = drop 1 (take (nat (q_size q)) (q_buf q))"
    using assms(2) by (simp add: queue_list_def)
  have "length xs = nat (q_size q) - 1"
    using sz xs by simp
  then have e: "xs = [] \<longleftrightarrow> q_size q = 1"
    using sz by (cases xs) auto
  have t: "take (nat (q_size q - 1)) (drop (Suc 0) (q_buf q)) = xs"
    using sz xs by (simp add: take_drop nat_diff_distrib' Suc_nat_eq_nat_zadd1)
  show "queue_ok q'" "queue_list q' = xs" "q_locked q' = q_locked q"
    "q_in q' = q_in q" "q_out q' = q_out q" "r = (if ok \<or> xs = [] then 0 else -1)"
    using assms(3) sz e t
    by (auto simp: remove_from_queue_without_lock_def Let_def realloc_cells_def queue_ok_def
                   queue_list_def splice_def split: if_splits)
qed

text \<open>The same facts for the locking operation, and its behaviour when \<open>realloc\<close> fails.\<close>

lemma remove_ok:
  assumes "queue_ok q" "queue_list q = x # xs" "\<not> q_locked q"
  obtains q' where "remove_from_queue True q = Some (0, q')" "queue_ok q'" "queue_list q' = xs"
    "\<not> q_locked q'" "q_in q' = q_in q" "q_out q' = q_out q + 1"
proof -
  obtain r q1 where r: "remove_from_queue_without_lock True q = (r, q1)"
    by fastforce
  note c = remove_core [OF assms(1,2) r]
  show thesis
    by (rule that [of "q1\<lparr>q_out := q_out q1 + 1\<rparr>"])
       (use c r assms(3) in \<open>simp_all add: remove_from_queue_def\<close>)
qed

lemma remove_any:
  assumes "queue_ok q" "queue_list q = x # xs" "remove_from_queue ok q = Some (r, q')"
  shows "queue_ok q' \<and> queue_list q' = xs \<and> (q_locked q' \<longleftrightarrow> r \<noteq> 0) \<and> (r = 0 \<longleftrightarrow> ok \<or> xs = [])"
proof -
  obtain r1 q1 where r: "remove_from_queue_without_lock ok q = (r1, q1)"
    by fastforce
  note c = remove_core [OF assms(1,2) r]
  show ?thesis
    using assms(3) c r by (auto simp: remove_from_queue_def split: if_splits)
qed

lemma add_any:
  assumes "queue_ok q" "add_to_queue ok x q = Some (r, q')"
  shows "queue_ok q' \<and> (q_locked q' \<longleftrightarrow> r \<noteq> 0) \<and> (r = 0 \<longleftrightarrow> ok)
         \<and> queue_list q' = (if ok then queue_list q @ [x] else queue_list q)"
proof (cases ok)
  case True
  have u: "\<not> q_locked q"
    using assms(2) by (auto simp: add_to_queue_def split: if_splits)
  show ?thesis
    using add_ok [OF assms(1) u, of x] assms(2) True by fastforce
next
  case False
  then show ?thesis
    using assms by (auto simp: add_to_queue_def realloc_cells_def split: if_splits)
qed


section \<open>The FIFO interface\<close>

text \<open>
  What the threads on both sides of a queue rely on: a producer appends at the end, a consumer
  looks at the first element, works on it without the lock, and only then removes the first
  element.  The laws are those of a list; a script of operations run on any provider hands the
  elements over in the order they were put in.
\<close>

datatype 'a qop = Put 'a | Take

locale fifo =
  fixes abs :: "'q \<Rightarrow> 'a list"
    and inv :: "'q \<Rightarrow> bool"
    and put :: "'a \<Rightarrow> 'q \<Rightarrow> 'q"
    and first :: "'q \<Rightarrow> 'a"
    and get :: "'q \<Rightarrow> 'q"
  assumes put_inv: "inv q \<Longrightarrow> inv (put x q)"
    and put_abs: "inv q \<Longrightarrow> abs (put x q) = abs q @ [x]"
    and first_abs: "inv q \<Longrightarrow> abs q \<noteq> [] \<Longrightarrow> first q = hd (abs q)"
    and get_inv: "inv q \<Longrightarrow> abs q \<noteq> [] \<Longrightarrow> inv (get q)"
    and get_abs: "inv q \<Longrightarrow> abs q \<noteq> [] \<Longrightarrow> abs (get q) = tl (abs q)"
begin

text \<open>A consumer that finds the queue empty waits: the operation has no effect.\<close>

fun run :: "('q \<Rightarrow> bool) \<Rightarrow> 'a qop list \<Rightarrow> 'q \<Rightarrow> 'a list \<times> 'q" where
  "run isempty [] q = ([], q)"
| "run isempty (Put x # ops) q = run isempty ops (put x q)"
| "run isempty (Take # ops) q =
     (if isempty q then run isempty ops q
      else (case run isempty ops (get q) of (out, q') \<Rightarrow> (first q # out, q')))"

fun puts :: "'a qop list \<Rightarrow> 'a list" where
  "puts [] = []"
| "puts (Put x # ops) = x # puts ops"
| "puts (Take # ops) = puts ops"

lemma run_fifo:
  assumes "inv q" "\<And>q. inv q \<Longrightarrow> isempty q \<longleftrightarrow> abs q = []"
  shows "\<exists>out q'. run isempty ops q = (out, q') \<and> inv q' \<and> out @ abs q' = abs q @ puts ops"
  using assms(1)
proof (induction ops arbitrary: q)
  case Nil
  then show ?case by simp
next
  case (Cons a ops)
  show ?case
  proof (cases a)
    case (Put x)
    then show ?thesis
      using Cons.IH [OF put_inv [OF Cons.prems], of x] Cons.prems by (simp add: put_abs)
  next
    case Take
    show ?thesis
    proof (cases "isempty q")
      case True
      then show ?thesis
        using Take Cons.IH [OF Cons.prems] by simp
    next
      case False
      then have ne: "abs q \<noteq> []"
        using assms(2) Cons.prems by simp
      obtain out q' where r: "run isempty ops (get q) = (out, q')" "inv q'"
        "out @ abs q' = tl (abs q) @ puts ops"
        using Cons.IH [OF get_inv [OF Cons.prems ne]] get_abs [OF Cons.prems ne] by auto
      then show ?thesis
        using Take False ne first_abs [OF Cons.prems ne] by (cases "abs q") simp_all
    qed
  qed
qed

end

definition queue_put :: "'a \<Rightarrow> 'a obe_queue \<Rightarrow> 'a obe_queue" where
  "queue_put x q = snd (the (add_to_queue True x q))"

definition queue_first :: "'a obe_queue \<Rightarrow> 'a" where
  "queue_first q = q_buf q ! 0"

definition queue_get :: "'a obe_queue \<Rightarrow> 'a obe_queue" where
  "queue_get q = snd (the (remove_from_queue True q))"

definition queue_inv :: "'a obe_queue \<Rightarrow> bool" where
  "queue_inv q \<longleftrightarrow> queue_ok q \<and> \<not> q_locked q"

lemma queue_first_hd: "queue_ok q \<Longrightarrow> queue_list q \<noteq> [] \<Longrightarrow> queue_first q = hd (queue_list q)"
  by (cases "q_buf q")
     (auto simp: queue_first_def queue_list_def hd_conv_nth)

lemma queue_head:
  assumes "queue_ok q" "queue_list q = x # xs"
  shows "at (q_buf q) 0 = Some x" "q_size q \<noteq> 0"
  using assms by (cases "q_buf q"; cases "nat (q_size q)"; auto simp: queue_list_def)+

lemma queue_put_laws:
  assumes "queue_inv q"
  shows "queue_inv (queue_put x q) \<and> queue_list (queue_put x q) = queue_list q @ [x]"
  using add_ok [of q x] assms by (fastforce simp: queue_inv_def queue_put_def)

lemma queue_get_laws:
  assumes "queue_inv q" "queue_list q \<noteq> []"
  shows "queue_inv (queue_get q) \<and> queue_list (queue_get q) = tl (queue_list q)"
proof -
  obtain x xs where "queue_list q = x # xs"
    using assms(2) by (cases "queue_list q") auto
  then show ?thesis
    using remove_ok [of q x xs] assms(1) by (fastforce simp: queue_inv_def queue_get_def)
qed

interpretation obe_q: fifo queue_list queue_inv queue_put queue_first queue_get
  by unfold_locales
     (simp_all add: queue_put_laws queue_get_laws queue_first_hd queue_inv_def [THEN iffD1])


section \<open>Removing a given item\<close>

lemma find_item_remove1:
  "find_item x k xs = (if x \<in> set xs then Some (k + length (takeWhile (\<lambda>y. y \<noteq> x) xs)) else None)"
  by (induction xs arbitrary: k) auto

lemma remove1_split:
  "x \<in> set xs \<Longrightarrow> remove1 x xs = take (length (takeWhile (\<lambda>y. y \<noteq> x) xs)) xs
                             @ drop (Suc (length (takeWhile (\<lambda>y. y \<noteq> x) xs))) xs"
  by (induction xs) auto

lemma takeWhile_lt: "x \<in> set xs \<Longrightarrow> length (takeWhile (\<lambda>y. y \<noteq> x) xs) < length xs"
  by (induction xs) auto

lemma splice_remove:
  assumes "n < length buf" "i \<le> n"
  shows "take n (splice i (take (n - i) (drop (Suc i) buf)) buf)
         = take i (take (Suc n) buf) @ drop (Suc i) (take (Suc n) buf)"
  using assms by (simp add: splice_def min_def take_drop)

lemma remove_item_list:
  assumes "queue_ok q" "remove_item_from_queue ok x q = Some (r, q')"
  shows "queue_ok q'" "queue_list q' = remove1 x (queue_list q)" "q_locked q' \<longleftrightarrow> r \<noteq> 0"
proof -
  define xs where "xs = queue_list q"
  define i where "i = length (takeWhile (\<lambda>y. y \<noteq> x) xs)"
  have u: "\<not> q_locked q"
    using assms(2) by (auto simp: remove_item_from_queue_def split: if_splits)
  have f: "find_item x 0 (take (nat (q_size q)) (q_buf q)) = (if x \<in> set xs then Some i else None)"
    by (simp add: find_item_remove1 xs_def i_def queue_list_def)
  show "queue_ok q'" "queue_list q' = remove1 x (queue_list q)" "q_locked q' \<longleftrightarrow> r \<noteq> 0"
  proof (atomize (full), cases "x \<in> set xs")
    case False
    then have "q' = q\<lparr>q_out := q_out q + 1\<rparr>" "r = 0"
      using assms(2) u f by (auto simp: remove_item_from_queue_def)
    then show "queue_ok q' \<and> queue_list q' = remove1 x (queue_list q) \<and> q_locked q' = (r \<noteq> 0)"
      using assms(1) u False by (simp add: xs_def remove1_idem)
  next
    case True
    define n where "n = nat (q_size q - 1)"
    have "i < length xs"
      using takeWhile_lt [OF True] by (simp add: i_def)
    then have n: "i \<le> n" "n < length (q_buf q)" "nat (q_size q) = Suc n" "0 < q_size q"
      using assms(1) by (auto simp: xs_def n_def queue_ok_def)
    define b where "b = splice i (take (n - i) (drop (Suc i) (q_buf q))) (q_buf q)"
    have tb: "take n b = remove1 x xs"
      using splice_remove [OF n(2,1)] remove1_split [OF True] n(3)
      by (simp add: b_def i_def xs_def queue_list_def)
    have lb: "n \<le> length b"
      using n by (simp add: b_def)
    have sz: "q_size q = int n + 1"
      using n by (simp add: n_def)
    note e = assms(2) [unfolded remove_item_from_queue_def sz f [unfolded sz]]
    have r: "realloc_cells ok (int n) b = (if n = 0 \<or> \<not> ok then None else Some (take n b))"
      by (simp add: realloc_cells_def)
    have "(r, q') = (if n = 0 then (0, q\<lparr>q_buf := [], q_size := 0, q_out := q_out q + 1\<rparr>)
                     else if ok then (0, q\<lparr>q_buf := take n b, q_size := int n, q_out := q_out q + 1\<rparr>)
                     else (-1, q\<lparr>q_buf := b, q_size := int n, q_locked := True\<rparr>))"
      using e u True r by (simp add: Let_def b_def [symmetric] split: if_splits)
    then show "queue_ok q' \<and> queue_list q' = remove1 x (queue_list q) \<and> q_locked q' = (r \<noteq> 0)"
      unfolding xs_def [symmetric] tb [symmetric]
      using lb u by (auto simp: queue_ok_def queue_list_def split: if_splits)
  qed
qed


section \<open>A queue between two threads\<close>

text \<open>
  The producer adds whenever it likes.  The consumer thread (for instance \<open>start_filter_video\<close>)
  takes the lock, waits for a nonzero size, reads \<open>queue[0]\<close>, releases the lock, works on the
  frame, and then calls \<open>remove_from_queue\<close>.  The history components record what was put in and
  what the consumer worked on; allocations may fail at any step.
\<close>

record 'a qsys =
  sys_q :: "'a obe_queue"
  sys_in :: "'a list"
  sys_held :: "'a option"
  sys_out :: "'a list"

inductive qstep :: "'a qsys \<Rightarrow> 'a qsys \<Rightarrow> bool" where
  produce: "add_to_queue ok x (sys_q s) = Some (r, q') \<Longrightarrow>
    qstep s (s\<lparr>sys_q := q', sys_in := (if r = 0 then sys_in s @ [x] else sys_in s)\<rparr>)"
| peek: "sys_held s = None \<Longrightarrow> \<not> q_locked (sys_q s) \<Longrightarrow> 0 < q_size (sys_q s) \<Longrightarrow>
    qstep s (s\<lparr>sys_held := Some (queue_first (sys_q s))\<rparr>)"
| finish: "sys_held s = Some x \<Longrightarrow> remove_from_queue ok (sys_q s) = Some (r, q') \<Longrightarrow>
    qstep s (s\<lparr>sys_q := q', sys_held := None, sys_out := sys_out s @ [x]\<rparr>)"

inductive qreach :: "'a qsys \<Rightarrow> bool" where
  start: "qreach \<lparr>sys_q = zeroed_queue, sys_in = [], sys_held = None, sys_out = []\<rparr>"
| step: "qreach s \<Longrightarrow> qstep s s' \<Longrightarrow> qreach s'"

definition qsys_inv :: "'a qsys \<Rightarrow> bool" where
  "qsys_inv s \<longleftrightarrow> queue_ok (sys_q s) \<and> sys_in s = sys_out s @ queue_list (sys_q s)
     \<and> (\<forall>x. sys_held s = Some x \<longrightarrow> (\<exists>xs. queue_list (sys_q s) = x # xs))"

lemma qsys_inv_step:
  assumes "qsys_inv s" "qstep s s'"
  shows "qsys_inv s'"
  using assms(2)
proof (cases rule: qstep.cases)
  case (produce ok x r q')
  then show ?thesis
    using assms(1) add_any [of "sys_q s" ok x r q'] by (auto simp: qsys_inv_def split: if_splits)
next
  case peek
  then have "queue_list (sys_q s) \<noteq> []"
    using assms(1) by (auto simp: qsys_inv_def queue_ok_def queue_list_def)
  then show ?thesis
    using peek assms(1) queue_first_hd [of "sys_q s"]
    by (cases "queue_list (sys_q s)") (auto simp: qsys_inv_def)
next
  case (finish x ok r q')
  then obtain xs where "queue_list (sys_q s) = x # xs"
    using assms(1) by (auto simp: qsys_inv_def)
  then show ?thesis
    using finish assms(1) remove_any [of "sys_q s" x xs ok r q'] by (auto simp: qsys_inv_def)
qed

lemma qreach_inv: "qreach s \<Longrightarrow> qsys_inv s"
proof (induction rule: qreach.induct)
  case start
  then show ?case by (simp add: qsys_inv_def)
next
  case (step s s')
  then show ?case by (blast intro: qsys_inv_step)
qed


section \<open>Properties\<close>

text \<open>C2 Whatever the interleaving of a producer thread and a consumer thread on one queue, and
  whichever allocations fail: the items the consumer has worked on, followed by the items still
  queued, are exactly the items added, in order; and the item the consumer is holding while the
  lock is free is still the head of the queue, so the item it removes is the one it processed.\<close>

theorem queue_threads_fifo:
  assumes "qreach s"
  shows "sys_in s = sys_out s @ queue_list (sys_q s)
         \<and> (case sys_held s of None \<Rightarrow> True | Some x \<Rightarrow> queue_list (sys_q s) \<noteq> []
                                                       \<and> hd (queue_list (sys_q s)) = x)"
  using qreach_inv [OF assms] by (auto simp: qsys_inv_def split: option.split)

definition qwit :: "nat qsys" where
  "qwit = \<lparr>sys_q = \<lparr>q_name = [], q_buf = [7, 8], q_size = 2, q_locked = False, q_in = 2, q_out = 0\<rparr>,
           sys_in = [7, 8], sys_held = Some 7, sys_out = []\<rparr>"

lemma qwit_reach: "qreach qwit"
proof -
  let ?q = "\<lambda>b n. \<lparr>q_name = [], q_buf = b, q_size = n, q_locked = False, q_in = nat n, q_out = 0\<rparr>"
  let ?s0 = "\<lparr>sys_q = zeroed_queue, sys_in = [], sys_held = None, sys_out = []\<rparr> :: nat qsys"
  let ?s1 = "\<lparr>sys_q = ?q [7] 1, sys_in = [7], sys_held = None, sys_out = []\<rparr> :: nat qsys"
  let ?s2 = "\<lparr>sys_q = ?q [7] 1, sys_in = [7], sys_held = Some 7, sys_out = []\<rparr> :: nat qsys"
  have "qstep ?s0 ?s1"
    using qstep.produce [of True 7 ?s0 0 "?q [7] 1"]
    by (simp add: add_to_queue_def zeroed_queue_def realloc_cells_def)
  moreover have "qstep ?s1 ?s2"
    using qstep.peek [of ?s1] by (simp add: queue_first_def)
  moreover have "qstep ?s2 qwit"
    using qstep.produce [of True 8 ?s2 0 "?q [7, 8] 2"]
    by (simp add: add_to_queue_def realloc_cells_def qwit_def)
  ultimately show ?thesis
    by (blast intro: qreach.intros)
qed

theorem queue_threads_fifo_witness:
  "sys_in qwit = sys_out qwit @ queue_list (sys_q qwit) \<and> sys_held qwit = Some 7"
  using queue_threads_fifo [OF qwit_reach] by (simp add: qwit_def)

text \<open>C6 When \<open>realloc\<close> fails in \<open>add_to_queue\<close> the function reports the error and returns with the
  mutex still held: every later add or remove on that queue, by any thread, never returns.\<close>

theorem add_failure_wedges_queue:
  assumes "\<not> q_locked q"
  shows "\<exists>q'. add_to_queue False x q = Some (-1, q') \<and> queue_list q' = queue_list q
          \<and> add_to_queue ok y q' = None \<and> remove_from_queue ok q' = None
          \<and> remove_item_from_queue ok y q' = None"
  using add_fail [OF assms, of x]
  by (simp add: add_to_queue_def remove_from_queue_def remove_item_from_queue_def)

theorem add_failure_wedges_queue_witness:
  "\<exists>q'. add_to_queue False (3::nat) zeroed_queue = Some (-1, q')
      \<and> queue_list q' = queue_list (zeroed_queue :: nat obe_queue)
      \<and> add_to_queue True 4 q' = None \<and> remove_from_queue True q' = None
      \<and> remove_item_from_queue True 4 q' = None"
  by (rule add_failure_wedges_queue) simp

text \<open>On a queue whose mutex is free, and with allocations that succeed,
  \<open>remove_item_from_queue\<close> returns 0, removes the first occurrence of the item and nothing else,
  keeps the order of the others, wakes the producers and leaves the mutex free.\<close>

theorem remove_item_from_queue_removes_first:
  assumes "queue_ok q" "\<not> q_locked q"
  shows "\<exists>q'. remove_item_from_queue True x q = Some (0, q')
          \<and> queue_ok q' \<and> queue_list q' = remove1 x (queue_list q)
          \<and> \<not> q_locked q' \<and> q_out q' = q_out q + 1"
proof -
  obtain q' where e: "remove_item_from_queue True x q = Some (0, q')" and o: "q_out q' = q_out q + 1"
  proof (cases "find_item x 0 (take (nat (q_size q)) (q_buf q))")
    case (Some i)
    then have "0 < q_size q"
      by (cases "q_size q \<le> 0") simp_all
    then show thesis
      using that Some assms(2)
      by (cases "q_size q = 1") (simp_all add: remove_item_from_queue_def realloc_cells_def Let_def)
  qed (use that assms(2) in \<open>simp add: remove_item_from_queue_def\<close>)
  show ?thesis
    using remove_item_list [OF assms(1) e] e o by simp
qed

theorem remove_item_from_queue_removes_first_witness:
  "queue_list (snd (the (remove_item_from_queue True (8::nat) (sys_q qwit)))) = [7]"
  using remove_item_from_queue_removes_first [of "sys_q qwit" 8]
  by (auto simp: qwit_def queue_ok_def queue_list_def)

end
