(* ===== verification/Obe_Bitstream.thy ===== *)
theory Obe_Bitstream
  imports Obe_Prelude
begin

text \<open>
  \<open>common/bitstream.h\<close> (the bit writer) and \<open>common/bs_read.h\<close> (the bit reader), on a 64-bit
  little-endian machine (\<open>WORD_SIZE\<close> is 8, \<open>WORDS_BIGENDIAN\<close> is unset).

  The writer's memory is the byte list that starts at \<open>p_start\<close>; \<open>p\<close> and \<open>p_end\<close> are offsets
  into it.  \<open>cur_bits\<close> holds the bits not yet stored in its low end and \<open>i_left\<close> the number of
  free bits above them.  A store outside the memory, or a shift the C standard leaves undefined,
  makes the operation \<^const>\<open>None\<close>.  The abstraction \<open>bs_bits\<close> is the string of bits written so
  far; each writer operation appends to it.
\<close>

section \<open>Stores and byte order\<close>

(* src: common/bitstream.h 31-53 M32 *)
definition le32 :: "u32 \<Rightarrow> bytes" where
  "le32 v = [ucast v, ucast (drop_bit 8 v), ucast (drop_bit 16 v), ucast (drop_bit 24 v)]"

definition un_le32 :: "bytes \<Rightarrow> u32" where
  "un_le32 bs = ucast (bs ! 0) OR push_bit 8 (ucast (bs ! 1)) OR push_bit 16 (ucast (bs ! 2))
                OR push_bit 24 (ucast (bs ! 3))"

(* src: common/bitstream.h 56-59 endian_fix32 *)
definition endian_fix32 :: "u32 \<Rightarrow> u32" where
  "endian_fix32 x = push_bit 24 x + (push_bit 8 x AND 0xff0000) + (drop_bit 8 x AND 0xff00)
                    + drop_bit 24 x"

(* src: common/bitstream.h 60-67 endian_fix64 *)
definition endian_fix64 :: "u64 \<Rightarrow> u64" where
  "endian_fix64 x = ucast (endian_fix32 (ucast (drop_bit 32 x)))
                    + push_bit 32 (ucast (endian_fix32 (ucast x)))"

(* src: common/bitstream.h 68-71 endian_fix16 *)
definition endian_fix16 :: "u16 \<Rightarrow> u16" where
  "endian_fix16 x = push_bit 8 x OR drop_bit 8 x"


section \<open>The writer\<close>

(* src: common/bitstream.h 74-82 bs_t *)
record bs =
  bs_mem :: bytes
  bs_p :: nat
  bs_end :: nat
  bs_cur :: u64
  bs_left :: nat

definition load32 :: "bytes \<Rightarrow> nat \<Rightarrow> u32 option" where
  "load32 mem p = map_option un_le32 (mem_get p 4 mem)"

text \<open>\<open>mem\<close> starts at the aligned address \<open>p_data - offset\<close>.\<close>

(* src: common/bitstream.h 84-92 bs_init *)
definition bs_init :: "bytes \<Rightarrow> nat \<Rightarrow> nat \<Rightarrow> bs option" where
  "bs_init mem offset i_data =
     do { w \<leftarrow> load32 mem 0;
          Some \<lparr>bs_mem = mem, bs_p = 0, bs_end = offset + i_data,
                bs_cur = drop_bit ((4 - offset) * 8) (ucast (endian_fix32 w)),
                bs_left = (8 - offset) * 8\<rparr> }"

(* src: common/bitstream.h 93-96 bs_pos *)
definition bs_pos :: "bs \<Rightarrow> int" where
  "bs_pos s = 8 * int (bs_p s) + 8 * 8 - int (bs_left s)"

definition store32 :: "nat \<Rightarrow> u32 \<Rightarrow> bs \<Rightarrow> bs option" where
  "store32 p v s = map_option (\<lambda>m. s\<lparr>bs_mem := m\<rparr>) (mem_put p (le32 v) (bs_mem s))"

(* src: common/bitstream.h 98-104 bs_flush *)
definition bs_flush :: "bs \<Rightarrow> bs option" where
  "bs_flush s =
     do { s \<leftarrow> store32 (bs_p s)
               (endian_fix32 (ucast (push_bit (bs_left s mod 32) (bs_cur s)))) s;
          Some (s\<lparr>bs_p := bs_p s + 8 - bs_left s div 8, bs_left := 64\<rparr>) }"

(* src: common/bitstream.h 105-116 bs_realign *)
definition bs_realign :: "bs \<Rightarrow> bs option" where
  "bs_realign s =
     (let offset = bs_p s mod 4
      in if offset = 0 then Some s
         else do { w \<leftarrow> load32 (bs_mem s) (bs_p s - offset);
                   Some (s\<lparr>bs_p := bs_p s - offset, bs_left := (8 - offset) * 8,
                           bs_cur := drop_bit ((4 - offset) * 8) (ucast (endian_fix32 w))\<rparr>) })"

(* src: common/bitstream.h 118-152 bs_write *)
definition bs_write :: "bs \<Rightarrow> nat \<Rightarrow> u32 \<Rightarrow> bs option" where
  "bs_write s i_count i_bits =
     (if bs_left s < i_count \<or> 64 \<le> i_count then None
      else let cur = push_bit i_count (bs_cur s) OR ucast i_bits;
               left = bs_left s - i_count;
               s1 = s\<lparr>bs_cur := cur, bs_left := left\<rparr>
           in if left \<le> 32
              then do { s2 \<leftarrow> store32 (bs_p s1) (ucast (endian_fix64 (push_bit left cur))) s1;
                        Some (s2\<lparr>bs_left := left + 32, bs_p := bs_p s2 + 4\<rparr>) }
              else Some s1)"

text \<open>The argument of the second call is the whole word, not its low half.\<close>

(* src: common/bitstream.h 154-160 bs_write32 *)
definition bs_write32 :: "bs \<Rightarrow> u32 \<Rightarrow> bs option" where
  "bs_write32 s i_bits = do { s \<leftarrow> bs_write s 16 (drop_bit 16 i_bits); bs_write s 16 i_bits }"

(* src: common/bitstream.h 162-173 bs_write1 *)
definition bs_write1 :: "bs \<Rightarrow> u32 \<Rightarrow> bs option" where
  "bs_write1 s i_bit =
     (let cur = push_bit 1 (bs_cur s) OR ucast i_bit;
          left = bs_left s - 1;
          s1 = s\<lparr>bs_cur := cur, bs_left := left\<rparr>
      in if left = 8 * 8 - 32
         then do { s2 \<leftarrow> store32 (bs_p s1) (endian_fix32 (ucast cur)) s1;
                   Some (s2\<lparr>bs_p := bs_p s2 + 4, bs_left := 8 * 8\<rparr>) }
         else Some s1)"

(* src: common/bitstream.h 175-179 bs_align_0 *)
definition bs_align_0 :: "bs \<Rightarrow> bs option" where
  "bs_align_0 s = do { s \<leftarrow> bs_write s (bs_left s mod 8) 0; bs_flush s }"

(* src: common/bitstream.h 180-184 bs_align_1 *)
definition bs_align_1 :: "bs \<Rightarrow> bs option" where
  "bs_align_1 s = do { s \<leftarrow> bs_write s (bs_left s mod 8) (push_bit (bs_left s mod 8) 1 - 1);
                       bs_flush s }"

(* src: common/bitstream.h 185-189 bs_align_10 *)
definition bs_align_10 :: "bs \<Rightarrow> bs option" where
  "bs_align_10 s =
     (if bs_left s mod 8 \<noteq> 0 then bs_write s (bs_left s mod 8) (push_bit (bs_left s mod 8 - 1) 1)
      else Some s)"

(* src: common/bitstream.h 193-211 x264_ue_size_tab *)
definition x264_ue_size_tab :: "nat list" where
  "x264_ue_size_tab =
     [1, 1, 3, 3, 5, 5, 5, 5] @ replicate 8 7 @ replicate 16 9 @ replicate 32 11
     @ replicate 64 13 @ replicate 128 15"

text \<open>The size accumulated before the table look-up, and the number looked up.\<close>

definition ue_split :: "int \<Rightarrow> nat \<times> int" where
  "ue_split tmp =
     (let (size, tmp) = (if 0x10000 \<le> tmp then (32, tmp div 65536) else (0, tmp))
      in if 0x100 \<le> tmp then (size + 16, tmp div 256) else (size, tmp))"

(* src: common/bitstream.h 213-230 bs_write_ue_big *)
definition bs_write_ue_big :: "bs \<Rightarrow> u32 \<Rightarrow> bs option" where
  "bs_write_ue_big s val0 =
     (let val = val0 + 1; (size, tmp) = ue_split (sint val)
      in do { t \<leftarrow> (if tmp < 0 then None else at x264_ue_size_tab (nat tmp));
              s \<leftarrow> bs_write s ((size + t) div 2) 0;
              bs_write s ((size + t) div 2 + 1) val })"

(* src: common/bitstream.h 232-236 bs_write_ue *)
definition bs_write_ue :: "bs \<Rightarrow> int \<Rightarrow> bs option" where
  "bs_write_ue s val =
     do { n \<leftarrow> (if val + 1 < 0 then None else at x264_ue_size_tab (nat (val + 1)));
          bs_write s n (word_of_int (val + 1)) }"

(* src: common/bitstream.h 238-254 bs_write_se *)
definition bs_write_se :: "bs \<Rightarrow> int \<Rightarrow> bs option" where
  "bs_write_se s val =
     (let tmp = 1 - val * 2;
          tmp = (if tmp < 0 then val * 2 else tmp);
          (size, t) = (if 0x100 \<le> tmp then (16, tmp div 256) else (0, tmp))
      in do { n \<leftarrow> at x264_ue_size_tab (nat t); bs_write s (size + n) (word_of_int tmp) })"

(* src: common/bitstream.h 256-262 bs_write_te *)
definition bs_write_te :: "bs \<Rightarrow> int \<Rightarrow> int \<Rightarrow> bs option" where
  "bs_write_te s x val =
     (if x = 1 then bs_write1 s (1 XOR word_of_int val) else bs_write_ue s val)"

(* src: common/bitstream.h 264-268 bs_rbsp_trailing *)
definition bs_rbsp_trailing :: "bs \<Rightarrow> bs option" where
  "bs_rbsp_trailing s = do { s \<leftarrow> bs_write1 s 1; bs_write s (bs_left s mod 8) 0 }"


section \<open>Byte order facts\<close>

lemma endian_masks: "(0xff0000 :: u32) = push_bit 16 (mask 8)" "(0xff00 :: u32) = push_bit 8 (mask 8)"
  by (simp_all add: push_bit_eq_mult mask_eq_exp_minus_1)
lemma endian_fix32_or: "endian_fix32 x = push_bit 24 x OR (push_bit 8 x AND 0xff0000) OR (drop_bit 8 x AND 0xff00) OR drop_bit 24 x"
proof -
  have "push_bit 24 x AND (push_bit 8 x AND 0xff0000) = 0"
    "(push_bit 24 x OR (push_bit 8 x AND 0xff0000)) AND (drop_bit 8 x AND 0xff00) = 0"
    "(push_bit 24 x OR (push_bit 8 x AND 0xff0000) OR (drop_bit 8 x AND 0xff00)) AND drop_bit 24 x = 0"
    by (rule bit_word_eqI; auto simp: endian_masks bit_simps dest!: bit_imp_le_length)+
  then show ?thesis
    unfolding endian_fix32_def by (simp add: disjunctive_add_eq_or or.assoc)
qed
lemma bit_endian_fix32:
   "bit (endian_fix32 x) n = (if n < 8 then bit x (24 + n) else if n < 16 then bit x (n + 8)
     else if n < 24 then bit x (n - 8) else bit x (n - 24) \<and> n < 32)"
  unfolding endian_fix32_or endian_masks
  by (auto simp: bit_simps not_less add.commute dest: bit_imp_le_length)

lemma le32_fix: "le32 (endian_fix32 x) = [ucast (drop_bit 24 x), ucast (drop_bit 16 x), ucast (drop_bit 8 x), ucast x]"
  unfolding le32_def by (auto intro!: bit_word_eqI simp: bit_simps bit_endian_fix32 add.commute)

lemma bytes_bits_be32:
  fixes x :: u32
  shows "bytes_bits [ucast (drop_bit 24 x), ucast (drop_bit 16 x), ucast (drop_bit 8 x), ucast x] = bits_be 32 x"
proof -
  have u: "byte_bits (ucast (drop_bit k x)) = bits_be 8 (drop_bit k x)" for k
    unfolding byte_bits_def by (rule bits_be_cong) (simp add: bit_simps)
  have "bits_be 32 x = bits_be (8 + (8 + (8 + 8))) x" by simp
  also have "\<dots> = bits_be 8 (drop_bit 24 x) @ bits_be 8 (drop_bit 16 x) @ bits_be 8 (drop_bit 8 x) @ bits_be 8 x"
    by (simp only: bits_be_append) (simp add: bit_simps)
  finally show ?thesis
    using u [of 24] u [of 16] u [of 8] u [of 0] by simp
qed

lemma le32_fix_bits: "bytes_bits (le32 (endian_fix32 x)) = bits_be 32 x"
  by (simp only: le32_fix bytes_bits_be32)

lemma ucast_endian_fix64: "ucast (endian_fix64 x) = endian_fix32 (ucast (drop_bit 32 x))"
proof -
  have "ucast (endian_fix32 (ucast (drop_bit 32 x))) AND push_bit 32 (ucast (endian_fix32 (ucast x))) = (0::u64)"
    by (rule bit_word_eqI) (auto simp: bit_simps dest: bit_imp_le_length)
  then show ?thesis
    unfolding endian_fix64_def
    by (simp add: disjunctive_add_eq_or) (rule bit_word_eqI; auto simp: bit_simps)
qed

section \<open>What the writer has written\<close>

definition bs_ok :: "bs \<Rightarrow> bool" where
  "bs_ok s \<longleftrightarrow> 32 < bs_left s \<and> bs_left s \<le> 64 \<and> bs_p s \<le> length (bs_mem s)"

definition bs_bits :: "bs \<Rightarrow> bool list" where
  "bs_bits s = bytes_bits (take (bs_p s) (bs_mem s)) @ bits_be (64 - bs_left s) (bs_cur s)"

definition bs_room :: "bs \<Rightarrow> nat \<Rightarrow> bool" where
  "bs_room s n \<longleftrightarrow> length (bs_bits s) + n \<le> 8 * length (bs_mem s)"

lemma length_le32 [simp]: "length (le32 v) = 4"
  by (simp add: le32_def)

lemma bits_be_shift_in:
  assumes "m + n \<le> 64" "uint v < 2 ^ n"
  shows "bits_be (m + n) (push_bit n (c :: u64) OR ucast (v :: u32)) = bits_be m c @ bits_be n v"
  unfolding bits_be_append
proof (rule arg_cong2 [where f = "(@)"])
  show "bits_be m (drop_bit n (push_bit n c OR ucast v)) = bits_be m c"
    using assms uint_lt_bit [OF assms(2)]
    by (intro bits_be_cong) (auto simp: bit_simps)
  show "bits_be n (push_bit n c OR ucast v) = bits_be n v"
    using assms by (intro bits_be_cong) (auto simp: bit_simps)
qed

lemma bs_store_bits:
  assumes "l \<le> 32"
  shows "bits_be 32 (ucast (drop_bit 32 (push_bit l c)) :: u32) @ bits_be (32 - l) c
         = bits_be (64 - l) (c :: u64)"
proof -
  have "bits_be (64 - l) c = bits_be (32 + (32 - l)) c"
    using assms by simp
  also have "\<dots> = bits_be 32 (drop_bit (32 - l) c) @ bits_be (32 - l) c"
    by (rule bits_be_append)
  also have "bits_be 32 (drop_bit (32 - l) c) = bits_be 32 (ucast (drop_bit 32 (push_bit l c)) :: u32)"
    using assms by (intro bits_be_cong) (auto simp: bit_simps)
  finally show ?thesis
    by simp
qed

lemma bs_write_spec:
  assumes "bs_ok s" "n \<le> 32" "uint v < 2 ^ n" "bs_room s n"
  obtains s' where "bs_write s n v = Some s'" "bs_ok s'" "bs_bits s' = bs_bits s @ bits_be n v"
    "length (bs_mem s') = length (bs_mem s)" "bs_end s' = bs_end s"
proof -
  define c where "c = push_bit n (bs_cur s) OR ucast v"
  define l where "l = bs_left s - n"
  have l: "n < bs_left s" "bs_left s \<le> 64" "0 < l" "l \<le> 64" "64 - l = 64 - bs_left s + n"
    using assms(1,2) by (auto simp: bs_ok_def l_def)
  have pend: "bits_be (64 - l) c = bits_be (64 - bs_left s) (bs_cur s) @ bits_be n v"
    unfolding l(5) c_def using assms(3) l by (intro bits_be_shift_in) auto
  show thesis
  proof (cases "l \<le> 32")
    case False
    define s1 where "s1 = s\<lparr>bs_cur := c, bs_left := l\<rparr>"
    have "bs_write s n v = Some s1"
      using False l assms(2) by (simp add: bs_write_def Let_def c_def l_def s1_def)
    then show thesis
      using that [of s1] False l assms(1) pend
      by (simp add: bs_ok_def bs_bits_def s1_def l_def)
  next
    case True
    have room: "bs_p s + 4 \<le> length (bs_mem s)"
      using assms(4) True l by (simp add: bs_room_def bs_bits_def min_def split: if_splits)
    define bytes where "bytes = le32 (ucast (endian_fix64 (push_bit l c)))"
    have b: "length bytes = 4" "bytes_bits bytes = bits_be 32 (ucast (drop_bit 32 (push_bit l c)) :: u32)"
      by (simp_all add: bytes_def ucast_endian_fix64 le32_fix_bits)
    define s1 where "s1 = s\<lparr>bs_cur := c, bs_mem := splice (bs_p s) bytes (bs_mem s),
                             bs_left := l + 32, bs_p := bs_p s + 4\<rparr>"
    have e: "bs_write s n v = Some s1"
      using True l assms(2) room b(1)
      by (simp add: bs_write_def Let_def c_def [symmetric] l_def [symmetric] s1_def store32_def
                    bytes_def [symmetric])
    have t: "take (bs_p s + 4) (splice (bs_p s) bytes (bs_mem s)) = take (bs_p s) (bs_mem s) @ bytes"
      using take_splice_end [of "bs_p s" "bs_mem s" bytes] room b(1) by simp
    have "bs_bits s1 = bytes_bits (take (bs_p s) (bs_mem s))
                       @ (bytes_bits bytes @ bits_be (32 - l) c)"
      using t by (simp add: bs_bits_def s1_def)
    also have "bytes_bits bytes @ bits_be (32 - l) c = bits_be (64 - l) c"
      using bs_store_bits [OF True, of c] b(2) by simp
    finally have "bs_bits s1 = bs_bits s @ bits_be n v"
      by (simp add: pend bs_bits_def)
    then show thesis
      using that [of s1] e True l room b(1)
      by (simp add: bs_ok_def s1_def)
  qed
qed

lemma bytes_bits_take: "bytes_bits (take k bs) = take (8 * k) (bytes_bits bs)"
  by (induction bs arbitrary: k) (auto simp: take_Cons split: nat.split)

lemma bytes_bits_drop: "bytes_bits (drop k bs) = drop (8 * k) (bytes_bits bs)"
  by (induction bs arbitrary: k) (auto simp: drop_Cons split: nat.split)

lemma take_bits_be: "k \<le> n \<Longrightarrow> take k (bits_be n x) = bits_be k (drop_bit (n - k) x)"
  using bits_be_append [of k "n - k" x] by simp

lemma drop_bits_be: "k \<le> n \<Longrightarrow> drop k (bits_be n x) = bits_be (n - k) x"
  using bits_be_append [of k "n - k" x] by simp

lemma bs_left_mod: "bs_ok s \<Longrightarrow> (bs_left s + length (bs_bits s)) mod 8 = 0"
proof -
  assume "bs_ok s"
  then have "bs_left s + length (bs_bits s) = 8 * (bs_p s + 8)"
    by (simp add: bs_ok_def bs_bits_def min_def)
  then show ?thesis by simp
qed

lemma bs_flush_spec:
  assumes "bs_ok s" "length (bs_bits s) mod 8 = 0" "bs_p s + 4 \<le> length (bs_mem s)"
  obtains s' where "bs_flush s = Some s'" "bytes_bits (take (bs_p s') (bs_mem s')) = bs_bits s"
    "length (bs_mem s') = length (bs_mem s)" "bs_left s' = 64" "bs_bits s' = bs_bits s"
    "bs_p s' = length (bs_bits s) div 8" "bs_ok s'"
proof -
  define l where "l = bs_left s"
  have lm: "l mod 8 = 0" and lr: "32 < l" "l \<le> 64"
    using bs_left_mod [OF assms(1)] assms(1,2) by (auto simp: l_def bs_ok_def mod_add_eq [symmetric])
  define k where "k = 8 - l div 8"
  have k: "k \<le> 3" "64 - l = 8 * k" "l = 64 - 8 * k"
    using lm lr by (auto simp: k_def)
  define bytes where "bytes = le32 (endian_fix32 (ucast (push_bit (l mod 32) (bs_cur s))))"
  have lb: "length bytes = 4" by (simp add: bytes_def)
  have "bytes_bits (take k bytes)
        = bits_be (8 * k) (drop_bit (32 - 8 * k) (ucast (push_bit (l mod 32) (bs_cur s)) :: u32))"
    unfolding bytes_bits_take bytes_def le32_fix_bits using k(1) by (intro take_bits_be) simp
  also have "\<dots> = bits_be (8 * k) (bs_cur s)"
  proof (cases "k = 0")
    case False
    then have "k = 1 \<or> k = 2 \<or> k = 3"
      using k(1) by arith
    then have "l mod 32 = 32 - 8 * k"
      using k(3) by auto
    then show ?thesis
      using k(1) by (intro bits_be_cong) (auto simp: bit_simps)
  qed simp
  finally have b: "bytes_bits (take k bytes) = bits_be (8 * k) (bs_cur s)" .
  define s1 where "s1 = s\<lparr>bs_mem := splice (bs_p s) bytes (bs_mem s),
                          bs_p := bs_p s + k, bs_left := 64\<rparr>"
  have ld: "bs_p s + 8 - l div 8 = bs_p s + k"
    using lr by (simp add: k_def)
  have e: "bs_flush s = Some s1"
    using assms(3) lb ld by (simp add: bs_flush_def store32_def bytes_def [symmetric] l_def [symmetric]
                             s1_def)
  have t: "take (bs_p s + k) (splice (bs_p s) bytes (bs_mem s)) = take (bs_p s) (bs_mem s) @ take k bytes"
    using assms(3) lb k by (simp add: splice_def min_def)
  have p: "bs_p s + k = length (bs_bits s) div 8"
    using assms(3) k by (simp add: bs_bits_def l_def [symmetric] min_def)
  have v: "bytes_bits (take (bs_p s1) (bs_mem s1)) = bs_bits s"
    using t b k by (simp add: s1_def bs_bits_def l_def [symmetric])
  show thesis
    using that [of s1] e p k lb assms(3) v by (simp add: s1_def bs_bits_def bs_ok_def)
qed

lemma bs_write1_eq:
  assumes "bs_ok s"
  shows "bs_write1 s v = bs_write s 1 v"
proof -
  have "ucast (endian_fix64 (push_bit 32 c)) = endian_fix32 (ucast c)" for c :: u64
    unfolding ucast_endian_fix64 by (rule arg_cong [where f = endian_fix32])
      (rule bit_word_eqI, auto simp: bit_simps)
  note st = this [of "push_bit 1 (bs_cur s) OR ucast v"]
  define c where "c = push_bit 1 (bs_cur s) OR ucast v"
  have l: "bs_left s = 33 \<or> 33 < bs_left s"
    using assms by (auto simp: bs_ok_def)
  show ?thesis
    using l st unfolding bs_write1_def bs_write_def Let_def c_def [symmetric]
    by (auto split: Option.bind_split)
qed

lemma bs_write_cur: "bs_write s n v = Some s' \<Longrightarrow> bs_cur s' = push_bit n (bs_cur s) OR ucast v"
  by (auto simp: bs_write_def Let_def store32_def split: if_splits Option.bind_splits)

lemma bs_write_low:
  assumes "push_bit n (bs_cur s) OR ucast v = push_bit n (bs_cur s) OR ucast w"
  shows "bs_write s n v = bs_write s n w"
  by (simp add: bs_write_def Let_def assms)

lemma uint_drop16: "uint (drop_bit 16 (v :: u32)) < 2 ^ 16"
  by (rule uint_lt_bitI) (auto simp: bit_simps dest: bit_imp_le_length)

lemma bs_room_write:
  "bs_room s (m + n) \<Longrightarrow> bs_bits s' = bs_bits s @ bs \<Longrightarrow> length bs = m \<Longrightarrow>
   length (bs_mem s') = length (bs_mem s) \<Longrightarrow> bs_room s' n"
  by (simp add: bs_room_def)

lemma bs_room_le: "bs_room s n \<Longrightarrow> m \<le> n \<Longrightarrow> bs_room s m"
  by (simp add: bs_room_def)

lemma bs_write32_spec:
  assumes "bs_ok s" "bs_room s 32"
  obtains s' where "bs_write32 s v = Some s'" "bs_ok s'" "bs_bits s' = bs_bits s @ bits_be 32 v"
    "length (bs_mem s') = length (bs_mem s)" "bs_end s' = bs_end s"
proof -
  obtain s1 where s1: "bs_write s 16 (drop_bit 16 v) = Some s1" "bs_ok s1"
    "bs_bits s1 = bs_bits s @ bits_be 16 (drop_bit 16 v)"
    "length (bs_mem s1) = length (bs_mem s)" "bs_end s1 = bs_end s"
    by (rule bs_write_spec [OF assms(1), of 16 "drop_bit 16 v"])
       (use uint_drop16 [of v] bs_room_le [OF assms(2), of 16] in auto)
  have "push_bit 16 (bs_cur s1) OR ucast v = push_bit 16 (bs_cur s1) OR ucast (take_bit 16 v)"
    unfolding bs_write_cur [OF s1(1)] by (rule bit_word_eqI) (auto simp: bit_simps)
  note low = bs_write_low [OF this]
  have r: "bs_room s1 16"
    using bs_room_write [of s 16 16 s1, OF _ s1(3) _ s1(4)] assms(2) by simp
  have u: "uint (take_bit 16 v) < 2 ^ 16"
    by (rule uint_lt_bitI) (simp add: bit_simps)
  obtain s2 where s2: "bs_write s1 16 v = Some s2" "bs_ok s2"
    "bs_bits s2 = bs_bits s1 @ bits_be 16 (take_bit 16 v)"
    "length (bs_mem s2) = length (bs_mem s1)" "bs_end s2 = bs_end s1"
    using bs_write_spec [OF s1(2), of 16 "take_bit 16 v", OF _ u r] low by auto
  have "bits_be 32 v = bits_be 16 (drop_bit 16 v) @ bits_be 16 v"
    using bits_be_append [of 16 16 v] by simp
  moreover have "bits_be 16 (take_bit 16 v) = bits_be 16 v"
    by (rule bits_be_cong) (simp add: bit_simps)
  ultimately show thesis
    using that [of s2] s1 s2 by (simp add: bs_write32_def)
qed

section \<open>Alignment and exponential Golomb codes\<close>

lemma bs_align_0_spec:
  assumes "bs_ok s" "bs_room s 40"
  obtains s' k where "bs_align_0 s = Some s'" "k < 8" "(length (bs_bits s) + k) mod 8 = 0"
    "bs_bits s' = bs_bits s @ replicate k False" "bytes_bits (take (bs_p s') (bs_mem s')) = bs_bits s'"
    "bs_p s' = length (bs_bits s') div 8" "length (bs_mem s') = length (bs_mem s)" "bs_ok s'"
proof -
  define k where "k = bs_left s mod 8"
  have k: "k < 8" "(length (bs_bits s) + k) mod 8 = 0"
    using bs_left_mod [OF assms(1)] by (simp_all add: k_def mod_add_right_eq add.commute)
  have r: "bs_room s k"
    using bs_room_le [OF assms(2), of k] k by simp
  obtain s1 where s1: "bs_write s k 0 = Some s1" "bs_ok s1"
    "bs_bits s1 = bs_bits s @ replicate k False" "length (bs_mem s1) = length (bs_mem s)"
    using bs_write_spec [OF assms(1), of k 0] k(1) r by (auto simp: less_imp_le)
  have p: "bs_p s1 + 4 \<le> length (bs_mem s1)"
  proof -
    have "8 * bs_p s1 \<le> length (bs_bits s1)"
      using s1(2) by (auto simp: bs_bits_def bs_ok_def min_def)
    then show ?thesis
      using assms(2) s1(3,4) k(1) by (simp add: bs_room_def)
  qed
  have m: "length (bs_bits s1) mod 8 = 0"
    using k(2) s1(3) by simp
  obtain s2 where s2: "bs_flush s1 = Some s2" "bytes_bits (take (bs_p s2) (bs_mem s2)) = bs_bits s1"
    "length (bs_mem s2) = length (bs_mem s1)" "bs_bits s2 = bs_bits s1"
    "bs_p s2 = length (bs_bits s1) div 8" "bs_ok s2"
    by (rule bs_flush_spec [OF s1(2) m p])
  show thesis
    using that [of s2 k] s1 s2 k by (simp add: bs_align_0_def k_def [symmetric])
qed

fun num_bits :: "nat \<Rightarrow> nat" where
  "num_bits n = (if n = 0 then 0 else Suc (num_bits (n div 2)))"

declare num_bits.simps [simp del]

text \<open>The code of an unsigned value: as many zeros as the value plus one has binary digits after
  the first, then those digits.\<close>

definition ue_bits :: "nat \<Rightarrow> bool list" where
  "ue_bits v = replicate (num_bits (v + 1) - 1) False @ bits_be (num_bits (v + 1)) (v + 1)"

lemma num_bits_gt: "n < 2 ^ num_bits n"
proof (induction n rule: num_bits.induct)
  case (1 n)
  then show ?case
    by (cases "n = 0") (auto simp: num_bits.simps [of n])
qed

lemma num_bits_le: "n < 2 ^ k \<Longrightarrow> num_bits n \<le> k"
proof (induction n arbitrary: k rule: num_bits.induct)
  case (1 n)
  show ?case
  proof (cases "n = 0")
    case False
    then obtain j where "k = Suc j"
      using 1(2) by (cases k) auto
    then show ?thesis
      using 1 False by (simp add: num_bits.simps [of n])
  qed (simp add: num_bits.simps)
qed

lemma num_bits_eqI: "2 ^ k \<le> n \<Longrightarrow> n < 2 ^ Suc k \<Longrightarrow> num_bits n = Suc k"
  using num_bits_le [of n "Suc k"] num_bits_gt [of n]
  by (metis le_SucE less_le_trans not_less power_increasing_iff one_less_numeral_iff
            semiring_norm(76))

lemma length_ue_tab [simp]: "length x264_ue_size_tab = 256"
  by (simp add: x264_ue_size_tab_def)

lemma ue_size_tab_num_bits:
  assumes "0 < i" "i < 256"
  shows "x264_ue_size_tab ! i = 2 * num_bits i - 1"
proof -
  have nb: "num_bits i = Suc k" if "2 ^ k \<le> i" "i < 2 ^ Suc k" for k
    using num_bits_eqI [OF that] .
  have "i < 2 \<or> (2 \<le> i \<and> i < 4) \<or> (4 \<le> i \<and> i < 8) \<or> (8 \<le> i \<and> i < 16) \<or> (16 \<le> i \<and> i < 32)
        \<or> (32 \<le> i \<and> i < 64) \<or> (64 \<le> i \<and> i < 128) \<or> 128 \<le> i"
    by linarith
  then show ?thesis
    using assms nb [of 0] nb [of 1] nb [of 2] nb [of 3] nb [of 4] nb [of 5] nb [of 6] nb [of 7]
    by (elim disjE; auto simp: x264_ue_size_tab_def nth_append nth_Cons')
qed

lemma bits_be_pad:
  assumes "\<And>i. n \<le> i \<Longrightarrow> \<not> bit x i"
  shows "bits_be (m + n) x = replicate m False @ bits_be n x"
proof -
  have "bits_be m (drop_bit n x) = bits_be m (0 :: 'a)"
    using assms by (intro bits_be_cong) (simp add: bit_simps)
  then show ?thesis
    by (simp add: bits_be_append)
qed

lemma nat_bit_lt: "m < 2 ^ n \<Longrightarrow> bit (m :: nat) i \<Longrightarrow> i < n"
  by (metis bit_take_bit_iff take_bit_nat_eq_self)

lemma uint_of_nat_lt: "m < 2 ^ n \<Longrightarrow> uint (word_of_nat m :: 'a::len word) < 2 ^ n"
  by (rule uint_lt_bitI) (auto simp: bit_simps dest: nat_bit_lt)

lemma bits_be_word_of_nat:
  assumes "n \<le> LENGTH('a)"
  shows "bits_be n (word_of_nat v :: 'a::len word) = bits_be n v"
  using assms by (intro bits_be_cong) (simp add: bit_simps)

lemma bits_be_ue:
  "bits_be (2 * num_bits (v + 1) - 1) (v + 1) = ue_bits v"
proof -
  have "\<not> bit (v + 1) i" if "num_bits (v + 1) \<le> i" for i
    using nat_bit_lt [OF num_bits_gt, of "v + 1" i] that by auto
  note pad = bits_be_pad [OF this]
  have e: "2 * num_bits (v + 1) - 1 = (num_bits (v + 1) - 1) + num_bits (v + 1)"
    by (simp add: num_bits.simps [of "v + 1"])
  show ?thesis
    by (simp only: e pad ue_bits_def)
qed

lemma num_bits_small: "0 < n \<Longrightarrow> n < 256 \<Longrightarrow> num_bits n \<le> 8 \<and> 0 < num_bits n"
  using num_bits_le [of n 8] by (simp add: num_bits.simps [of n])

lemma bs_write_ue_spec:
  assumes "bs_ok s" "v < 255" "bs_room s 16"
  obtains s' where "bs_write_ue s (int v) = Some s'" "bs_ok s'" "bs_bits s' = bs_bits s @ ue_bits v"
    "length (bs_mem s') = length (bs_mem s)"
proof -
  define n where "n = 2 * num_bits (v + 1) - 1"
  have n: "x264_ue_size_tab ! (v + 1) = n" "n \<le> 16" "num_bits (v + 1) \<le> n"
    using ue_size_tab_num_bits [of "v + 1"] num_bits_small [of "v + 1"] assms(2)
    by (auto simp: n_def)
  have "v + 1 < 2 ^ n"
    using num_bits_gt [of "v + 1"] power_increasing [OF n(3), of "2 :: nat"] by linarith
  then have u: "uint (word_of_nat (v + 1) :: u32) < 2 ^ n"
    by (intro uint_of_nat_lt)
  have n32: "n \<le> 32"
    using n(2) by simp
  obtain s' where s': "bs_write s n (word_of_nat (v + 1)) = Some s'" "bs_ok s'"
    "bs_bits s' = bs_bits s @ bits_be n (word_of_nat (v + 1) :: u32)"
    "length (bs_mem s') = length (bs_mem s)"
    using bs_write_spec [OF assms(1) _ u bs_room_le [OF assms(3) n(2)]] n32 by blast
  have "bits_be n (word_of_nat (v + 1) :: u32) = bits_be n (v + 1)"
    using n(2) by (intro bits_be_word_of_nat) simp
  also have "\<dots> = ue_bits v"
    unfolding n_def by (rule bits_be_ue)
  finally have b: "bits_be n (word_of_nat (v + 1) :: u32) = ue_bits v" .
  have "bs_write_ue s (int v) = Some s'"
    using s'(1) n(1) assms(2) by (simp add: bs_write_ue_def nat_add_distrib add.commute)
  then show thesis
    using that s' b by simp
qed

lemma num_bits_div: "2 ^ k \<le> n \<Longrightarrow> num_bits n = k + num_bits (n div 2 ^ k)"
proof (induction k arbitrary: n)
  case (Suc k)
  then have "2 ^ k \<le> n div 2" "0 < n"
    by (auto intro: less_le_trans [OF _ Suc.prems])
  then show ?case
    using Suc.IH [of "n div 2"] by (simp add: num_bits.simps [of n] div_mult2_eq)
qed simp

text \<open>A code of given length, written as some zeros and a number, or as one padded number.\<close>

lemma bs_write_of_nat:
  assumes "bs_ok s" "n \<le> 32" "m < 2 ^ n" "bs_room s n"
  obtains s' where "bs_write s n (word_of_nat m) = Some s'" "bs_ok s'"
    "bs_bits s' = bs_bits s @ bits_be n m" "length (bs_mem s') = length (bs_mem s)"
proof -
  obtain s' where "bs_write s n (word_of_nat m) = Some s'" "bs_ok s'"
    "bs_bits s' = bs_bits s @ bits_be n (word_of_nat m :: u32)" "length (bs_mem s') = length (bs_mem s)"
    using bs_write_spec [OF assms(1,2) uint_of_nat_lt [OF assms(3)] assms(4)] by blast
  then show thesis
    using that assms(2) by (simp add: bits_be_word_of_nat)
qed

lemma ue_bits_len: "length (ue_bits v) = 2 * num_bits (v + 1) - 1"
  by (simp add: ue_bits_def)

lemma num_bits_pos [simp]: "0 < num_bits (Suc n)"
  by (simp add: num_bits.simps)

lemma ue_split_shift:
  assumes "0 < m" "m < 2 ^ 31"
  shows "\<exists>k. 0 < m div 2 ^ k \<and> m div 2 ^ k < 256 \<and> 2 ^ k \<le> m
             \<and> ue_split (int m) = (2 * k, int (m div 2 ^ k))"
proof -
  consider "m < 256" | "256 \<le> m" "m < 65536" | "65536 \<le> m" "m < 16777216" | "16777216 \<le> m"
    by linarith
  then show ?thesis
  proof cases
    case 1
    then show ?thesis using assms by (intro exI [of _ 0]) (simp add: ue_split_def)
  next
    case 2
    then show ?thesis
      by (intro exI [of _ 8]) (simp add: ue_split_def div_greater_zero_iff zdiv_int less_mult_imp_div_less)
  next
    case 3
    then show ?thesis
      by (intro exI [of _ 16])
         (auto simp: ue_split_def div_greater_zero_iff zdiv_int less_mult_imp_div_less)
  next
    case 4
    then show ?thesis using assms(2)
      by (intro exI [of _ 24])
         (auto simp: ue_split_def div_greater_zero_iff zdiv_int less_mult_imp_div_less zdiv_zmult2_eq [symmetric])
  qed
qed

lemma bs_write_ue_big_spec:
  assumes "bs_ok s" "v + 1 < 2 ^ 31" "bs_room s 63"
  obtains s' where "bs_write_ue_big s (word_of_nat v) = Some s'" "bs_ok s'"
    "bs_bits s' = bs_bits s @ ue_bits v" "length (bs_mem s') = length (bs_mem s)"
proof -
  define m where "m = v + 1"
  have m: "0 < m" "m < 2 ^ 31"
    using assms(2) by (simp_all add: m_def)
  have sv: "sint (word_of_nat m :: u32) = int m"
    using m by (simp add: signed_of_nat signed_take_bit_int_eq_self)
  define nb where "nb = num_bits m"
  have nb: "0 < nb" "nb \<le> 31" "m < 2 ^ nb"
    using num_bits_le [OF m(2)] num_bits_gt [of m] by (simp_all add: nb_def m_def)
  obtain k where k: "0 < m div 2 ^ k" "m div 2 ^ k < 256" "2 ^ k \<le> m"
    "ue_split (int m) = (2 * k, int (m div 2 ^ k))"
    using ue_split_shift [OF m] by blast
  define t where "t = x264_ue_size_tab ! (m div 2 ^ k)"
  have sz: "2 * k + t = 2 * nb - 1"
    using ue_size_tab_num_bits [OF k(1,2)] num_bits_div [OF k(3)] nb(1)
      num_bits_small [OF k(1,2)] by (simp add: nb_def t_def)
  have h: "(2 * nb - 1) div 2 = nb - 1" "nb - 1 + 1 = nb"
    using nb(1) by auto
  have a: "at x264_ue_size_tab (m div 2 ^ k) = Some t"
    using k(2) by (simp add: t_def)
  have w: "word_of_nat v + 1 = (word_of_nat m :: u32)"
    by (simp add: m_def add.commute)
  have e: "bs_write_ue_big s (word_of_nat v)
        = do { s \<leftarrow> bs_write s (nb - 1) 0; bs_write s nb (word_of_nat m) }"
    unfolding bs_write_ue_big_def Let_def w sv k(4)
    by (simp only: prod.case of_nat_less_0_iff if_False nat_int a Option.bind.simps sz h)
  obtain s1 where s1: "bs_write s (nb - 1) 0 = Some s1" "bs_ok s1"
    "bs_bits s1 = bs_bits s @ replicate (nb - 1) False" "length (bs_mem s1) = length (bs_mem s)"
    by (rule bs_write_of_nat [OF assms(1), of "nb - 1" 0])
       (use nb bs_room_le [OF assms(3), of "nb - 1"] in auto)
  obtain s2 where s2: "bs_write s1 nb (word_of_nat m) = Some s2" "bs_ok s2"
    "bs_bits s2 = bs_bits s1 @ bits_be nb m" "length (bs_mem s2) = length (bs_mem s1)"
    by (rule bs_write_of_nat [OF s1(2), of nb m])
       (use nb s1(3,4) assms(3) in \<open>auto simp: bs_room_def\<close>)
  have "ue_bits v = replicate (nb - 1) False @ bits_be nb m"
    by (simp only: ue_bits_def m_def nb_def)
  then show thesis
    using that [of s2] e s1 s2 by simp
qed

text \<open>Signed values are mapped to unsigned ones: positive \<open>v\<close> to \<open>2v - 1\<close>, others to \<open>-2v\<close>.\<close>

definition se_map :: "int \<Rightarrow> nat" where
  "se_map v = nat (if 0 < v then 2 * v - 1 else - 2 * v)"

lemma bs_write_se_spec:
  assumes "bs_ok s" "\<bar>v\<bar> < 32768" "bs_room s 31"
  obtains s' where "bs_write_se s v = Some s'" "bs_ok s'"
    "bs_bits s' = bs_bits s @ ue_bits (se_map v)" "length (bs_mem s') = length (bs_mem s)"
proof -
  define m where "m = se_map v + 1"
  define tmp where "tmp = (if 1 - v * 2 < 0 then v * 2 else 1 - v * 2)"
  have tmp: "tmp = int m" and m: "0 < m" "m < 65536"
    using assms(2) by (auto simp: tmp_def m_def se_map_def)
  define nb where "nb = num_bits m"
  have nb: "0 < nb" "nb \<le> 16" "m < 2 ^ nb"
    using num_bits_le [of m 16] num_bits_gt [of m] m by (simp_all add: nb_def m_def)
  have ml: "m < 2 ^ (2 * nb - 1)"
    using nb power_increasing [of nb "2 * nb - 1" "2 :: nat"] by linarith
  define sz where "sz = 2 * nb - 1"
  have e: "bs_write_se s v = bs_write s sz (word_of_nat m)"
  proof (cases "m < 256")
    case True
    then show ?thesis
      using ue_size_tab_num_bits [of m] m
      unfolding bs_write_se_def Let_def tmp_def [symmetric] tmp by (simp add: nb_def sz_def)
  next
    case False
    have d: "0 < m div 256" "m div 256 < 256"
      using False m by (auto simp: div_greater_zero_iff less_mult_imp_div_less)
    have "16 + x264_ue_size_tab ! (m div 256) = sz"
      using ue_size_tab_num_bits [OF d] num_bits_div [of 8 m] num_bits_small [OF d] False
      by (simp add: nb_def sz_def)
    moreover have "nat (int m div 256) = m div 256"
      by (simp add: nat_div_distrib)
    ultimately show ?thesis
      using False d unfolding bs_write_se_def Let_def tmp_def [symmetric] tmp by simp
  qed
  obtain s' where s': "bs_write s sz (word_of_nat m) = Some s'" "bs_ok s'"
    "bs_bits s' = bs_bits s @ bits_be sz m" "length (bs_mem s') = length (bs_mem s)"
    by (rule bs_write_of_nat [OF assms(1), of sz m])
       (use nb ml bs_room_le [OF assms(3), of sz] in \<open>auto simp: sz_def\<close>)
  have "bits_be sz m = ue_bits (se_map v)"
    using bits_be_ue [of "se_map v"] by (simp only: sz_def nb_def m_def)
  then show thesis
    using that [of s'] e s' by simp
qed

section \<open>The reader\<close>

text \<open>
  \<open>bsr_mem\<close> is the data from \<open>p_start\<close> to \<open>p_end\<close>.  The reader stops at the end of the data and
  returns what it has so far, shifted to its place, with zeros for the bits it does not have.
\<close>

(* src: common/bs_read.h 33-40 bs_read_t *)
record bsr =
  bsr_mem :: bytes
  bsr_p :: nat
  bsr_left :: nat

(* src: common/bs_read.h 42-48 bs_read_init *)
definition bs_read_init :: "bytes \<Rightarrow> bsr" where
  "bs_read_init data = \<lparr>bsr_mem = data, bsr_p = 0, bsr_left = 8\<rparr>"

(* src: common/bs_read.h 50-53 bs_read_pos *)
definition bs_read_pos :: "bsr \<Rightarrow> int" where
  "bs_read_pos s = 8 * int (bsr_p s) + 8 - int (bsr_left s)"

(* src: common/bs_read.h 55-58 bs_read_eof *)
definition bs_read_eof :: "bsr \<Rightarrow> bool" where
  "bs_read_eof s \<longleftrightarrow> length (bsr_mem s) \<le> bsr_p s"

definition bsr_next :: "bsr \<Rightarrow> bsr" where
  "bsr_next s = s\<lparr>bsr_p := bsr_p s + 1, bsr_left := 8\<rparr>"

(* src: common/bs_read.h 60-106 bs_read *)
function bs_read_loop :: "u32 \<Rightarrow> nat \<Rightarrow> bsr \<Rightarrow> u32 \<times> bsr" where
  "bs_read_loop r n s =
     (if n = 0 \<or> bs_read_eof s then (r, s)
      else let b = ucast (bsr_mem s ! bsr_p s) :: u32
           in if n \<le> bsr_left s
              then let r = r OR (drop_bit (bsr_left s - n) b AND mask n);
                       s = s\<lparr>bsr_left := bsr_left s - n\<rparr>
                   in (r, if bsr_left s = 0 then bsr_next s else s)
              else bs_read_loop (r OR push_bit (n - bsr_left s) (b AND mask (bsr_left s)))
                     (n - bsr_left s) (bsr_next s))"
  by auto
termination
  by (relation "measure (\<lambda>(r, n, s). length (bsr_mem s) - bsr_p s)")
     (auto simp: bs_read_eof_def bsr_next_def)

declare bs_read_loop.simps [simp del]

(* src: common/bs_read.h 60-106 bs_read *)
definition bs_read :: "bsr \<Rightarrow> nat \<Rightarrow> u32 \<times> bsr" where
  "bs_read s i_count = bs_read_loop 0 i_count s"

(* src: common/bs_read.h 107-124 bs_read1 *)
definition bs_read1 :: "bsr \<Rightarrow> u32 \<times> bsr" where
  "bs_read1 s =
     (if bsr_p s < length (bsr_mem s)
      then let s1 = s\<lparr>bsr_left := bsr_left s - 1\<rparr>;
               r = drop_bit (bsr_left s1) (ucast (bsr_mem s1 ! bsr_p s1)) AND 1
           in (r, if bsr_left s1 = 0 then bsr_next s1 else s1)
      else (0, s))"

(* src: common/bs_read.h 126-130 bs_show *)
definition bs_show :: "bsr \<Rightarrow> nat \<Rightarrow> u32" where
  "bs_show s i_count = fst (bs_read s i_count)"

text \<open>\<open>i_left\<close> goes through zero and negative values before the pointer is advanced.\<close>

(* src: common/bs_read.h 132-143 bs_skip *)
definition bs_skip :: "bsr \<Rightarrow> nat \<Rightarrow> bsr" where
  "bs_skip s i_count =
     (let left = int (bsr_left s) - int i_count
      in if left \<le> 0
         then let i_bytes = (- left + 8) sdiv 8
              in s\<lparr>bsr_p := bsr_p s + nat i_bytes, bsr_left := nat (left + 8 * i_bytes)\<rparr>
         else s\<lparr>bsr_left := nat left\<rparr>)"

definition bsr_ok :: "bsr \<Rightarrow> bool" where
  "bsr_ok s \<longleftrightarrow> 1 \<le> bsr_left s \<and> bsr_left s \<le> 8 \<and> bsr_p s \<le> length (bsr_mem s)
     \<and> (bsr_p s = length (bsr_mem s) \<longrightarrow> bsr_left s = 8)"

text \<open>The bits still to be read.\<close>

definition bsr_bits :: "bsr \<Rightarrow> bool list" where
  "bsr_bits s = drop (8 * bsr_p s + 8 - bsr_left s) (bytes_bits (bsr_mem s))"

lemma bsr_bits_split:
  assumes "bsr_ok s" "bsr_p s < length (bsr_mem s)"
  shows "bsr_bits s = bits_be (bsr_left s) (bsr_mem s ! bsr_p s) @ bsr_bits (bsr_next s)"
proof -
  define k where "k = 8 - bsr_left s"
  have k: "8 * bsr_p s + 8 - bsr_left s = 8 * bsr_p s + k" "k \<le> 8" "8 - k = bsr_left s"
    using assms(1) by (auto simp: k_def bsr_ok_def)
  have "bsr_bits s = drop k (drop (8 * bsr_p s) (bytes_bits (bsr_mem s)))"
    unfolding bsr_bits_def k(1) by (simp add: add.commute)
  also have "drop (8 * bsr_p s) (bytes_bits (bsr_mem s))
             = byte_bits (bsr_mem s ! bsr_p s) @ bytes_bits (drop (bsr_p s + 1) (bsr_mem s))"
    using assms(2) by (simp add: bytes_bits_drop [symmetric] drop_nth_conv)
  also have "drop k \<dots> = drop k (byte_bits (bsr_mem s ! bsr_p s))
                       @ bytes_bits (drop (bsr_p s + 1) (bsr_mem s))"
    using k(2) by simp
  also have "drop k (byte_bits (bsr_mem s ! bsr_p s)) = bits_be (bsr_left s) (bsr_mem s ! bsr_p s)"
    using k by (simp add: byte_bits_def drop_bits_be)
  also have "bytes_bits (drop (bsr_p s + 1) (bsr_mem s)) = bsr_bits (bsr_next s)"
    by (simp add: bsr_bits_def bsr_next_def bytes_bits_drop)
  finally show ?thesis .
qed

lemma bsr_bits_end: "bsr_ok s \<Longrightarrow> \<not> bsr_p s < length (bsr_mem s) \<Longrightarrow> bsr_bits s = []"
  by (auto simp: bsr_bits_def bsr_ok_def)

lemma bsr_next_ok: "bsr_ok s \<Longrightarrow> bsr_p s < length (bsr_mem s) \<Longrightarrow> bsr_ok (bsr_next s)"
  by (simp add: bsr_ok_def bsr_next_def)

lemma bits_be_mask_or:
  assumes "n \<le> 32" "\<And>i. bit r i \<Longrightarrow> n \<le> i"
  shows "bits_be (m + n) (r OR (b AND mask n) :: u32) = bits_be m (drop_bit n r) @ bits_be n b"
  unfolding bits_be_append
proof (rule arg_cong2 [where f = "(@)"])
  show "bits_be m (drop_bit n (r OR (b AND mask n))) = bits_be m (drop_bit n r)"
    by (rule bits_be_cong) (auto simp: bit_simps)
  show "bits_be n (r OR (b AND mask n)) = bits_be n b"
    using assms by (intro bits_be_cong) (auto simp: bit_simps dest: assms(2))
qed

lemma bs_read_loop_spec:
  assumes "bsr_ok s" "n \<le> length (bsr_bits s)" "m + n \<le> 32" "\<And>i. bit r i \<Longrightarrow> n \<le> i \<and> i < m + n"
  shows "\<exists>v s'. bs_read_loop r n s = (v, s') \<and> bsr_ok s' \<and> bsr_bits s' = drop n (bsr_bits s)
           \<and> bits_be (m + n) v = bits_be m (drop_bit n r) @ take n (bsr_bits s)
           \<and> (\<forall>i. bit v i \<longrightarrow> i < m + n) \<and> bsr_mem s' = bsr_mem s"
  using assms
proof (induction r n s arbitrary: m rule: bs_read_loop.induct)
  case (1 r n s)
  show ?case
  proof (cases "n = 0 \<or> bs_read_eof s")
    case True
    then have "n = 0"
      using bsr_bits_end [OF 1(2)] 1(3) by (auto simp: bs_read_eof_def)
    then show ?thesis
      using 1(2,5) by (simp add: bs_read_loop.simps)
  next
    case False
    define b where "b = (ucast (bsr_mem s ! bsr_p s) :: u32)"
    define l where "l = bsr_left s"
    have p: "bsr_p s < length (bsr_mem s)" and n0: "0 < n"
      using False by (auto simp: bs_read_eof_def)
    note sp = bsr_bits_split [OF 1(2) p]
    have l: "1 \<le> l" "l \<le> 8"
      using 1(2) by (auto simp: l_def bsr_ok_def)
    have bl: "bits_be l (bsr_mem s ! bsr_p s) = bits_be l b"
      using l by (intro bits_be_cong) (auto simp: b_def bit_simps)
    show ?thesis
    proof (cases "n \<le> l")
      case True
      define s1 where "s1 = s\<lparr>bsr_left := l - n\<rparr>"
      define s2 where "s2 = (if l - n = 0 then bsr_next s1 else s1)"
      define v where "v = r OR (drop_bit (l - n) b AND mask n)"
      have e: "bs_read_loop r n s = (v, s2)"
        using False True by (simp add: bs_read_loop.simps [of r n s] Let_def v_def b_def s1_def
            s2_def l_def)
      have ok: "bsr_ok s2"
        using 1(2) p l True by (auto simp: s2_def s1_def bsr_ok_def bsr_next_def l_def)
      have nx: "bsr_next s1 = bsr_next s"
        by (simp add: s1_def bsr_next_def)
      have b2: "bsr_bits s2 = drop n (bsr_bits s)"
      proof (cases "l - n = 0")
        case True
        then have "n = l" using \<open>n \<le> l\<close> by simp
        then show ?thesis
          by (simp add: s2_def sp l_def nx)
      next
        case False
        then have "bsr_ok s1" "bsr_p s1 < length (bsr_mem s1)"
          using 1(2) p l by (auto simp: s1_def bsr_ok_def)
        note sp1 = bsr_bits_split [OF this]
        have "drop n (bits_be l (bsr_mem s ! bsr_p s)) = bits_be (l - n) (bsr_mem s ! bsr_p s)"
          using True by (rule drop_bits_be)
        moreover have "bsr_left s1 = l - n" "bsr_mem s1 = bsr_mem s" "bsr_p s1 = bsr_p s"
          by (simp_all add: s1_def)
        ultimately show ?thesis
          using False True sp1 nx by (simp add: s2_def sp l_def)
      qed
      have "take n (bsr_bits s) = take n (bits_be l b)"
        using True bl by (simp add: sp l_def)
      also have "\<dots> = bits_be n (drop_bit (l - n) b)"
        using True by (rule take_bits_be)
      finally have t: "take n (bsr_bits s) = bits_be n (drop_bit (l - n) b)" .
      have "bits_be (m + n) v = bits_be m (drop_bit n r) @ bits_be n (drop_bit (l - n) b)"
        unfolding v_def using 1(4,5) by (intro bits_be_mask_or) auto
      moreover have "\<forall>i. bit v i \<longrightarrow> i < m + n"
        using 1(5) by (auto simp: v_def bit_simps)
      ultimately show ?thesis
        using e ok b2 t by (simp add: s2_def s1_def bsr_next_def)
    next
      case nl: False
      define r1 where "r1 = r OR push_bit (n - l) (b AND mask l)"
      have e: "bs_read_loop r n s = bs_read_loop r1 (n - l) (bsr_next s)"
        using False nl by (simp add: bs_read_loop.simps [of r n s] Let_def r1_def b_def l_def)
      have ln: "n - l \<le> length (bsr_bits (bsr_next s))"
        using 1(3) nl by (simp add: sp l_def)
      have mm: "m + l + (n - l) \<le> 32"
        using 1(4) nl by simp
      have r1: "bit r1 i \<Longrightarrow> n - l \<le> i \<and> i < m + l + (n - l)" for i
        using 1(5) [of i] nl by (auto simp: r1_def bit_simps)
      note IH = 1(1) [OF False b_def nl [unfolded l_def] bsr_next_ok [OF 1(2) p]
                         ln [unfolded l_def], folded l_def, folded r1_def]
      obtain v s' where v: "bs_read_loop r1 (n - l) (bsr_next s) = (v, s')" "bsr_ok s'"
        "bsr_bits s' = drop (n - l) (bsr_bits (bsr_next s))"
        "bits_be (m + l + (n - l)) v = bits_be (m + l) (drop_bit (n - l) r1)
           @ take (n - l) (bsr_bits (bsr_next s))"
        "\<forall>i. bit v i \<longrightarrow> i < m + l + (n - l)" "bsr_mem s' = bsr_mem (bsr_next s)"
        using IH [OF mm r1] by blast
      have "drop_bit (n - l) r1 = drop_bit (n - l) r OR (b AND mask l)"
        unfolding r1_def using nl 1(4) l by (intro bit_word_eqI) (auto simp: bit_simps)
      moreover have "bits_be (m + l) (drop_bit (n - l) r OR (b AND mask l))
            = bits_be m (drop_bit l (drop_bit (n - l) r)) @ bits_be l b"
        using 1(5) nl l by (intro bits_be_mask_or) (auto simp: bit_simps dest!: 1(5))
      moreover have "drop_bit l (drop_bit (n - l) r) = drop_bit n r"
        using nl by simp
      moreover have "take n (bsr_bits s) = bits_be l b @ take (n - l) (bsr_bits (bsr_next s))"
        using nl bl by (simp add: sp l_def)
      moreover have "drop n (bsr_bits s) = drop (n - l) (bsr_bits (bsr_next s))"
        using nl by (simp add: sp l_def)
      ultimately show ?thesis
        using v e nl by (simp add: bsr_next_def)
    qed
  qed
qed

lemma bits_be_inj:
  assumes "bits_be n v = bits_be n w" "\<And>i. bit v i \<Longrightarrow> i < n" "\<And>i. bit w i \<Longrightarrow> i < n"
  shows "v = (w :: 'a::len word)"
proof (rule bit_word_eqI)
  fix i
  show "bit v i \<longleftrightarrow> bit w i"
  proof (cases "i < n")
    case True
    have "bits_be n v ! (n - 1 - i) = bits_be n w ! (n - 1 - i)"
      by (simp add: assms(1))
    then show ?thesis
      using True by simp
  qed (use assms(2,3) in blast)
qed

lemma bs_read_spec:
  assumes "bsr_ok s" "n \<le> 32" "n \<le> length (bsr_bits s)"
  obtains v s' where "bs_read s n = (v, s')" "bsr_ok s'" "bsr_bits s' = drop n (bsr_bits s)"
    "bits_be n v = take n (bsr_bits s)" "\<And>i. bit v i \<Longrightarrow> i < n" "bsr_mem s' = bsr_mem s"
  using bs_read_loop_spec [OF assms(1,3), of 0 0] assms(2) by (auto simp: bs_read_def)

lemma bs_read1_eq:
  assumes "bsr_ok s"
  shows "bs_read1 s = bs_read s 1"
proof (cases "bsr_p s < length (bsr_mem s)")
  case True
  have m: "(1 :: u32) = mask 1"
    by simp
  show ?thesis
    using True assms
    by (simp add: bs_read1_def bs_read_def bs_read_loop.simps [of 0] Let_def bs_read_eof_def bsr_ok_def
                  bsr_next_def)
qed (simp add: bs_read1_def bs_read_def bs_read_loop.simps [of 0] bs_read_eof_def)

lemma bs_skip_bits:
  assumes "bsr_ok s" "n \<le> length (bsr_bits s)"
  shows "bsr_ok (bs_skip s n)" "bsr_bits (bs_skip s n) = drop n (bsr_bits s)"
proof -
  define l where "l = int (bsr_left s) - int n"
  define j where "j = (- l + 8) div 8"
  have r: "1 \<le> bsr_left s" "bsr_left s \<le> 8"
    using assms(1) by (auto simp: bsr_ok_def)
  have len: "length (bsr_bits s) = 8 * length (bsr_mem s) - (8 * bsr_p s + 8 - bsr_left s)"
    by (simp add: bsr_bits_def)
  have ov: "8 * int (bsr_p s) + 8 - l \<le> 8 * int (length (bsr_mem s))"
    using assms r len by (auto simp: l_def bsr_ok_def)
  show "bsr_ok (bs_skip s n)" "bsr_bits (bs_skip s n) = drop n (bsr_bits s)"
  proof (atomize (full), cases "l \<le> 0")
    case False
    then have "bs_skip s n = s\<lparr>bsr_left := bsr_left s - n\<rparr>"
      by (simp add: bs_skip_def Let_def l_def nat_diff_distrib')
    then show "bsr_ok (bs_skip s n) \<and> bsr_bits (bs_skip s n) = drop n (bsr_bits s)"
      using False r assms(1) ov by (auto simp: bsr_ok_def bsr_bits_def l_def intro!: arg_cong2 [where f = drop])
  next
    case True
    have j: "0 \<le> j" "1 \<le> l + 8 * j" "l + 8 * j \<le> 8" "(- l + 8) sdiv 8 = j"
      using True by (auto simp: j_def signed_divide_int_def)
    have e: "bs_skip s n = s\<lparr>bsr_p := bsr_p s + nat j, bsr_left := nat (l + 8 * j)\<rparr>"
      using True j by (simp add: bs_skip_def Let_def l_def)
    have a: "8 * (bsr_p s + nat j) + 8 - nat (l + 8 * j) = n + (8 * bsr_p s + 8 - bsr_left s)"
      using j r by (auto simp: l_def)
    have "bsr_p s + nat j \<le> length (bsr_mem s)"
      "bsr_p s + nat j = length (bsr_mem s) \<Longrightarrow> nat (l + 8 * j) = 8"
      using ov j by linarith+
    then show "bsr_ok (bs_skip s n) \<and> bsr_bits (bs_skip s n) = drop n (bsr_bits s)"
      using e a j by (auto simp: bsr_ok_def bsr_bits_def)
  qed
qed

section \<open>The bit string interface and the round trip\<close>

text \<open>
  What code that builds or parses a bit string relies on: a sink appends the bits of each field,
  a source delivers the next bits.  Fields written one after the other into a sink are read back
  one after the other from a source that has the sink's bits.
\<close>

type_synonym field = "nat \<times> u32"

definition field_ok :: "field \<Rightarrow> bool" where
  "field_ok f \<longleftrightarrow> fst f \<le> 32 \<and> uint (snd f) < 2 ^ fst f"

definition fields_bits :: "field list \<Rightarrow> bool list" where
  "fields_bits fs = concat (map (\<lambda>(n, v). bits_be n v) fs)"

lemma fields_bits_simps [simp]:
  "fields_bits [] = []" "fields_bits ((n, v) # fs) = bits_be n v @ fields_bits fs"
  "fields_bits (fs @ gs) = fields_bits fs @ fields_bits gs"
  by (simp_all add: fields_bits_def)

locale bit_sink =
  fixes wr :: "'s \<Rightarrow> nat \<Rightarrow> u32 \<Rightarrow> 's option"
    and ok :: "'s \<Rightarrow> bool"
    and cap :: "'s \<Rightarrow> nat"
    and out :: "'s \<Rightarrow> bool list"
  assumes wr_law: "ok s \<Longrightarrow> n \<le> 32 \<Longrightarrow> uint v < 2 ^ n \<Longrightarrow> length (out s) + n \<le> cap s \<Longrightarrow>
    \<exists>s'. wr s n v = Some s' \<and> ok s' \<and> out s' = out s @ bits_be n v \<and> cap s' = cap s"
begin

fun wr_all :: "'s \<Rightarrow> field list \<Rightarrow> 's option" where
  "wr_all s [] = Some s"
| "wr_all s ((n, v) # fs) = do { s \<leftarrow> wr s n v; wr_all s fs }"

lemma wr_all_append: "wr_all s (fs @ gs) = do { s \<leftarrow> wr_all s fs; wr_all s gs }"
  by (induction fs arbitrary: s) auto

lemma wr_all_law:
  assumes "ok s" "list_all field_ok fs" "length (out s) + length (fields_bits fs) \<le> cap s"
  shows "\<exists>s'. wr_all s fs = Some s' \<and> ok s' \<and> out s' = out s @ fields_bits fs \<and> cap s' = cap s"
  using assms
proof (induction fs arbitrary: s)
  case (Cons f fs)
  obtain n v where f: "f = (n, v)" by fastforce
  obtain s1 where s1: "wr s n v = Some s1" "ok s1" "out s1 = out s @ bits_be n v" "cap s1 = cap s"
    using wr_law [OF Cons.prems(1), of n v] Cons.prems(2,3) f by (auto simp: field_ok_def)
  then show ?case
    using Cons.IH [OF s1(2)] Cons.prems(2,3) f by auto
qed auto

end

locale bit_source =
  fixes rd :: "'r \<Rightarrow> nat \<Rightarrow> u32 \<times> 'r"
    and rok :: "'r \<Rightarrow> bool"
    and inp :: "'r \<Rightarrow> bool list"
  assumes rd_law: "rok s \<Longrightarrow> n \<le> 32 \<Longrightarrow> n \<le> length (inp s) \<Longrightarrow>
    \<exists>v s'. rd s n = (v, s') \<and> rok s' \<and> inp s' = drop n (inp s) \<and> bits_be n v = take n (inp s)
           \<and> uint v < 2 ^ n"
begin

fun rd_all :: "'r \<Rightarrow> nat list \<Rightarrow> u32 list \<times> 'r" where
  "rd_all s [] = ([], s)"
| "rd_all s (n # ns) =
     (let (v, s) = rd s n; (vs, s) = rd_all s ns in (v # vs, s))"

lemma rd_all_fields:
  assumes "rok s" "list_all field_ok fs" "inp s = fields_bits fs @ rest"
  shows "\<exists>s'. rd_all s (map fst fs) = (map snd fs, s') \<and> rok s' \<and> inp s' = rest"
  using assms
proof (induction fs arbitrary: s)
  case (Cons f fs)
  obtain n v where f: "f = (n, v)" by fastforce
  then have v: "n \<le> 32" "uint v < 2 ^ n"
    using Cons.prems(2) by (auto simp: field_ok_def)
  obtain w s1 where s1: "rd s n = (w, s1)" "rok s1" "inp s1 = drop n (inp s)"
    "bits_be n w = take n (inp s)" "uint w < 2 ^ n"
    using rd_law [OF Cons.prems(1) v(1)] Cons.prems(3) f by auto
  have "w = v"
    using s1(4,5) v Cons.prems(3) f by (intro bits_be_inj [of n]) (auto dest: uint_lt_bit)
  then show ?case
    using Cons.IH [OF s1(2)] s1 Cons.prems(2,3) f by auto
qed auto

end

interpretation bsw: bit_sink bs_write bs_ok "\<lambda>s. 8 * length (bs_mem s)" bs_bits
proof unfold_locales
  fix s n and v :: u32
  assume "bs_ok s" "n \<le> 32" "uint v < 2 ^ n" "length (bs_bits s) + n \<le> 8 * length (bs_mem s)"
  then show "\<exists>s'. bs_write s n v = Some s' \<and> bs_ok s' \<and> bs_bits s' = bs_bits s @ bits_be n v
               \<and> 8 * length (bs_mem s') = 8 * length (bs_mem s)"
    using bs_write_spec [of s n v] by (metis bs_room_def)
qed

interpretation bsrd: bit_source bs_read bsr_ok bsr_bits
proof unfold_locales
  fix s n
  assume "bsr_ok s" "n \<le> 32" "n \<le> length (bsr_bits s)"
  then show "\<exists>v s'. bs_read s n = (v, s') \<and> bsr_ok s' \<and> bsr_bits s' = drop n (bsr_bits s)
               \<and> bits_be n v = take n (bsr_bits s) \<and> uint v < 2 ^ n"
    using bs_read_spec [of s n] by (metis uint_lt_bitI)
qed

section \<open>Properties\<close>

lemma bs_init_aligned:
  "4 \<le> length mem \<Longrightarrow> \<exists>s. bs_init mem 0 n = Some s \<and> bs_ok s \<and> bs_bits s = [] \<and> bs_mem s = mem"
  by (simp add: bs_init_def load32_def bs_ok_def bs_bits_def)

text \<open>C1 Any sequence of bit fields of at most 32 bits, written into an aligned buffer that has room
  for them and for the five bytes the closing alignment may touch, is stored without leaving the
  buffer, and the reader started on the bytes stored returns exactly the values written.\<close>

theorem bitstream_roundtrip:
  assumes "list_all field_ok fs" "length (fields_bits fs) + 40 \<le> 8 * length mem"
  shows "\<exists>s0 s1 s2. bs_init mem 0 (length mem) = Some s0 \<and> bsw.wr_all s0 fs = Some s1
           \<and> bs_align_0 s1 = Some s2
           \<and> fst (bsrd.rd_all (bs_read_init (take (bs_p s2) (bs_mem s2))) (map fst fs)) = map snd fs"
proof -
  obtain s0 where s0: "bs_init mem 0 (length mem) = Some s0" "bs_ok s0" "bs_bits s0 = []"
    "bs_mem s0 = mem"
    using bs_init_aligned [of mem "length mem"] assms(2) by auto
  obtain s1 where s1: "bsw.wr_all s0 fs = Some s1" "bs_ok s1" "bs_bits s1 = fields_bits fs"
    "length (bs_mem s1) = length mem"
    using bsw.wr_all_law [OF s0(2) assms(1)] assms(2) s0(3,4) by auto
  have "bs_room s1 40"
    using assms(2) s1(3,4) by (simp add: bs_room_def)
  then obtain s2 k where s2: "bs_align_0 s1 = Some s2"
    "bs_bits s2 = fields_bits fs @ replicate k False"
    "bytes_bits (take (bs_p s2) (bs_mem s2)) = bs_bits s2"
    using bs_align_0_spec [OF s1(2)] s1(3) by metis
  define r where "r = bs_read_init (take (bs_p s2) (bs_mem s2))"
  have "bsr_ok r" "bsr_bits r = fields_bits fs @ replicate k False"
    using s2 by (simp_all add: r_def bs_read_init_def bsr_ok_def bsr_bits_def)
  then show ?thesis
    using bsrd.rd_all_fields [of r fs] assms(1) s0(1) s1(1) s2(1) by (fastforce simp: r_def)
qed

theorem bitstream_roundtrip_witness:
  "\<exists>s0 s1 s2. bs_init (replicate 12 0) 0 12 = Some s0
     \<and> bsw.wr_all s0 [(3, 5), (32, 0xdeadbeef), (7, 0x41)] = Some s1 \<and> bs_align_0 s1 = Some s2
     \<and> fst (bsrd.rd_all (bs_read_init (take (bs_p s2) (bs_mem s2))) [3, 32, 7]) = [5, 0xdeadbeef, 0x41]"
  using bitstream_roundtrip [of "[(3, 5), (32, 0xdeadbeef), (7, 0x41)]" "replicate 12 0"]
  by (simp add: field_ok_def)

text \<open>C4 The unsigned writers append the exponential Golomb code of their argument: \<open>bs_write_ue_big\<close>
  for every value whose successor fits in 31 bits, and \<open>bs_write_ue\<close>, with one table look-up and one
  write, the same code for every value under 255, the bound its comment gives.\<close>

theorem ue_writers_golomb:
  assumes "bs_ok s" "bs_room s 63" "v + 1 < 2 ^ 31"
  shows "(\<exists>s'. bs_write_ue_big s (word_of_nat v) = Some s' \<and> bs_ok s'
              \<and> bs_bits s' = bs_bits s @ ue_bits v)
         \<and> (v < 255 \<longrightarrow> (\<exists>s'. bs_write_ue s (int v) = Some s' \<and> bs_ok s'
              \<and> bs_bits s' = bs_bits s @ ue_bits v))"
proof (intro conjI impI)
  show "\<exists>s'. bs_write_ue_big s (word_of_nat v) = Some s' \<and> bs_ok s'
             \<and> bs_bits s' = bs_bits s @ ue_bits v"
    using bs_write_ue_big_spec [OF assms(1,3,2)] by metis
  assume "v < 255"
  moreover have "bs_room s 16"
    using bs_room_le [OF assms(2), of 16] by simp
  ultimately show "\<exists>s'. bs_write_ue s (int v) = Some s' \<and> bs_ok s'
             \<and> bs_bits s' = bs_bits s @ ue_bits v"
    using bs_write_ue_spec [OF assms(1)] by metis
qed

definition bs_wit :: bs where
  "bs_wit = \<lparr>bs_mem = replicate 16 0, bs_p = 0, bs_end = 16, bs_cur = 0, bs_left = 64\<rparr>"

theorem ue_writers_golomb_witness:
  "(\<exists>s'. bs_write_ue_big bs_wit (word_of_nat 5) = Some s' \<and> bs_bits s' = [False, False, True, True, False])
   \<and> (\<exists>s'. bs_write_ue bs_wit (int 5) = Some s' \<and> bs_bits s' = [False, False, True, True, False])"
proof -
  have u: "ue_bits 5 = [False, False, True, True, False]"
    by code_simp
  show ?thesis
    using ue_writers_golomb [of bs_wit 5, unfolded u]
    by (auto simp: bs_ok_def bs_room_def bs_bits_def bs_wit_def)
qed

text \<open>The signed writer appends the exponential Golomb code of the value mapped to the naturals
  (positive \<open>v\<close> to \<open>2v - 1\<close>, others to \<open>-2v\<close>), for every value of magnitude below 2 to the 15.\<close>

theorem se_writer_golomb:
  assumes "bs_ok s" "bs_room s 31" "\<bar>v\<bar> < 32768"
  shows "\<exists>s'. bs_write_se s v = Some s' \<and> bs_ok s' \<and> bs_bits s' = bs_bits s @ ue_bits (se_map v)"
  using bs_write_se_spec [OF assms(1,3,2)] by metis

theorem se_writer_golomb_witness:
  "\<exists>s'. bs_write_se bs_wit (- 2) = Some s' \<and> bs_bits s' = [False, False, True, False, True]"
proof -
  have u: "ue_bits (se_map (- 2)) = [False, False, True, False, True]"
    by code_simp
  show ?thesis
    using se_writer_golomb [of bs_wit "- 2", unfolded u]
    by (auto simp: bs_ok_def bs_room_def bs_bits_def bs_wit_def)
qed

section \<open>Composing writers\<close>

text \<open>A writer appends given bits to any writer state that has room for them.\<close>

definition writes :: "(bs \<Rightarrow> bs option) \<Rightarrow> bool list \<Rightarrow> bool" where
  "writes f bits \<longleftrightarrow> (\<forall>s. bs_ok s \<and> bs_room s (length bits) \<longrightarrow>
     (\<exists>s'. f s = Some s' \<and> bs_ok s' \<and> bs_bits s' = bs_bits s @ bits
           \<and> length (bs_mem s') = length (bs_mem s)))"

named_theorems writes_rules

lemma writesD:
  assumes "writes f bits" "bs_ok s" "bs_room s (length bits)"
  obtains s' where "f s = Some s'" "bs_ok s'" "bs_bits s' = bs_bits s @ bits"
    "length (bs_mem s') = length (bs_mem s)"
  using assms unfolding writes_def by blast

lemma writes_Some [writes_rules]: "writes Some []"
  by (simp add: writes_def)

lemma writes_write [writes_rules]:
  assumes "n \<le> 32" "uint v < 2 ^ n"
  shows "writes (\<lambda>s. bs_write s n v) (bits_be n v)"
  unfolding writes_def using bs_write_spec [OF _ assms] by (metis length_bits_be)

lemma writes_write1 [writes_rules]:
  assumes "uint v < 2"
  shows "writes (\<lambda>s. bs_write1 s v) [bit v 0]"
proof -
  have "writes (\<lambda>s. bs_write s 1 v) (bits_be 1 v)"
    using assms by (intro writes_write) simp_all
  then show ?thesis
    by (auto simp: writes_def bs_write1_eq bits_be_def)
qed

lemma writes_bind [writes_rules]:
  assumes "writes f a" "writes g b"
  shows "writes (\<lambda>s. Option.bind (f s) g) (a @ b)"
  unfolding writes_def
proof (intro allI impI)
  fix s assume s: "bs_ok s \<and> bs_room s (length (a @ b))"
  have "bs_room s (length a)"
    using s by (auto simp: bs_room_def)
  then obtain s1 where s1: "f s = Some s1" "bs_ok s1" "bs_bits s1 = bs_bits s @ a"
    "length (bs_mem s1) = length (bs_mem s)"
    using writesD [OF assms(1)] s by blast
  have "bs_room s1 (length b)"
    using s s1(3,4) by (simp add: bs_room_def)
  then obtain s2 where "g s1 = Some s2" "bs_ok s2" "bs_bits s2 = bs_bits s1 @ b"
    "length (bs_mem s2) = length (bs_mem s1)"
    using writesD [OF assms(2) s1(2)] by blast
  then show "\<exists>s'. Option.bind (f s) g = Some s' \<and> bs_ok s' \<and> bs_bits s' = bs_bits s @ a @ b
               \<and> length (bs_mem s') = length (bs_mem s)"
    using s1 by simp
qed

text \<open>Byte strings are determined by their bits.\<close>

lemma byte_bits_inj: "byte_bits a = byte_bits b \<Longrightarrow> a = b"
  unfolding byte_bits_def by (rule bits_be_inj [of 8]) (auto dest: bit_imp_le_length)

lemma bytes_bits_inj: "bytes_bits xs = bytes_bits ys \<Longrightarrow> xs = ys"
proof (induction xs arbitrary: ys)
  case Nil
  then show ?case by (cases ys) (auto dest: arg_cong [where f = length])
next
  case (Cons x xs)
  then obtain y ys' where ys: "ys = y # ys'"
    by (cases ys) (auto dest: arg_cong [where f = length])
  then have "byte_bits x = byte_bits y" "bytes_bits xs = bytes_bits ys'"
    using Cons.prems by (simp_all add: append_eq_append_conv)
  then show ?case
    using Cons.IH byte_bits_inj ys by blast
qed

lemma bits_be_bytes:
  "bits_be 8 v = bytes_bits [ucast (v :: u32)]" "bits_be 16 v = bytes_bits [ucast (drop_bit 8 v), ucast v]"
proof -
  show "bits_be 8 v = bytes_bits [ucast v]"
    by (simp add: byte_bits_def) (rule bits_be_cong, simp add: bit_simps)
  have "bits_be 16 v = bits_be 8 (drop_bit 8 v) @ bits_be 8 v"
    using bits_be_append [of 8 8 v] by simp
  also have "\<dots> = bytes_bits [ucast (drop_bit 8 v), ucast v]"
    by (simp add: byte_bits_def) (rule conjI; rule bits_be_cong, simp add: bit_simps)
  finally show "bits_be 16 v = bytes_bits [ucast (drop_bit 8 v), ucast v]" .
qed

text \<open>Writing the characters of an identifier one by one.\<close>

fun write_codes :: "u32 list \<Rightarrow> bs \<Rightarrow> bs option" where
  "write_codes [] s = Some s"
| "write_codes (c # cs) s = do { s \<leftarrow> bs_write s 8 c; write_codes cs s }"

lemma writes_codes [writes_rules]:
  "list_all (\<lambda>c. uint c < 256) cs \<Longrightarrow> writes (\<lambda>s. write_codes cs s) (bytes_bits (map ucast cs))"
proof (induction cs)
  case Nil
  then show ?case using writes_Some by (simp add: writes_def)
next
  case (Cons c cs)
  have "writes (\<lambda>s. Option.bind (bs_write s 8 c) (\<lambda>s. write_codes cs s))
          (bits_be 8 c @ bytes_bits (map ucast cs))"
    using Cons by (intro writes_bind writes_write) simp_all
  then show ?case
    by (simp add: bits_be_bytes)
qed

text \<open>Restarting the writer behind bytes that were copied in.\<close>

lemma un_le32_bits:
  assumes "length bs = 4"
  shows "bits_be 32 (endian_fix32 (un_le32 bs)) = bytes_bits bs"
proof -
  obtain a b c d where bs: "bs = [a, b, c, d]"
    using assms by (auto simp: length_Suc_conv numeral_eq_Suc)
  have "le32 (un_le32 bs) = bs"
    unfolding le32_def un_le32_def bs
    by (auto intro!: bit_word_eqI simp: bit_simps) (drule bit_imp_le_length, simp)+
  moreover have "endian_fix32 (endian_fix32 x) = x" for x
    by (rule bit_word_eqI) (auto simp: bit_endian_fix32)
  ultimately show ?thesis
    using le32_fix_bits [of "endian_fix32 (un_le32 bs)"] by simp
qed

lemma reload_bits:
  assumes "length bs = 4" "off \<le> 4"
  shows "bits_be (8 * off) (drop_bit ((4 - off) * 8) (ucast (endian_fix32 (un_le32 bs)) :: u64))
         = bytes_bits (take off bs)"
proof -
  have "bytes_bits (take off bs) = take (8 * off) (bits_be 32 (endian_fix32 (un_le32 bs)))"
    by (simp add: bytes_bits_take un_le32_bits assms(1))
  also have "\<dots> = bits_be (8 * off) (drop_bit (32 - 8 * off) (endian_fix32 (un_le32 bs)))"
    using assms(2) by (intro take_bits_be) simp
  also have "\<dots> = bits_be (8 * off) (drop_bit ((4 - off) * 8) (ucast (endian_fix32 (un_le32 bs)) :: u64))"
    using assms(2) by (intro bits_be_cong) (auto simp: bit_simps algebra_simps)
  finally show ?thesis by simp
qed

end
