(* ===== verification/Obe_Ring.thy ===== *)
theory Obe_Ring
  imports Obe_Prelude
begin

text \<open>
  \<open>encoders/audio/ac3bitstream/klringbuffer.c\<close>: the growable byte ring buffer between the AC3
  detector and the AC3 pass-through encoder, and inside the SMPTE 337 detector.

  A cell is \<^const>\<open>None\<close> while it has not been written since it was allocated.  An operation is
  \<^const>\<open>None\<close> when the code would access memory outside the allocation, dereference NULL, or wait
  for a mutex its own thread holds.  \<open>size_t\<close> subtraction wraps at 2 to the 64.  The outcome of
  the first allocation is the parameter \<open>alloc\<close>; the code does not look at the result of \<open>realloc\<close>,
  which is taken to succeed.
\<close>

(* src: encoders/audio/ac3bitstream/klringbuffer.h 41-53 KLRingBuffer *)
record 'a ring =
  rb_data :: "'a option list"
  rb_size :: nat
  rb_size_initial :: nat
  rb_size_max :: nat
  rb_head :: nat
  rb_fill :: nat
  rb_using_mutex :: bool

(* src: encoders/audio/ac3bitstream/klringbuffer.c 18-42 rb_new *)
definition rb_new :: "bool \<Rightarrow> nat \<Rightarrow> nat \<Rightarrow> 'a ring option" where
  "rb_new alloc sz size_max =
     (if sz = 0 \<or> sz > size_max \<or> \<not> alloc then None
      else Some \<lparr>rb_data = replicate sz None, rb_size = sz, rb_size_initial = sz,
                 rb_size_max = size_max, rb_head = 0, rb_fill = 0, rb_using_mutex = False\<rparr>)"

text \<open>The result of \<open>rb_new\<close> is dereferenced unchecked.\<close>

(* src: encoders/audio/ac3bitstream/klringbuffer.c 44-49 rb_new_threadsafe *)
definition rb_new_threadsafe :: "bool \<Rightarrow> nat \<Rightarrow> nat \<Rightarrow> 'a ring option" where
  "rb_new_threadsafe alloc sz size_max =
     do { rb \<leftarrow> rb_new alloc sz size_max; Some (rb\<lparr>rb_using_mutex := True\<rparr>) }"

(* src: encoders/audio/ac3bitstream/klringbuffer.c 51-61 rb_is_empty *)
definition rb_is_empty :: "'a ring \<Rightarrow> bool" where
  "rb_is_empty rb \<longleftrightarrow> rb_fill rb = 0"

(* src: encoders/audio/ac3bitstream/klringbuffer.c 63-73 rb_is_full *)
definition rb_is_full :: "'a ring \<Rightarrow> bool" where
  "rb_is_full rb \<longleftrightarrow> rb_fill rb = rb_size_max rb"

(* src: encoders/audio/ac3bitstream/klringbuffer.c 75-89 rb_used *)
definition rb_used :: "'a ring \<Rightarrow> nat" where
  "rb_used rb = rb_fill rb"

definition size_t_minus :: "nat \<Rightarrow> nat \<Rightarrow> nat" where
  "size_t_minus a b = (a + (2 ^ 64 - b mod 2 ^ 64)) mod 2 ^ 64"

(* src: encoders/audio/ac3bitstream/klringbuffer.c 91-100 rb_unused *)
definition rb_unused :: "'a ring \<Rightarrow> nat" where
  "rb_unused rb = size_t_minus (rb_size_max rb) (rb_fill rb)"

(* src: encoders/audio/ac3bitstream/klringbuffer.c 102-107 rb_empty *)
definition rb_empty :: "'a ring \<Rightarrow> 'a ring" where
  "rb_empty rb = rb\<lparr>rb_head := 0, rb_fill := 0\<rparr>"

(* src: encoders/audio/ac3bitstream/klringbuffer.c 109-126 _rb_remain_in_seg *)
definition rb_remain_in_seg :: "'a ring \<Rightarrow> nat" where
  "rb_remain_in_seg rb = size_t_minus (rb_size rb) (rb_fill rb)"

text \<open>\<open>realloc\<close> keeps the old cells where they are and adds unwritten ones behind them.\<close>

(* src: encoders/audio/ac3bitstream/klringbuffer.c 128-141 _rb_grow *)
definition rb_grow :: "nat \<Rightarrow> 'a ring \<Rightarrow> int \<times> 'a ring" where
  "rb_grow increment rb =
     (if rb_size rb + increment > rb_size_max rb then (-2, rb)
      else (0, rb\<lparr>rb_data := rb_data rb @ replicate increment None,
                  rb_size := rb_size rb + increment\<rparr>))"

(* src: encoders/audio/ac3bitstream/klringbuffer.c 143-148 _rb_shrink_reset *)
definition rb_shrink_reset :: "'a ring \<Rightarrow> 'a ring" where
  "rb_shrink_reset rb =
     rb\<lparr>rb_data := take (rb_size_initial rb) (rb_data rb), rb_size := rb_size_initial rb,
        rb_head := 0, rb_fill := 0\<rparr>"

(* src: encoders/audio/ac3bitstream/klringbuffer.c 150-153 _advance_tail *)
definition advance_tail :: "nat \<Rightarrow> 'a ring \<Rightarrow> 'a ring" where
  "advance_tail n rb = rb\<lparr>rb_fill := (rb_fill rb + n) mod 2 ^ 64\<rparr>"

(* src: encoders/audio/ac3bitstream/klringbuffer.c 232-236 _advance_head *)
definition advance_head :: "nat \<Rightarrow> 'a ring \<Rightarrow> 'a ring" where
  "advance_head n rb =
     rb\<lparr>rb_head := (rb_head rb + n) mod rb_size rb, rb_fill := size_t_minus (rb_fill rb) n\<rparr>"

text \<open>\<open>held\<close>: the calling thread holds the mutex already.\<close>

(* src: encoders/audio/ac3bitstream/klringbuffer.c 238-243 rb_discard *)
definition rb_discard :: "bool \<Rightarrow> nat \<Rightarrow> 'a ring \<Rightarrow> 'a ring option" where
  "rb_discard held n rb = (if held \<and> rb_using_mutex rb then None else Some (advance_head n rb))"

text \<open>
  \<open>rb_write_with_state\<close>: make room (grow, or on failure discard as many of the oldest bytes), then
  copy.  The copy is in one piece when the tail is not behind the end of the write.  On the
  overflow path the mutex has been released when \<open>rb_discard\<close> takes and releases it, and the
  copy goes on without it.
\<close>

(* src: encoders/audio/ac3bitstream/klringbuffer.c 155-173 rb_write_with_state *)
definition rb_make_room :: "nat \<Rightarrow> 'a ring \<Rightarrow> (bool \<times> 'a ring) option" where
  "rb_make_room n rb =
     (if n > rb_remain_in_seg rb
      then (case rb_grow (n * 128) rb of (r, rb1) \<Rightarrow>
              if r < 0 then map_option (\<lambda>rb2. (True, rb2)) (rb_discard False n rb1)
              else Some (False, rb1))
      else Some (False, rb))"

(* src: encoders/audio/ac3bitstream/klringbuffer.c 175-192 rb_write_with_state *)
definition rb_copy_in :: "'a list \<Rightarrow> 'a ring \<Rightarrow> 'a ring option" where
  "rb_copy_in from rb =
     (let n = length from;
          tail = (rb_head rb + rb_fill rb) mod 2 ^ 64 mod rb_size rb;
          write_end = (rb_head rb + rb_fill rb + n) mod 2 ^ 64 mod rb_size rb
      in if tail \<le> write_end
         then do { d \<leftarrow> mem_put tail (map Some from) (rb_data rb);
                   Some (advance_tail n (rb\<lparr>rb_data := d\<rparr>)) }
         else let first_write = rb_size rb - tail
              in if n < first_write then None
                 else do { d \<leftarrow> mem_put tail (map Some (take first_write from)) (rb_data rb);
                           d \<leftarrow> mem_put 0 (map Some (drop first_write from)) d;
                           Some (advance_tail n (rb\<lparr>rb_data := d\<rparr>)) })"

(* src: encoders/audio/ac3bitstream/klringbuffer.c 155-193 rb_write_with_state *)
definition rb_write_with_state :: "'a list \<Rightarrow> 'a ring \<Rightarrow> (nat \<times> bool \<times> 'a ring) option" where
  "rb_write_with_state from rb =
     do { (ovf, rb) \<leftarrow> rb_make_room (length from) rb;
          rb \<leftarrow> rb_copy_in from rb;
          Some (length from, ovf, rb) }"

text \<open>
  \<open>rb_write\<close> passes a NULL \<open>didOverflow\<close>, which the callee stores through before anything else.
\<close>

(* src: encoders/audio/ac3bitstream/klringbuffer.c 195-198 rb_write *)
definition rb_write :: "'a list \<Rightarrow> 'a ring \<Rightarrow> (nat \<times> 'a ring) option" where
  "rb_write from rb =
     (let did_overflow = (None :: bool option)
      in case did_overflow of
           None \<Rightarrow> None
         | Some _ \<Rightarrow> map_option (\<lambda>(n, ovf, rb). (n, rb)) (rb_write_with_state from rb))"

(* src: encoders/audio/ac3bitstream/klringbuffer.c 258-271 rb_reader *)
definition rb_copy_out :: "nat \<Rightarrow> 'a ring \<Rightarrow> 'a option list option" where
  "rb_copy_out n rb =
     (let head = rb_head rb;
          end_read = (rb_head rb + n) mod rb_size rb
      in if end_read \<le> head
         then let first_read = rb_size rb - head
              in if n < first_read then None
                 else do { a \<leftarrow> mem_get head first_read (rb_data rb);
                           b \<leftarrow> mem_get 0 (n - first_read) (rb_data rb);
                           Some (a @ b) }
         else mem_get head n (rb_data rb))"

(* src: encoders/audio/ac3bitstream/klringbuffer.c 245-284 rb_reader *)
definition rb_reader :: "nat \<Rightarrow> bool \<Rightarrow> 'a ring \<Rightarrow> ('a option list \<times> 'a ring) option" where
  "rb_reader bytes advance rb =
     (let n = (if bytes > rb_used rb then rb_used rb else bytes)
      in if n = 0 then Some ([], rb)
         else do { out \<leftarrow> rb_copy_out n rb;
                   let rb1 = (if advance then advance_head n rb else rb)
                   in Some (out, if rb_used rb1 = 0 \<and> rb_size rb1 > rb_size_initial rb1
                                 then rb_shrink_reset rb1 else rb1) })"

(* src: encoders/audio/ac3bitstream/klringbuffer.c 286-289 rb_read *)
definition rb_read :: "nat \<Rightarrow> 'a ring \<Rightarrow> ('a option list \<times> 'a ring) option" where
  "rb_read bytes rb = rb_reader bytes True rb"

(* src: encoders/audio/ac3bitstream/klringbuffer.c 291-298 rb_read_alloc *)
definition rb_read_alloc :: "bool \<Rightarrow> nat \<Rightarrow> 'a ring \<Rightarrow> ('a option list \<times> 'a ring) option" where
  "rb_read_alloc alloc bytes rb = (if alloc then rb_reader bytes True rb else Some ([], rb))"

(* src: encoders/audio/ac3bitstream/klringbuffer.c 300-303 rb_peek *)
definition rb_peek :: "nat \<Rightarrow> 'a ring \<Rightarrow> ('a option list \<times> 'a ring) option" where
  "rb_peek bytes rb = rb_reader bytes False rb"


section \<open>Contents and invariant\<close>

definition rb_ok :: "'a ring \<Rightarrow> bool" where
  "rb_ok rb \<longleftrightarrow> 0 < rb_size_initial rb \<and> rb_size_initial rb \<le> rb_size rb
     \<and> length (rb_data rb) = rb_size rb \<and> rb_head rb < rb_size rb \<and> rb_fill rb \<le> rb_size rb
     \<and> rb_size rb < 2 ^ 62"

definition rb_bytes :: "'a ring \<Rightarrow> 'a option list" where
  "rb_bytes rb = map (\<lambda>i. rb_data rb ! ((rb_head rb + i) mod rb_size rb)) [0..<rb_fill rb]"

lemma length_rb_bytes [simp]: "length (rb_bytes rb) = rb_fill rb"
  by (simp add: rb_bytes_def)

lemma rb_bytes_nth:
  "i < rb_fill rb \<Longrightarrow> rb_bytes rb ! i = rb_data rb ! ((rb_head rb + i) mod rb_size rb)"
  by (simp add: rb_bytes_def)

lemma mod_once: "a < 2 * m \<Longrightarrow> a mod m = (if a < m then a else a - m)" for a m :: nat
  by (simp add: mod_if)

lemma size_t_minus_le: "b \<le> a \<Longrightarrow> a < 2 ^ 64 \<Longrightarrow> size_t_minus a b = a - b"
  by (cases "b = 0") (simp_all add: size_t_minus_def mod_if)

lemma rb_remain: "rb_ok rb \<Longrightarrow> rb_remain_in_seg rb = rb_size rb - rb_fill rb"
  by (simp add: rb_remain_in_seg_def rb_ok_def size_t_minus_le)

lemma rb_remain_less:
  "rb_ok rb \<Longrightarrow> n > rb_remain_in_seg rb \<longleftrightarrow> rb_size rb < rb_fill rb + n"
  by (auto simp: rb_remain rb_ok_def)

text \<open>The copy appends, except that a write of exactly the whole size at a nonzero offset runs past
  the end of the allocation.\<close>

lemma rb_copy_in_spec:
  assumes "rb_ok rb" "rb_fill rb + length from \<le> rb_size rb"
    and "length from = rb_size rb \<Longrightarrow> rb_head rb = 0"
  obtains rb' where "rb_copy_in from rb = Some rb'" "rb_ok rb'"
    "rb_bytes rb' = rb_bytes rb @ map Some from"
    "rb_head rb' = rb_head rb" "rb_size rb' = rb_size rb" "rb_fill rb' = rb_fill rb + length from"
    "rb_size_max rb' = rb_size_max rb" "rb_size_initial rb' = rb_size_initial rb"
proof -
  define n h f z where "n = length from" and "h = rb_head rb" and "f = rb_fill rb" and "z = rb_size rb"
  have b: "h < z" "f + n \<le> z" "z < 2 ^ 62" "length (rb_data rb) = z" "n = z \<Longrightarrow> h = 0 \<and> f = 0"
    using assms by (auto simp: rb_ok_def n_def h_def f_def z_def)
  define t where "t = (h + f) mod z"
  have wt: "(h + f) mod 2 ^ 64 = h + f" "(h + f + n) mod 2 ^ 64 = h + f + n"
    using b by auto
  have t: "t = (if h + f < z then h + f else h + f - z)"
    unfolding t_def using b by (intro mod_once) simp
  have e: "(h + f + n) mod z = (if h + f + n < z then h + f + n else h + f + n - z)"
    using b by (intro mod_once) linarith
  define d where "d = map (\<lambda>i. if (z + i - t) mod z < n then Some (from ! ((z + i - t) mod z))
                               else rb_data rb ! i) [0..<z]"
  have tz: "t < z" using t b by auto
  have dm: "(z + i - t) mod z = (if t \<le> i then i - t else z + i - t)" if "i < z" for i
    using that tz by (auto simp: mod_if)
  have "rb_copy_in from rb = Some (advance_tail n (rb\<lparr>rb_data := d\<rparr>))"
  proof (cases "t \<le> (h + f + n) mod z")
    case True
    then have le: "t + n \<le> z"
      using e t b by (auto split: if_splits)
    have "splice t (map Some from) (rb_data rb) = d"
    proof (rule nth_equalityI)
      fix i assume "i < length (splice t (map Some from) (rb_data rb))"
      then have i: "i < z" using le b by (simp add: n_def)
      show "splice t (map Some from) (rb_data rb) ! i = d ! i"
        using i le b tz dm [OF i] by (auto simp: splice_nth d_def n_def)
    qed (use le b in \<open>simp add: d_def n_def\<close>)
    then show ?thesis
      using True le b by (simp add: rb_copy_in_def Let_def n_def [symmetric] h_def [symmetric]
          f_def [symmetric] z_def [symmetric] wt t_def [symmetric])
  next
    case False
    then have w: "z - t \<le> n" "n - (z - t) \<le> t"
      using e t b by (auto split: if_splits)
    define a where "a = splice t (map Some (take (z - t) from)) (rb_data rb)"
    have la: "length a = z"
      using w tz b by (simp add: a_def n_def)
    have "splice 0 (map Some (drop (z - t) from)) a = d"
    proof (rule nth_equalityI)
      fix i assume "i < length (splice 0 (map Some (drop (z - t) from)) a)"
      then have i: "i < z" using w la tz by (simp add: n_def)
      show "splice 0 (map Some (drop (z - t) from)) a ! i = d ! i"
      proof (cases "i < n - (z - t)")
        case True
        then show ?thesis
          using i w la tz b dm [OF i] by (auto simp: splice_nth d_def n_def)
      next
        case F: False
        have "splice 0 (map Some (drop (z - t) from)) a ! i = a ! i"
          using F i la w tz by (simp add: splice_nth n_def)
        also have "\<dots> = d ! i"
          using F i w tz b dm [OF i] by (auto simp: a_def splice_nth d_def n_def)
        finally show ?thesis .
      qed
    qed (use w la tz in \<open>simp add: d_def n_def\<close>)
    then show ?thesis
      using False w tz b la by (simp add: rb_copy_in_def Let_def n_def [symmetric] h_def [symmetric]
          f_def [symmetric] z_def [symmetric] wt t_def [symmetric] a_def)
  qed
  moreover define rb' where "rb' = advance_tail n (rb\<lparr>rb_data := d\<rparr>)"
  moreover have fl: "rb_fill rb' = f + n" "rb_size rb' = z" "rb_head rb' = h" "rb_data rb' = d"
    using b by (auto simp: rb'_def advance_tail_def f_def z_def h_def)
  moreover have "rb_ok rb'"
    using assms(1) b fl by (auto simp: rb_ok_def rb'_def advance_tail_def d_def z_def n_def)
  moreover have "rb_bytes rb' = rb_bytes rb @ map Some from"
  proof (rule nth_equalityI)
    fix i assume "i < length (rb_bytes rb')"
    then have i: "i < f + n" using fl by simp
    define j where "j = (h + i) mod z"
    have j: "j = (if h + i < z then h + i else h + i - z)"
      unfolding j_def using i b by (intro mod_once) simp
    have jz: "j < z" using j i b by auto
    have jd: "(h + i < z \<and> j = h + i) \<or> (z \<le> h + i \<and> h + i = j + z)"
      and td: "(h + f < z \<and> t = h + f) \<or> (z \<le> h + f \<and> h + f = t + z)"
      using j t by auto
    have "rb_bytes rb' ! i = d ! j"
      using i fl by (simp add: rb_bytes_nth j_def)
    also have "\<dots> = (rb_bytes rb @ map Some from) ! i"
    proof (cases "i < f")
      case True
      have "n \<le> (z + j - t) mod z"
        unfolding dm [OF jz] using True jd td b by (elim disjE) (auto simp: le_diff_conv2)
      then show ?thesis
        using True jz by (simp add: d_def nth_append rb_bytes_nth f_def h_def [symmetric]
                          z_def [symmetric] j_def [symmetric])
    next
      case False
      have "(z + j - t) mod z = i - f"
        unfolding dm [OF jz] using False jd td b i by (elim disjE) auto
      moreover have lt: "i - f < n"
        using False i by simp
      ultimately have "d ! j = Some (from ! (i - f))"
        using jz by (simp add: d_def)
      then show ?thesis
        using False lt by (simp add: nth_append f_def n_def)
    qed
    finally show "rb_bytes rb' ! i = (rb_bytes rb @ map Some from) ! i" .
  qed (use fl in \<open>simp add: f_def n_def\<close>)
  moreover have "rb_size_max rb' = rb_size_max rb" "rb_size_initial rb' = rb_size_initial rb"
    by (simp_all add: rb'_def advance_tail_def)
  ultimately show thesis
    using that [of rb'] by (simp add: h_def z_def f_def n_def)
qed

lemma rb_make_room_fits:
  "rb_ok rb \<Longrightarrow> rb_fill rb + n \<le> rb_size rb \<Longrightarrow> rb_make_room n rb = Some (False, rb)"
  by (simp add: rb_make_room_def rb_remain_less)

text \<open>Growing keeps the contents only while they are not wrapped round the end.\<close>

lemma rb_make_room_grow:
  assumes "rb_ok rb" "rb_size rb < rb_fill rb + n" "rb_size rb + n * 128 \<le> rb_size_max rb"
    "rb_size_max rb < 2 ^ 62" "rb_head rb + rb_fill rb \<le> rb_size rb"
  obtains rb' where "rb_make_room n rb = Some (False, rb')" "rb_ok rb'" "rb_bytes rb' = rb_bytes rb"
    "rb_size rb' = rb_size rb + n * 128" "rb_fill rb' = rb_fill rb" "rb_size_max rb' = rb_size_max rb"
    "rb_size_initial rb' = rb_size_initial rb"
proof -
  define rb' where "rb' = rb\<lparr>rb_data := rb_data rb @ replicate (n * 128) None,
                             rb_size := rb_size rb + n * 128\<rparr>"
  have m: "rb_make_room n rb = Some (False, rb')"
    using assms(1-3) by (simp add: rb_make_room_def rb_remain_less rb_grow_def rb'_def)
  have "rb_ok rb'"
    using assms by (auto simp: rb_ok_def rb'_def)
  moreover have "rb_bytes rb' = rb_bytes rb"
    using assms(1,5) by (intro nth_equalityI) (auto simp: rb_bytes_nth rb'_def rb_ok_def nth_append)
  ultimately show thesis
    using that [of rb'] m by (simp add: rb'_def)
qed

lemma rb_advance_head:
  assumes "rb_ok rb" "n \<le> rb_fill rb"
  shows "rb_ok (advance_head n rb)" "rb_bytes (advance_head n rb) = drop n (rb_bytes rb)"
    "rb_fill (advance_head n rb) = rb_fill rb - n" "rb_size (advance_head n rb) = rb_size rb"
    "rb_size_max (advance_head n rb) = rb_size_max rb"
    "rb_size_initial (advance_head n rb) = rb_size_initial rb"
proof -
  show f: "rb_fill (advance_head n rb) = rb_fill rb - n"
    using assms by (simp add: advance_head_def size_t_minus_le rb_ok_def)
  show "rb_ok (advance_head n rb)"
    using assms f by (auto simp: rb_ok_def advance_head_def)
  show "rb_bytes (advance_head n rb) = drop n (rb_bytes rb)"
    using f by (intro nth_equalityI) 
      (auto simp: rb_bytes_nth, simp add: advance_head_def mod_add_left_eq add.assoc)
qed (simp_all add: advance_head_def)

lemma rb_make_room_overflow:
  assumes "rb_ok rb" "rb_size rb < rb_fill rb + n" "rb_size_max rb < rb_size rb + n * 128"
    "n \<le> rb_fill rb"
  shows "rb_make_room n rb = Some (True, advance_head n rb)"
  using assms by (simp add: rb_make_room_def rb_remain_less rb_grow_def rb_discard_def)

lemma rb_shrink_reset_ok:
  "rb_ok rb \<Longrightarrow> rb_ok (rb_shrink_reset rb) \<and> rb_bytes (rb_shrink_reset rb) = []"
  by (auto simp: rb_ok_def rb_shrink_reset_def rb_bytes_def)

lemma rb_reader_spec:
  assumes "rb_ok rb"
  obtains rb' where "rb_reader n adv rb = Some (take n (rb_bytes rb), rb')" "rb_ok rb'"
    "rb_bytes rb' = (if adv then drop n (rb_bytes rb) else rb_bytes rb)"
    "rb_size_max rb' = rb_size_max rb" "rb_size_initial rb' = rb_size_initial rb"
proof -
  define m h z where "m = min n (rb_fill rb)" and "h = rb_head rb" and "z = rb_size rb"
  have m: "(if n > rb_used rb then rb_used rb else n) = m" "take n (rb_bytes rb) = take m (rb_bytes rb)"
    "drop n (rb_bytes rb) = drop m (rb_bytes rb)" "m \<le> rb_fill rb"
    by (auto simp: rb_used_def m_def min_def)
  have b: "h < z" "m \<le> z" "length (rb_data rb) = z"
    using assms m(4) by (auto simp: rb_ok_def h_def z_def)
  show thesis
  proof (cases "m = 0")
    case True
    then show thesis
      using that [of rb] assms m by (simp add: rb_reader_def)
  next
    case False
    have tk: "take m (rb_bytes rb) = map (\<lambda>i. rb_data rb ! ((h + i) mod z)) [0..<m]"
      using m(4) by (intro nth_equalityI) (auto simp: rb_bytes_nth h_def z_def)
    have e: "(h + m) mod z = (if h + m < z then h + m else h + m - z)"
      using b by (intro mod_once) simp
    have out: "rb_copy_out m rb = Some (take m (rb_bytes rb))"
    proof (cases "(h + m) mod z \<le> h")
      case True
      then have w: "z - h \<le> m" "m - (z - h) \<le> z"
        using e b False by (auto split: if_splits)
      have "take (z - h) (drop h (rb_data rb)) @ take (m - (z - h)) (rb_data rb)
            = map (\<lambda>i. rb_data rb ! ((h + i) mod z)) [0..<m]"
      proof (rule nth_equalityI)
        fix i assume "i < length (take (z - h) (drop h (rb_data rb)) @ take (m - (z - h)) (rb_data rb))"
        then have i: "i < m" using w b by simp
        have "(h + i) mod z = (if h + i < z then h + i else h + i - z)"
          using i b by (intro mod_once) simp
        then show "(take (z - h) (drop h (rb_data rb)) @ take (m - (z - h)) (rb_data rb)) ! i
            = map (\<lambda>i. rb_data rb ! ((h + i) mod z)) [0..<m] ! i"
          using i w b by (auto simp: nth_append less_diff_conv intro: arg_cong [where f = "(!) (rb_data rb)"])
      qed (use w b in simp)
      then show ?thesis
        using True w b tk
        by (simp add: rb_copy_out_def h_def [symmetric] z_def [symmetric] Let_def)
    next
      case F: False
      then have w: "h + m < z"
        using e b by (auto split: if_splits)
      have "take m (drop h (rb_data rb)) = map (\<lambda>i. rb_data rb ! ((h + i) mod z)) [0..<m]"
        using w b by (intro nth_equalityI) auto
      then show ?thesis
        using F w b tk
        by (simp add: rb_copy_out_def h_def [symmetric] z_def [symmetric] Let_def)
    qed
    define rb1 where "rb1 = (if adv then advance_head m rb else rb)"
    define rb2 where "rb2 = (if rb_used rb1 = 0 \<and> rb_size rb1 > rb_size_initial rb1
                             then rb_shrink_reset rb1 else rb1)"
    have r: "rb_reader n adv rb = Some (take m (rb_bytes rb), rb2)"
      using out False
      by (simp add: rb_reader_def m(1) Let_def rb1_def rb2_def)
    have ok1: "rb_ok rb1" "rb_bytes rb1 = (if adv then drop m (rb_bytes rb) else rb_bytes rb)"
      using rb_advance_head [OF assms m(4)] assms by (auto simp: rb1_def)
    have "rb_used rb1 = 0 \<Longrightarrow> rb_bytes rb1 = []"
      by (simp add: rb_used_def rb_bytes_def)
    then have "rb_ok rb2" "rb_bytes rb2 = rb_bytes rb1"
      using ok1(1) rb_shrink_reset_ok [OF ok1(1)] by (auto simp: rb2_def)
    moreover have "rb_size_max rb2 = rb_size_max rb" "rb_size_initial rb2 = rb_size_initial rb"
      by (simp_all add: rb2_def rb1_def advance_head_def rb_shrink_reset_def)
    ultimately show thesis
      using that [of rb2] r ok1 m by simp
  qed
qed

lemma rb_write_fits:
  assumes "rb_ok rb" "rb_fill rb + length from \<le> rb_size rb"
    "length from = rb_size rb \<Longrightarrow> rb_head rb = 0"
  obtains rb' where "rb_write_with_state from rb = Some (length from, False, rb')" "rb_ok rb'"
    "rb_bytes rb' = rb_bytes rb @ map Some from" "rb_size_max rb' = rb_size_max rb"
    "rb_size_initial rb' = rb_size_initial rb"
  using rb_copy_in_spec [OF assms] rb_make_room_fits [OF assms(1,2)]
  by (metis (no_types, lifting) Option.bind.simps(2) rb_write_with_state_def split_conv)


section \<open>The byte FIFO interface\<close>

text \<open>
  What the detector and the encoder rely on: a write with room for it appends, a read takes the oldest
  bytes, as many as there are, and a peek returns the same bytes and takes none.  A write has room when
  the bytes held and the new ones are no more than the capacity, and the new ones alone are fewer.
\<close>

datatype 'a rop = Wr "'a list" | Rd nat | Pk nat

text \<open>What an operation returns: the count and the overflow flag of a write, the bytes of a read.\<close>

datatype 'c reply = Wrote nat bool | Got "'c list"

fun run_script ::
    "('a list \<Rightarrow> 'q \<Rightarrow> (nat \<times> bool \<times> 'q) option) \<Rightarrow> (nat \<Rightarrow> 'q \<Rightarrow> ('c list \<times> 'q) option)
     \<Rightarrow> (nat \<Rightarrow> 'q \<Rightarrow> ('c list \<times> 'q) option) \<Rightarrow> 'a rop list \<Rightarrow> 'q \<Rightarrow> ('c reply list \<times> 'q) option" where
  "run_script put get peek [] q = Some ([], q)"
| "run_script put get peek (Wr xs # ops) q =
     do { (n, ovf, q) \<leftarrow> put xs q; (rs, q) \<leftarrow> run_script put get peek ops q; Some (Wrote n ovf # rs, q) }"
| "run_script put get peek (Rd n # ops) q =
     do { (ys, q) \<leftarrow> get n q; (rs, q) \<leftarrow> run_script put get peek ops q; Some (Got ys # rs, q) }"
| "run_script put get peek (Pk n # ops) q =
     do { (ys, q) \<leftarrow> peek n q; (rs, q) \<leftarrow> run_script put get peek ops q; Some (Got ys # rs, q) }"

text \<open>The specification: the same script on a plain list, its replies and the list it leaves.\<close>

fun fifo_replies :: "('a \<Rightarrow> 'c) \<Rightarrow> 'a rop list \<Rightarrow> 'c list \<Rightarrow> 'c reply list" where
  "fifo_replies cell [] ys = []"
| "fifo_replies cell (Wr xs # ops) ys = Wrote (length xs) False # fifo_replies cell ops (ys @ map cell xs)"
| "fifo_replies cell (Rd n # ops) ys = Got (take n ys) # fifo_replies cell ops (drop n ys)"
| "fifo_replies cell (Pk n # ops) ys = Got (take n ys) # fifo_replies cell ops ys"

fun fifo_left :: "('a \<Rightarrow> 'c) \<Rightarrow> 'a rop list \<Rightarrow> 'c list \<Rightarrow> 'c list" where
  "fifo_left cell [] ys = ys"
| "fifo_left cell (Wr xs # ops) ys = fifo_left cell ops (ys @ map cell xs)"
| "fifo_left cell (Rd n # ops) ys = fifo_left cell ops (drop n ys)"
| "fifo_left cell (Pk n # ops) ys = fifo_left cell ops ys"

text \<open>Every write of a script has room, counted from \<open>k\<close> bytes at the start.\<close>

fun within_capacity :: "nat \<Rightarrow> 'a rop list \<Rightarrow> nat \<Rightarrow> bool" where
  "within_capacity m [] k = True"
| "within_capacity m (Wr xs # ops) k =
     (k + length xs \<le> m \<and> length xs < m \<and> within_capacity m ops (k + length xs))"
| "within_capacity m (Rd n # ops) k = within_capacity m ops (k - n)"
| "within_capacity m (Pk n # ops) k = within_capacity m ops k"

locale byte_fifo =
  fixes ok :: "'q \<Rightarrow> bool"
    and view :: "'q \<Rightarrow> 'c list"
    and room :: "'q \<Rightarrow> nat"
    and put :: "'a list \<Rightarrow> 'q \<Rightarrow> (nat \<times> bool \<times> 'q) option"
    and get :: "nat \<Rightarrow> 'q \<Rightarrow> ('c list \<times> 'q) option"
    and peek :: "nat \<Rightarrow> 'q \<Rightarrow> ('c list \<times> 'q) option"
    and cell :: "'a \<Rightarrow> 'c"
  assumes put_law: "ok q \<Longrightarrow> length (view q) + length xs \<le> room q \<Longrightarrow> length xs < room q \<Longrightarrow>
      \<exists>q'. put xs q = Some (length xs, False, q') \<and> ok q' \<and> view q' = view q @ map cell xs \<and> room q' = room q"
    and get_law: "ok q \<Longrightarrow>
      \<exists>q'. get n q = Some (take n (view q), q') \<and> ok q' \<and> view q' = drop n (view q) \<and> room q' = room q"
    and peek_law: "ok q \<Longrightarrow>
      \<exists>q'. peek n q = Some (take n (view q), q') \<and> ok q' \<and> view q' = view q \<and> room q' = room q"
begin

lemma script_refines:
  "ok q \<Longrightarrow> within_capacity (room q) ops (length (view q)) \<Longrightarrow>
   \<exists>q'. run_script put get peek ops q = Some (fifo_replies cell ops (view q), q') \<and> ok q'
     \<and> view q' = fifo_left cell ops (view q)"
proof (induction ops arbitrary: q)
  case (Cons a ops)
  show ?case
  proof (cases a)
    case (Wr xs)
    then obtain q1 where "put xs q = Some (length xs, False, q1)" "ok q1" "view q1 = view q @ map cell xs"
      "room q1 = room q"
      using put_law [OF Cons.prems(1), of xs] Cons.prems(2) by auto
    then show ?thesis
      using Cons.IH [of q1] Cons.prems(2) Wr by auto
  next
    case (Rd n)
    obtain q1 where "get n q = Some (take n (view q), q1)" "ok q1" "view q1 = drop n (view q)" "room q1 = room q"
      using get_law [OF Cons.prems(1), of n] by blast
    then show ?thesis
      using Cons.IH [of q1] Cons.prems(2) Rd by auto
  next
    case (Pk n)
    obtain q1 where "peek n q = Some (take n (view q), q1)" "ok q1" "view q1 = view q" "room q1 = room q"
      using peek_law [OF Cons.prems(1), of n] by blast
    then show ?thesis
      using Cons.IH [of q1] Cons.prems(2) Pk by auto
  qed
qed simp

end

interpretation rbf: byte_fifo rb_ok rb_bytes rb_size_initial rb_write_with_state rb_read rb_peek Some
proof unfold_locales
  fix q :: "'a ring" and xs :: "'a list" and n
  assume ok: "rb_ok q"
  show "\<exists>q'. rb_read n q = Some (take n (rb_bytes q), q') \<and> rb_ok q'
               \<and> rb_bytes q' = drop n (rb_bytes q) \<and> rb_size_initial q' = rb_size_initial q"
    by (rule rb_reader_spec [OF ok, of n True]) (simp add: rb_read_def)
  show "\<exists>q'. rb_peek n q = Some (take n (rb_bytes q), q') \<and> rb_ok q' \<and> rb_bytes q' = rb_bytes q
               \<and> rb_size_initial q' = rb_size_initial q"
    by (rule rb_reader_spec [OF ok, of n False]) (simp add: rb_peek_def)
  assume "length (rb_bytes q) + length xs \<le> rb_size_initial q" "length xs < rb_size_initial q"
  then have fit: "rb_fill q + length xs \<le> rb_size q" "length xs = rb_size q \<Longrightarrow> rb_head q = 0"
    using ok by (auto simp: rb_ok_def)
  show "\<exists>q'. rb_write_with_state xs q = Some (length xs, False, q') \<and> rb_ok q'
          \<and> rb_bytes q' = rb_bytes q @ map Some xs \<and> rb_size_initial q' = rb_size_initial q"
    using rb_write_fits [OF ok fit] by metis
qed


section \<open>Properties\<close>

text \<open>C3 The ring is a first-in first-out byte store: any script of writes, reads and peeks in which the
  contents never exceed the initial capacity, and no single write is as large, runs to its end without
  leaving the allocation, and all it returns (the counts, no overflow, and the bytes of each read and peek)
  and the contents it leaves are those of the same script on a plain list.  Reads may ask for any
  number of bytes.\<close>

theorem ring_is_byte_fifo:
  assumes "rb_ok rb" "within_capacity (rb_size_initial rb) ops (rb_fill rb)"
  shows "\<exists>rb'. run_script rb_write_with_state rb_read rb_peek ops rb = Some (fifo_replies Some ops (rb_bytes rb), rb')
    \<and> rb_ok rb' \<and> rb_bytes rb' = fifo_left Some ops (rb_bytes rb)"
  using rbf.script_refines [OF assms(1), of ops] assms(2) by simp

lemmas ring_eval = rb_new_def rb_write_with_state_def rb_make_room_def
  rb_grow_def rb_remain_in_seg_def size_t_minus_def rb_copy_in_def advance_tail_def advance_head_def
  rb_read_def rb_reader_def rb_copy_out_def rb_used_def rb_shrink_reset_def rb_bytes_def
  mem_put_def mem_get_def splice_def Let_def rb_discard_def

definition ring_wit :: "nat ring" where
  "ring_wit = the (rb_new True 4 1000)"

lemma ring_wit_ok: "rb_ok ring_wit"
  by (simp add: ring_wit_def rb_new_def rb_ok_def)

theorem ring_is_byte_fifo_witness:
  "\<exists>rb'. run_script rb_write_with_state rb_read rb_peek [Wr [1, 2, 3], Rd 2, Wr [4, 5], Pk 1, Rd 7] ring_wit
     = Some ([Wrote 3 False, Got [Some 1, Some 2], Wrote 2 False, Got [Some 3], Got [Some 3, Some 4, Some 5]], rb')
     \<and> rb_bytes rb' = []"
proof -
  let ?ops = "[Wr [1, 2, 3], Rd 2, Wr [4, 5], Pk 1, Rd 7] :: nat rop list"
  have w: "rb_bytes ring_wit = []" "within_capacity (rb_size_initial ring_wit) ?ops (rb_fill ring_wit)"
    by (simp_all add: ring_wit_def ring_eval)
  have r: "fifo_replies Some ?ops [] = [Wrote 3 False, Got [Some 1, Some 2], Wrote 2 False, Got [Some 3],
      Got [Some 3, Some 4, Some 5]]" "fifo_left Some ?ops [] = []"
    by simp_all
  show ?thesis
    using ring_is_byte_fifo [OF ring_wit_ok w(2)] unfolding w(1) r by blast
qed

text \<open>When a write does not fit and the ring may not grow, the overflow is reported, as many of the
  oldest bytes are discarded, and the new bytes are stored behind the rest.\<close>

theorem ring_overflow_drops_oldest:
  assumes "rb_ok rb" "rb_size rb < rb_fill rb + length from"
    "rb_size_max rb < rb_size rb + length from * 128" "length from \<le> rb_fill rb"
    "length from < rb_size rb"
  shows "\<exists>rb'. rb_write_with_state from rb = Some (length from, True, rb') \<and> rb_ok rb'
           \<and> rb_bytes rb' = drop (length from) (rb_bytes rb) @ map Some from"
proof -
  note h = rb_advance_head [OF assms(1,4)]
  have "rb_fill (advance_head (length from) rb) + length from \<le> rb_size (advance_head (length from) rb)"
    using h assms(1,4) by (simp add: rb_ok_def)
  then obtain rb' where "rb_copy_in from (advance_head (length from) rb) = Some rb'" "rb_ok rb'"
    "rb_bytes rb' = drop (length from) (rb_bytes rb) @ map Some from"
    using rb_copy_in_spec [OF h(1), of "from"] h assms(5) by auto
  then show ?thesis
    using rb_make_room_overflow [OF assms(1-4)] by (simp add: rb_write_with_state_def)
qed

definition ring_full :: "nat ring" where
  "ring_full = \<lparr>rb_data = map Some [3, 4, 1, 2], rb_size = 4, rb_size_initial = 4,
                rb_size_max = 4, rb_head = 2, rb_fill = 4, rb_using_mutex = False\<rparr>"

theorem ring_overflow_drops_oldest_witness:
  "\<exists>rb'. rb_write_with_state [5, 6, 7] ring_full = Some (3, True, rb')
     \<and> rb_bytes rb' = map Some [4, 5, 6, 7]"
proof -
  have "rb_ok ring_full" "rb_bytes ring_full = map Some [1, 2, 3, 4]" "rb_size ring_full = 4"
    "rb_size_max ring_full = 4" "rb_fill ring_full = 4"
    by (simp_all add: ring_full_def rb_ok_def rb_bytes_def upt_rec)
  then show ?thesis
    using ring_overflow_drops_oldest [of ring_full "[5, 6, 7]"] by (auto simp: numeral_eq_Suc)
qed

text \<open>Growing a ring whose contents wrap round the end of the allocation breaks it: the byte that
  was first behind the wrap is now read from a cell that was never written.\<close>

theorem ring_grow_wrapped_loses_data:
  assumes "rb_ok rb" "rb_size rb < rb_head rb + rb_fill rb" "0 < inc"
    "rb_size rb + inc \<le> rb_size_max rb"
  shows "fst (rb_grow inc rb) = 0
         \<and> rb_bytes (snd (rb_grow inc rb)) ! (rb_size rb - rb_head rb) = None
         \<and> rb_size rb - rb_head rb < rb_fill rb"
  using assms by (auto simp: rb_grow_def rb_ok_def rb_bytes_nth nth_append)

theorem ring_grow_wrapped_loses_data_witness:
  "rb_bytes (snd (rb_grow 128 (ring_full\<lparr>rb_size_max := 1000\<rparr>))) ! 2 = None"
  using ring_grow_wrapped_loses_data [of "ring_full\<lparr>rb_size_max := 1000\<rparr>" 128]
  by (simp add: ring_full_def rb_ok_def)

text \<open>The same from a fresh ring of four bytes through its public operations: three bytes written,
  two read, three more written (the contents now wrap), and a seventh that makes the ring grow;
  the fifth and the sixth byte are gone, and no overflow is reported.\<close>

lemma replicate_2: "replicate 2 x = [x, x]"
  by (simp add: numeral_2_eq_2)

lemma ring_grow_wrapped_history:
  "(do { (n, ovf, rb) \<leftarrow> rb_write_with_state [1, 2, 3] ring_wit;
         (out, rb) \<leftarrow> rb_read 2 rb;
         (n, ovf, rb) \<leftarrow> rb_write_with_state [4, 5, 6] rb;
         (n, ovf, rb) \<leftarrow> rb_write_with_state [7] rb;
         (out, rb) \<leftarrow> rb_read 5 rb;
         Some (out, ovf) }) = Some ([Some 3, Some 4, None, None, Some 7], False)"
  by (simp add: ring_wit_def ring_eval replicate_2)

text \<open>A write of exactly the size of an empty ring whose head is not at the start leaves the
  allocation, and \<open>rb_write\<close> never completes.\<close>

lemma ring_full_size_write_overruns:
  assumes "rb_ok rb" "rb_fill rb = 0" "0 < rb_head rb" "length from = rb_size rb"
  shows "rb_write_with_state from rb = None"
  using assms
  by (auto simp: rb_write_with_state_def rb_make_room_fits rb_copy_in_def rb_ok_def Let_def)

lemma rb_write_null_deref: "rb_write from rb = None"
  by (simp add: rb_write_def)

end
