(* ===== verification/Obe_Sei.thy ===== *)
theory Obe_Sei
  imports Obe_Prelude
begin

text \<open>
  \<open>encoders/video/sei-timestamp.c\<close>: the payload of the latency measurement SEI message (a 16 byte
  UUID and nine 32-bit fields, each stored as two pairs of bytes closed by the delimiter 0x81), the
  search for it in a buffer, and the arithmetic on \<open>struct timeval\<close>, which \<open>obe/obe.c\<close> and
  \<open>obe/histogram.h\<close> repeat.
\<close>

section \<open>Time values\<close>

record timeval =
  tv_sec :: int
  tv_usec :: int

text \<open>The second operand is modified: the carry is performed on it.\<close>

(* src: encoders/video/sei-timestamp.c 167-189 sei_timeval_subtract *)
definition sei_timeval_subtract :: "timeval \<Rightarrow> timeval \<Rightarrow> bool \<times> timeval \<times> timeval" where
  "sei_timeval_subtract x y0 =
     (let y1 = (if tv_usec x < tv_usec y0
                then let nsec = (tv_usec y0 - tv_usec x) sdiv 1000000 + 1
                     in y0\<lparr>tv_usec := tv_usec y0 - 1000000 * nsec, tv_sec := tv_sec y0 + nsec\<rparr>
                else y0);
          y2 = (if tv_usec x - tv_usec y1 > 1000000
                then let nsec = (tv_usec x - tv_usec y1) sdiv 1000000
                     in y1\<lparr>tv_usec := tv_usec y1 + 1000000 * nsec, tv_sec := tv_sec y1 - nsec\<rparr>
                else y1)
      in (tv_sec x < tv_sec y2,
          \<lparr>tv_sec = tv_sec x - tv_sec y2, tv_usec = tv_usec x - tv_usec y2\<rparr>, y2))"

(* src: encoders/video/sei-timestamp.c 191-194 sei_timediff_to_msecs *)
definition sei_timediff_to_msecs :: "timeval \<Rightarrow> int" where
  "sei_timediff_to_msecs tv = tv_sec tv * 1000 + tv_usec tv sdiv 1000"

(* src: encoders/video/sei-timestamp.c 196-199 sei_timediff_to_usecs *)
definition sei_timediff_to_usecs :: "timeval \<Rightarrow> int" where
  "sei_timediff_to_usecs tv = tv_sec tv * 1000000 + tv_usec tv"

definition tv_total :: "timeval \<Rightarrow> int" where
  "tv_total tv = tv_sec tv * 1000000 + tv_usec tv"

definition tv_norm :: "timeval \<Rightarrow> bool" where
  "tv_norm tv \<longleftrightarrow> 0 \<le> tv_usec tv \<and> tv_usec tv < 1000000"

lemma sdiv_pos: "0 \<le> a \<Longrightarrow> 0 < b \<Longrightarrow> (a::int) sdiv b = a div b"
  by (cases "a = 0") (simp_all add: signed_divide_int_def)

lemma timeval_subtract_norm:
  assumes "tv_norm x" "tv_norm y"
  shows "sei_timeval_subtract x y = (b, r, y') \<Longrightarrow>
    tv_norm r \<and> tv_total r = tv_total x - tv_total y \<and> tv_total y' = tv_total y
    \<and> (b \<longleftrightarrow> tv_total x < tv_total y)"
  using assms
  by (auto simp: sei_timeval_subtract_def Let_def tv_norm_def tv_total_def sdiv_pos split: if_splits)


section \<open>The payload\<close>

(* src: encoders/video/sei-timestamp.c 16-19 ltn_uuid_sei_timestamp *)
definition ltn_uuid_sei_timestamp :: bytes where
  "ltn_uuid_sei_timestamp =
     [0x59, 0x96, 0xFF, 0x28, 0x17, 0xCA, 0x41, 0x96, 0x8D, 0xE3, 0xE5, 0x3F, 0xE2, 0xF9, 0x92, 0xAE]"

(* src: encoders/video/sei-timestamp.h 12-13 SEI_BIT_DELIMITER *)
definition SEI_BIT_DELIMITER :: u8 where
  "SEI_BIT_DELIMITER = 0x81"

(* src: encoders/video/sei-timestamp.h 17-32 SEI_TIMESTAMP_FIELD_COUNT *)
definition SEI_TIMESTAMP_FIELD_COUNT :: nat where
  "SEI_TIMESTAMP_FIELD_COUNT = 9"

(* src: encoders/video/sei-timestamp.h 33-33 SEI_TIMESTAMP_PAYLOAD_LENGTH *)
definition SEI_TIMESTAMP_PAYLOAD_LENGTH :: nat where
  "SEI_TIMESTAMP_PAYLOAD_LENGTH = 16 + SEI_TIMESTAMP_FIELD_COUNT * 6"

(* src: encoders/video/sei-timestamp.c 21-29 sei_timestamp_alloc *)
definition sei_timestamp_alloc :: "bool \<Rightarrow> bytes option" where
  "sei_timestamp_alloc ok =
     (if ok then mem_put 0 ltn_uuid_sei_timestamp (replicate SEI_TIMESTAMP_PAYLOAD_LENGTH 0)
      else None)"

(* src: encoders/video/sei-timestamp.c 31-40 sei_timestamp_init *)
definition sei_timestamp_init :: "bytes \<Rightarrow> int \<Rightarrow> (int \<times> bytes) option" where
  "sei_timestamp_init buf lengthBytes =
     (if lengthBytes < int SEI_TIMESTAMP_PAYLOAD_LENGTH then Some (-1, buf)
      else do { buf \<leftarrow> mem_put 0 (replicate (nat lengthBytes) 0) buf;
                buf \<leftarrow> mem_put 0 ltn_uuid_sei_timestamp buf;
                Some (0, buf) })"

definition field_offset :: "nat \<Rightarrow> nat" where
  "field_offset nr = 16 + (nr - 1) * 6"

definition field_bytes :: "u32 \<Rightarrow> bytes" where
  "field_bytes value =
     [ucast (drop_bit 24 value), ucast (drop_bit 16 value), SEI_BIT_DELIMITER,
      ucast (drop_bit 8 value), ucast value, SEI_BIT_DELIMITER]"

(* src: encoders/video/sei-timestamp.c 42-63 sei_timestamp_field_set *)
definition sei_timestamp_field_set :: "bytes \<Rightarrow> int \<Rightarrow> nat \<Rightarrow> u32 \<Rightarrow> (int \<times> bytes) option" where
  "sei_timestamp_field_set buffer lengthBytes nr value =
     (if nr < 1 \<or> nr > SEI_TIMESTAMP_FIELD_COUNT then Some (-1, buffer)
      else if lengthBytes - int (field_offset nr) < 6 then Some (-1, buffer)
      else map_option (Pair 0) (mem_put (field_offset nr) (field_bytes value) buffer))"

fun uuid_scan :: "bytes \<Rightarrow> nat \<Rightarrow> nat \<Rightarrow> int" where
  "uuid_scan buf i 0 = -1"
| "uuid_scan buf i (Suc n) =
     (if take 16 (drop i buf) = ltn_uuid_sei_timestamp then int i else uuid_scan buf (i + 1) n)"

text \<open>The buffer has \<open>lengthBytes\<close> bytes, so the comparisons stay inside it.\<close>

(* src: encoders/video/sei-timestamp.c 65-77 ltn_uuid_find *)
definition ltn_uuid_find :: "bytes \<Rightarrow> int" where
  "ltn_uuid_find buf =
     (if length buf < SEI_TIMESTAMP_PAYLOAD_LENGTH then -1
      else uuid_scan buf 0 (length buf - SEI_TIMESTAMP_PAYLOAD_LENGTH + 1))"

text \<open>
  The length argument is not looked at.  On an error the value is left as it was.
\<close>

(* src: encoders/video/sei-timestamp.c 79-97 sei_timestamp_field_get *)
definition sei_timestamp_field_get :: "bytes \<Rightarrow> int \<Rightarrow> nat \<Rightarrow> u32 option \<Rightarrow> (int \<times> u32 option) option" where
  "sei_timestamp_field_get buffer lengthBytes nr value =
     (if nr < 1 \<or> nr > SEI_TIMESTAMP_FIELD_COUNT then Some (-1, value)
      else do { p \<leftarrow> mem_get (field_offset nr) 5 buffer;
                Some (0, Some (push_bit 24 (ucast (p ! 0)) OR push_bit 16 (ucast (p ! 1))
                               OR push_bit 8 (ucast (p ! 3)) OR ucast (p ! 4))) })"

text \<open>The loop starts at field 0, which does not exist; its element is not used afterwards.\<close>

(* src: encoders/video/sei-timestamp.c 99-124 sei_timestamp_query_codec_latency_ms *)
definition sei_timestamp_query_codec_latency_ms :: "bytes \<Rightarrow> int \<Rightarrow> int option" where
  "sei_timestamp_query_codec_latency_ms buffer lengthBytes =
     do { (r0, v0) \<leftarrow> sei_timestamp_field_get buffer lengthBytes 0 None;
          (r1, v1) \<leftarrow> sei_timestamp_field_get buffer lengthBytes 1 None;
          (r2, v2) \<leftarrow> sei_timestamp_field_get buffer lengthBytes 2 None;
          (r3, v3) \<leftarrow> sei_timestamp_field_get buffer lengthBytes 3 None;
          (r4, v4) \<leftarrow> sei_timestamp_field_get buffer lengthBytes 4 None;
          (r5, v5) \<leftarrow> sei_timestamp_field_get buffer lengthBytes 5 None;
          (r6, v6) \<leftarrow> sei_timestamp_field_get buffer lengthBytes 6 None;
          (r7, v7) \<leftarrow> sei_timestamp_field_get buffer lengthBytes 7 None;
          bs \<leftarrow> v4; bu \<leftarrow> v5; es \<leftarrow> v6; eu \<leftarrow> v7;
          let (neg, diff, y) = sei_timeval_subtract \<lparr>tv_sec = uint es, tv_usec = uint eu\<rparr>
                                 \<lparr>tv_sec = uint bs, tv_usec = uint bu\<rparr>
          in Some (sei_timediff_to_msecs diff) }"

text \<open>Only the low four bytes of the eight byte \<open>tv_sec\<close> and \<open>tv_usec\<close> are stored to.\<close>

definition store_low32 :: "int \<Rightarrow> u32 option \<Rightarrow> int" where
  "store_low32 old v = (case v of None \<Rightarrow> old | Some w \<Rightarrow> old - old mod 2 ^ 32 + uint w)"

(* src: encoders/video/sei-timestamp.c 147-152 sei_timestamp_value_timeval_query *)
definition sei_timestamp_value_timeval_query :: "bytes \<Rightarrow> int \<Rightarrow> nat \<Rightarrow> timeval \<Rightarrow> timeval option" where
  "sei_timestamp_value_timeval_query buffer lengthBytes nr t =
     do { (r, s) \<leftarrow> sei_timestamp_field_get buffer lengthBytes nr None;
          (r, u) \<leftarrow> sei_timestamp_field_get buffer lengthBytes (nr + 1) None;
          Some (t\<lparr>tv_sec := store_low32 (tv_sec t) s, tv_usec := store_low32 (tv_usec t) u\<rparr>) }"

(* src: encoders/video/sei-timestamp.c 154-165 sei_timestamp_value_timeval_set *)
definition sei_timestamp_value_timeval_set ::
  "timeval \<Rightarrow> bytes \<Rightarrow> int \<Rightarrow> nat \<Rightarrow> timeval option \<Rightarrow> bytes option" where
  "sei_timestamp_value_timeval_set now buffer lengthBytes nr t =
     (let ts = (case t of Some t \<Rightarrow> t | None \<Rightarrow> now)
      in do { (r, b) \<leftarrow> sei_timestamp_field_set buffer lengthBytes nr (word_of_int (tv_sec ts));
              (r, b) \<leftarrow> sei_timestamp_field_set b lengthBytes (nr + 1) (word_of_int (tv_usec ts));
              Some b })"

section \<open>Fields\<close>

lemma length_field_bytes [simp]: "length (field_bytes v) = 6"
  by (simp add: field_bytes_def)

lemma field_set_ok:
  assumes "1 \<le> nr" "nr \<le> 9" "70 \<le> length buf"
  shows "sei_timestamp_field_set buf (int (length buf)) nr v
         = Some (0, splice (field_offset nr) (field_bytes v) buf)"
    "field_offset nr + 6 \<le> length buf"
  using assms
  by (auto simp: sei_timestamp_field_set_def SEI_TIMESTAMP_FIELD_COUNT_def
                 SEI_TIMESTAMP_PAYLOAD_LENGTH_def field_offset_def)

lemma be_pieces:
  "push_bit 24 (ucast (ucast (drop_bit 24 v) :: u8)) OR push_bit 16 (ucast (ucast (drop_bit 16 v) :: u8))
   OR push_bit 8 (ucast (ucast (drop_bit 8 v) :: u8)) OR ucast (ucast v :: u8) = (v :: u32)"
proof (rule bit_word_eqI)
  fix n assume "n < LENGTH(32)"
  then show "bit (push_bit 24 (ucast (ucast (drop_bit 24 v) :: u8))
      OR push_bit 16 (ucast (ucast (drop_bit 16 v) :: u8))
      OR push_bit 8 (ucast (ucast (drop_bit 8 v) :: u8)) OR ucast (ucast v :: u8) :: u32) n = bit v n"
    by (cases "n < 8"; cases "n < 16"; cases "n < 24") (auto simp: bit_simps)
qed

lemma mem_get_splice_other:
  assumes "off + length new \<le> length xs" "p + n \<le> off \<or> off + length new \<le> p"
  shows "mem_get p n (splice off new xs) = mem_get p n xs"
proof (cases "p + n \<le> length xs")
  case True
  then have "take n (drop p (splice off new xs)) = take n (drop p xs)"
    using assms by (intro nth_equalityI) (auto simp: splice_nth)
  then show ?thesis
    using True assms by simp
qed (use assms in simp)

lemma mem_get_splice_same:
  assumes "off + length new \<le> length xs" "n \<le> length new"
  shows "mem_get off n (splice off new xs) = Some (take n new)"
  using assms by (simp add: splice_def)

lemma field_get_set_same:
  assumes "1 \<le> nr" "nr \<le> 9" "field_offset nr + 6 \<le> length buf"
  shows "sei_timestamp_field_get (splice (field_offset nr) (field_bytes v) buf) len nr d
         = Some (0, Some v)"
  using assms mem_get_splice_same [of "field_offset nr" "field_bytes v" buf 5]
  by (simp add: sei_timestamp_field_get_def SEI_TIMESTAMP_FIELD_COUNT_def)
     (simp add: field_bytes_def be_pieces)

lemma field_get_set_other:
  assumes "1 \<le> nr" "nr \<noteq> m" "field_offset nr + 6 \<le> length buf"
  shows "sei_timestamp_field_get (splice (field_offset nr) (field_bytes v) buf) len m d
         = sei_timestamp_field_get buf len m d"
proof (cases "1 \<le> m")
  case True
  then have "field_offset m + 5 \<le> field_offset nr \<or> field_offset nr + 6 \<le> field_offset m"
    using assms by (auto simp: field_offset_def)
  then show ?thesis
    using mem_get_splice_other [of "field_offset nr" "field_bytes v" buf "field_offset m" 5] assms
    by (simp add: sei_timestamp_field_get_def)
qed (simp add: sei_timestamp_field_get_def)

text \<open>The byte at position \<open>i\<close> of a field area is a delimiter.\<close>

definition delim_pos :: "nat \<Rightarrow> bool" where
  "delim_pos i \<longleftrightarrow> 16 \<le> i \<and> i < 70 \<and> (i - 16) mod 3 = 2"

definition sei_uuid_ok :: "bytes \<Rightarrow> bool" where
  "sei_uuid_ok b \<longleftrightarrow> 70 \<le> length b \<and> take 16 b = ltn_uuid_sei_timestamp"

definition field_delims :: "bytes \<Rightarrow> nat \<Rightarrow> bool" where
  "field_delims b nr \<longleftrightarrow> b ! (field_offset nr + 2) = SEI_BIT_DELIMITER
                        \<and> b ! (field_offset nr + 5) = SEI_BIT_DELIMITER"

lemma field_set_delims:
  assumes "1 \<le> nr" "nr \<le> 9" "70 \<le> length b"
  shows "field_delims (splice (field_offset nr) (field_bytes v) b) nr"
    "field_delims b m \<Longrightarrow> 1 \<le> m \<Longrightarrow> m \<le> 9 \<Longrightarrow> field_delims (splice (field_offset nr) (field_bytes v) b) m"
proof -
  have o: "field_offset nr + 6 \<le> length b"
    using assms by (auto simp: field_offset_def)
  show "field_delims (splice (field_offset nr) (field_bytes v) b) nr"
    using o by (simp add: field_delims_def splice_nth) (simp add: field_bytes_def)
  show "field_delims (splice (field_offset nr) (field_bytes v) b) m"
    if "field_delims b m" "1 \<le> m" "m \<le> 9"
  proof (cases "m = nr")
    case False
    then have "field_offset m + 6 \<le> field_offset nr \<or> field_offset nr + 6 \<le> field_offset m"
      using that assms(1) by (auto simp: field_offset_def)
    moreover have "field_offset m + 6 \<le> length b"
      using that assms(3) by (auto simp: field_offset_def)
    ultimately show ?thesis
      using that o by (auto simp: field_delims_def splice_nth)
  qed (use o in \<open>simp add: field_delims_def splice_nth\<close>, simp add: field_bytes_def)
qed

lemma sei_uuid_set:
  "1 \<le> nr \<Longrightarrow> nr \<le> 9 \<Longrightarrow> sei_uuid_ok b \<Longrightarrow> sei_uuid_ok (splice (field_offset nr) (field_bytes v) b)"
  by (auto simp: sei_uuid_ok_def splice_def field_offset_def min_def)

text \<open>Setting all the fields, as the encoders do over the life of a frame.\<close>

fun sei_set_all :: "nat \<Rightarrow> u32 list \<Rightarrow> bytes \<Rightarrow> bytes option" where
  "sei_set_all nr [] b = Some b"
| "sei_set_all nr (v # vs) b =
     do { (r, b) \<leftarrow> sei_timestamp_field_set b (int (length b)) nr v; sei_set_all (nr + 1) vs b }"

lemma sei_set_all_spec:
  assumes "1 \<le> nr" "nr + length vs \<le> 10" "sei_uuid_ok b" "\<forall>m. 1 \<le> m \<and> m < nr \<longrightarrow> field_delims b m"
  shows "\<exists>b'. sei_set_all nr vs b = Some b' \<and> sei_uuid_ok b' \<and> length b' = length b
           \<and> (\<forall>m. 1 \<le> m \<and> m < nr + length vs \<longrightarrow> field_delims b' m)"
  using assms
proof (induction vs arbitrary: nr b)
  case (Cons v vs)
  let ?b = "splice (field_offset nr) (field_bytes v) b"
  have r: "1 \<le> nr" "nr \<le> 9" "70 \<le> length b"
    using Cons.prems by (auto simp: sei_uuid_ok_def)
  note s = field_set_ok(1) [OF r, of v] field_set_ok(2) [OF r]
  have d: "\<forall>m. 1 \<le> m \<and> m < nr + 1 \<longrightarrow> field_delims ?b m"
    using field_set_delims [OF r] Cons.prems(4) r(2) by (auto simp: less_Suc_eq)
  have l: "length ?b = length b" "sei_uuid_ok ?b"
    using s(2) sei_uuid_set [OF r(1,2) Cons.prems(3)] by simp_all
  have "\<exists>b'. sei_set_all (nr + 1) vs ?b = Some b' \<and> sei_uuid_ok b' \<and> length b' = length ?b
           \<and> (\<forall>m. 1 \<le> m \<and> m < nr + 1 + length vs \<longrightarrow> field_delims b' m)"
    using Cons.prems(2) l(2) d by (intro Cons.IH) auto
  then show ?case
    using s(1) l(1) by simp
qed auto

lemma delims_all:
  assumes "\<forall>m. 1 \<le> m \<and> m < 10 \<longrightarrow> field_delims b m" "delim_pos i"
  shows "b ! i = SEI_BIT_DELIMITER"
proof -
  define j where "j = i - 16"
  define m where "m = j div 6 + 1"
  have j: "i = 16 + j" "j < 54" "j mod 3 = 2"
    using assms(2) by (auto simp: delim_pos_def j_def)
  have "j mod 6 mod 3 = 2"
    using j(3) by (simp add: mod_mod_cancel)
  then have "j mod 6 = 2 \<or> j mod 6 = 5"
  proof -
    have "j mod 6 = 0 \<or> j mod 6 = 1 \<or> j mod 6 = 2 \<or> j mod 6 = 3 \<or> j mod 6 = 4 \<or> j mod 6 = 5"
      by linarith
    then show ?thesis
      using \<open>j mod 6 mod 3 = 2\<close> by (elim disjE) simp_all
  qed
  moreover have "j = 6 * (j div 6) + j mod 6"
    by simp
  ultimately have "i = field_offset m + 2 \<or> i = field_offset m + 5"
    using j(1) unfolding m_def field_offset_def by linarith
  moreover have "1 \<le> m" "m < 10"
    using j(2) by (auto simp: m_def)
  ultimately have i: "i = field_offset m + 2 \<or> i = field_offset m + 5" "1 \<le> m" "m < 10"
    by blast+
  then show ?thesis
    using assms(1) by (auto simp: field_delims_def)
qed

lemma delim_pos_run:
  assumes "j + 18 < 70"
  shows "delim_pos (16 + j) \<or> delim_pos (17 + j) \<or> delim_pos (18 + j)"
proof -
  have e: "17 + j - 16 = Suc j" "18 + j - 16 = Suc (Suc j)" "16 + j - 16 = j"
    by simp_all
  have "j mod 3 = 0 \<or> j mod 3 = 1 \<or> j mod 3 = 2"
    by linarith
  then show ?thesis
    unfolding delim_pos_def e using assms by (elim disjE) (simp_all add: mod_Suc)
qed

lemma uuid_nonzero: "i < 16 \<Longrightarrow> ltn_uuid_sei_timestamp ! i \<noteq> 0"
proof -
  have "list_all (\<lambda>b. b \<noteq> 0) ltn_uuid_sei_timestamp"
    by (simp add: ltn_uuid_sei_timestamp_def)
  then show "i < 16 \<Longrightarrow> ltn_uuid_sei_timestamp ! i \<noteq> 0"
    by (simp add: list_all_length ltn_uuid_sei_timestamp_def)
qed

lemma sei_init_ok:
  assumes "70 \<le> length buf"
  obtains b where "sei_timestamp_init buf (int (length buf)) = Some (0, b)" "sei_uuid_ok b"
    "length b = length buf"
proof -
  define b where "b = splice 0 ltn_uuid_sei_timestamp (splice 0 (replicate (length buf) 0) buf)"
  have u: "length ltn_uuid_sei_timestamp = 16"
    by (simp add: ltn_uuid_sei_timestamp_def)
  have "sei_timestamp_init buf (int (length buf)) = Some (0, b)"
    using assms u by (simp add: sei_timestamp_init_def SEI_TIMESTAMP_PAYLOAD_LENGTH_def
        SEI_TIMESTAMP_FIELD_COUNT_def b_def)
  moreover have "sei_uuid_ok b" "length b = length buf"
    using assms u by (simp_all add: b_def sei_uuid_ok_def splice_def)
  ultimately show thesis
    using that by blast
qed

lemma uuid_scan_spec:
  "(case uuid_scan buf i n of r \<Rightarrow>
     if \<exists>j<n. take 16 (drop (i + j) buf) = ltn_uuid_sei_timestamp
     then \<exists>j<n. r = int (i + j) \<and> take 16 (drop (i + j) buf) = ltn_uuid_sei_timestamp
              \<and> (\<forall>k<j. take 16 (drop (i + k) buf) \<noteq> ltn_uuid_sei_timestamp)
     else r = -1)"
proof (induction n arbitrary: i)
  case (Suc n)
  show ?case
  proof (cases "take 16 (drop i buf) = ltn_uuid_sei_timestamp")
    case False
    have sh: "(\<exists>j<Suc n. take 16 (drop (i + j) buf) = ltn_uuid_sei_timestamp)
        \<longleftrightarrow> (\<exists>j<n. take 16 (drop (Suc i + j) buf) = ltn_uuid_sei_timestamp)"
      using False by (metis Suc_less_eq add_Suc_right add_Suc add_0_right less_Suc_eq_0_disj)
    show ?thesis
    proof (cases "\<exists>j<n. take 16 (drop (Suc i + j) buf) = ltn_uuid_sei_timestamp")
      case True
      then obtain j where j: "j < n" "uuid_scan buf (Suc i) n = int (Suc i + j)"
        "take 16 (drop (Suc i + j) buf) = ltn_uuid_sei_timestamp"
        "\<forall>k<j. take 16 (drop (Suc i + k) buf) \<noteq> ltn_uuid_sei_timestamp"
        using Suc.IH [of "Suc i"] by auto
      have "\<forall>k<Suc j. take 16 (drop (i + k) buf) \<noteq> ltn_uuid_sei_timestamp"
        using j(4) False by (auto simp: less_Suc_eq_0_disj)
      then show ?thesis
        using True False sh j by (auto intro!: exI [of _ "Suc j"])
    qed (use False sh Suc.IH [of "Suc i"] in auto)
  qed auto
qed simp

section \<open>Properties\<close>

text \<open>C5 A field written into a payload buffer is read back with the same value, the write touches no
  other field, and the UUID and the length of the buffer stay as they were.\<close>

theorem sei_field_roundtrip:
  assumes "1 \<le> nr" "nr \<le> SEI_TIMESTAMP_FIELD_COUNT" "SEI_TIMESTAMP_PAYLOAD_LENGTH \<le> length buf"
  shows "\<exists>b. sei_timestamp_field_set buf (int (length buf)) nr v = Some (0, b)
          \<and> length b = length buf \<and> take 16 b = take 16 buf
          \<and> (\<forall>len d. sei_timestamp_field_get b len nr d = Some (0, Some v))
          \<and> (\<forall>m len d. nr \<noteq> m \<longrightarrow> sei_timestamp_field_get b len m d
                                     = sei_timestamp_field_get buf len m d)"
proof -
  have r: "1 \<le> nr" "nr \<le> 9" "70 \<le> length buf"
    using assms by (simp_all add: SEI_TIMESTAMP_FIELD_COUNT_def SEI_TIMESTAMP_PAYLOAD_LENGTH_def)
  note o = field_set_ok(2) [OF r]
  have "take 16 (splice (field_offset nr) (field_bytes v) buf) = take 16 buf"
    using o by (simp add: splice_def field_offset_def min_def)
  then show ?thesis
    using field_set_ok(1) [OF r] o field_get_set_same [OF r(1,2) o]
      field_get_set_other [OF r(1) _ o] by simp
qed

theorem sei_field_roundtrip_witness:
  "\<exists>b. sei_timestamp_field_set (replicate 70 0) 70 4 0x12345678 = Some (0, b)
     \<and> sei_timestamp_field_get b 70 4 None = Some (0, Some 0x12345678)"
  using sei_field_roundtrip [of 4 "replicate 70 0" "0x12345678"]
  by (auto simp: SEI_TIMESTAMP_FIELD_COUNT_def SEI_TIMESTAMP_PAYLOAD_LENGTH_def)

text \<open>Once all nine fields have been set, whatever their values, no three consecutive bytes of the
  payload are zero: the delimiters keep the message free of start code emulation, as the header
  promises.\<close>

theorem sei_payload_no_zero_run:
  assumes "length vs = SEI_TIMESTAMP_FIELD_COUNT" "SEI_TIMESTAMP_PAYLOAD_LENGTH \<le> length buf"
  shows "\<exists>b0 b. sei_timestamp_init buf (int (length buf)) = Some (0, b0) \<and> sei_set_all 1 vs b0 = Some b
           \<and> (\<forall>i. i + 2 < SEI_TIMESTAMP_PAYLOAD_LENGTH \<longrightarrow> b ! i \<noteq> 0 \<or> b ! (i + 1) \<noteq> 0 \<or> b ! (i + 2) \<noteq> 0)"
proof -
  have l: "length vs = 9" "70 \<le> length buf"
    using assms by (simp_all add: SEI_TIMESTAMP_FIELD_COUNT_def SEI_TIMESTAMP_PAYLOAD_LENGTH_def)
  obtain b0 where b0: "sei_timestamp_init buf (int (length buf)) = Some (0, b0)" "sei_uuid_ok b0"
    using sei_init_ok [OF l(2)] by metis
  obtain b where b: "sei_set_all 1 vs b0 = Some b" "sei_uuid_ok b"
    "\<forall>m. 1 \<le> m \<and> m < 10 \<longrightarrow> field_delims b m"
    using sei_set_all_spec [of 1 vs b0] l(1) b0(2) by auto
  have u: "b ! i \<noteq> 0" if "i < 16" for i
    using b(2) uuid_nonzero [OF that] that by (metis nth_take sei_uuid_ok_def)
  have d: "b ! i \<noteq> 0" if "delim_pos i" for i
    using delims_all [OF b(3) that] by (simp add: SEI_BIT_DELIMITER_def)
  have "b ! i \<noteq> 0 \<or> b ! (i + 1) \<noteq> 0 \<or> b ! (i + 2) \<noteq> 0" if "i + 2 < 70" for i
  proof (cases "i < 16")
    case False
    then have "delim_pos i \<or> delim_pos (i + 1) \<or> delim_pos (i + 2)"
      using delim_pos_run [of "i - 16"] that by (simp add: add.commute)
    then show ?thesis
      using d by blast
  qed (use u in blast)
  then show ?thesis
    using b0(1) b(1) by (auto simp: SEI_TIMESTAMP_FIELD_COUNT_def SEI_TIMESTAMP_PAYLOAD_LENGTH_def)
qed

theorem sei_payload_no_zero_run_witness:
  "\<exists>b0 b. sei_timestamp_init (replicate 70 7) 70 = Some (0, b0)
     \<and> sei_set_all 1 (replicate 9 0) b0 = Some b \<and> (b ! 40 \<noteq> 0 \<or> b ! 41 \<noteq> 0 \<or> b ! 42 \<noteq> 0)"
proof -
  obtain b0 b where b: "sei_timestamp_init (replicate 70 7) 70 = Some (0, b0)"
    "sei_set_all 1 (replicate 9 0) b0 = Some b"
    "\<forall>i. i + 2 < 70 \<longrightarrow> b ! i \<noteq> 0 \<or> b ! (i + 1) \<noteq> 0 \<or> b ! (i + 2) \<noteq> 0"
    using sei_payload_no_zero_run [of "replicate 9 0" "replicate 70 7"]
    by (auto simp: SEI_TIMESTAMP_FIELD_COUNT_def SEI_TIMESTAMP_PAYLOAD_LENGTH_def)
  show ?thesis
    using b(1,2) b(3) [rule_format, of 40] by simp
qed

text \<open>On times with microseconds in range, the subtraction returns a time with microseconds in
  range whose total is the difference of the totals (also when it is negative), reports a negative
  result exactly when the first time is before the second, and leaves the second operand, though
  renormalised in place, with the same total.\<close>

theorem timeval_subtract_correct:
  assumes "tv_norm x" "tv_norm y"
  shows "case sei_timeval_subtract x y of (b, r, y') \<Rightarrow>
           tv_norm r \<and> tv_total r = tv_total x - tv_total y \<and> (b \<longleftrightarrow> tv_total x < tv_total y)
           \<and> tv_total y' = tv_total y"
  using timeval_subtract_norm [OF assms] by (auto split: prod.split)

theorem timeval_subtract_correct_witness:
  "sei_timeval_subtract \<lparr>tv_sec = 5, tv_usec = 100\<rparr> \<lparr>tv_sec = 3, tv_usec = 200\<rparr>
     = (False, \<lparr>tv_sec = 1, tv_usec = 999900\<rparr>, \<lparr>tv_sec = 4, tv_usec = - 999800\<rparr>)
   \<and> tv_norm \<lparr>tv_sec = 1, tv_usec = 999900\<rparr>"
proof -
  have e: "sei_timeval_subtract \<lparr>tv_sec = 5, tv_usec = 100\<rparr> \<lparr>tv_sec = 3, tv_usec = 200\<rparr>
     = (False, \<lparr>tv_sec = 1, tv_usec = 999900\<rparr>, \<lparr>tv_sec = 4, tv_usec = - 999800\<rparr>)"
    by (simp add: sei_timeval_subtract_def Let_def)
  show ?thesis
    using timeval_subtract_correct [of "\<lparr>tv_sec = 5, tv_usec = 100\<rparr>" "\<lparr>tv_sec = 3, tv_usec = 200\<rparr>"] e
    by (simp add: tv_norm_def)
qed

end
