(* ===== verification/Obe_Types.thy ===== *)
theory Obe_Types
  imports Obe_Prelude Obe_Sei Obe_Queue
begin

text \<open>
  The data the components share: the enumerations and structures of \<open>obe/stream_formats.h\<close>,
  \<open>obe/obe.h\<close> and \<open>common/common.h\<close>, with the setters of \<open>struct avfm_s\<close>.  Pointers to owned
  arrays are lists (the separate counters are their lengths unless noted), thread handles and mutex
  objects are left out, and members of third-party structures appear as far as the code uses them.
\<close>

section \<open>Enumerations\<close>

(* src: obe/stream_formats.h 31-95 stream_formats_e *)
datatype stream_formats =
    VIDEO_UNCOMPRESSED | VIDEO_AVC | VIDEO_MPEG2
  | AUDIO_PCM | AUDIO_MP2 | AUDIO_AC_3 | AUDIO_E_AC_3 | AUDIO_AAC | AUDIO_AC_3_BITSTREAM
  | SUBTITLES_DVB | MISC_TELETEXT | MISC_TELETEXT_INVERTED | MISC_WSS | MISC_VPS
  | CAPTIONS_CEA_608 | CAPTIONS_CEA_708 | MISC_AFD | MISC_BAR_DATA | MISC_PAN_SCAN
  | VBI_RAW | VBI_AMOL_48 | VBI_AMOL_96 | VBI_NABTS | VBI_TVG2X | VBI_CP | VBI_VITC
  | VBI_VIDEO_INDEX
  | VANC_GENERIC | VANC_DVB_SCTE_VBI | VANC_OP47_SDP | VANC_OP47_MULTI_PACKET | VANC_ATC
  | VANC_DTV_PROGRAM_DESCRIPTION | VANC_DTV_DATA_BROADCAST | VANC_SMPTE_VBI | VANC_SCTE_104
  | DVB_TABLE_SECTION | SMPTE2038 | VIDEO_HEVC_X265 | VIDEO_AVC_VAAPI | VIDEO_HEVC_VAAPI
  | VIDEO_AVC_GPU_VAAPI_AVCODEC | VIDEO_HEVC_GPU_VAAPI_AVCODEC | VIDEO_AVC_CPU_AVCODEC
  | VIDEO_HEVC_CPU_AVCODEC | VIDEO_HEVC_GPU_NVENC_AVCODEC | VIDEO_HEVC_VEGA3301
  | VIDEO_HEVC_VEGA3311 | SMPTE2031 | VIDEO_AVC_VEGA3311

text \<open>The value the compiler gives an enumerator; code that mixes enumerators with other integers
  depends on it.\<close>

definition stream_formats_list :: "stream_formats list" where
  "stream_formats_list =
     [VIDEO_UNCOMPRESSED, VIDEO_AVC, VIDEO_MPEG2, AUDIO_PCM, AUDIO_MP2, AUDIO_AC_3, AUDIO_E_AC_3,
      AUDIO_AAC, AUDIO_AC_3_BITSTREAM, SUBTITLES_DVB, MISC_TELETEXT, MISC_TELETEXT_INVERTED,
      MISC_WSS, MISC_VPS, CAPTIONS_CEA_608, CAPTIONS_CEA_708, MISC_AFD, MISC_BAR_DATA,
      MISC_PAN_SCAN, VBI_RAW, VBI_AMOL_48, VBI_AMOL_96, VBI_NABTS, VBI_TVG2X, VBI_CP, VBI_VITC,
      VBI_VIDEO_INDEX, VANC_GENERIC, VANC_DVB_SCTE_VBI, VANC_OP47_SDP, VANC_OP47_MULTI_PACKET,
      VANC_ATC, VANC_DTV_PROGRAM_DESCRIPTION, VANC_DTV_DATA_BROADCAST, VANC_SMPTE_VBI,
      VANC_SCTE_104, DVB_TABLE_SECTION, SMPTE2038, VIDEO_HEVC_X265, VIDEO_AVC_VAAPI,
      VIDEO_HEVC_VAAPI, VIDEO_AVC_GPU_VAAPI_AVCODEC, VIDEO_HEVC_GPU_VAAPI_AVCODEC,
      VIDEO_AVC_CPU_AVCODEC, VIDEO_HEVC_CPU_AVCODEC, VIDEO_HEVC_GPU_NVENC_AVCODEC,
      VIDEO_HEVC_VEGA3301, VIDEO_HEVC_VEGA3311, SMPTE2031, VIDEO_AVC_VEGA3311]"

fun enum_index :: "'a list \<Rightarrow> 'a \<Rightarrow> int" where
  "enum_index [] x = 0"
| "enum_index (y # ys) x = (if x = y then 0 else 1 + enum_index ys x)"

definition stream_format_val :: "stream_formats \<Rightarrow> int" where
  "stream_format_val f = enum_index stream_formats_list f"

(* src: obe/obe.h 41-46 obe_system_type_e *)
datatype obe_system_type =
  OBE_SYSTEM_TYPE_GENERIC | OBE_SYSTEM_TYPE_LOWEST_LATENCY | OBE_SYSTEM_TYPE_LOW_LATENCY

(* src: obe/obe.h 50-58 input_video_connection_e *)
datatype input_video_connection =
    INPUT_VIDEO_CONNECTION_SDI | INPUT_VIDEO_CONNECTION_HDMI | INPUT_VIDEO_CONNECTION_OPTICAL_SDI
  | INPUT_VIDEO_CONNECTION_COMPONENT | INPUT_VIDEO_CONNECTION_COMPOSITE
  | INPUT_VIDEO_CONNECTION_S_VIDEO

(* src: obe/obe.h 60-65 input_audio_connection_e *)
datatype input_audio_connection =
  INPUT_AUDIO_EMBEDDED | INPUT_AUDIO_AES_EBU | INPUT_AUDIO_ANALOGUE

(* src: obe/obe.h 67-104 input_video_format_e *)
datatype input_video_format =
    INPUT_VIDEO_FORMAT_UNDEFINED | INPUT_VIDEO_FORMAT_PAL | INPUT_VIDEO_FORMAT_NTSC
  | INPUT_VIDEO_FORMAT_720P_2997 | INPUT_VIDEO_FORMAT_720P_50 | INPUT_VIDEO_FORMAT_720P_5994
  | INPUT_VIDEO_FORMAT_720P_60 | INPUT_VIDEO_FORMAT_1080I_50 | INPUT_VIDEO_FORMAT_1080I_5994
  | INPUT_VIDEO_FORMAT_1080I_60 | INPUT_VIDEO_FORMAT_1080P_2398 | INPUT_VIDEO_FORMAT_1080P_24
  | INPUT_VIDEO_FORMAT_1080P_25 | INPUT_VIDEO_FORMAT_1080P_2997 | INPUT_VIDEO_FORMAT_1080P_30
  | INPUT_VIDEO_FORMAT_1080P_50 | INPUT_VIDEO_FORMAT_1080P_5994 | INPUT_VIDEO_FORMAT_1080P_60
  | INPUT_VIDEO_FORMAT_2160P_25 | INPUT_VIDEO_FORMAT_2160P_2997 | INPUT_VIDEO_FORMAT_2160P_30
  | INPUT_VIDEO_FORMAT_2160P_50 | INPUT_VIDEO_FORMAT_2160P_5994 | INPUT_VIDEO_FORMAT_2160P_60
  | INPUT_VIDEO_FORMAT_HEVC_NALS

definition input_video_format_list :: "input_video_format list" where
  "input_video_format_list =
     [INPUT_VIDEO_FORMAT_UNDEFINED, INPUT_VIDEO_FORMAT_PAL, INPUT_VIDEO_FORMAT_NTSC,
      INPUT_VIDEO_FORMAT_720P_2997, INPUT_VIDEO_FORMAT_720P_50, INPUT_VIDEO_FORMAT_720P_5994,
      INPUT_VIDEO_FORMAT_720P_60, INPUT_VIDEO_FORMAT_1080I_50, INPUT_VIDEO_FORMAT_1080I_5994,
      INPUT_VIDEO_FORMAT_1080I_60, INPUT_VIDEO_FORMAT_1080P_2398, INPUT_VIDEO_FORMAT_1080P_24,
      INPUT_VIDEO_FORMAT_1080P_25, INPUT_VIDEO_FORMAT_1080P_2997, INPUT_VIDEO_FORMAT_1080P_30,
      INPUT_VIDEO_FORMAT_1080P_50, INPUT_VIDEO_FORMAT_1080P_5994, INPUT_VIDEO_FORMAT_1080P_60,
      INPUT_VIDEO_FORMAT_2160P_25, INPUT_VIDEO_FORMAT_2160P_2997, INPUT_VIDEO_FORMAT_2160P_30,
      INPUT_VIDEO_FORMAT_2160P_50, INPUT_VIDEO_FORMAT_2160P_5994, INPUT_VIDEO_FORMAT_2160P_60,
      INPUT_VIDEO_FORMAT_HEVC_NALS]"

definition input_video_format_val :: "input_video_format \<Rightarrow> int" where
  "input_video_format_val f = enum_index input_video_format_list f"

(* src: obe/obe.h 106-120 input_type_e *)
datatype input_type =
    INPUT_URL | INPUT_DEVICE_DECKLINK | INPUT_DEVICE_LINSYS_SDI | INPUT_DEVICE_V4L2
  | INPUT_DEVICE_BLUEFISH | INPUT_DEVICE_V210 | INPUT_DEVICE_DEKTEC | INPUT_DEVICE_NDI
  | INPUT_DEVICE_AVFOUNDATION | INPUT_DEVICE_VEGA3301 | INPUT_DEVICE_VEGA3311

(* src: obe/obe.h 147-153 stream_type_e *)
datatype stream_type = STREAM_TYPE_VIDEO | STREAM_TYPE_AUDIO | STREAM_TYPE_SUBTITLE | STREAM_TYPE_MISC

(* src: obe/obe.h 155-161 mp2_mode_e *)
datatype mp2_mode = MP2_MODE_AUTO | MP2_MODE_STEREO | MP2_MODE_JOINT_STEREO | MP2_MODE_DUAL_CHANNEL

(* src: obe/obe.h 163-167 mono_channel_e *)
datatype mono_channel = MONO_CHANNEL_LEFT | MONO_CHANNEL_RIGHT

(* src: obe/obe.h 237-241 stream_action_e *)
datatype stream_action = STREAM_PASSTHROUGH | STREAM_ENCODE

(* src: obe/obe.h 252-258 audio_type_e *)
datatype audio_type =
  AUDIO_TYPE_UNDEFINED | AUDIO_TYPE_CLEAN_EFFECTS | AUDIO_TYPE_HEARING_IMPAIRED | AUDIO_TYPE_VISUAL_IMPAIRED

(* src: obe/obe.h 344-349 aac_profile_e *)
datatype aac_profile = AAC_LC | AAC_HE_V1 | AAC_HE_V2

(* src: obe/obe.h 441-448 obe_ts_type_t *)
datatype obe_ts_type =
  OBE_TS_TYPE_GENERIC | OBE_TS_TYPE_DVB | OBE_TS_TYPE_CABLELABS | OBE_TS_TYPE_ATSC | OBE_TS_TYPE_ISDB

(* src: obe/obe.h 493-500 output_e *)
datatype output_type = OUTPUT_UDP | OUTPUT_RTP | OUTPUT_LINSYS_ASI | OUTPUT_FILE_TS

(* src: common/common.h 242-257 user_data_types_e *)
datatype user_data_types =
    USER_DATA_AVC_REGISTERED_ITU_T35 | USER_DATA_AVC_UNREGISTERED | USER_DATA_DVB_VBI
  | USER_DATA_CEA_608 | USER_DATA_CEA_708_CDP | USER_DATA_AFD | USER_DATA_BAR_DATA | USER_DATA_WSS

(* src: common/common.h 259-264 user_data_location_e *)
datatype user_data_location = USER_DATA_LOCATION_FRAME | USER_DATA_LOCATION_DVB_STREAM

(* src: common/common.h 512-516 obe_coded_frame_type_e *)
datatype coded_frame_type = CF_UNDEFINED | CF_VIDEO | CF_AUDIO

(* src: common/common.h 70-73 IS_INTERLACED *)
definition is_interlaced :: "input_video_format \<Rightarrow> bool" where
  "is_interlaced x \<longleftrightarrow>
     x = INPUT_VIDEO_FORMAT_PAL \<or> x = INPUT_VIDEO_FORMAT_NTSC \<or> x = INPUT_VIDEO_FORMAT_1080I_50
     \<or> x = INPUT_VIDEO_FORMAT_1080I_5994 \<or> x = INPUT_VIDEO_FORMAT_1080I_60"

definition is_sd :: "input_video_format \<Rightarrow> bool" where
  "is_sd x \<longleftrightarrow> x = INPUT_VIDEO_FORMAT_PAL \<or> x = INPUT_VIDEO_FORMAT_NTSC"

(* src: common/common.h 91-94 obe_clip3 *)
definition obe_clip3 :: "int \<Rightarrow> int \<Rightarrow> int \<Rightarrow> int" where
  "obe_clip3 v i_min i_max = (if v < i_min then i_min else if v > i_max then i_max else v)"


section \<open>Audio and video timing metadata\<close>

(* src: common/common.h 326-326 avfm_frame_type_e *)
datatype avfm_frame_type = AVFM_AUDIO_A52 | AVFM_VIDEO | AVFM_AUDIO_PCM

(* src: common/common.h 327-347 avfm_s *)
record avfm =
  av_frame_type :: avfm_frame_type
  av_audio_pts :: int
  av_audio_pts_corrected :: int
  av_video_pts :: int
  av_video_dts :: int
  av_hw_received :: timeval
  av_drift :: int
  av_video_interval_clk :: int
  av_hw_status :: u64

text \<open>\<open>video_dts\<close> and \<open>video_interval_clk\<close> keep whatever they held.\<close>

(* src: common/common.h 349-358 avfm_init *)
definition avfm_init :: "avfm \<Rightarrow> avfm_frame_type \<Rightarrow> avfm" where
  "avfm_init s t = s\<lparr>av_frame_type := t, av_audio_pts := -1, av_audio_pts_corrected := -1,
     av_video_pts := -1, av_hw_received := \<lparr>tv_sec = 0, tv_usec = 0\<rparr>, av_drift := 0,
     av_hw_status := 0\<rparr>"

(* src: common/common.h 360-363 avfm_set_pts_video *)
definition avfm_set_pts_video :: "avfm \<Rightarrow> int \<Rightarrow> avfm" where
  "avfm_set_pts_video s pts = (let s = s\<lparr>av_video_pts := pts\<rparr>
     in s\<lparr>av_drift := av_audio_pts s - av_video_pts s\<rparr>)"

(* src: common/common.h 365-367 avfm_set_dts_video *)
definition avfm_set_dts_video :: "avfm \<Rightarrow> int \<Rightarrow> avfm" where
  "avfm_set_dts_video s dts = s\<lparr>av_video_dts := dts\<rparr>"

(* src: common/common.h 369-372 avfm_set_pts_audio *)
definition avfm_set_pts_audio :: "avfm \<Rightarrow> int \<Rightarrow> avfm" where
  "avfm_set_pts_audio s pts = (let s = s\<lparr>av_audio_pts := pts\<rparr>
     in s\<lparr>av_drift := av_audio_pts s - av_video_pts s\<rparr>)"

(* src: common/common.h 374-380 avfm_set_video_interval_clk *)
definition avfm_set_video_interval_clk :: "avfm \<Rightarrow> int \<Rightarrow> avfm" where
  "avfm_set_video_interval_clk s clk = s\<lparr>av_video_interval_clk := clk\<rparr>"

(* src: common/common.h 382-384 avfm_set_pts_audio_corrected *)
definition avfm_set_pts_audio_corrected :: "avfm \<Rightarrow> int \<Rightarrow> avfm" where
  "avfm_set_pts_audio_corrected s pts = s\<lparr>av_audio_pts_corrected := pts\<rparr>"

(* src: common/common.h 386-400 avfm_set_hw_received_time *)
definition avfm_set_hw_received_time :: "timeval \<Rightarrow> avfm \<Rightarrow> avfm" where
  "avfm_set_hw_received_time now s = s\<lparr>av_hw_received := now\<rparr>"

text \<open>The duplex mask shifts a zero bit, so it is zero.\<close>

(* src: common/common.h 338-346 AVFM_HW_STATUS__MASK_BLACKMAGIC_DUPLEX *)
definition AVFM_HW_STATUS__MASK_BLACKMAGIC_DUPLEX :: u64 where
  "AVFM_HW_STATUS__MASK_BLACKMAGIC_DUPLEX = push_bit 0 0"

(* src: common/common.h 402-404 avfm_get_hw_status_mask *)
definition avfm_get_hw_status_mask :: "avfm \<Rightarrow> u64 \<Rightarrow> u64" where
  "avfm_get_hw_status_mask s m = av_hw_status s AND m"

(* src: common/common.h 406-408 avfm_set_hw_status_mask *)
definition avfm_set_hw_status_mask :: "avfm \<Rightarrow> u64 \<Rightarrow> avfm" where
  "avfm_set_hw_status_mask s m = s\<lparr>av_hw_status := av_hw_status s OR m\<rparr>"

text \<open>Whatever the order the two times are set in, the drift is audio minus video.\<close>

definition avfm_drift_ok :: "avfm \<Rightarrow> bool" where
  "avfm_drift_ok s \<longleftrightarrow> av_drift s = av_audio_pts s - av_video_pts s"

lemma avfm_drift_invariant:
  "avfm_drift_ok (avfm_init s t)" "avfm_drift_ok (avfm_set_pts_video s p)"
  "avfm_drift_ok (avfm_set_pts_audio s p)"
  "avfm_drift_ok s \<Longrightarrow> avfm_drift_ok (avfm_set_dts_video s p)"
  "avfm_drift_ok s \<Longrightarrow> avfm_drift_ok (avfm_set_video_interval_clk s p)"
  "avfm_drift_ok s \<Longrightarrow> avfm_drift_ok (avfm_set_hw_status_mask s m)"
  by (simp_all add: avfm_drift_ok_def avfm_init_def avfm_set_pts_video_def avfm_set_pts_audio_def
      avfm_set_dts_video_def avfm_set_video_interval_clk_def avfm_set_hw_status_mask_def Let_def)

lemma avfm_duplex_status_zero: "avfm_get_hw_status_mask s AVFM_HW_STATUS__MASK_BLACKMAGIC_DUPLEX = 0"
  by (simp add: avfm_get_hw_status_mask_def AVFM_HW_STATUS__MASK_BLACKMAGIC_DUPLEX_def)

section \<open>Structures\<close>

(* src: obe/obe.h 169-175 obe_frame_data_t *)
record frame_data =
  fd_type :: stream_formats
  fd_source :: stream_formats
  fd_num_lines :: int
  fd_lines :: "int list"

(* src: common/common.h 223-230 obe_int_frame_data_t *)
record int_frame_data = frame_data +
  ifd_location :: user_data_location

(* src: obe/obe.h 122-144 obe_input_t *)
record obe_input =
  in_type :: input_type
  in_location :: "string option"
  in_card_idx :: int
  in_name :: "string option"
  in_video_format :: int
  in_video_connection :: int
  in_audio_connection :: int
  in_smpte2038 :: int
  in_scte35 :: int
  in_vanc_cache :: int
  in_bitstream_audio :: int
  in_patch1 :: int
  in_los_exit_ms :: int
  in_frame_injection :: int
  in_allow_1080p60 :: int
  in_hdr :: int
  in_smpte2031 :: int

(* src: obe/obe.h 177-223 obe_input_stream_t *)
record input_stream =
  is_input_stream_id :: int
  is_stream_type :: stream_type
  is_stream_format :: stream_formats
  is_lang_code :: string
  is_csp :: int
  is_width :: int
  is_height :: int
  is_sar_num :: int
  is_sar_den :: int
  is_interl :: int
  is_timebase_num :: int
  is_timebase_den :: int
  is_frame_data :: "frame_data list"
  is_channel_layout :: u64
  is_num_channels :: int
  is_sample_rate :: int
  is_sdi_audio_pair :: int
  is_dialnorm :: int
  is_sample_format :: int
  is_bitrate :: int
  is_aac_is_latm :: int
  is_dvb_has_dds :: int
  is_hdr_flag :: int

(* src: common/common.h 105-179 obe_int_input_stream_t *)
record int_input_stream =
  iis_input_stream_id :: int
  iis_stream_type :: stream_type
  iis_stream_format :: stream_formats
  iis_lavf_stream_idx :: int
  iis_lang_code :: string
  iis_timebase_num :: int
  iis_timebase_den :: int
  iis_pid :: int
  iis_has_stream_identifier :: int
  iis_stream_identifier :: int
  iis_audio_type :: int
  iis_csp :: int
  iis_width :: int
  iis_height :: int
  iis_sar_num :: int
  iis_sar_den :: int
  iis_interlaced :: int
  iis_tff :: int
  iis_num_frame_data :: int
  iis_frame_data :: "frame_data list"
  iis_channel_layout :: u64
  iis_num_channels :: int
  iis_sample_rate :: int
  iis_sdi_audio_pair :: int
  iis_sample_format :: int
  iis_bitrate :: int
  iis_is_latm :: int
  iis_has_dds :: int
  iis_dvb_subtitling_type :: int
  iis_composition_page_id :: int
  iis_ancillary_page_id :: int
  iis_vbi_ntsc :: int
  iis_is_hdr :: int

(* src: obe/obe.h 261-292 obe_ts_stream_opts_t *)
record ts_stream_opts =
  tso_passthrough_opts :: int
  tso_pid :: int
  tso_frames_per_pes :: int
  tso_write_lang_code :: int
  tso_lang_code :: string
  tso_audio_type :: int
  tso_has_stream_identifier :: int
  tso_stream_identifier :: int
  tso_teletexts :: "(string \<times> int \<times> int \<times> int) list"
  tso_data_identifier :: int

text \<open>One-bit fields hold 0 or 1.\<close>

(* src: obe/obe.h 358-364 obe_frame_anc_opts_t *)
record frame_anc_opts =
  fao_cea_608 :: bool
  fao_cea_708 :: bool
  fao_afd :: bool
  fao_wss_to_afd :: bool

(* src: obe/obe.h 366-372 obe_dvb_vbi_opts_t *)
record dvb_vbi_opts =
  dvo_ttx :: bool
  dvo_inverted_ttx :: bool
  dvo_vps :: bool
  dvo_wss :: bool

text \<open>The members of x264's \<open>x264_param_t\<close> that the core reads.\<close>

record avc_param =
  avc_csp :: int
  avc_width :: int
  avc_height :: int
  avc_interlaced :: bool
  avc_fps_num :: int
  avc_fps_den :: int
  avc_profile_idc :: int
  avc_level_idc :: int
  avc_intra_refresh :: bool
  avc_keyint_max :: int
  avc_bitrate :: int
  avc_vbv_max_bitrate :: int
  avc_vbv_buffer_size :: int
  avc_lookahead :: int

(* src: obe/obe.h 374-430 obe_output_stream_t *)
record output_stream =
  os_input_stream_id :: int
  os_output_stream_id :: int
  os_stream_action :: stream_action
  os_stream_format :: stream_formats
  os_is_wide :: int
  os_video_anc :: frame_anc_opts
  os_avc_param :: avc_param
  os_bitrate :: int
  os_sdi_audio_pair :: int
  os_channel_layout :: u64
  os_mono_channel :: int
  os_audio_offset_ms :: int
  os_aac_profile :: int
  os_latm_output :: int
  os_mp2_mode :: int
  os_dvb_vbi_opts :: dvb_vbi_opts
  os_ts_opts :: ts_stream_opts

(* src: obe/obe.h 450-485 obe_mux_opts_t *)
record mux_opts =
  mo_ts_type :: int
  mo_cbr :: int
  mo_ts_muxrate :: int
  mo_passthrough :: int
  mo_ts_id :: int
  mo_program_num :: int
  mo_pmt_pid :: int
  mo_pcr_pid :: int
  mo_scte35_pids :: "int list"
  mo_smpte2038_pid :: int
  mo_smpte2031_pid :: int
  mo_pcr_period :: int
  mo_pat_period :: int
  mo_is_3dtv :: int
  mo_service_name :: "string option"
  mo_provider_name :: "string option"
  mo_section_padding :: int

(* src: obe/obe.h 508-518 obe_output_dest_t *)
record output_dest =
  od_type :: output_type
  od_target :: string

text \<open>The enumerators of libavutil the code names; \<open>AV_PIX_FMT_YUV420P\<close> is 0.\<close>

datatype av_pix_fmt =
    AV_PIX_FMT_YUV420P | AV_PIX_FMT_YUV422P | AV_PIX_FMT_NV12 | AV_PIX_FMT_UYVY422
  | AV_PIX_FMT_YUV420P10 | AV_PIX_FMT_YUV422P10 | AV_PIX_FMT_YUV420P16 | AV_PIX_FMT_QSV

text \<open>A plane is the list of its samples; those of 8-bit formats are below 256.\<close>

(* src: common/common.h 202-212 obe_image_t *)
record obe_image =
  img_csp :: av_pix_fmt
  img_width :: int
  img_height :: int
  img_planes :: int
  img_plane :: "u16 list list"
  img_stride :: "int list"
  img_format :: input_video_format
  img_first_line :: int

(* src: common/common.h 308-315 obe_user_data_t *)
record user_data =
  ud_type :: user_data_types
  ud_source :: stream_formats
  ud_field :: int
  ud_len :: int
  ud_data :: bytes

(* src: common/common.h 317-324 obe_timecode_t *)
record timecode =
  tc_hours :: int
  tc_mins :: int
  tc_seconds :: int
  tc_frames :: int
  tc_drop_frame :: int

(* src: common/common.h 232-240 obe_audio_frame_t *)
record audio_frame =
  af_num_samples :: int
  af_num_channels :: int
  af_linesize :: int
  af_sample_fmt :: int
  af_data :: "bytes list"

text \<open>A raw frame's metadata list is the extension the metadata theory adds.\<close>

(* src: common/common.h 422-466 obe_raw_frame_t *)
record raw_frame =
  rf_input_stream_id :: int
  rf_pts :: int
  rf_avfm :: avfm
  rf_alloc_img :: obe_image
  rf_img :: obe_image
  rf_sar_width :: int
  rf_sar_height :: int
  rf_sar_guess :: int
  rf_arrival_time :: int
  rf_timebase_num :: int
  rf_timebase_den :: int
  rf_user_data :: "user_data list"
  rf_audio_frame :: audio_frame
  rf_valid_timecode :: bool
  rf_timecode :: timecode
  rf_reset_obe :: bool

text \<open>\<open>calloc\<close> of the structures: every number is 0, every array empty.\<close>

definition avfm_zero :: avfm where
  "avfm_zero = \<lparr>av_frame_type = AVFM_AUDIO_A52, av_audio_pts = 0, av_audio_pts_corrected = 0,
     av_video_pts = 0, av_video_dts = 0, av_hw_received = \<lparr>tv_sec = 0, tv_usec = 0\<rparr>, av_drift = 0,
     av_video_interval_clk = 0, av_hw_status = 0\<rparr>"

definition obe_image_zero :: obe_image where
  "obe_image_zero = \<lparr>img_csp = AV_PIX_FMT_YUV420P, img_width = 0, img_height = 0, img_planes = 0, img_plane = [],
     img_stride = [], img_format = INPUT_VIDEO_FORMAT_UNDEFINED, img_first_line = 0\<rparr>"

(* src: obe/obe.c 129-141 new_raw_frame *)
definition new_raw_frame :: "bool \<Rightarrow> raw_frame option" where
  "new_raw_frame calloc_ok =
     (if \<not> calloc_ok then None
      else Some \<lparr>rf_input_stream_id = 0, rf_pts = 0, rf_avfm = avfm_zero, rf_alloc_img = obe_image_zero,
        rf_img = obe_image_zero, rf_sar_width = 0, rf_sar_height = 0, rf_sar_guess = 0,
        rf_arrival_time = 0, rf_timebase_num = 0, rf_timebase_den = 0, rf_user_data = [],
        rf_audio_frame = \<lparr>af_num_samples = 0, af_num_channels = 0, af_linesize = 0, af_sample_fmt = 0,
                          af_data = []\<rparr>,
        rf_valid_timecode = False,
        rf_timecode = \<lparr>tc_hours = 0, tc_mins = 0, tc_seconds = 0, tc_frames = 0, tc_drop_frame = 0\<rparr>,
        rf_reset_obe = False\<rparr>)"

(* src: common/common.h 518-541 obe_coded_frame_t *)
record coded_frame =
  cf_output_stream_id :: int
  cf_type :: coded_frame_type
  cf_avfm :: avfm
  cf_pts :: int
  cf_cpb_initial_arrival_time :: int
  cf_cpb_final_arrival_time :: int
  cf_real_dts :: int
  cf_real_pts :: int
  cf_random_access :: int
  cf_priority :: int
  cf_arrival_time :: int
  cf_data :: bytes

(* src: common/common.h 543-552 obe_muxed_data_t *)
record muxed_data =
  md_data :: bytes
  md_pcr_list :: "int list"

section \<open>Finding output streams\<close>

(* src: obe/obe.c 521-530 get_output_stream_by_id *)
definition get_output_stream_by_id :: "output_stream list \<Rightarrow> int \<Rightarrow> output_stream option" where
  "get_output_stream_by_id outs output_stream_id =
     find (\<lambda>e. os_output_stream_id e = output_stream_id) outs"

(* src: obe/obe.c 532-541 get_output_stream_by_format *)
definition get_output_stream_by_format :: "output_stream list \<Rightarrow> stream_formats \<Rightarrow> output_stream option" where
  "get_output_stream_by_format outs format = find (\<lambda>e. os_stream_format e = format) outs"

section \<open>New frames\<close>

text \<open>The contents of the new data block are undefined until they are written; the model has zeros.\<close>

definition coded_frame_zero :: coded_frame where
  "coded_frame_zero = \<lparr>cf_output_stream_id = 0, cf_type = CF_UNDEFINED, cf_avfm = avfm_zero, cf_pts = 0, cf_cpb_initial_arrival_time = 0,
     cf_cpb_final_arrival_time = 0, cf_real_dts = 0, cf_real_pts = 0, cf_random_access = 0, cf_priority = 0,
     cf_arrival_time = 0, cf_data = []\<rparr>"

(* src: obe/obe.c 144-162 new_coded_frame *)
definition new_coded_frame :: "bool \<Rightarrow> bool \<Rightarrow> int \<Rightarrow> nat \<Rightarrow> coded_frame option" where
  "new_coded_frame ok1 ok2 output_stream_id len =
     (if \<not> ok1 \<or> \<not> ok2 then None
      else Some (coded_frame_zero\<lparr>cf_output_stream_id := output_stream_id, cf_data := replicate len 0\<rparr>))"

(* src: obe/obe.c 294-311 new_muxed_data *)
definition new_muxed_data :: "bool \<Rightarrow> bool \<Rightarrow> nat \<Rightarrow> muxed_data option" where
  "new_muxed_data ok1 ok2 len =
     (if \<not> ok1 \<or> \<not> ok2 then None else Some \<lparr>md_data = replicate len 0, md_pcr_list = []\<rparr>)"

end
