(* ===== verification/Obe_Sdi.thy ===== *)
theory Obe_Sdi
  imports Obe_Types
begin

text \<open>
  \<open>input/sdi/sdi.c\<close> and the tables of \<open>input/sdi/sdi.h\<close>: unpacking of the v210 pixel format and
  conversion of lines to the native SDI sample orders, the bookkeeping of non-display services
  found while probing, and the two line numbering schemes of interlaced formats.

  A line of samples is a list; the functions append to the destination planes in the order the code
  advances the pointers.  The source of 32-bit words is a list, and reading past its end is
  \<^const>\<open>None\<close>.
\<close>

section \<open>Pixel formats\<close>

type_synonym samples = "u16 list"

(* src: input/sdi/sdi.c 28-34 READ_PIXELS *)
definition read_pixels :: "u32 \<Rightarrow> u16 \<times> u16 \<times> u16" where
  "read_pixels val = (ucast (val AND 0x3ff), ucast (drop_bit 10 val AND 0x3ff),
                      ucast (drop_bit 20 val AND 0x3ff))"

record planar =
  pl_y :: samples
  pl_u :: samples
  pl_v :: samples

(* src: input/sdi/sdi.c 38-49 obe_v210_planar_unpack_c *)
function v210_planar_loop :: "int \<Rightarrow> int \<Rightarrow> u32 list \<Rightarrow> planar \<Rightarrow> planar option" where
  "v210_planar_loop i width src pl =
     (if i < width - 5
      then (case src of
              w0 # w1 # w2 # w3 # src' \<Rightarrow>
                (case (read_pixels w0, read_pixels w1, read_pixels w2, read_pixels w3) of
                   ((u0, y0, v0), (y1, u1, y2), (v1, y3, u2), (y4, v2, y5)) \<Rightarrow>
                     v210_planar_loop (i + 6) width src'
                       \<lparr>pl_y = pl_y pl @ [y0, y1, y2, y3, y4, y5], pl_u = pl_u pl @ [u0, u1, u2],
                        pl_v = pl_v pl @ [v0, v1, v2]\<rparr>)
            | _ \<Rightarrow> None)
      else Some pl)"
  by auto
termination
  by (relation "measure (\<lambda>(i, width, src, pl). nat (width - i))") auto

declare v210_planar_loop.simps [simp del]

(* src: input/sdi/sdi.c 38-49 obe_v210_planar_unpack_c *)
definition obe_v210_planar_unpack_c :: "u32 list \<Rightarrow> int \<Rightarrow> planar option" where
  "obe_v210_planar_unpack_c src width =
     v210_planar_loop 0 width src \<lparr>pl_y = [], pl_u = [], pl_v = []\<rparr>"

text \<open>The native HD order has the luma samples first and the chroma samples \<open>width\<close> further on.\<close>

record nv20 =
  nv_dst :: samples
  nv_uv :: samples

(* src: input/sdi/sdi.c 52-63 obe_v210_line_to_nv20_c *)
function v210_nv20_loop :: "int \<Rightarrow> int \<Rightarrow> u32 list \<Rightarrow> nv20 \<Rightarrow> (int \<times> u32 list \<times> nv20) option" where
  "v210_nv20_loop w width src nv =
     (if w < width - 5
      then (case src of
              w0 # w1 # w2 # w3 # src' \<Rightarrow>
                (case (read_pixels w0, read_pixels w1, read_pixels w2, read_pixels w3) of
                   ((c0, y0, c1), (y1, c2, y2), (c3, y3, c4), (y4, c5, y5)) \<Rightarrow>
                     v210_nv20_loop (w + 6) width src'
                       \<lparr>nv_dst = nv_dst nv @ [y0, y1, y2, y3, y4, y5],
                        nv_uv = nv_uv nv @ [c0, c1, c2, c3, c4, c5]\<rparr>)
            | _ \<Rightarrow> None)
      else Some (w, src, nv))"
  by auto
termination
  by (relation "measure (\<lambda>(w, width, src, nv). nat (width - w))") auto

declare v210_nv20_loop.simps [simp del]

text \<open>The one or two groups at the end of a line whose width is not a multiple of six.\<close>

(* src: input/sdi/sdi.c 65-82 obe_v210_line_to_nv20_c *)
definition v210_nv20_tail :: "int \<Rightarrow> int \<Rightarrow> u32 list \<Rightarrow> nv20 \<Rightarrow> nv20 option" where
  "v210_nv20_tail w width src nv =
     do { (val, src, nv) \<leftarrow>
            (if w < width - 1
             then (case src of
                     w0 # w1 # src' \<Rightarrow>
                       (case (read_pixels w0, read_pixels w1) of ((c0, y0, c1), (y1, _, _)) \<Rightarrow>
                          Some (w1, src', \<lparr>nv_dst = nv_dst nv @ [y0, y1], nv_uv = nv_uv nv @ [c0, c1]\<rparr>))
                   | _ \<Rightarrow> None)
             else Some (0, src, nv));
          if w < width - 3
          then (case src of
                  w2 # _ \<Rightarrow>
                    (case (read_pixels val, read_pixels w2) of ((_, c2, y2), (c3, y3, _)) \<Rightarrow>
                       Some \<lparr>nv_dst = nv_dst nv @ [y2, y3], nv_uv = nv_uv nv @ [c2, c3]\<rparr>)
                | _ \<Rightarrow> None)
          else Some nv }"

(* src: input/sdi/sdi.c 52-82 obe_v210_line_to_nv20_c *)
definition obe_v210_line_to_nv20_c :: "u32 list \<Rightarrow> int \<Rightarrow> nv20 option" where
  "obe_v210_line_to_nv20_c src width =
     do { (w, src, nv) \<leftarrow> v210_nv20_loop 0 width src \<lparr>nv_dst = [], nv_uv = []\<rparr>;
          v210_nv20_tail w width src nv }"

(* src: input/sdi/sdi.c 86-96 obe_v210_line_to_uyvy_c *)
function v210_uyvy_loop :: "int \<Rightarrow> int \<Rightarrow> u32 list \<Rightarrow> samples \<Rightarrow> samples option" where
  "v210_uyvy_loop i width src dst =
     (if i < width
      then (case src of
              w0 # w1 # w2 # w3 # src' \<Rightarrow>
                v210_uyvy_loop (i + 6) width src'
                  (dst @ concat (map (\<lambda>w. case read_pixels w of (a, b, c) \<Rightarrow> [a, b, c]) [w0, w1, w2, w3]))
            | _ \<Rightarrow> None)
      else Some dst)"
  by auto
termination
  by (relation "measure (\<lambda>(i, width, src, dst). nat (width - i))") auto

declare v210_uyvy_loop.simps [simp del]

(* src: input/sdi/sdi.c 86-96 obe_v210_line_to_uyvy_c *)
definition obe_v210_line_to_uyvy_c :: "u32 list \<Rightarrow> int \<Rightarrow> samples option" where
  "obe_v210_line_to_uyvy_c src width = v210_uyvy_loop 0 width src []"

(* src: input/sdi/sdi.c 99-109 obe_yuv422p10_line_to_nv20_c *)
function yuv422p10_nv20_loop :: "int \<Rightarrow> int \<Rightarrow> planar \<Rightarrow> nv20 \<Rightarrow> nv20 option" where
  "yuv422p10_nv20_loop i width pl nv =
     (if i < width
      then (case (pl_y pl, pl_u pl, pl_v pl) of
              (y0 # y1 # ys, u # us, v # vs) \<Rightarrow>
                yuv422p10_nv20_loop (i + 2) width \<lparr>pl_y = ys, pl_u = us, pl_v = vs\<rparr>
                  \<lparr>nv_dst = nv_dst nv @ [y0, y1], nv_uv = nv_uv nv @ [u, v]\<rparr>
            | _ \<Rightarrow> None)
      else Some nv)"
  by auto
termination
  by (relation "measure (\<lambda>(i, width, pl, nv). nat (width - i))") auto

declare yuv422p10_nv20_loop.simps [simp del]

(* src: input/sdi/sdi.c 99-109 obe_yuv422p10_line_to_nv20_c *)
definition obe_yuv422p10_line_to_nv20_c :: "planar \<Rightarrow> int \<Rightarrow> nv20 option" where
  "obe_yuv422p10_line_to_nv20_c pl width = yuv422p10_nv20_loop 0 width pl \<lparr>nv_dst = [], nv_uv = []\<rparr>"

(* src: input/sdi/sdi.c 113-122 obe_yuv422p10_line_to_uyvy_c *)
function yuv422p10_uyvy_loop :: "int \<Rightarrow> int \<Rightarrow> planar \<Rightarrow> samples \<Rightarrow> samples option" where
  "yuv422p10_uyvy_loop i width pl dst =
     (if i < width
      then (case (pl_y pl, pl_u pl, pl_v pl) of
              (y0 # y1 # ys, u # us, v # vs) \<Rightarrow>
                yuv422p10_uyvy_loop (i + 2) width \<lparr>pl_y = ys, pl_u = us, pl_v = vs\<rparr>
                  (dst @ [u, y0, v, y1])
            | _ \<Rightarrow> None)
      else Some dst)"
  by auto
termination
  by (relation "measure (\<lambda>(i, width, pl, dst). nat (width - i))") auto

declare yuv422p10_uyvy_loop.simps [simp del]

(* src: input/sdi/sdi.c 113-122 obe_yuv422p10_line_to_uyvy_c *)
definition obe_yuv422p10_line_to_uyvy_c :: "planar \<Rightarrow> int \<Rightarrow> samples option" where
  "obe_yuv422p10_line_to_uyvy_c pl width = yuv422p10_uyvy_loop 0 width pl []"

(* src: input/sdi/sdi.c 126-130 obe_downscale_line_c *)
definition obe_downscale_line_c :: "samples \<Rightarrow> nat \<Rightarrow> bytes option" where
  "obe_downscale_line_c src lines =
     map_option (map (\<lambda>s. ucast (drop_bit 2 s))) (mem_get 0 (720 * 2 * lines) src)"

(* src: input/sdi/sdi.c 132-140 obe_blank_line_nv20_c *)
definition obe_blank_line_nv20_c :: "nat \<Rightarrow> nv20" where
  "obe_blank_line_nv20_c width = \<lparr>nv_dst = replicate width 0x40, nv_uv = replicate width 0x200\<rparr>"

(* src: input/sdi/sdi.c 142-149 obe_blank_line_uyvy_c *)
definition obe_blank_line_uyvy_c :: "nat \<Rightarrow> samples" where
  "obe_blank_line_uyvy_c width = concat (replicate width [0x200, 0x40])"

section \<open>The conversions agree\<close>

text \<open>The samples of whole groups of four words, by component.\<close>

fun group_y :: "u32 list \<Rightarrow> samples" where
  "group_y (w0 # w1 # w2 # w3 # ws) =
     (case (read_pixels w0, read_pixels w1, read_pixels w2, read_pixels w3) of
        ((u0, y0, v0), (y1, u1, y2), (v1, y3, u2), (y4, v2, y5)) \<Rightarrow>
          [y0, y1, y2, y3, y4, y5] @ group_y ws)"
| "group_y _ = []"

fun group_u :: "u32 list \<Rightarrow> samples" where
  "group_u (w0 # w1 # w2 # w3 # ws) =
     (case (read_pixels w0, read_pixels w1, read_pixels w2, read_pixels w3) of
        ((u0, y0, v0), (y1, u1, y2), (v1, y3, u2), (y4, v2, y5)) \<Rightarrow> [u0, u1, u2] @ group_u ws)"
| "group_u _ = []"

fun group_v :: "u32 list \<Rightarrow> samples" where
  "group_v (w0 # w1 # w2 # w3 # ws) =
     (case (read_pixels w0, read_pixels w1, read_pixels w2, read_pixels w3) of
        ((u0, y0, v0), (y1, u1, y2), (v1, y3, u2), (y4, v2, y5)) \<Rightarrow> [v0, v1, v2] @ group_v ws)"
| "group_v _ = []"

fun interleave :: "'a list \<Rightarrow> 'a list \<Rightarrow> 'a list" where
  "interleave (x # xs) (y # ys) = x # y # interleave xs ys"
| "interleave _ _ = []"

fun pack_uyvy :: "samples \<Rightarrow> samples \<Rightarrow> samples \<Rightarrow> samples" where
  "pack_uyvy (y0 # y1 # ys) (u # us) (v # vs) = u # y0 # v # y1 # pack_uyvy ys us vs"
| "pack_uyvy _ _ _ = []"

lemma four_words:
  assumes "length src = 4 * Suc k"
  obtains w0 w1 w2 w3 ws where "src = w0 # w1 # w2 # w3 # ws" "length ws = 4 * k"
proof -
  have "length src = Suc (Suc (Suc (Suc (4 * k))))"
    using assms by simp
  then show thesis
    using that by (metis length_Suc_conv)
qed

lemma planar_loop_groups:
  assumes "length src = 4 * k"
  shows "v210_planar_loop i (i + 6 * int k) src pl
    = Some \<lparr>pl_y = pl_y pl @ group_y src, pl_u = pl_u pl @ group_u src, pl_v = pl_v pl @ group_v src\<rparr>"
  using assms
proof (induction k arbitrary: src i pl)
  case 0
  then show ?case by (simp add: v210_planar_loop.simps)
next
  case (Suc k)
  obtain w0 w1 w2 w3 ws where src: "src = w0 # w1 # w2 # w3 # ws" "length ws = 4 * k"
    using four_words [OF Suc.prems] by blast
  show ?case
    using Suc.IH [OF src(2), of "i + 6"]
    by (simp add: v210_planar_loop.simps [of i] src(1) read_pixels_def algebra_simps)
qed

lemma nv20_loop_groups:
  assumes "length src = 4 * k"
  shows "v210_nv20_loop i (i + 6 * int k) src nv
    = Some (i + 6 * int k, [], \<lparr>nv_dst = nv_dst nv @ group_y src,
                                nv_uv = nv_uv nv @ interleave (group_u src) (group_v src)\<rparr>)"
  using assms
proof (induction k arbitrary: src i nv)
  case 0
  then show ?case by (simp add: v210_nv20_loop.simps)
next
  case (Suc k)
  obtain w0 w1 w2 w3 ws where src: "src = w0 # w1 # w2 # w3 # ws" "length ws = 4 * k"
    using four_words [OF Suc.prems] by blast
  show ?case
    using Suc.IH [OF src(2), of "i + 6"]
    by (simp add: v210_nv20_loop.simps [of i] src(1) read_pixels_def algebra_simps)
qed

lemma uyvy_loop_groups:
  assumes "length src = 4 * k"
  shows "v210_uyvy_loop i (i + 6 * int k) src dst
    = Some (dst @ pack_uyvy (group_y src) (group_u src) (group_v src))"
  using assms
proof (induction k arbitrary: src i dst)
  case 0
  then show ?case by (simp add: v210_uyvy_loop.simps)
next
  case (Suc k)
  obtain w0 w1 w2 w3 ws where src: "src = w0 # w1 # w2 # w3 # ws" "length ws = 4 * k"
    using four_words [OF Suc.prems] by blast
  show ?case
    using Suc.IH [OF src(2), of "i + 6"]
    by (simp add: v210_uyvy_loop.simps [of i] src(1) read_pixels_def algebra_simps)
qed

lemma six_samples:
  assumes "length ys = 2 * Suc k" "length us = Suc k" "length vs = Suc k"
  shows "\<exists>y0 y1 ys' u us' v vs'. ys = y0 # y1 # ys' \<and> us = u # us' \<and> vs = v # vs'
           \<and> length ys' = 2 * k \<and> length us' = k \<and> length vs' = k"
proof -
  have "length ys = Suc (Suc (2 * k))"
    using assms(1) by simp
  then obtain y0 y1 ys' where "ys = y0 # y1 # ys'" "length ys' = 2 * k"
    by (metis length_Suc_conv)
  moreover obtain u us' where "us = u # us'" "length us' = k"
    using assms(2) by (metis length_Suc_conv)
  moreover obtain v vs' where "vs = v # vs'" "length vs' = k"
    using assms(3) by (metis length_Suc_conv)
  ultimately show ?thesis
    by blast
qed

lemma yuv_nv20_loop:
  assumes "length ys = 2 * k" "length us = k" "length vs = k"
  shows "yuv422p10_nv20_loop i (i + 2 * int k) \<lparr>pl_y = ys, pl_u = us, pl_v = vs\<rparr> nv
    = Some \<lparr>nv_dst = nv_dst nv @ ys, nv_uv = nv_uv nv @ interleave us vs\<rparr>"
  using assms
proof (induction k arbitrary: i ys us vs nv)
  case 0
  then show ?case by (simp add: yuv422p10_nv20_loop.simps)
next
  case (Suc k)
  obtain y0 y1 ys' u us' v vs' where e: "ys = y0 # y1 # ys'" "us = u # us'" "vs = v # vs'"
    "length ys' = 2 * k" "length us' = k" "length vs' = k"
    using six_samples [OF Suc.prems] by blast
  show ?case
    using Suc.IH [OF e(4-6), of "i + 2"]
    by (simp add: yuv422p10_nv20_loop.simps [of i] e(1-3) algebra_simps)
qed

lemma yuv_uyvy_loop:
  assumes "length ys = 2 * k" "length us = k" "length vs = k"
  shows "yuv422p10_uyvy_loop i (i + 2 * int k) \<lparr>pl_y = ys, pl_u = us, pl_v = vs\<rparr> dst
    = Some (dst @ pack_uyvy ys us vs)"
  using assms
proof (induction k arbitrary: i ys us vs dst)
  case 0
  then show ?case by (simp add: yuv422p10_uyvy_loop.simps)
next
  case (Suc k)
  obtain y0 y1 ys' u us' v vs' where e: "ys = y0 # y1 # ys'" "us = u # us'" "vs = v # vs'"
    "length ys' = 2 * k" "length us' = k" "length vs' = k"
    using six_samples [OF Suc.prems] by blast
  show ?case
    using Suc.IH [OF e(4-6), of "i + 2"]
    by (simp add: yuv422p10_uyvy_loop.simps [of i] e(1-3) algebra_simps)
qed

lemma group_lengths:
  "length src = 4 * k \<Longrightarrow> length (group_y src) = 2 * (3 * k) \<and> length (group_u src) = 3 * k
     \<and> length (group_v src) = 3 * k"
proof (induction k arbitrary: src)
  case (Suc k)
  obtain w0 w1 w2 w3 ws where src: "src = w0 # w1 # w2 # w3 # ws" "length ws = 4 * k"
    using four_words [OF Suc.prems] by blast
  show ?case
    using Suc.IH [OF src(2)] by (simp add: src(1) read_pixels_def)
qed simp

text \<open>
  The line a v210 buffer stands for: its samples in the order of transmission, \<open>Cb Y Cr Y\<close>, three of ten
  bits in each little-endian word from the lowest bits up; the two highest bits of a word mean nothing.
\<close>

fun v210_line :: "u32 list \<Rightarrow> samples \<Rightarrow> bool" where
  "v210_line [] [] = True"
| "v210_line (w # ws) (a # b # c # s) =
     (a < 1024 \<and> b < 1024 \<and> c < 1024 \<and> unat w mod 2 ^ 30 = unat a + 2 ^ 10 * unat b + 2 ^ 20 * unat c
      \<and> v210_line ws s)"
| "v210_line _ _ = False"

fun luma :: "samples \<Rightarrow> samples" where
  "luma (c # y # s) = y # luma s"
| "luma _ = []"

fun chroma :: "samples \<Rightarrow> samples" where
  "chroma (c # y # s) = c # chroma s"
| "chroma _ = []"

fun chroma_b :: "samples \<Rightarrow> samples" where
  "chroma_b (u # y0 # v # y1 # s) = u # chroma_b s"
| "chroma_b _ = []"

fun chroma_r :: "samples \<Rightarrow> samples" where
  "chroma_r (u # y0 # v # y1 # s) = v # chroma_r s"
| "chroma_r _ = []"

lemma read_pixels_word:
  assumes "a < 1024" "b < 1024" "c < 1024" "unat w mod 2 ^ 30 = unat a + 2 ^ 10 * unat b + 2 ^ 20 * unat c"
  shows "read_pixels w = (a, b, c)"
proof -
  have n: "unat a < 1024" "unat b < 1024" "unat c < 1024"
    using assms(1-3) by (simp_all add: word_less_nat_alt)
  define q where "q = unat w div 2 ^ 30"
  have w: "unat w = unat a + 2 ^ 10 * unat b + 2 ^ 20 * unat c + 2 ^ 30 * q"
    using mult_div_mod_eq [of "2 ^ 30" "unat w"] unfolding assms(4) q_def by linarith
  have m: "x AND 0x3ff = take_bit 10 x" for x :: u32
    by (simp add: take_bit_eq_mask mask_eq_exp_minus_1)
  have w3: "unat w = unat a + 1024 * (unat b + 1024 * (unat c + 1024 * q))"
    using w by simp
  have split: "(x + 1024 * r) mod 1024 = x" "(x + 1024 * r) div 1024 = r" if "x < 1024" for x r :: nat
    using that by simp_all
  have d1: "unat w mod 1024 = unat a" and r1: "unat w div 1024 = unat b + 1024 * (unat c + 1024 * q)"
    unfolding w3 by (rule split [OF n(1)])+
  have d2: "unat w div 1024 mod 1024 = unat b" and r2: "unat w div 1024 div 1024 = unat c + 1024 * q"
    unfolding r1 by (rule split [OF n(2)])+
  have d3: "unat w div 1048576 mod 1024 = unat c"
    using split(1) [OF n(3), of q] r2 by (simp add: div_mult2_eq [symmetric])
  note d = d1 d2 d3
  have u: "ucast x = y" if "unat x = unat y" for x :: u32 and y :: u16
    using unsigned_less [of y, where 'a = nat] by (simp add: word_unat_eq_iff unsigned_ucast_eq that take_bit_nat_eq_self)
  have "unat (w AND 0x3ff) = unat a" "unat (drop_bit 10 w AND 0x3ff) = unat b" "unat (drop_bit 20 w AND 0x3ff) = unat c"
    unfolding m using d by (simp_all add: take_bit_eq_mod drop_bit_eq_div unat_mod unat_div)
  then show ?thesis
    by (simp add: read_pixels_def u)
qed

lemma v210_line_four:
  assumes "v210_line src s" "length s = 12 * Suc k"
  obtains w0 w1 w2 w3 ws u0 y0 v0 y1 u1 y2 v1 y3 u2 y4 v2 y5 t where
    "src = w0 # w1 # w2 # w3 # ws" "s = u0 # y0 # v0 # y1 # u1 # y2 # v1 # y3 # u2 # y4 # v2 # y5 # t"
    "read_pixels w0 = (u0, y0, v0)" "read_pixels w1 = (y1, u1, y2)" "read_pixels w2 = (v1, y3, u2)"
    "read_pixels w3 = (y4, v2, y5)" "v210_line ws t" "length t = 12 * k"
proof -
  have step: "\<exists>w ws a b c t. src = w # ws \<and> s = a # b # c # t \<and> read_pixels w = (a, b, c) \<and> v210_line ws t"
    if "v210_line src s" "s \<noteq> []" for src s
    using that by (cases "(src, s)" rule: v210_line.cases) (auto simp: read_pixels_word)
  obtain w0 ws0 u0 y0 v0 t0 where 0: "src = w0 # ws0" "s = u0 # y0 # v0 # t0" "read_pixels w0 = (u0, y0, v0)" "v210_line ws0 t0"
    using step [OF assms(1)] assms(2) by force
  obtain w1 ws1 y1 u1 y2 t1 where 1: "ws0 = w1 # ws1" "t0 = y1 # u1 # y2 # t1" "read_pixels w1 = (y1, u1, y2)" "v210_line ws1 t1"
    using step [OF 0(4)] assms(2) 0(2) by force
  obtain w2 ws2 v1 y3 u2 t2 where 2: "ws1 = w2 # ws2" "t1 = v1 # y3 # u2 # t2" "read_pixels w2 = (v1, y3, u2)" "v210_line ws2 t2"
    using step [OF 1(4)] assms(2) 0(2) 1(2) by force
  obtain w3 ws3 y4 v2 y5 t3 where 3: "ws2 = w3 # ws3" "t2 = y4 # v2 # y5 # t3" "read_pixels w3 = (y4, v2, y5)" "v210_line ws3 t3"
    using step [OF 2(4)] assms(2) 0(2) 1(2) 2(2) by force
  show thesis
    by (rule that [of w0 w1 w2 w3 ws3 u0 y0 v0 y1 u1 y2 v1 y3 u2 y4 v2 y5 t3])
       (use 0 1 2 3 assms(2) in simp_all)
qed

lemma v210_line_groups:
  assumes "v210_line src s" "length s = 12 * k"
  shows "length src = 4 * k \<and> group_y src = luma s \<and> group_u src = chroma_b s \<and> group_v src = chroma_r s
    \<and> interleave (chroma_b s) (chroma_r s) = chroma s \<and> pack_uyvy (luma s) (chroma_b s) (chroma_r s) = s"
  using assms
proof (induction k arbitrary: src s)
  case 0
  then show ?case
    by (cases src) simp_all
next
  case (Suc k)
  show ?case
    by (rule v210_line_four [OF Suc.prems]) (use Suc.IH in simp)
qed

text \<open>C7 Every conversion of a v210 line delivers the samples the line stands for, in the order of its format:
  the planes get the luma and the two chroma components, the native SD order is the order of transmission
  itself, and the native HD order is all luma samples and all chroma samples; packing the planes into the
  native orders gives the same.  This holds for every line of whole groups of six pixels, whatever the unused
  bits, and no conversion reads or writes past the line.\<close>

theorem v210_conversions_agree:
  assumes "v210_line src s" "length s = 12 * k" "width = 6 * int k"
  shows "\<exists>pl. obe_v210_planar_unpack_c src width = Some pl
    \<and> pl = \<lparr>pl_y = luma s, pl_u = chroma_b s, pl_v = chroma_r s\<rparr>
    \<and> obe_v210_line_to_uyvy_c src width = Some s \<and> obe_yuv422p10_line_to_uyvy_c pl width = Some s
    \<and> obe_v210_line_to_nv20_c src width = Some \<lparr>nv_dst = luma s, nv_uv = chroma s\<rparr>
    \<and> obe_yuv422p10_line_to_nv20_c pl width = Some \<lparr>nv_dst = luma s, nv_uv = chroma s\<rparr>"
proof -
  note v = v210_line_groups [OF assms(1,2)]
  then have src: "length src = 4 * k" and e: "group_y src = luma s" "group_u src = chroma_b s" "group_v src = chroma_r s"
    "interleave (chroma_b s) (chroma_r s) = chroma s" "pack_uyvy (luma s) (chroma_b s) (chroma_r s) = s"
    by simp_all
  note g = group_lengths [OF src, unfolded e]
  have w: "width = 0 + 6 * int k" "width = 0 + 2 * int (3 * k)"
    using assms(3) by simp_all
  let ?pl = "\<lparr>pl_y = luma s, pl_u = chroma_b s, pl_v = chroma_r s\<rparr>"
  have p: "obe_v210_planar_unpack_c src width = Some ?pl"
    unfolding obe_v210_planar_unpack_c_def w(1) planar_loop_groups [OF src] by (simp add: e)
  have n1: "obe_yuv422p10_line_to_nv20_c ?pl width = Some \<lparr>nv_dst = luma s, nv_uv = chroma s\<rparr>"
    unfolding obe_yuv422p10_line_to_nv20_c_def w(2) using g by (subst yuv_nv20_loop) (auto simp: e)
  have n2: "obe_v210_line_to_nv20_c src width = Some \<lparr>nv_dst = luma s, nv_uv = chroma s\<rparr>"
    unfolding obe_v210_line_to_nv20_c_def w(1) nv20_loop_groups [OF src]
    by (simp add: v210_nv20_tail_def e)
  have u1: "obe_yuv422p10_line_to_uyvy_c ?pl width = Some s"
    unfolding obe_yuv422p10_line_to_uyvy_c_def w(2) using g by (subst yuv_uyvy_loop) (auto simp: e)
  have u2: "obe_v210_line_to_uyvy_c src width = Some s"
    unfolding obe_v210_line_to_uyvy_c_def w(1) uyvy_loop_groups [OF src] by (simp add: e)
  show ?thesis
    using p n1 n2 u1 u2 by blast
qed

theorem v210_conversions_agree_witness:
  "obe_v210_line_to_uyvy_c [0xC0300801, 0x00601404, 0x00902007, 0x00C02C0A] 6 = Some [1, 2, 3, 4, 5, 6, 7, 8, 9, 10, 11, 12]
   \<and> obe_v210_line_to_nv20_c [0xC0300801, 0x00601404, 0x00902007, 0x00C02C0A] 6
     = Some \<lparr>nv_dst = [2, 4, 6, 8, 10, 12], nv_uv = [1, 3, 5, 7, 9, 11]\<rparr>"
proof -
  have "v210_line [0xC0300801, 0x00601404, 0x00902007, 0x00C02C0A] [1, 2, 3, 4, 5, 6, 7, 8, 9, 10, 11, 12]"
    by simp
  from v210_conversions_agree [OF this, of 1 6] show ?thesis
    by simp
qed

section \<open>Non-display services\<close>

(* src: input/sdi/sdi.h 35-42 obe_anc_vbi_t *)
record anc_vbi =
  av_line :: int
  av_identifier :: int
  av_unit_id :: int
  av_data :: bytes

text \<open>A sliced line as libzvbi delivers it.\<close>

record vbi_sliced =
  vs_id :: int
  vs_line :: int
  vs_data :: bytes

(* src: input/sdi/sdi.h 44-74 obe_sdi_non_display_data_t *)
record non_display_data =
  nd_probe :: bool
  nd_has_probed :: bool
  nd_frame_data :: "int_frame_data list"
  nd_ntsc :: bool
  nd_vbi_slices :: "vbi_sliced list"
  nd_has_vbi_frame :: bool
  nd_has_ttx_frame :: bool
  nd_anc_vbi :: "anc_vbi list"

definition is_service_at :: "user_data_location \<Rightarrow> int_frame_data \<Rightarrow> bool" where
  "is_service_at location fd \<longleftrightarrow> fd_type fd \<noteq> MISC_TELETEXT \<and> ifd_location fd = location"

definition copy_service :: "int_frame_data \<Rightarrow> frame_data \<Rightarrow> frame_data" where
  "copy_service fd dst = dst\<lparr>fd_type := fd_type fd, fd_source := fd_source fd,
     fd_num_lines := fd_num_lines fd,
     fd_lines := splice 0 (take (nat (fd_num_lines fd)) (fd_lines fd)) (fd_lines dst)\<rparr>"

definition zero_frame_data :: frame_data where
  "zero_frame_data = \<lparr>fd_type = VIDEO_UNCOMPRESSED, fd_source = VIDEO_UNCOMPRESSED,
     fd_num_lines = 0, fd_lines = replicate 100 0\<rparr>"

(* src: input/sdi/sdi.c 151-190 add_non_display_services *)
definition add_non_display_services ::
  "bool \<Rightarrow> non_display_data \<Rightarrow> int_input_stream \<Rightarrow> user_data_location \<Rightarrow> int \<times> int_input_stream" where
  "add_non_display_services alloc nd stream location =
     (let sel = filter (is_service_at location) (nd_frame_data nd);
          stream = stream\<lparr>iis_num_frame_data := int (length sel)\<rparr>
      in if sel = [] then (0, stream\<lparr>iis_frame_data := []\<rparr>)
         else if \<not> alloc then (-1, stream\<lparr>iis_frame_data := []\<rparr>)
         else (0, stream\<lparr>iis_frame_data := map (\<lambda>fd. copy_service fd zero_frame_data) sel\<rparr>))"

(* src: input/sdi/sdi.c 192-201 check_probed_non_display_data *)
definition check_probed_non_display_data :: "'a non_display_data_scheme \<Rightarrow> stream_formats \<Rightarrow> bool" where
  "check_probed_non_display_data nd t \<longleftrightarrow> list_ex (\<lambda>fd. fd_type fd = t) (nd_frame_data nd)"

(* src: input/sdi/sdi.c 203-212 check_active_non_display_data *)
definition check_active_non_display_data :: "user_data list \<Rightarrow> user_data_types \<Rightarrow> bool" where
  "check_active_non_display_data ud t \<longleftrightarrow> list_ex (\<lambda>u. ud_type u = t) ud"

text \<open>\<open>outs\<close> are the output streams of \<open>h\<close>.  The DVB branch looks up the identifier that is the
  number of the enumerator \<open>VBI_RAW\<close>.\<close>

(* src: input/sdi/sdi.c 214-259 check_user_selected_non_display_data *)
definition check_user_selected_non_display_data ::
  "output_stream list \<Rightarrow> stream_formats \<Rightarrow> user_data_location \<Rightarrow> bool" where
  "check_user_selected_non_display_data outs t location =
     (case location of
        USER_DATA_LOCATION_DVB_STREAM \<Rightarrow>
          (case get_output_stream_by_id outs (stream_format_val VBI_RAW) of
             None \<Rightarrow> False
           | Some s \<Rightarrow>
               (if t = MISC_TELETEXT then dvo_ttx (os_dvb_vbi_opts s)
                else if t = MISC_TELETEXT_INVERTED then dvo_inverted_ttx (os_dvb_vbi_opts s)
                else if t = MISC_VPS then dvo_vps (os_dvb_vbi_opts s)
                else if t = MISC_WSS then dvo_wss (os_dvb_vbi_opts s)
                else False))
      | USER_DATA_LOCATION_FRAME \<Rightarrow>
          (case get_output_stream_by_id outs 0 of
             None \<Rightarrow> False
           | Some s \<Rightarrow>
               (if t = CAPTIONS_CEA_608 then fao_cea_608 (os_video_anc s)
                else if t = CAPTIONS_CEA_708 then fao_cea_708 (os_video_anc s)
                else if t = MISC_AFD then fao_afd (os_video_anc s)
                else if t = MISC_WSS then fao_wss_to_afd (os_video_anc s)
                else False)))"

text \<open>The lines come from element 0 of the probed data, whatever element is teletext.\<close>

(* src: input/sdi/sdi.c 261-279 add_teletext_service *)
definition add_teletext_service ::
  "bool \<Rightarrow> non_display_data \<Rightarrow> int_input_stream \<Rightarrow> int \<times> int_input_stream" where
  "add_teletext_service alloc nd stream =
     (if \<not> alloc then (-1, stream\<lparr>iis_frame_data := []\<rparr>)
      else (0, stream\<lparr>iis_frame_data := [fold (\<lambda>fd dst.
              if fd_type fd = MISC_TELETEXT
              then let first = hd (nd_frame_data nd)
                   in dst\<lparr>fd_type := fd_type fd, fd_source := fd_source fd,
                          fd_num_lines := fd_num_lines fd,
                          fd_lines := splice 0 (take (nat (fd_num_lines first)) (fd_lines first))
                                         (fd_lines dst)\<rparr>
              else dst) (nd_frame_data nd) zero_frame_data]\<rparr>))"


section \<open>Line numbers\<close>

(* src: input/sdi/sdi.h 84-104 first_active_line *)
definition first_active_line :: "(input_video_format \<times> int) list" where
  "first_active_line =
     [(INPUT_VIDEO_FORMAT_PAL, 23), (INPUT_VIDEO_FORMAT_NTSC, 283), (INPUT_VIDEO_FORMAT_720P_50, 26),
      (INPUT_VIDEO_FORMAT_720P_5994, 26), (INPUT_VIDEO_FORMAT_720P_60, 26),
      (INPUT_VIDEO_FORMAT_1080I_50, 21), (INPUT_VIDEO_FORMAT_1080I_5994, 21),
      (INPUT_VIDEO_FORMAT_1080I_60, 21), (INPUT_VIDEO_FORMAT_1080P_2398, 42),
      (INPUT_VIDEO_FORMAT_1080P_24, 42), (INPUT_VIDEO_FORMAT_1080P_25, 42),
      (INPUT_VIDEO_FORMAT_1080P_2997, 42), (INPUT_VIDEO_FORMAT_1080P_30, 42),
      (INPUT_VIDEO_FORMAT_1080P_50, 42), (INPUT_VIDEO_FORMAT_1080P_5994, 42),
      (INPUT_VIDEO_FORMAT_1080P_60, 42)]"

(* src: input/sdi/sdi.h 76-114 field_start_lines *)
definition field_start_lines :: "(input_video_format \<times> int \<times> int) list" where
  "field_start_lines =
     [(INPUT_VIDEO_FORMAT_PAL, 1, 314), (INPUT_VIDEO_FORMAT_NTSC, 4, 267),
      (INPUT_VIDEO_FORMAT_1080I_50, 1, 564), (INPUT_VIDEO_FORMAT_1080I_5994, 1, 564),
      (INPUT_VIDEO_FORMAT_1080I_60, 1, 564)]"

text \<open>The search loop ends at the terminating entry, whose line is -1 and second field 0.\<close>

fun find_field_lines :: "(input_video_format \<times> int \<times> int) list \<Rightarrow> input_video_format \<Rightarrow> int \<times> int" where
  "find_field_lines [] format = (-1, 0)"
| "find_field_lines ((f, l, f2) # tab) format =
     (if format = f then (l, f2) else find_field_lines tab format)"

(* src: input/sdi/sdi.c 281-299 sdi_next_line *)
definition sdi_next_line :: "input_video_format \<Rightarrow> int \<Rightarrow> int" where
  "sdi_next_line format line_smpte =
     (if \<not> is_interlaced format then line_smpte + 1
      else case find_field_lines field_start_lines format of (line, field_two) \<Rightarrow>
             if line_smpte \<ge> line \<and> line_smpte < field_two then field_two - line + line_smpte
             else line_smpte - field_two + line + 1)"

(* src: input/sdi/sdi.c 301-326 obe_convert_smpte_to_analogue *)
definition obe_convert_smpte_to_analogue :: "input_video_format \<Rightarrow> int \<Rightarrow> (int \<times> int) option" where
  "obe_convert_smpte_to_analogue format line_smpte =
     (if \<not> is_interlaced format then None
      else case find_field_lines field_start_lines format of (line, field_two) \<Rightarrow>
             if line_smpte \<ge> line \<and> line_smpte < field_two then Some (line_smpte, 1)
             else Some (line_smpte - field_two + line, 2))"

(* src: input/sdi/sdi.c 328-349 obe_convert_analogue_to_smpte *)
definition obe_convert_analogue_to_smpte :: "input_video_format \<Rightarrow> int \<Rightarrow> int \<Rightarrow> int option" where
  "obe_convert_analogue_to_smpte format line_analogue field =
     (if \<not> is_interlaced format then None
      else if field = 1 then Some line_analogue
      else case find_field_lines field_start_lines format of (line, field_two) \<Rightarrow>
             Some (field_two - line + line_analogue))"

lemma interlaced_lines:
  "is_interlaced f \<Longrightarrow> \<exists>l f2. find_field_lines field_start_lines f = (l, f2) \<and> 0 < l \<and> l < f2"
  by (auto simp: is_interlaced_def field_start_lines_def)

text \<open>For every interlaced format, converting an SMPTE line number to the analogue notation and back
  is the identity, for every line, and so is the other direction for the analogue lines a field
  has; progressive formats are rejected in both directions.\<close>

theorem line_number_roundtrip:
  "(is_interlaced f \<longrightarrow>
      (\<exists>a fld. obe_convert_smpte_to_analogue f n = Some (a, fld)
           \<and> obe_convert_analogue_to_smpte f a fld = Some n)
      \<and> (case find_field_lines field_start_lines f of (l, f2) \<Rightarrow>
           \<forall>fld \<in> {1, 2}. \<forall>a. l \<le> a \<and> a < f2 \<longrightarrow>
             (\<exists>m. obe_convert_analogue_to_smpte f a fld = Some m
                \<and> obe_convert_smpte_to_analogue f m = Some (a, fld))))
   \<and> (\<not> is_interlaced f \<longrightarrow> obe_convert_smpte_to_analogue f n = None
                         \<and> obe_convert_analogue_to_smpte f n fld = None)"
proof (cases "is_interlaced f")
  case True
  then obtain l f2 where "find_field_lines field_start_lines f = (l, f2)" "0 < l" "l < f2"
    using interlaced_lines by blast
  then show ?thesis
    using True by (auto simp: obe_convert_smpte_to_analogue_def obe_convert_analogue_to_smpte_def)
qed (simp add: obe_convert_smpte_to_analogue_def obe_convert_analogue_to_smpte_def)

theorem line_number_roundtrip_witness:
  "obe_convert_smpte_to_analogue INPUT_VIDEO_FORMAT_NTSC 284 = Some (21, 2)
   \<and> obe_convert_analogue_to_smpte INPUT_VIDEO_FORMAT_NTSC 21 2 = Some 284"
proof -
  have i: "is_interlaced INPUT_VIDEO_FORMAT_NTSC"
    by (simp add: is_interlaced_def)
  have e: "obe_convert_smpte_to_analogue INPUT_VIDEO_FORMAT_NTSC 284 = Some (21, 2)"
    by (simp add: obe_convert_smpte_to_analogue_def field_start_lines_def i)
  show ?thesis
    using line_number_roundtrip [of INPUT_VIDEO_FORMAT_NTSC 284 0] i e by auto
qed

text \<open>Stepping through an interlaced picture from a line of the first field, \<open>sdi_next_line\<close> goes to
  the same line of the second field, and from there to the next line of the first field, so two
  steps advance by one line of the field.\<close>

theorem sdi_next_line_weaves:
  assumes "is_interlaced f" "obe_convert_smpte_to_analogue f n = Some (a, 1)"
  shows "obe_convert_smpte_to_analogue f (sdi_next_line f n) = Some (a, 2)
         \<and> sdi_next_line f (sdi_next_line f n) = n + 1"
proof -
  obtain l f2 where "find_field_lines field_start_lines f = (l, f2)" "0 < l" "l < f2"
    using interlaced_lines assms(1) by blast
  then show ?thesis
    using assms by (auto simp: obe_convert_smpte_to_analogue_def sdi_next_line_def split: if_splits)
qed

theorem sdi_next_line_weaves_witness:
  "sdi_next_line INPUT_VIDEO_FORMAT_PAL (sdi_next_line INPUT_VIDEO_FORMAT_PAL 20) = 21"
  using sdi_next_line_weaves [of INPUT_VIDEO_FORMAT_PAL 20 20]
  by (simp add: is_interlaced_def obe_convert_smpte_to_analogue_def field_start_lines_def)

text \<open>The user's choice of DVB-VBI services is read from the output stream whose identifier happens
  to be 19, the number of the format \<open>VBI_RAW\<close>, and not from the stream of that format: without a
  stream of that identifier every service counts as not selected, whatever the VBI stream has
  enabled.\<close>

theorem user_selected_vbi_ignored:
  assumes "\<forall>s \<in> set outs. os_output_stream_id s < 19"
  shows "\<not> check_user_selected_non_display_data outs t USER_DATA_LOCATION_DVB_STREAM"
proof -
  have "stream_format_val VBI_RAW = 19"
    by (simp add: stream_format_val_def stream_formats_list_def)
  then have "get_output_stream_by_id outs (stream_format_val VBI_RAW) = None"
    using assms by (auto simp: get_output_stream_by_id_def find_None_iff)
  then show ?thesis
    by (simp add: check_user_selected_non_display_data_def)
qed

definition vbi_out :: output_stream where
  "vbi_out = \<lparr>os_input_stream_id = 2, os_output_stream_id = 2, os_stream_action = STREAM_PASSTHROUGH,
     os_stream_format = VBI_RAW, os_is_wide = 0,
     os_video_anc = \<lparr>fao_cea_608 = False, fao_cea_708 = False, fao_afd = False, fao_wss_to_afd = False\<rparr>,
     os_avc_param = \<lparr>avc_csp = 0, avc_width = 720, avc_height = 576, avc_interlaced = True,
       avc_fps_num = 25, avc_fps_den = 1, avc_profile_idc = 100, avc_level_idc = 30,
       avc_intra_refresh = False, avc_keyint_max = 250, avc_bitrate = 0, avc_vbv_max_bitrate = 0,
       avc_vbv_buffer_size = 0, avc_lookahead = 0\<rparr>,
     os_bitrate = 0, os_sdi_audio_pair = 0, os_channel_layout = 0, os_mono_channel = 0,
     os_audio_offset_ms = 0, os_aac_profile = 0, os_latm_output = 0, os_mp2_mode = 0,
     os_dvb_vbi_opts = \<lparr>dvo_ttx = True, dvo_inverted_ttx = False, dvo_vps = False, dvo_wss = True\<rparr>,
     os_ts_opts = \<lparr>tso_passthrough_opts = 0, tso_pid = 0, tso_frames_per_pes = 0, tso_write_lang_code = 0,
       tso_lang_code = [], tso_audio_type = 0, tso_has_stream_identifier = 0,
       tso_stream_identifier = 0, tso_teletexts = [], tso_data_identifier = 0\<rparr>\<rparr>"

theorem user_selected_vbi_ignored_witness:
  "dvo_ttx (os_dvb_vbi_opts vbi_out)
   \<and> get_output_stream_by_format [vbi_out] VBI_RAW = Some vbi_out
   \<and> \<not> check_user_selected_non_display_data [vbi_out] MISC_TELETEXT USER_DATA_LOCATION_DVB_STREAM"
  using user_selected_vbi_ignored [of "[vbi_out]"]
  by (simp add: vbi_out_def get_output_stream_by_format_def)

lemma teletext_lines_from_first_service:
  "fst (add_teletext_service True nd stream) = 0 \<Longrightarrow> nd_frame_data nd = [a, b] \<Longrightarrow>
   fd_type a \<noteq> MISC_TELETEXT \<Longrightarrow> fd_type b = MISC_TELETEXT \<Longrightarrow>
   fd_lines (hd (iis_frame_data (snd (add_teletext_service True nd stream))))
     = splice 0 (take (nat (fd_num_lines a)) (fd_lines a)) (replicate 100 0)"
  by (simp add: add_teletext_service_def zero_frame_data_def Let_def)

end
