(* ===== verification/Obe_Vanc.thy ===== *)
theory Obe_Vanc
  imports Obe_Sdi
begin

text \<open>
  \<open>input/sdi/ancillary.c\<close>: finding ancillary data packets (ADF, DID, SDID, DC, user data words,
  checksum) in a line of the vertical blanking area, and the handlers for AFD and bar data and for
  caption distribution packets.  A read outside the line is \<^const>\<open>None\<close>; so is a failed allocation of
  the bytes of a user data entry, which leaves an entry without data behind.
\<close>

section \<open>Packet types\<close>

(* src: input/sdi/ancillary.h 30-69 vanc_identifiers *)
definition vanc_identifiers :: "(u8 \<times> u8 \<times> stream_formats) list" where
  "vanc_identifiers =
     [(0x41, 0x05, MISC_AFD), (0x41, 0x06, MISC_PAN_SCAN), (0x41, 0x07, VANC_SCTE_104),
      (0x41, 0x08, VANC_DVB_SCTE_VBI), (0x43, 0x01, VANC_OP47_SDP),
      (0x43, 0x02, VANC_OP47_MULTI_PACKET), (0x60, 0x60, VANC_ATC), (0x61, 0x01, CAPTIONS_CEA_708),
      (0x61, 0x02, CAPTIONS_CEA_608), (0x62, 0x01, VANC_DTV_PROGRAM_DESCRIPTION),
      (0x62, 0x02, VANC_DTV_DATA_BROADCAST), (0x62, 0x03, VANC_SMPTE_VBI)]"

fun find_vanc_type :: "(u8 \<times> u8 \<times> stream_formats) list \<Rightarrow> u8 \<Rightarrow> u8 \<Rightarrow> stream_formats option" where
  "find_vanc_type [] did sdid = None"
| "find_vanc_type ((d, s, t) # tab) did sdid =
     (if did = d \<and> sdid = s then Some t else find_vanc_type tab did sdid)"

(* src: input/sdi/ancillary.c 33-42 get_vanc_type *)
definition get_vanc_type :: "u8 \<Rightarrow> u8 \<Rightarrow> stream_formats option" where
  "get_vanc_type did sdid = find_vanc_type vanc_identifiers did sdid"

(* src: input/sdi/ancillary.c 29-31 READ_8 *)
definition READ_8 :: "u16 \<Rightarrow> u8" where
  "READ_8 x = ucast (x AND 0xff)"


section \<open>Handlers\<close>

text \<open>
  The services and the user data found so far, and the outcome of the allocations: \<open>realloc\<close> of the
  array, and \<open>malloc\<close> of the data.
\<close>

record vanc_env =
  ve_outs :: "output_stream list"
  ve_realloc_ok :: bool
  ve_malloc_ok :: bool
  ve_disable_captions :: bool

type_synonym vanc_state = "non_display_data \<times> user_data list"

definition probed_service ::
  "stream_formats \<Rightarrow> stream_formats \<Rightarrow> int \<Rightarrow> user_data_location \<Rightarrow> int_frame_data" where
  "probed_service t source line_number location =
     \<lparr>fd_type = t, fd_source = source, fd_num_lines = 1,
      fd_lines = line_number # replicate 99 0, ifd_location = location\<rparr>"

definition vanc_user_data :: "user_data_types \<Rightarrow> bytes \<Rightarrow> user_data" where
  "vanc_user_data t data =
     \<lparr>ud_type = t, ud_source = VANC_GENERIC, ud_field = 0, ud_len = int (length data), ud_data = data\<rparr>"

definition read_bytes :: "nat \<Rightarrow> nat \<Rightarrow> u16 list \<Rightarrow> bytes option" where
  "read_bytes p n line = map_option (map READ_8) (mem_get p n line)"

text \<open>\<open>p\<close> is the position of the DC word.  After the AFD word the pointer is moved by two, so the
  five words taken as bar data start at the second reserved word.\<close>

(* src: input/sdi/ancillary.c 47-144 parse_afd *)
definition parse_afd ::
  "vanc_env \<Rightarrow> vanc_state \<Rightarrow> u16 list \<Rightarrow> nat \<Rightarrow> int \<Rightarrow> (int \<times> vanc_state) option" where
  "parse_afd env st line p line_number =
     (case st of (nd, ud) \<Rightarrow>
        do { dc \<leftarrow> at line p;
             if READ_8 dc \<noteq> 8 then Some (-1, st)
             else if nd_probe nd
             then (if check_probed_non_display_data nd MISC_AFD then Some (0, st)
                   else if \<not> ve_realloc_ok env then Some (-1, st)
                   else Some (0, nd\<lparr>nd_frame_data := nd_frame_data nd @
                     [probed_service MISC_AFD VANC_GENERIC line_number USER_DATA_LOCATION_FRAME,
                      probed_service MISC_BAR_DATA VANC_GENERIC line_number USER_DATA_LOCATION_FRAME]\<rparr>, ud))
             else if \<not> check_user_selected_non_display_data (ve_outs env) MISC_AFD USER_DATA_LOCATION_FRAME
             then Some (0, st)
             else if check_active_non_display_data ud USER_DATA_AFD then Some (0, st)
             else if \<not> ve_realloc_ok env then Some (-1, st)
             else if \<not> ve_malloc_ok env then None
             else do { afd \<leftarrow> read_bytes (p + 1) 1 line;
                       bar \<leftarrow> read_bytes (p + 1 + 2) 5 line;
                       Some (0, nd, ud @ [vanc_user_data USER_DATA_AFD afd,
                                          vanc_user_data USER_DATA_BAR_DATA bar]) } })"

text \<open>The rest of the function is behind an unconditional return.\<close>

(* src: input/sdi/ancillary.c 146-218 parse_dvb_scte_vbi *)
definition parse_dvb_scte_vbi ::
  "vanc_env \<Rightarrow> vanc_state \<Rightarrow> u16 list \<Rightarrow> nat \<Rightarrow> int \<Rightarrow> (int \<times> vanc_state) option" where
  "parse_dvb_scte_vbi env st line p line_number =
     do { w \<leftarrow> at line (p + 2); Some (0, st) }"

(* src: input/sdi/ancillary.c 220-279 parse_cdp *)
definition parse_cdp ::
  "vanc_env \<Rightarrow> vanc_state \<Rightarrow> u16 list \<Rightarrow> nat \<Rightarrow> int \<Rightarrow> nat \<Rightarrow> (int \<times> vanc_state) option" where
  "parse_cdp env st line p line_number len =
     (case st of (nd, ud) \<Rightarrow>
        if nd_probe nd
        then (if check_probed_non_display_data nd CAPTIONS_CEA_708 then Some (0, st)
              else if \<not> ve_realloc_ok env then Some (-1, st)
              else Some (0, nd\<lparr>nd_frame_data := nd_frame_data nd @
                [probed_service CAPTIONS_CEA_708 VANC_GENERIC line_number USER_DATA_LOCATION_FRAME]\<rparr>, ud))
        else if \<not> check_user_selected_non_display_data (ve_outs env) CAPTIONS_CEA_708 USER_DATA_LOCATION_FRAME
        then Some (0, st)
        else if check_active_non_display_data ud USER_DATA_CEA_708_CDP then Some (0, st)
        else if \<not> ve_realloc_ok env then Some (-1, st)
        else if \<not> ve_malloc_ok env then None
        else do { cdp \<leftarrow> read_bytes (p + 1) len line;
                  Some (0, nd, ud @ [vanc_user_data USER_DATA_CEA_708_CDP cdp]) })"

(* src: input/sdi/ancillary.c 281-313 inject_708_cdp *)
definition inject_708_cdp :: "vanc_env \<Rightarrow> user_data list \<Rightarrow> bytes \<Rightarrow> (int \<times> user_data list) option" where
  "inject_708_cdp env ud cdp =
     (if \<not> check_user_selected_non_display_data (ve_outs env) CAPTIONS_CEA_708 USER_DATA_LOCATION_FRAME
      then Some (0, ud)
      else if check_active_non_display_data ud USER_DATA_CEA_708_CDP then Some (0, ud)
      else if \<not> ve_realloc_ok env then Some (-1, ud)
      else if \<not> ve_malloc_ok env then None
      else Some (0, ud @ [vanc_user_data USER_DATA_CEA_708_CDP cdp]))"


section \<open>The line scanner\<close>

definition vanc_sum :: "u16 list \<Rightarrow> u16" where
  "vanc_sum ws = fold (\<lambda>w s. (s + (w AND 0x1ff)) AND 0x1ff) ws 0"

text \<open>Bit 9 is the complement of bit 8.\<close>

definition vanc_checksum :: "u16 list \<Rightarrow> u16" where
  "vanc_checksum ws = (let s = vanc_sum ws in s OR push_bit 1 (NOT s AND 0x100))"

definition is_adf :: "u16 \<Rightarrow> u16 \<Rightarrow> u16 \<Rightarrow> bool" where
  "is_adf a b c \<longleftrightarrow> a \<le> 0x03 \<and> b AND 0x3fc = 0x3fc \<and> c AND 0x3fc = 0x3fc"

(* src: input/sdi/ancillary.c 382-403 parse_vanc_line *)
definition vanc_dispatch ::
  "vanc_env \<Rightarrow> vanc_state \<Rightarrow> u16 list \<Rightarrow> nat \<Rightarrow> int \<Rightarrow> nat \<Rightarrow> vanc_state option" where
  "vanc_dispatch env st line p line_number len =
     do { did \<leftarrow> at line p; sdid \<leftarrow> at line (p + 1);
          case get_vanc_type (READ_8 did) (READ_8 sdid) of
            Some MISC_AFD \<Rightarrow> map_option snd (parse_afd env st line (p + 2) line_number)
          | Some VANC_DVB_SCTE_VBI \<Rightarrow>
              if ve_disable_captions env then Some st
              else map_option snd (parse_dvb_scte_vbi env st line (p + 2) line_number)
          | Some CAPTIONS_CEA_708 \<Rightarrow>
              if ve_disable_captions env then Some st
              else map_option snd (parse_cdp env st line (p + 2) line_number len)
          | _ \<Rightarrow> Some st }"

lemma neg_uint_less [simp]: "- uint w < numeral k"
  by (rule order.strict_trans1 [of _ 0]) simp_all

text \<open>\<open>width\<close> has been doubled by the caller; the loop stops at a packet that is too long.\<close>

(* src: input/sdi/ancillary.c 344-416 parse_vanc_line *)
function vanc_loop ::
  "vanc_env \<Rightarrow> vanc_state \<Rightarrow> u16 list \<Rightarrow> int \<Rightarrow> int \<Rightarrow> nat \<Rightarrow> vanc_state option" where
  "vanc_loop env st line width line_number i =
     (if \<not> int i < width - 7 then Some st
      else case mem_get i 3 line of
             None \<Rightarrow> None
           | Some adf \<Rightarrow>
               if is_adf (adf ! 0) (adf ! 1) (adf ! 2)
               then (let p = i + 3
                     in case at line (p + 2) of
                          None \<Rightarrow> None
                        | Some dc \<Rightarrow>
                            (let len = unat (READ_8 dc)
                             in if int len + 2 > width - int p - 1 then Some st
                                else case (mem_get p (len + 3) line, at line (p + len + 3)) of
                                       (Some ws, Some cs) \<Rightarrow>
                                         (case (if cs = vanc_checksum ws
                                                then vanc_dispatch env st line p line_number len
                                                else Some st) of
                                            None \<Rightarrow> None
                                          | Some st' \<Rightarrow>
                                              vanc_loop env st' line width line_number (p + 2 + len + 1))
                                     | _ \<Rightarrow> None))
               else vanc_loop env st line width line_number (i + 1))"
  by pat_completeness auto
termination
  by (relation "measure (\<lambda>(env, st, line, width, line_number, i). nat (width - int i))") auto

declare vanc_loop.simps [simp del]

(* src: input/sdi/ancillary.c 344-423 parse_vanc_line *)
definition parse_vanc_line ::
  "vanc_env \<Rightarrow> vanc_state \<Rightarrow> u16 list \<Rightarrow> int \<Rightarrow> int \<Rightarrow> vanc_state option" where
  "parse_vanc_line env st line width line_number =
     map_option (\<lambda>(nd, ud). (if nd_probe nd then nd\<lparr>nd_has_probed := True\<rparr> else nd, ud))
       (vanc_loop env st line (width * 2) line_number 0)"

section \<open>Scanning\<close>

lemma mem_get_cases: "mem_get p n xs = (if p + n \<le> length xs then Some (take n (drop p xs)) else None)"
  by (simp add: mem_get_def)

lemma vanc_loop_skip:
  assumes "\<forall>j. i \<le> j \<and> j < k \<longrightarrow> \<not> line ! j \<le> 3" "i \<le> k" "int k \<le> width - 7"
    "width \<le> int (length line)"
  shows "vanc_loop env st line width n i = vanc_loop env st line width n k"
  using assms
proof (induction "k - i" arbitrary: i)
  case (Suc d)
  then have "i < k" by simp
  moreover have "mem_get i 3 line = Some (take 3 (drop i line))"
    using Suc.prems \<open>i < k\<close> by simp
  moreover have "take 3 (drop i line) ! 0 = line ! i"
    using Suc.prems \<open>i < k\<close> by simp
  ultimately have "vanc_loop env st line width n i = vanc_loop env st line width n (i + 1)"
    using Suc.prems by (subst vanc_loop.simps) (simp add: is_adf_def)
  then show ?case
    using Suc.hyps(1) [of "i + 1"] Suc.hyps(2) Suc.prems \<open>i < k\<close> by simp
qed simp

lemma vanc_loop_end: "\<not> int i < width - 7 \<Longrightarrow> vanc_loop env st line width n i = Some st"
  by (simp add: vanc_loop.simps)

lemma vanc_loop_rest:
  assumes "\<forall>j. i \<le> j \<and> j < length line \<longrightarrow> \<not> line ! j \<le> 3" "width \<le> int (length line)"
  shows "vanc_loop env st line width n i = Some st"
proof (cases "int i < width - 7")
  case True
  then have "vanc_loop env st line width n i = vanc_loop env st line width n (nat (width - 7))"
    using assms by (intro vanc_loop_skip) auto
  then show ?thesis
    by (simp add: vanc_loop_end)
qed (simp add: vanc_loop_end)

lemma vanc_sum_le: "vanc_sum ws AND 0x1ff = vanc_sum ws"
proof (cases ws rule: rev_cases)
  case (snoc xs x)
  then show ?thesis
    by (simp add: vanc_sum_def and.assoc)
qed (simp add: vanc_sum_def)

lemma vanc_checksum_big: "\<not> vanc_checksum ws \<le> 3"
proof
  assume le: "vanc_checksum ws \<le> 3"
  have m: "(0x100 :: u16) = push_bit 8 1"
    by simp
  have c9: "bit (push_bit 1 (NOT s AND push_bit 8 1)) 9 \<longleftrightarrow> \<not> bit s 8" for s :: u16
    by (subst bit_push_bit_iff) (simp add: bit_simps)
  have b: "bit (vanc_checksum ws) 8 \<or> bit (vanc_checksum ws) 9"
    unfolding vanc_checksum_def Let_def m bit_or_iff c9 by blast
  have "uint (vanc_checksum ws) \<le> 3"
    using le by (simp add: word_le_def)
  then have "uint (vanc_checksum ws) < 2 ^ 2"
    by simp
  from uint_lt_bit [OF this, of 8] uint_lt_bit [OF this, of 9] b show False
    by auto
qed

lemma read_bytes_some: "p + n \<le> length line \<Longrightarrow> \<exists>bs. read_bytes p n line = Some bs"
  by (simp add: read_bytes_def)

text \<open>A packet that passes the length check is handled without leaving the line.\<close>

lemma vanc_dispatch_safe:
  assumes "ve_malloc_ok env" "p + len + 3 < length line" "p + 4 < length line"
    "len = unat (READ_8 (line ! (p + 2)))"
  shows "\<exists>st'. vanc_dispatch env st line p n len = Some st'"
proof -
  have afd: "\<exists>r. parse_afd env st line (p + 2) n = Some r"
  proof (cases "READ_8 (line ! (p + 2)) = 8")
    case True
    then have "len = 8"
      using assms(4) by simp
    then show ?thesis
      using assms(1,2) True
      by (cases st) (auto simp: parse_afd_def read_bytes_def)
  next
    case False
    then show ?thesis
      using assms(2) by (cases st) (simp add: parse_afd_def)
  qed
  have cdp: "\<exists>r. parse_cdp env st line (p + 2) n len = Some r"
    using assms(1,2) by (cases st) (auto simp: parse_cdp_def read_bytes_def)
  have vbi: "\<exists>r. parse_dvb_scte_vbi env st line (p + 2) n = Some r"
    using assms(3) by (simp add: parse_dvb_scte_vbi_def)
  show ?thesis
    using afd cdp vbi assms(2)
    by (auto simp: vanc_dispatch_def split: option.split stream_formats.split)
qed

lemma vanc_loop_packet:
  assumes "int i < width - 7" "mem_get i 3 line = Some a" "is_adf (a ! 0) (a ! 1) (a ! 2)"
    "at line (i + 3 + 2) = Some dc" "\<not> int (unat (READ_8 dc)) + 2 > width - int (i + 3) - 1"
    "mem_get (i + 3) (unat (READ_8 dc) + 3) line = Some ws"
    "at line (i + 3 + unat (READ_8 dc) + 3) = Some cs"
    "(if cs = vanc_checksum ws then vanc_dispatch env st line (i + 3) n (unat (READ_8 dc)) else Some st)
     = Some st'"
  shows "vanc_loop env st line width n i
         = vanc_loop env st' line width n (i + 3 + 2 + unat (READ_8 dc) + 1)"
  unfolding vanc_loop.simps [of env st line width n i] Let_def
  by (simp only: assms option.simps if_True if_False not_True_eq_False prod.simps)

lemma vanc_loop_safe:
  assumes "ve_malloc_ok env" "width < int (length line)"
  shows "\<exists>st'. vanc_loop env st line width n i = Some st'"
proof (induction "nat (width - int i)" arbitrary: st i rule: less_induct)
  case less
  show ?case
  proof (cases "int i < width - 7")
    case True
    then have adf: "mem_get i 3 line = Some (take 3 (drop i line))"
      using assms(2) by simp
    let ?a = "take 3 (drop i line)"
    show ?thesis
    proof (cases "is_adf (?a ! 0) (?a ! 1) (?a ! 2)")
      case False
      then have "vanc_loop env st line width n i = vanc_loop env st line width n (i + 1)"
        using True adf by (subst vanc_loop.simps) simp
      then show ?thesis
        using less [of "i + 1"] True by simp
    next
      case a: True
      define p where "p = i + 3"
      have dc: "at line (p + 2) = Some (line ! (p + 2))"
        using True assms(2) by (simp add: p_def)
      define len where "len = unat (READ_8 (line ! (p + 2)))"
      show ?thesis
      proof (cases "int len + 2 > width - int p - 1")
        case True
        then show ?thesis
          using a adf dc \<open>int i < width - 7\<close>
          by (subst vanc_loop.simps) (simp add: p_def len_def Let_def)
      next
        case F: False
        have r: "p + len + 3 < length line"
          using F assms(2) by simp
        define ws where "ws = take (len + 3) (drop p line)"
        have g: "mem_get p (len + 3) line = Some ws" "at line (p + len + 3) = Some (line ! (p + len + 3))"
          using r by (simp_all add: ws_def)
        have p4: "p + 4 < length line"
          using True assms(2) by (simp add: p_def)
        obtain st' where st': "(if line ! (p + len + 3) = vanc_checksum ws
            then vanc_dispatch env st line p n len else Some st) = Some st'"
          using vanc_dispatch_safe [OF assms(1) r p4 len_def, of st n]
          by (cases "line ! (p + len + 3) = vanc_checksum ws") auto
        have "vanc_loop env st line width n i = vanc_loop env st' line width n (p + 2 + len + 1)"
          unfolding p_def len_def
          by (rule vanc_loop_packet [OF True adf a dc [unfolded p_def] F [unfolded p_def len_def]
                g [unfolded p_def len_def] st' [unfolded p_def len_def]])
        then show ?thesis
          using less [of "p + 2 + len + 1" st'] True by (simp add: p_def)
      qed
    qed
  qed (simp add: vanc_loop_end)
qed

section \<open>Properties\<close>

text \<open>C8 Scanning a line for ancillary packets never reads outside it, whatever the line holds and
  however its packets lie about their length, provided there is one word of slack behind the
  doubled width; the scan ends for every line.\<close>

theorem vanc_scan_memory_safe:
  assumes "ve_malloc_ok env" "2 * width < int (length line)"
  shows "\<exists>st'. parse_vanc_line env st line width line_number = Some st'"
  using vanc_loop_safe [OF assms(1), of "width * 2" line st line_number 0] assms(2)
  by (auto simp: parse_vanc_line_def mult.commute)

definition vanc_wit_env :: vanc_env where
  "vanc_wit_env = \<lparr>ve_outs = [vbi_out\<lparr>os_output_stream_id := 0,
      os_video_anc := \<lparr>fao_cea_608 = False, fao_cea_708 = True, fao_afd = True, fao_wss_to_afd = False\<rparr>\<rparr>],
     ve_realloc_ok = True, ve_malloc_ok = True, ve_disable_captions = False\<rparr>"

definition nd_wit :: non_display_data where
  "nd_wit = \<lparr>nd_probe = False, nd_has_probed = True, nd_frame_data = [], nd_ntsc = False,
     nd_vbi_slices = [], nd_has_vbi_frame = False, nd_has_ttx_frame = False, nd_anc_vbi = []\<rparr>"

definition overrun_line :: "u16 list" where
  "overrun_line = [0x40, 0x40, 0, 0x3ff, 0x3ff, 0x161, 0x101, 0x102, 0x2aa, 0x155]"

theorem vanc_scan_memory_safe_witness:
  "\<exists>st'. parse_vanc_line vanc_wit_env (nd_wit, []) (overrun_line @ [0x2ab]) 5 9 = Some st'"
  by (rule vanc_scan_memory_safe) (simp_all add: vanc_wit_env_def overrun_line_def)

text \<open>Without that slack the length check admits a packet whose checksum lies one word past the end
  of the line, and the scan reads it.\<close>

theorem vanc_scan_overruns_exact_line:
  "length overrun_line = 2 * 5 \<and> parse_vanc_line env (nd, ud) overrun_line 5 n = None"
proof -
  have a: "is_adf 0 0x3ff 0x3ff" "\<not> is_adf 0x40 0x40 0" "\<not> is_adf 0x40 0 0x3ff"
    by (simp_all add: is_adf_def)
  have dc: "unat (READ_8 0x102) = 2"
    by (simp add: READ_8_def)
  have two: "vanc_loop env (nd, ud) overrun_line 10 n 2 = None"
    unfolding vanc_loop.simps [of _ _ _ _ _ 2]
    using a(1) dc by (simp add: overrun_line_def Let_def mem_get_def at_def)
  have "vanc_loop env (nd, ud) overrun_line 10 n 0 = vanc_loop env (nd, ud) overrun_line 10 n 2"
    by (rule vanc_loop_skip) (auto simp: overrun_line_def dest!: less_2_cases)
  then show ?thesis
    using two by (simp add: parse_vanc_line_def) (simp add: overrun_line_def)
qed

text \<open>C9 A well-formed caption packet anywhere in a line of otherwise blank samples is found and its
  data words, and nothing else, are attached to the frame as a caption distribution packet, when
  the user selected CEA-708 and the frame has no such data yet.\<close>

theorem vanc_caption_packet_found:
  assumes "line = pre @ [a0, a1, a2] @ ws @ [vanc_checksum ws] @ post"
    and "ws = did # sdid # dc # udw" "length udw = unat (READ_8 dc)" "udw \<noteq> [] \<or> post \<noteq> []"
    and "is_adf a0 a1 a2" "READ_8 did = 0x61" "READ_8 sdid = 0x01"
    and "\<forall>w \<in> set pre. \<not> w \<le> 3" "\<forall>w \<in> set post. \<not> w \<le> 3" "2 * width = int (length line)"
    and "check_user_selected_non_display_data (ve_outs env) CAPTIONS_CEA_708 USER_DATA_LOCATION_FRAME"
    and "\<not> check_active_non_display_data ud USER_DATA_CEA_708_CDP" "\<not> nd_probe nd"
    and "ve_realloc_ok env" "ve_malloc_ok env" "\<not> ve_disable_captions env"
  shows "parse_vanc_line env (nd, ud) line width line_number
         = Some (nd, ud @ [vanc_user_data USER_DATA_CEA_708_CDP (map READ_8 udw)])"
proof -
  define i len where "i = length pre" and "len = unat (READ_8 dc)"
  define st' where "st' = (nd, ud @ [vanc_user_data USER_DATA_CEA_708_CDP (map READ_8 udw)])"
  have lw: "length ws = len + 3" "length udw = len"
    using assms(2,3) by (simp_all add: len_def)
  have ll: "length line = i + 3 + (len + 3) + 1 + length post"
    using assms(1) lw by (simp add: i_def)
  have ne: "0 < len + length post"
    using assms(4) lw(2) by auto
  then have nei: "0 < int len + int (length post)"
    by linarith
  have nth: "line ! (i + 3 + 2) = dc" "line ! (i + 3) = did" "line ! (i + 3 + 1) = sdid"
    "line ! (i + 3 + len + 3) = vanc_checksum ws"
    using assms(1,2) lw by (auto simp: i_def nth_append nth_Cons')
  have cut: "take (len + 3) (drop (i + 3) line) = ws" "take 3 (drop i line) = [a0, a1, a2]"
    "take len (drop (i + 3 + 3) line) = udw"
    using assms(1,2) lw by (simp_all add: i_def numeral_3_eq_3)
  have "get_vanc_type (READ_8 did) (READ_8 sdid) = Some CAPTIONS_CEA_708"
    using assms(6,7) by (simp add: get_vanc_type_def vanc_identifiers_def)
  moreover have "parse_cdp env (nd, ud) line (i + 3 + 2) line_number len = Some (0, st')"
    using assms(11-15) ll cut(3) by (simp add: parse_cdp_def read_bytes_def st'_def add.commute)
  ultimately have d: "vanc_dispatch env (nd, ud) line (i + 3) line_number len = Some st'"
    using nth ll assms(16) by (simp add: vanc_dispatch_def)
  have w: "2 * width = int (length line)" by (rule assms(10))
  have pre: "vanc_loop env (nd, ud) line (2 * width) line_number 0
             = vanc_loop env (nd, ud) line (2 * width) line_number i"
    using assms(1,8) ne ll w by (intro vanc_loop_skip) (auto simp: i_def nth_append)
  have pkt: "vanc_loop env (nd, ud) line (2 * width) line_number i
             = vanc_loop env st' line (2 * width) line_number (i + 3 + 2 + len + 1)"
    unfolding len_def
    by (rule vanc_loop_packet [where a = "[a0, a1, a2]" and ws = ws and cs = "vanc_checksum ws"])
       (use w ll nei cut nth assms(5) d in \<open>simp_all add: len_def [symmetric] add.assoc\<close>)
  have "vanc_loop env st' line (2 * width) line_number (i + 3 + 2 + len + 1) = Some st'"
  proof (rule vanc_loop_rest)
    show "\<forall>j. i + 3 + 2 + len + 1 \<le> j \<and> j < length line \<longrightarrow> \<not> line ! j \<le> 3"
    proof (intro allI impI)
      fix j assume j: "i + 3 + 2 + len + 1 \<le> j \<and> j < length line"
      have "i + 3 + 2 + len + 1 = length (pre @ [a0, a1, a2] @ ws)"
        "line = (pre @ [a0, a1, a2] @ ws) @ vanc_checksum ws # post"
        using assms(1) lw by (simp_all add: i_def)
      then have e: "drop (i + 3 + 2 + len + 1) line = vanc_checksum ws # post"
        by (metis append_eq_conv_conj)
      have "line ! j = (vanc_checksum ws # post) ! (j - (i + 3 + 2 + len + 1))"
        using j unfolding e [symmetric] by simp
      moreover have "j - (i + 3 + 2 + len + 1) < length (vanc_checksum ws # post)"
        using j ll by auto
      ultimately have "line ! j \<in> set (vanc_checksum ws # post)"
        by (metis nth_mem)
      then show "\<not> line ! j \<le> 3"
        using assms(9) vanc_checksum_big by auto
    qed
  qed (use w in simp)
  then show ?thesis
    using pre pkt assms(13) by (simp add: parse_vanc_line_def st'_def mult.commute [of width])
qed

theorem vanc_caption_packet_found_witness:
  "parse_vanc_line vanc_wit_env (nd_wit, [])
     ([0x40, 0x40, 0, 0x3ff, 0x3fd] @ [0x161, 0x101, 0x102, 0x2aa, 0x155]
      @ [vanc_checksum [0x161, 0x101, 0x102, 0x2aa, 0x155]] @ [0x40, 0x40, 0x40]) 7 9
   = Some (nd_wit, [vanc_user_data USER_DATA_CEA_708_CDP [0xaa, 0x55]])"
  using vanc_caption_packet_found [of _ "[0x40, 0x40]" 0 "0x3ff" "0x3fd"
      "[0x161, 0x101, 0x102, 0x2aa, 0x155]" "[0x40, 0x40, 0x40]" "0x161" "0x101" "0x102"
      "[0x2aa, 0x155]" 7 vanc_wit_env "[]" nd_wit 9]
  by (simp add: READ_8_def is_adf_def vanc_wit_env_def nd_wit_def check_active_non_display_data_def
      check_user_selected_non_display_data_def get_output_stream_by_id_def vbi_out_def)

end
