(* ===== verification/Obe_UserData.thy ===== *)
theory Obe_UserData
  imports Obe_Bitstream Obe_Types
begin

text \<open>
  User data for the video encoder: \<open>filters/video/cc.c\<close> and the user data functions of
  \<open>filters/video/video.c\<close>.  Each writer builds an ITU-T T.35 payload in a stack buffer with the bit
  writer of \<open>Obe_Bitstream\<close> and replaces the item's data by a copy of it.  An access outside a
  buffer is \<^const>\<open>None\<close>; the result of a writer that returns is the C return code and the item.
\<close>

section \<open>Bytes in the middle of a bit stream\<close>

text \<open>
  The buffers on the stack are byte arrays of at least 16 bytes, so the ABI aligns them: address
  and offset agree modulo 4.
\<close>

(* src: filters/video/cc.c 61-71 write_bytes *)
definition write_bytes :: "bytes \<Rightarrow> nat \<Rightarrow> bs \<Rightarrow> bs option" where
  "write_bytes bytes len s =
     do { s \<leftarrow> bs_flush s;
          d \<leftarrow> mem_get 0 len bytes;
          m \<leftarrow> mem_put (bs_p s) d (bs_mem s);
          let p = bs_p s + len;
          let offset = p mod 4;
          w \<leftarrow> load32 m (p - offset);
          Some (s\<lparr>bs_mem := m, bs_p := p - offset,
                  bs_cur := drop_bit ((4 - offset) * 8) (ucast (endian_fix32 w)),
                  bs_left := (8 - offset) * 8\<rparr>) }"

lemma write_bytes_spec:
  assumes "bs_ok s" "length (bs_bits s) mod 8 = 0" "bs_room s (8 * len + 32)" "len \<le> length bytes"
  obtains s' where "write_bytes bytes len s = Some s'" "bs_ok s'"
    "bs_bits s' = bs_bits s @ bytes_bits (take len bytes)" "length (bs_mem s') = length (bs_mem s)"
proof -
  have p4: "bs_p s + 4 \<le> length (bs_mem s)"
    using assms(1,3) by (auto simp: bs_room_def bs_bits_def bs_ok_def min_def split: if_splits)
  obtain s1 where s1: "bs_flush s = Some s1" "bytes_bits (take (bs_p s1) (bs_mem s1)) = bs_bits s"
    "length (bs_mem s1) = length (bs_mem s)" "bs_p s1 = length (bs_bits s) div 8"
    using bs_flush_spec [OF assms(1,2) p4] by metis
  have room: "bs_p s1 + len + 4 \<le> length (bs_mem s1)"
    using assms(3,2) s1(3,4) by (simp add: bs_room_def)
  define p where "p = bs_p s1 + len"
  define off where "off = p mod 4"
  define m where "m = splice (bs_p s1) (take len bytes) (bs_mem s1)"
  have lt: "length (take len bytes) = len"
    using assms(4) by simp
  have lm: "length m = length (bs_mem s)"
    using room lt s1(3) by (simp add: m_def)
  have off: "off < 4" "off \<le> p"
    by (simp_all add: off_def)
  define w where "w = take 4 (drop (p - off) m)"
  have pm: "p - off + 4 \<le> length m"
    using room lm s1(3) by (simp add: p_def)
  then have lw: "length w = 4"
    by (simp add: w_def)
  define s2 where "s2 = s1\<lparr>bs_mem := m, bs_p := p - off,
       bs_cur := drop_bit ((4 - off) * 8) (ucast (endian_fix32 (un_le32 w))),
       bs_left := (8 - off) * 8\<rparr>"
  have e: "write_bytes bytes len s = Some s2"
    using room lt pm assms(4)
    by (simp add: write_bytes_def s1(1) Let_def p_def [symmetric] m_def [symmetric] load32_def
                  off_def [symmetric] w_def [symmetric] s2_def)
  have tw: "take off w = drop (p - off) (take p m)"
    using off by (simp add: w_def drop_take min_def)
  have tp: "take p m = take (bs_p s1) (bs_mem s1) @ take len bytes"
    using take_splice_end [of "bs_p s1" "bs_mem s1" "take len bytes"] room lt
    by (simp add: m_def p_def)
  have "bs_bits s2 = bytes_bits (take (p - off) m) @ bytes_bits (take off w)"
    using reload_bits [OF lw, of off] off by (simp add: bs_bits_def s2_def algebra_simps)
  also have "\<dots> = bytes_bits (take p m)"
    using append_take_drop_id [of "p - off" "take p m"] by (simp add: tw flip: bytes_bits_append)
  also have "\<dots> = bs_bits s @ bytes_bits (take len bytes)"
    by (simp add: tp s1(2))
  finally show thesis
    using that [of s2] e off pm lm by (simp add: s2_def bs_ok_def)
qed


section \<open>Captions\<close>

text \<open>
  The outcome of \<open>malloc\<close>, and the contents an uninitialised stack buffer starts with.
\<close>

record ud_env =
  ue_malloc_ok :: bool
  ue_stack :: "nat \<Rightarrow> nat \<Rightarrow> u8"

definition stack_buf :: "ud_env \<Rightarrow> nat \<Rightarrow> nat \<Rightarrow> bytes" where
  "stack_buf env k n = map (ue_stack env k) [0..<n]"

(* src: filters/video/cc.c 28-28 CDP_IDENTIFIER *)
definition CDP_IDENTIFIER :: u32 where
  "CDP_IDENTIFIER = 0x9669"

(* src: filters/video/cc.c 30-36 cdp_section_id_e *)
datatype cdp_section_id =
    CDP_TC_SECTION_ID | CDP_CC_DATA_SECTION_ID | CDP_CC_SVC_INFO_SECTION_ID | CDP_FOOTER_SECTION_ID

(* src: filters/video/cc.c 30-36 cdp_section_id_e *)
definition cdp_section_of :: "u8 \<Rightarrow> cdp_section_id option" where
  "cdp_section_of x =
     map_of [(0x71, CDP_TC_SECTION_ID), (0x72, CDP_CC_DATA_SECTION_ID),
             (0x73, CDP_CC_SVC_INFO_SECTION_ID), (0x74, CDP_FOOTER_SECTION_ID)] x"

(* src: filters/video/cc.c 38-45 obe_cc_timecode_t *)
record cc_timecode_entry =
  ct_timebase_den :: int
  ct_timebase_num :: int
  ct_mod :: int
  ct_cc_count :: nat
  ct_frame_doubling :: bool

definition mk_cc_timecode :: "int \<Rightarrow> int \<Rightarrow> int \<Rightarrow> nat \<Rightarrow> bool \<Rightarrow> cc_timecode_entry" where
  "mk_cc_timecode d n m c f = \<lparr>ct_timebase_den = d, ct_timebase_num = n, ct_mod = m,
     ct_cc_count = c, ct_frame_doubling = f\<rparr>"

(* src: filters/video/cc.c 48-59 cc_timecode *)
definition cc_timecode :: "cc_timecode_entry list" where
  "cc_timecode =
     [mk_cc_timecode 24 1 24 25 False, mk_cc_timecode 24000 1001 24 25 False,
      mk_cc_timecode 25 1 25 24 False, mk_cc_timecode 30000 1001 30 20 False,
      mk_cc_timecode 30 1 30 20 False, mk_cc_timecode 50 1 25 12 True,
      mk_cc_timecode 60000 1001 30 10 True, mk_cc_timecode 60 1 30 10 True]"

text \<open>The search does not stop at the first match.\<close>

(* src: filters/video/cc.c 104-108 write_608_cc *)
definition cc_count_for :: "int \<Rightarrow> int \<Rightarrow> nat" where
  "cc_count_for num den =
     foldl (\<lambda>c e. if num = ct_timebase_num e \<and> den = ct_timebase_den e then ct_cc_count e else c)
       0 cc_timecode"

(* src: filters/video/cc.c 73-79 write_invalid *)
definition write_invalid :: "bs \<Rightarrow> bs option" where
  "write_invalid s =
     do { s \<leftarrow> bs_write1 s 0; s \<leftarrow> bs_write s 2 2; s \<leftarrow> bs_write s 8 0; bs_write s 8 0 }"

(* src: filters/video/cc.c 81-88 write_itu_t_codes *)
definition write_itu_t_codes :: "bs \<Rightarrow> bs option" where
  "write_itu_t_codes s = do { s \<leftarrow> bs_write s 8 0xb5; bs_write s 16 0x31 }"

definition id_GA94 :: "u32 list" where
  "id_GA94 = [0x47, 0x41, 0x39, 0x34]"

text \<open>The closing steps every writer has: a NULL pointer is the empty list.\<close>

(* src: filters/video/cc.c 168-180 write_608_cc *)
definition replace_user_data :: "ud_env \<Rightarrow> bs \<Rightarrow> user_data \<Rightarrow> int \<times> user_data" where
  "replace_user_data env s ud =
     (let len = bs_pos s div 8;
          ud = ud\<lparr>ud_type := USER_DATA_AVC_REGISTERED_ITU_T35, ud_len := len, ud_data := []\<rparr>
      in if \<not> ue_malloc_ok env then (-1, ud)
         else (0, ud\<lparr>ud_data := take (nat len) (bs_mem s)\<rparr>))"

(* src: filters/video/cc.c 139-153 write_608_cc *)
fun write_608_pairs :: "nat list \<Rightarrow> user_data \<Rightarrow> bs \<Rightarrow> bs option" where
  "write_608_pairs [] ud q = Some q"
| "write_608_pairs (i # is) ud q =
     do { q \<leftarrow> bs_write1 q 1;
          q \<leftarrow> bs_write q 4 0xf;
          q \<leftarrow> (if i \<le> 1 \<and> int ((i + 1) * 2) \<le> ud_len ud
               then do { q \<leftarrow> bs_write1 q 1;
                         q \<leftarrow> bs_write q 2 (of_nat i);
                         d1 \<leftarrow> at (ud_data ud) (2 * i);
                         q \<leftarrow> bs_write q 8 (ucast d1);
                         d2 \<leftarrow> at (ud_data ud) (2 * i + 1);
                         bs_write q 8 (ucast d2) }
               else write_invalid q);
          write_608_pairs is ud q }"

(* src: filters/video/cc.c 131-137 write_608_cc *)
definition write_cc_data_header :: "nat \<Rightarrow> bs \<Rightarrow> bs option" where
  "write_cc_data_header cc_count q =
     do { q \<leftarrow> bs_write1 q 1; q \<leftarrow> bs_write1 q 1; q \<leftarrow> bs_write1 q 0;
          q \<leftarrow> bs_write q 5 (of_nat cc_count); bs_write q 8 0xff }"

(* src: filters/video/cc.c 91-183 write_608_cc *)
definition write_608_cc :: "ud_env \<Rightarrow> user_data \<Rightarrow> 'a raw_frame_scheme \<Rightarrow> (int \<times> user_data) option" where
  "write_608_cc env ud rf =
     (let cc_count = cc_count_for (rf_timebase_num rf) (rf_timebase_den rf)
      in if cc_count = 0 then Some (-1, ud)
         else do {
           r \<leftarrow> bs_init (stack_buf env 0 1000) 0 1000;
           r \<leftarrow> write_itu_t_codes r;
           r \<leftarrow> write_codes id_GA94 r;
           r \<leftarrow> bs_write r 8 3;
           q \<leftarrow> bs_init (stack_buf env 1 500) 0 500;
           q \<leftarrow> write_cc_data_header cc_count q;
           q \<leftarrow> write_608_pairs [0..<cc_count] ud q;
           q \<leftarrow> bs_write q 8 0xff;
           q \<leftarrow> bs_flush q;
           r \<leftarrow> write_bytes (bs_mem q) (nat (bs_pos q div 8)) r;
           r \<leftarrow> bs_flush r;
           Some (replace_user_data env r ud) })"

text \<open>\<open>start\<close> is the offset of the caption bytes in the packet.\<close>

(* src: filters/video/cc.c 185-233 write_708_cc *)
definition write_708_cc :: "ud_env \<Rightarrow> user_data \<Rightarrow> nat \<Rightarrow> nat \<Rightarrow> (int \<times> user_data) option" where
  "write_708_cc env ud start cc_count =
     do { s \<leftarrow> bs_init (stack_buf env 0 1000) 0 1000;
          s \<leftarrow> write_itu_t_codes s;
          s \<leftarrow> write_codes id_GA94 s;
          s \<leftarrow> bs_write s 8 3;
          s \<leftarrow> write_cc_data_header cc_count s;
          s \<leftarrow> write_bytes (drop start (ud_data ud)) (cc_count * 3) s;
          s \<leftarrow> bs_write s 8 0xff;
          s \<leftarrow> bs_flush s;
          Some (replace_user_data env s ud) }"

section \<open>The bytes the caption writers produce\<close>

definition a53_prefix :: bytes where
  "a53_prefix = [0xb5, 0x00, 0x31, 0x47, 0x41, 0x39, 0x34, 0x03]"

lemma writes_itu_t_codes: "writes write_itu_t_codes (bytes_bits [0xb5, 0x00, 0x31])"
proof -
  have "writes (\<lambda>s. do { s \<leftarrow> bs_write s 8 0xb5; bs_write s 16 0x31 }) (bits_be 8 (0xb5 :: u32) @ bits_be 16 (0x31 :: u32))"
    by (intro writes_bind writes_write) simp_all
  then show ?thesis
    by (simp add: write_itu_t_codes_def [abs_def] bits_be_bytes)
qed

lemma writes_GA94: "writes (write_codes id_GA94) (bytes_bits [0x47, 0x41, 0x39, 0x34])"
  using writes_codes [of id_GA94] by (simp add: id_GA94_def del: write_codes.simps)

lemma writes_byte: "uint v < 256 \<Longrightarrow> writes (\<lambda>s. bs_write s 8 v) (bytes_bits [ucast v])"
  using writes_write [of 8 v] by (simp add: bits_be_bytes)

lemma bits_byte: "byte_bits (word_of_int v) = bits_be 8 v"
  unfolding byte_bits_def by (rule bits_be_cong) (simp add: bit_simps)

lemma cc_header_bits:
  assumes "c < 32"
  shows "[True, True, False] @ bits_be 5 (of_nat c :: u32) = byte_bits (0xc0 + of_nat c)"
proof -
  have "list_all (\<lambda>c. [True, True, False] @ bits_be 5 (of_nat c :: u32) = byte_bits (0xc0 + of_nat c))
          [0..<32]"
    by code_simp
  then show ?thesis
    using assms by (simp add: list_all_iff)
qed


definition cc_valid_pair :: "nat \<Rightarrow> user_data \<Rightarrow> bool" where
  "cc_valid_pair i ud \<longleftrightarrow> i \<le> 1 \<and> int ((i + 1) * 2) \<le> ud_len ud"

definition cc608_pair :: "user_data \<Rightarrow> nat \<Rightarrow> bytes" where
  "cc608_pair ud i =
     (if cc_valid_pair i ud then [0xfc + of_nat i, ud_data ud ! (2 * i), ud_data ud ! (2 * i + 1)]
      else [0xfa, 0, 0])"

lemma writes_cong: "writes f a \<Longrightarrow> (\<And>s. f s = g s) \<Longrightarrow> a = b \<Longrightarrow> writes g b"
  by (simp add: writes_def)

lemma writes_u8: "writes (\<lambda>s. bs_write s 8 (ucast (b :: u8))) (byte_bits b)"
proof -
  have "uint (ucast b :: u32) < 2 ^ 8"
    by (rule uint_lt_bitI) (auto simp: bit_simps dest: bit_imp_le_length)
  moreover have "ucast (ucast b :: u32) = b"
    by (rule bit_word_eqI) (simp add: bit_simps)
  ultimately show ?thesis
    using writes_byte [of "ucast b"] by simp
qed

lemma writes_invalid: "writes write_invalid (bits_be 3 (2 :: u32) @ bytes_bits [0, 0])"
proof -
  have "writes (\<lambda>s. do { s \<leftarrow> bs_write1 s 0; s \<leftarrow> bs_write s 2 2; s \<leftarrow> bs_write s 8 0; bs_write s 8 0 })
          ([bit (0 :: u32) 0] @ bits_be 2 (2 :: u32) @ bits_be 8 (0 :: u32) @ bits_be 8 (0 :: u32))"
    by (intro writes_bind writes_write writes_write1) simp_all
  moreover have "[bit (0 :: u32) 0] @ bits_be 2 (2 :: u32) @ bits_be 8 (0 :: u32) @ bits_be 8 (0 :: u32)
      = bits_be 3 (2 :: u32) @ bytes_bits [0, 0]"
    by code_simp
  ultimately show ?thesis
    by (simp only:) (simp add: write_invalid_def [abs_def])
qed

lemma writes_valid:
  assumes "cc_valid_pair i ud" "ud_len ud \<le> int (length (ud_data ud))"
  shows "writes (\<lambda>q. do { q \<leftarrow> bs_write1 q 1;
                         q \<leftarrow> bs_write q 2 (of_nat i);
                         d1 \<leftarrow> at (ud_data ud) (2 * i);
                         q \<leftarrow> bs_write q 8 (ucast d1);
                         d2 \<leftarrow> at (ud_data ud) (2 * i + 1);
                         bs_write q 8 (ucast d2) })
     ([True] @ bits_be 2 (of_nat i :: u32) @ bytes_bits [ud_data ud ! (2 * i), ud_data ud ! (2 * i + 1)])"
proof -
  have i: "i = 0 \<or> i = 1" and l: "2 * i + 1 < length (ud_data ud)"
    using assms by (auto simp: cc_valid_pair_def)
  have "writes (\<lambda>q. do { q \<leftarrow> bs_write1 q 1; q \<leftarrow> bs_write q 2 (of_nat i);
                         q \<leftarrow> bs_write q 8 (ucast (ud_data ud ! (2 * i)));
                         bs_write q 8 (ucast (ud_data ud ! (2 * i + 1))) })
     ([bit (1 :: u32) 0] @ bits_be 2 (of_nat i :: u32) @ byte_bits (ud_data ud ! (2 * i))
       @ byte_bits (ud_data ud ! (2 * i + 1)))"
    using i by (intro writes_bind writes_write writes_write1 writes_u8) auto
  then show ?thesis
    by (rule writes_cong) (use l in simp_all)
qed

lemma writes_pairs:
  assumes "ud_len ud \<le> int (length (ud_data ud))"
  shows "writes (write_608_pairs is ud) (bytes_bits (concat (map (cc608_pair ud) is)))"
proof (induction "is")
  case Nil
  then show ?case using writes_Some by (simp add: writes_def)
next
  case (Cons i "is")
  define body where "body = (\<lambda>q. if i \<le> 1 \<and> int ((i + 1) * 2) \<le> ud_len ud
               then do { q \<leftarrow> bs_write1 q 1;
                         q \<leftarrow> bs_write q 2 (of_nat i);
                         d1 \<leftarrow> at (ud_data ud) (2 * i);
                         q \<leftarrow> bs_write q 8 (ucast d1);
                         d2 \<leftarrow> at (ud_data ud) (2 * i + 1);
                         bs_write q 8 (ucast d2) }
               else write_invalid q)"
  have "\<exists>bits. writes body bits \<and> [True] @ bits_be 4 (0xf :: u32) @ bits = bytes_bits (cc608_pair ud i)"
  proof (cases "cc_valid_pair i ud")
    case True
    then have i: "i = 0 \<or> i = 1" by (auto simp: cc_valid_pair_def)
    have "writes body ([True] @ bits_be 2 (of_nat i :: u32)
            @ bytes_bits [ud_data ud ! (2 * i), ud_data ud ! (2 * i + 1)])"
      using writes_valid [OF True assms] True by (simp add: body_def cc_valid_pair_def)
    moreover have "[True] @ bits_be 4 (0xf :: u32) @ [True] @ bits_be 2 (of_nat i :: u32)
        = byte_bits (0xfc + of_nat i)"
    proof -
      have "list_all (\<lambda>i. [True] @ bits_be 4 (0xf :: u32) @ [True] @ bits_be 2 (of_nat i :: u32)
              = byte_bits (0xfc + of_nat i)) [0, 1]"
        by code_simp
      then show ?thesis
        using i by auto
    qed
    ultimately show ?thesis
      using True by (intro exI conjI) (auto simp: cc608_pair_def)
  next
    case False
    then have "body = write_invalid"
      by (auto simp: body_def cc_valid_pair_def fun_eq_iff)
    moreover have "[True] @ bits_be 4 (0xf :: u32) @ bits_be 3 (2 :: u32) = byte_bits 0xfa"
      by code_simp
    ultimately show ?thesis
      using False writes_invalid by (intro exI conjI) (auto simp: cc608_pair_def)
  qed
  then obtain bits where b: "writes body bits"
    "[True] @ bits_be 4 (0xf :: u32) @ bits = bytes_bits (cc608_pair ud i)"
    by blast
  have "writes (\<lambda>q. do { q \<leftarrow> bs_write1 q 1; q \<leftarrow> bs_write q 4 0xf; q \<leftarrow> body q; write_608_pairs is ud q })
          ([bit (1 :: u32) 0] @ bits_be 4 (0xf :: u32) @ bits @ bytes_bits (concat (map (cc608_pair ud) is)))"
    using Cons b(1) by (intro writes_bind writes_write writes_write1) simp_all
  then show ?case
    by (rule writes_cong) (use b(2) in \<open>simp_all add: body_def\<close>)
qed

lemma writes_cc_data_header:
  assumes "c < 32"
  shows "writes (write_cc_data_header c) (bytes_bits [0xc0 + of_nat c, 0xff])"
proof -
  have "uint (of_nat c :: u32) < 2 ^ 5"
    using assms uint_of_nat_lt [of c 5] by simp
  then have "writes (\<lambda>q. do { q \<leftarrow> bs_write1 q 1; q \<leftarrow> bs_write1 q 1; q \<leftarrow> bs_write1 q 0;
          q \<leftarrow> bs_write q 5 (of_nat c); bs_write q 8 0xff })
     ([bit (1 :: u32) 0] @ [bit (1 :: u32) 0] @ [bit (0 :: u32) 0] @ bits_be 5 (of_nat c :: u32)
       @ bits_be 8 (0xff :: u32))"
    by (intro writes_bind writes_write writes_write1) simp_all
  then show ?thesis
    by (rule writes_cong)
       (use cc_header_bits [OF assms] in \<open>simp_all add: write_cc_data_header_def bits_be_bytes\<close>)
qed


lemma finish_user_data:
  assumes "bs_ok r" "bs_bits r = bytes_bits bs" "bs_room r 32"
  shows "\<exists>r'. bs_flush r = Some r'
    \<and> replace_user_data env r' ud
      = (let ud = ud\<lparr>ud_type := USER_DATA_AVC_REGISTERED_ITU_T35, ud_len := int (length bs), ud_data := []\<rparr>
         in if ue_malloc_ok env then (0, ud\<lparr>ud_data := bs\<rparr>) else (-1, ud))
    \<and> nat (bs_pos r' div 8) = length bs \<and> take (length bs) (bs_mem r') = bs
    \<and> length (bs_mem r') = length (bs_mem r)"
proof -
  have "bs_p r + 4 \<le> length (bs_mem r)"
    using assms(1,3) by (auto simp: bs_room_def bs_bits_def bs_ok_def min_def split: if_splits)
  then obtain s where s: "bs_flush r = Some s" "bytes_bits (take (bs_p s) (bs_mem s)) = bs_bits r"
    "bs_left s = 64" "bs_p s = length (bs_bits r) div 8" "length (bs_mem s) = length (bs_mem r)"
    using bs_flush_spec [OF assms(1)] assms(2) by (metis length_bytes_bits mod_mult_self1_is_0)
  then have "bs_p s = length bs" "take (length bs) (bs_mem s) = bs"
    using assms(2) by (auto dest: bytes_bits_inj)
  then show ?thesis
    using s by (auto simp: replace_user_data_def bs_pos_def Let_def)
qed

lemma bs_init_stack:
  assumes "4 \<le> n"
  obtains s where "bs_init (stack_buf env k n) 0 n = Some s" "bs_ok s" "bs_bits s = []"
    "length (bs_mem s) = n"
proof -
  have "length (stack_buf env k n) = n"
    by (simp add: stack_buf_def)
  then show thesis
    using that bs_init_aligned [of "stack_buf env k n" n] assms by auto
qed

lemma writes_fresh:
  assumes "writes f (bytes_bits bs)" "bs_ok s" "bs_bits s = []" "length (bs_mem s) = n" "length bs \<le> n"
  obtains s' where "f s = Some s'" "bs_ok s'" "bs_bits s' = bytes_bits bs" "length (bs_mem s') = n"
proof -
  have "bs_room s (length (bytes_bits bs))"
    using assms(3-5) by (simp add: bs_room_def)
  from assms(1,2) this show thesis
    by (rule writesD) (use that assms(3,4) in simp)
qed

definition a53_header :: "nat \<Rightarrow> bytes" where
  "a53_header c = a53_prefix @ [0xc0 + of_nat c, 0xff]"

definition write_708_head :: "nat \<Rightarrow> bs \<Rightarrow> bs option" where
  "write_708_head c s =
     do { s \<leftarrow> write_itu_t_codes s; s \<leftarrow> write_codes id_GA94 s; s \<leftarrow> bs_write s 8 3;
          write_cc_data_header c s }"

lemma writes_708_head: "c < 32 \<Longrightarrow> writes (write_708_head c) (bytes_bits (a53_header c))"
proof -
  assume c: "c < 32"
  have "writes (\<lambda>s. do { s \<leftarrow> write_itu_t_codes s; s \<leftarrow> write_codes id_GA94 s; s \<leftarrow> bs_write s 8 3;
          write_cc_data_header c s })
    (bytes_bits [0xb5, 0x00, 0x31] @ bytes_bits [0x47, 0x41, 0x39, 0x34] @ bytes_bits [ucast (3 :: u32)]
      @ bytes_bits [0xc0 + of_nat c, 0xff])"
    using c by (intro writes_bind writes_itu_t_codes writes_GA94 writes_byte writes_cc_data_header) simp_all
  then show ?thesis
    by (simp add: write_708_head_def [abs_def] a53_header_def a53_prefix_def)
qed

lemma write_708_cc_spec:
  assumes "cc_count < 32" "start + 3 * cc_count \<le> length (ud_data ud)"
  shows "write_708_cc env ud start cc_count
    = (let bs = a53_header cc_count @ take (3 * cc_count) (drop start (ud_data ud)) @ [0xff];
           ud = ud\<lparr>ud_type := USER_DATA_AVC_REGISTERED_ITU_T35, ud_len := int (length bs), ud_data := []\<rparr>
       in Some (if ue_malloc_ok env then (0, ud\<lparr>ud_data := bs\<rparr>) else (-1, ud)))"
proof -
  define d where "d = take (3 * cc_count) (drop start (ud_data ud))"
  have ld: "length d = 3 * cc_count"
    using assms(2) by (simp add: d_def)
  obtain s0 where s0: "bs_init (stack_buf env 0 1000) 0 1000 = Some s0" "bs_ok s0" "bs_bits s0 = []"
    "length (bs_mem s0) = 1000"
    by (rule bs_init_stack [where n = 1000]) simp
  have "bs_room s0 (length (bytes_bits (a53_header cc_count)))"
    using s0 by (simp add: bs_room_def a53_header_def a53_prefix_def)
  then obtain s1 where s1: "write_708_head cc_count s0 = Some s1" "bs_ok s1"
    "bs_bits s1 = bytes_bits (a53_header cc_count)" "length (bs_mem s1) = 1000"
    using writesD [OF writes_708_head [OF assms(1)] s0(2)] s0(3,4) by (metis append_Nil)
  have "bs_room s1 (8 * (cc_count * 3) + 32)" "cc_count * 3 \<le> length (drop start (ud_data ud))"
    using s1 assms by (simp_all add: bs_room_def a53_header_def a53_prefix_def)
  then obtain s2 where s2: "write_bytes (drop start (ud_data ud)) (cc_count * 3) s1 = Some s2" "bs_ok s2"
    "bs_bits s2 = bs_bits s1 @ bytes_bits d" "length (bs_mem s2) = 1000"
    using write_bytes_spec [OF s1(2), of "cc_count * 3" "drop start (ud_data ud)"] s1(3,4)
    by (metis length_bytes_bits mod_mult_self1_is_0 d_def mult.commute)
  have "bs_room s2 (length (bytes_bits [ucast (0xff :: u32)]))"
    using s1 s2 ld assms(1) by (simp add: bs_room_def a53_header_def a53_prefix_def)
  then obtain s3 where s3: "bs_write s2 8 0xff = Some s3" "bs_ok s3"
    "bs_bits s3 = bs_bits s2 @ bytes_bits [ucast (0xff :: u32)]" "length (bs_mem s3) = 1000"
    using writesD [OF writes_byte [of "0xff"] s2(2)] s2(4) by auto
  have b3: "bs_bits s3 = bytes_bits (a53_header cc_count @ d @ [0xff])"
    using s1(3) s2(3) s3(3) by simp
  have "bs_room s3 32"
    using s3(4) ld assms(1) by (simp add: bs_room_def b3 a53_header_def a53_prefix_def)
  then obtain s4 where s4: "bs_flush s3 = Some s4" "replace_user_data env s4 ud
      = (let bs = a53_header cc_count @ d @ [0xff];
             ud = ud\<lparr>ud_type := USER_DATA_AVC_REGISTERED_ITU_T35, ud_len := int (length bs), ud_data := []\<rparr>
         in if ue_malloc_ok env then (0, ud\<lparr>ud_data := bs\<rparr>) else (-1, ud))"
    using finish_user_data [OF s3(2) b3] by (metis (no_types, lifting))
  have "write_708_cc env ud start cc_count = Some (replace_user_data env s4 ud)"
    using s0(1) s1(1) s2(1) s3(1) s4(1) unfolding write_708_cc_def write_708_head_def
    by (auto simp: bind_eq_Some_conv)
  then show ?thesis
    by (simp add: s4(2) d_def Let_def)
qed


lemma cc_count_for_le: "cc_count_for num den \<le> 25"
  by (simp add: cc_count_for_def cc_timecode_def mk_cc_timecode_def)

definition write_itu_head :: "u32 list \<Rightarrow> u32 \<Rightarrow> bs \<Rightarrow> bs option" where
  "write_itu_head ident code s =
     do { s \<leftarrow> write_itu_t_codes s; s \<leftarrow> write_codes ident s; bs_write s 8 code }"

lemma writes_itu_head:
  assumes "list_all (\<lambda>c. uint c < 256) ident" "uint code < 256"
  shows "writes (write_itu_head ident code)
           (bytes_bits ([0xb5, 0x00, 0x31] @ map ucast ident @ [ucast code]))"
proof -
  have "writes (\<lambda>s. do { s \<leftarrow> write_itu_t_codes s; s \<leftarrow> write_codes ident s; bs_write s 8 code })
    (bytes_bits [0xb5, 0x00, 0x31] @ bytes_bits (map ucast ident) @ bytes_bits [ucast code])"
    using assms by (intro writes_bind writes_itu_t_codes writes_codes writes_byte)
  then show ?thesis
    by (simp add: write_itu_head_def [abs_def])
qed

definition cc608_body :: "nat \<Rightarrow> user_data \<Rightarrow> bytes" where
  "cc608_body c ud = [0xc0 + of_nat c, 0xff] @ concat (map (cc608_pair ud) [0..<c]) @ [0xff]"

lemma length_cc608_pairs: "length (concat (map (cc608_pair ud) is)) = 3 * length is"
  by (induction "is") (simp_all add: cc608_pair_def)

lemma write_608_body:
  assumes "c \<le> 25" "ud_len ud \<le> int (length (ud_data ud))"
  shows "\<exists>q q'. (do { q \<leftarrow> bs_init (stack_buf env 1 500) 0 500; q \<leftarrow> write_cc_data_header c q;
            q \<leftarrow> write_608_pairs [0..<c] ud q; bs_write q 8 0xff }) = Some q
           \<and> bs_flush q = Some q' \<and> nat (bs_pos q' div 8) = length (cc608_body c ud)
           \<and> take (length (cc608_body c ud)) (bs_mem q') = cc608_body c ud \<and> length (bs_mem q') = 500"
proof -
  have len: "length (cc608_body c ud) = 3 * c + 3"
    by (simp add: cc608_body_def length_cc608_pairs)
  obtain s0 where s0: "bs_init (stack_buf env 1 500) 0 500 = Some s0" "bs_ok s0" "bs_bits s0 = []"
    "length (bs_mem s0) = 500"
    by (rule bs_init_stack [where n = 500]) simp
  have "writes (\<lambda>q. do { q \<leftarrow> write_cc_data_header c q; q \<leftarrow> write_608_pairs [0..<c] ud q; bs_write q 8 0xff })
    (bytes_bits [0xc0 + of_nat c, 0xff] @ bytes_bits (concat (map (cc608_pair ud) [0..<c]))
      @ bytes_bits [ucast (0xff :: u32)])"
    using assms by (intro writes_bind writes_cc_data_header writes_pairs writes_byte) simp_all
  then have w: "writes (\<lambda>q. do { q \<leftarrow> write_cc_data_header c q; q \<leftarrow> write_608_pairs [0..<c] ud q;
      bs_write q 8 0xff }) (bytes_bits (cc608_body c ud))"
    by (simp add: cc608_body_def)
  obtain s1 where s1: "(do { q \<leftarrow> write_cc_data_header c s0;
      q \<leftarrow> write_608_pairs [0..<c] ud q; bs_write q 8 0xff }) = Some s1" "bs_ok s1"
    "bs_bits s1 = bytes_bits (cc608_body c ud)" "length (bs_mem s1) = 500"
    by (rule writes_fresh [OF w s0(2-4)]) (use assms(1) len in simp)
  have "bs_room s1 32"
    using s1(3,4) assms(1) len by (simp add: bs_room_def)
  then obtain q' where q': "bs_flush s1 = Some q'" "nat (bs_pos q' div 8) = length (cc608_body c ud)"
    "take (length (cc608_body c ud)) (bs_mem q') = cc608_body c ud" "length (bs_mem q') = 500"
    using finish_user_data [OF s1(2,3)] s1(4) by metis
  have "(do { q \<leftarrow> bs_init (stack_buf env 1 500) 0 500; q \<leftarrow> write_cc_data_header c q;
            q \<leftarrow> write_608_pairs [0..<c] ud q; bs_write q 8 0xff }) = Some s1"
    unfolding s0(1) by (simp only: bind.bind_lunit s1(1))
  then show ?thesis
    using q' by blast
qed

lemma write_608_cc_spec:
  fixes rf :: "'a raw_frame_scheme"
  assumes "ud_len ud \<le> int (length (ud_data ud))"
  defines "c \<equiv> cc_count_for (rf_timebase_num rf) (rf_timebase_den rf)"
  assumes "c \<noteq> 0"
  shows "write_608_cc env ud rf
    = (let bs = a53_prefix @ cc608_body c ud;
           ud = ud\<lparr>ud_type := USER_DATA_AVC_REGISTERED_ITU_T35, ud_len := int (length bs), ud_data := []\<rparr>
       in Some (if ue_malloc_ok env then (0, ud\<lparr>ud_data := bs\<rparr>) else (-1, ud)))"
proof -
  have c: "c \<le> 25"
    unfolding c_def by (rule cc_count_for_le)
  have len: "length (cc608_body c ud) = 3 * c + 3"
    by (simp add: cc608_body_def length_cc608_pairs)
  obtain r0 where r0: "bs_init (stack_buf env 0 1000) 0 1000 = Some r0" "bs_ok r0" "bs_bits r0 = []"
    "length (bs_mem r0) = 1000"
    by (rule bs_init_stack [where n = 1000]) simp
  have w: "writes (write_itu_head id_GA94 3) (bytes_bits a53_prefix)"
    using writes_itu_head [of id_GA94 3] by (simp add: id_GA94_def a53_prefix_def)
  obtain r1 where r1: "write_itu_head id_GA94 3 r0 = Some r1" "bs_ok r1"
    "bs_bits r1 = bytes_bits a53_prefix" "length (bs_mem r1) = 1000"
    by (rule writes_fresh [OF w r0(2-4)]) (simp add: a53_prefix_def)
  obtain q q' where q: "(do { q \<leftarrow> bs_init (stack_buf env 1 500) 0 500; q \<leftarrow> write_cc_data_header c q;
            q \<leftarrow> write_608_pairs [0..<c] ud q; bs_write q 8 0xff }) = Some q"
     "bs_flush q = Some q'" "nat (bs_pos q' div 8) = length (cc608_body c ud)"
     "take (length (cc608_body c ud)) (bs_mem q') = cc608_body c ud" "length (bs_mem q') = 500"
    using write_608_body [OF c assms(1)] by blast
  have "bs_room r1 (8 * length (cc608_body c ud) + 32)" "length (cc608_body c ud) \<le> length (bs_mem q')"
    using r1 q(5) len c by (simp_all add: bs_room_def a53_prefix_def)
  then obtain r2 where r2: "write_bytes (bs_mem q') (length (cc608_body c ud)) r1 = Some r2" "bs_ok r2"
    "bs_bits r2 = bytes_bits (a53_prefix @ cc608_body c ud)" "length (bs_mem r2) = 1000"
    using write_bytes_spec [OF r1(2)] r1(3,4) q(4)
    by (metis bytes_bits_append length_bytes_bits mod_mult_self1_is_0)
  have "bs_room r2 32"
    using r2(3,4) len c by (simp add: bs_room_def a53_prefix_def)
  then obtain r3 where r3: "bs_flush r2 = Some r3" "replace_user_data env r3 ud
      = (let bs = a53_prefix @ cc608_body c ud;
             ud = ud\<lparr>ud_type := USER_DATA_AVC_REGISTERED_ITU_T35, ud_len := int (length bs), ud_data := []\<rparr>
         in if ue_malloc_ok env then (0, ud\<lparr>ud_data := bs\<rparr>) else (-1, ud))"
    using finish_user_data [OF r2(2,3)] by (metis (no_types, lifting))
  have "write_608_cc env ud rf = Some (replace_user_data env r3 ud)"
    using r0(1) r1(1) r2(1) r3(1) q(1,2,3) assms(3)
    unfolding write_608_cc_def write_itu_head_def c_def [symmetric] Let_def
    by (auto simp: bind_eq_Some_conv)
  then show ?thesis
    by (simp add: r3(2) Let_def)
qed

section \<open>Reading caption distribution packets\<close>

text \<open>The bits left, counted so that every read of a bit that is there makes the number smaller.\<close>

definition bsr_meas :: "bsr \<Rightarrow> nat" where
  "bsr_meas s = (if bs_read_eof s then 0 else 9 * (length (bsr_mem s) - bsr_p s) + bsr_left s)"

definition skips :: "bsr \<Rightarrow> nat list \<Rightarrow> bsr" where
  "skips s ns = foldl bs_skip s ns"

lemma bs_skip_meas: "bsr_meas (bs_skip s n) \<le> bsr_meas s" "bsr_mem (bs_skip s n) = bsr_mem s"
proof -
  define j where "j = (- (int (bsr_left s) - int n) + 8) div 8"
  have e: "(- (int (bsr_left s) - int n) + 8) sdiv 8 = j" if "int (bsr_left s) - int n \<le> 0"
    using that by (auto simp: j_def signed_divide_int_def)
  have "bsr_p s + nat j < length (bsr_mem s) \<Longrightarrow> int (bsr_left s) - int n \<le> 0 \<Longrightarrow>
      9 * (length (bsr_mem s) - (bsr_p s + nat j)) + nat (int (bsr_left s) - int n + 8 * j)
      \<le> 9 * (length (bsr_mem s) - bsr_p s) + bsr_left s"
  proof -
    assume a: "bsr_p s + nat j < length (bsr_mem s)" "int (bsr_left s) - int n \<le> 0"
    then have "1 \<le> j" "int (bsr_left s) - int n + 8 * j \<le> 8"
      by (auto simp: j_def)
    then show ?thesis
      using a by auto
  qed
  then show "bsr_meas (bs_skip s n) \<le> bsr_meas s"
    by (auto simp: bsr_meas_def bs_skip_def Let_def e bs_read_eof_def)
  show "bsr_mem (bs_skip s n) = bsr_mem s"
    by (simp add: bs_skip_def Let_def)
qed

lemma skips_meas: "bsr_meas (skips s ns) \<le> bsr_meas s"
  unfolding skips_def
proof (induction ns arbitrary: s)
  case (Cons n ns)
  then show ?case
    using bs_skip_meas(1) [of s n] by (metis foldl_Cons order_trans)
qed simp

lemma bs_read_loop_meas:
  "bsr_meas (snd (bs_read_loop r n s)) \<le> bsr_meas s
   \<and> (0 < n \<longrightarrow> \<not> bs_read_eof s \<longrightarrow> bsr_meas (snd (bs_read_loop r n s)) < bsr_meas s)"
proof (induction r n s rule: bs_read_loop.induct)
  case (1 r n s)
  have next_meas: "bsr_meas (bsr_next s) < bsr_meas s" if "\<not> bs_read_eof s"
    using that by (auto simp: bsr_meas_def bsr_next_def bs_read_eof_def)
  show ?case
  proof (cases "n = 0 \<or> bs_read_eof s \<or> n \<le> bsr_left s")
    case True
    then show ?thesis
      using next_meas [unfolded bsr_next_def]
      by (subst (1 2) bs_read_loop.simps) (auto simp: Let_def bsr_meas_def bsr_next_def bs_read_eof_def)
  next
    case False
    define b where "b = (ucast (bsr_mem s ! bsr_p s) :: u32)"
    have e: "bs_read_loop r n s = bs_read_loop (r OR push_bit (n - bsr_left s) (b AND mask (bsr_left s)))
                     (n - bsr_left s) (bsr_next s)"
      using False by (subst bs_read_loop.simps) (simp add: Let_def b_def)
    have "bsr_meas (snd (bs_read_loop r n s)) \<le> bsr_meas (bsr_next s)"
      unfolding e using 1 False by (auto simp: b_def)
    then show ?thesis
      using next_meas False by auto
  qed
qed

lemma bs_read_meas:
  "bsr_meas (snd (bs_read s n)) \<le> bsr_meas s"
  "0 < n \<Longrightarrow> \<not> bs_read_eof s \<Longrightarrow> bsr_meas (snd (bs_read s n)) < bsr_meas s"
  using bs_read_loop_meas [of 0 n s] by (simp_all add: bs_read_def)


text \<open>
  One section after its identifier: whether the loop ends, the reader, the start of the caption bytes
  and their number.
\<close>

(* src: filters/video/cc.c 278-342 read_cdp *)
definition cdp_section ::
    "cdp_section_id option \<Rightarrow> bsr \<Rightarrow> nat \<times> nat \<Rightarrow> bool \<times> bsr \<times> nat \<times> nat" where
  "cdp_section sid s found =
     (case sid of
        Some CDP_TC_SECTION_ID \<Rightarrow> (False, skips s [2, 2, 4, 1, 3, 4, 1, 3, 4, 1, 1, 2, 4], found)
      | Some CDP_CC_DATA_SECTION_ID \<Rightarrow>
          (let (v, s) = bs_read s 8;
               cc_count = unat (v AND 0x1f);
               start = nat (bs_read_pos s div 8)
           in (False, skips s (concat (replicate cc_count [5, 1, 2, 8, 8])), start, cc_count))
      | Some CDP_CC_SVC_INFO_SECTION_ID \<Rightarrow>
          (let s = skips s [1, 1, 1, 1];
               (svc_count, s) = bs_read s 4
           in (False, skips s (concat (replicate (unat svc_count) [1, 1, 6, 8, 8, 8, 8, 8, 8])), found))
      | Some CDP_FOOTER_SECTION_ID \<Rightarrow> (True, skips s [16, 8], found)
      | None \<Rightarrow>
          (let (future_len, s) = bs_read s 8
           in (False, skips s (replicate (unat future_len) 8), found)))"

lemma cdp_section_meas: "bsr_meas (fst (snd (cdp_section sid s found))) \<le> bsr_meas s"
proof -
  have m: "bsr_meas (skips (snd (bs_read t n)) ns) \<le> bsr_meas t" for t n ns
    using skips_meas bs_read_meas(1) order_trans by meson
  have "bsr_meas (skips (snd (bs_read (skips s ms) n)) ns) \<le> bsr_meas s" for ms n ns
    using m skips_meas order_trans by meson
  then show ?thesis
    using m skips_meas [of s]
    by (auto simp: cdp_section_def Let_def case_prod_unfold
             split: option.split cdp_section_id.split)
qed

(* src: filters/video/cc.c 275-342 read_cdp *)
function cdp_sections :: "bsr \<Rightarrow> nat \<times> nat \<Rightarrow> nat \<times> nat" where
  "cdp_sections s found =
     (if bs_read_eof s then found
      else let (section_id, s) = bs_read s 8;
               (stop, s, found) = cdp_section (cdp_section_of (ucast section_id)) s found
           in if stop then found else cdp_sections s found)"
  by auto
termination
proof (relation "measure (\<lambda>(s, _). bsr_meas s)")
  fix s found x v s1 y stop z s2 found'
  assume a: "\<not> bs_read_eof s" "x = bs_read s 8" "(v, s1) = x"
    "y = cdp_section (cdp_section_of (ucast v)) s1 found" "(stop, z) = y" "(s2, found') = z"
  have "bsr_meas s2 \<le> bsr_meas s1"
    using a(4-6) cdp_section_meas by (metis fst_conv snd_conv)
  moreover have "bsr_meas s1 < bsr_meas s"
    using bs_read_meas(2) [of 8 s] a(1-3) by (metis snd_conv zero_less_numeral)
  ultimately show "((s2, found'), s, found) \<in> measure (\<lambda>(s, _). bsr_meas s)"
    by simp
qed simp

declare cdp_sections.simps [simp del]

text \<open>\<open>uint8_t\<close> arithmetic: 256 minus the sum is its negation.\<close>

(* src: filters/video/cc.c 249-254 read_cdp *)
definition cdp_checksum :: "bytes \<Rightarrow> u8" where
  "cdp_checksum bs = (let cs = sum_list bs in if cs \<noteq> 0 then - cs else 0)"

(* src: filters/video/cc.c 235-350 read_cdp *)
definition read_cdp :: "ud_env \<Rightarrow> user_data \<Rightarrow> (int \<times> user_data) option" where
  "read_cdp env ud =
     do { data \<leftarrow> mem_get 0 (nat (ud_len ud)) (ud_data ud);
          let (ident, s) = bs_read (bs_read_init data) 16;
          if ident \<noteq> CDP_IDENTIFIER then Some (1, ud)
          else do {
            cs \<leftarrow> at data (length data - 1);
            if cdp_checksum (butlast data) \<noteq> cs then Some (1, ud)
            else let s = skips s [8, 4, 4, 1, 1, 1, 1, 1, 1, 1, 1, 16];
                     (start, cc_count) = cdp_sections s (0, 0)
                 in if cc_count = 0 then Some (1, ud)
                    else do { (r, ud) \<leftarrow> write_708_cc env ud start cc_count;
                              Some (if r < 0 then -1 else 0, ud) } } }"


definition rd_at :: "bytes \<Rightarrow> nat \<Rightarrow> bsr" where
  "rd_at d p = \<lparr>bsr_mem = d, bsr_p = p, bsr_left = 8\<rparr>"

lemma bs_skip_pos:
  fixes n :: nat
  assumes "1 \<le> bsr_left s" "bsr_left s \<le> 8"
  defines "q \<equiv> 8 * bsr_p s + (8 - bsr_left s) + n"
  shows "bs_skip s n = s\<lparr>bsr_p := q div 8, bsr_left := 8 - q mod 8\<rparr>"
proof (cases "n < bsr_left s")
  case True
  then have "q = 8 * bsr_p s + (8 - bsr_left s + n)" "8 - bsr_left s + n < 8"
    using assms by auto
  then have "q div 8 = bsr_p s" "q mod 8 = 8 - bsr_left s + n"
    by simp_all
  then show ?thesis
    using True assms(1,2) by (simp add: bs_skip_def Let_def)
next
  case False
  define m where "m = n - bsr_left s"
  have n: "n = bsr_left s + m"
    using False by (simp add: m_def)
  have q: "q = 8 * (bsr_p s + 1) + m"
    using assms(1,2) n by (simp add: q_def)
  have i: "(int m + 8) sdiv 8 = int (m div 8) + 1"
    by (auto simp: signed_divide_int_def zdiv_int)
  obtain a b where ab: "m div 8 = a" "m mod 8 = b" "m = 8 * a + b" "b < 8"
    using mult_div_mod_eq [of 8 m] mod_less_divisor [of 8 m] by (metis zero_less_numeral)
  then have "nat (- int m + 8 * (int (m div 8) + 1)) = 8 - m mod 8"
    by (simp only: ab(1,2)) (simp add: ab(3))
  moreover have "q div 8 = bsr_p s + 1 + m div 8" "q mod 8 = m mod 8"
    unfolding q by (simp, metis add.commute mod_mult_self2)
  ultimately show ?thesis
    using n i unfolding bs_skip_def Let_def by (simp add: nat_add_distrib)
qed

lemma bs_skip_add:
  assumes "1 \<le> bsr_left s" "bsr_left s \<le> 8"
  shows "bs_skip (bs_skip s a) b = bs_skip s (a + b)"
proof -
  define q where "q = 8 * bsr_p s + (8 - bsr_left s) + a"
  have "8 * (q div 8) + (8 - (8 - q mod 8)) + b = q + b"
    using mult_div_mod_eq [of 8 q] mod_less_divisor [of 8 q] by linarith
  then show ?thesis
    using assms by (simp add: bs_skip_pos q_def [symmetric] add.assoc [symmetric])
qed

lemma skips_sum:
  assumes "1 \<le> bsr_left s" "bsr_left s \<le> 8"
  shows "skips s ns = bs_skip s (sum_list ns)"
  using assms
proof (induction ns arbitrary: s)
  case Nil
  then show ?case
    by (simp add: skips_def bs_skip_def)
next
  case (Cons n ns)
  have "1 \<le> bsr_left (bs_skip s n)" "bsr_left (bs_skip s n) \<le> 8"
    using Cons.prems by (simp_all add: bs_skip_pos)
  then show ?case
    using Cons by (simp add: skips_def bs_skip_add)
qed

lemma skips_rd_at: "sum_list ns = 8 * k \<Longrightarrow> skips (rd_at d p) ns = rd_at d (p + k)"
  by (simp add: skips_sum rd_at_def bs_skip_pos)

lemma rd_eof: "bs_read_eof (rd_at d p) \<longleftrightarrow> length d \<le> p"
  by (simp add: bs_read_eof_def rd_at_def)

lemma bs_read_rd_at:
  assumes "p < length d"
  shows "bs_read (rd_at d p) 8 = (ucast (d ! p), rd_at d (p + 1))"
proof -
  have "ucast (d ! p) AND mask 8 = (ucast (d ! p) :: u32)"
    by (rule bit_word_eqI) (auto simp: bit_simps dest: bit_imp_le_length)
  then show ?thesis
    using assms unfolding bs_read_def
    by (subst bs_read_loop.simps) (simp add: Let_def rd_at_def bs_read_eof_def bsr_next_def)
qed

lemma bs_read16_rd_at:
  assumes "p + 1 < length d"
  shows "bs_read (rd_at d p) 16
    = (push_bit 8 (ucast (d ! p)) OR ucast (d ! (p + 1)), rd_at d (p + 2))"
proof -
  have m: "ucast b AND mask 8 = (ucast b :: u32)" for b :: u8
    by (rule bit_word_eqI) (auto simp: bit_simps dest: bit_imp_le_length)
  then show ?thesis
    using assms unfolding bs_read_def
    by (subst bs_read_loop.simps, subst bs_read_loop.simps)
       (simp add: Let_def rd_at_def bs_read_eof_def bsr_next_def flip: push_bit_and)
qed

lemma bs_read_pos_rd_at [simp]: "nat (bs_read_pos (rd_at d p) div 8) = p"
  by (simp add: bs_read_pos_def rd_at_def)

lemma sum_list_replicate_concat:
  "sum_list (concat (replicate n xs)) = n * sum_list (xs :: nat list)"
  by (induction n) simp_all

lemma cdp_cc_section:
  assumes "p + 1 < length d" "d ! p = 0x72" "d ! (p + 1) = 0xe0 + of_nat c" "c < 32"
  shows "cdp_sections (rd_at d p) found = cdp_sections (rd_at d (p + 2 + 3 * c)) (p + 2, c)"
proof -
  have a: "unat (ucast (0xe0 + of_nat c :: u8) AND 0x1f :: u32) = c"
  proof -
    have "list_all (\<lambda>c. unat (ucast (0xe0 + of_nat c :: u8) AND 0x1f :: u32) = c) [0..<32]"
      by code_simp
    then show ?thesis
      using assms(4) by (simp add: list_all_iff)
  qed
  have s: "skips (rd_at d (Suc (Suc p))) (concat (replicate c [5, Suc 0, 2, 8, 8])) = rd_at d (p + 2 + 3 * c)"
    by (subst skips_rd_at [where k = "3 * c"]) (simp_all add: sum_list_replicate_concat)
  show ?thesis
    using assms(1,2) a assms(3) s
    by (subst cdp_sections.simps)
       (simp add: rd_eof bs_read_rd_at cdp_section_of_def cdp_section_def)
qed

lemma cdp_tc_section:
  assumes "p < length d" "d ! p = 0x71"
  shows "cdp_sections (rd_at d p) found = cdp_sections (rd_at d (p + 5)) found"
proof -
  have "skips (rd_at d (Suc p)) [2, 2, 4, Suc 0, 3, 4, Suc 0, 3, 4, Suc 0, Suc 0, 2, 4] = rd_at d (p + 5)"
    by (subst skips_rd_at [where k = 4]) (simp_all add: add.commute)
  then show ?thesis
    using assms by (subst cdp_sections.simps)
      (simp add: rd_eof bs_read_rd_at cdp_section_of_def cdp_section_def)
qed

lemma unat_ucast8: "unat (ucast (w :: u8) :: u32) = unat w"
proof -
  have "unat w < 2 ^ 32"
    using unsigned_less [of w, where 'a = nat] by simp
  then show ?thesis
    by (simp add: unsigned_ucast_eq take_bit_nat_eq_self)
qed

lemma cdp_svc_section:
  assumes "p + 1 < length d" "d ! p = 0x73" "d ! (p + 1) = v"
  shows "cdp_sections (rd_at d p) found = cdp_sections (rd_at d (p + 2 + 7 * unat (v AND 0xf))) found"
proof -
  define t where "t = skips (rd_at d (Suc p)) [1, 1, 1, 1]"
  have t: "t = \<lparr>bsr_mem = d, bsr_p = Suc p, bsr_left = 4\<rparr>"
    by (simp add: t_def skips_sum rd_at_def bs_skip_pos)
  have u: "unat (ucast v AND mask 4 :: u32) = unat (v AND 0xf)"
  proof -
    have "ucast v AND mask 4 = (ucast (v AND mask 4) :: u32)"
      by (rule bit_word_eqI) (auto simp: bit_simps)
    then show ?thesis
      by (simp add: mask_eq_exp_minus_1 unat_ucast8)
  qed
  have r: "bs_read t 4 = (ucast v AND mask 4, rd_at d (p + 2))"
    using assms unfolding bs_read_def t
    by (subst bs_read_loop.simps) (simp add: Let_def rd_at_def bs_read_eof_def bsr_next_def)
  have s: "skips (rd_at d (p + 2)) (concat (replicate k [1, 1, 6, 8, 8, 8, 8, 8, 8]))
      = rd_at d (p + 2 + 7 * k)" for k
    by (subst skips_rd_at [where k = "7 * k"]) (simp_all add: sum_list_replicate_concat)
  show ?thesis
    using assms(1,2) r s [of "unat (v AND 0xf)"] u
    by (subst cdp_sections.simps)
       (simp add: rd_eof bs_read_rd_at cdp_section_of_def cdp_section_def t_def)
qed

lemma cdp_footer_section:
  assumes "p < length d" "d ! p = 0x74"
  shows "cdp_sections (rd_at d p) found = found"
  using assms by (subst cdp_sections.simps)
    (simp add: rd_eof bs_read_rd_at cdp_section_of_def cdp_section_def)

lemma cdp_sections_end: "length d \<le> p \<Longrightarrow> cdp_sections (rd_at d p) found = found"
  by (subst cdp_sections.simps) (simp add: rd_eof)


text \<open>The layout of a packet with an optional time code, the captions and an optional service list.\<close>

definition tc_section :: "bytes option \<Rightarrow> bytes" where
  "tc_section tc = (case tc of None \<Rightarrow> [] | Some t \<Rightarrow> 0x71 # t)"

definition svc_section :: "(u8 \<times> bytes) option \<Rightarrow> bytes" where
  "svc_section svc = (case svc of None \<Rightarrow> [] | Some (v, t) \<Rightarrow> 0x73 # v # t)"

definition cdp_body :: "bytes \<Rightarrow> bytes option \<Rightarrow> nat \<Rightarrow> bytes \<Rightarrow> (u8 \<times> bytes) option \<Rightarrow> bytes \<Rightarrow> bytes" where
  "cdp_body hdr tc c cc svc ftr =
     [0x96, 0x69] @ hdr @ tc_section tc @ [0x72, 0xe0 + of_nat c] @ cc @ svc_section svc @ 0x74 # ftr"

lemma read_cdp_accepts:
  assumes "ud_data ud = body @ [cdp_checksum body]" "ud_len ud = int (length (ud_data ud))"
    and "body = [0x96, 0x69] @ rest"
    and "cdp_sections (rd_at (ud_data ud) 7) (0, 0) = (start, c)" "c \<noteq> 0"
  shows "read_cdp env ud = do { (r, ud) \<leftarrow> write_708_cc env ud start c; Some (if r < 0 then -1 else 0, ud) }"
proof -
  have i: "bs_read (bs_read_init (ud_data ud)) 16 = (0x9669, rd_at (ud_data ud) 2)"
    using bs_read16_rd_at [of 0 "ud_data ud"] assms(1,3)
    by (simp add: rd_at_def bs_read_init_def)
  have s: "skips (rd_at (ud_data ud) 2) [8, 4, 4, Suc 0, Suc 0, Suc 0, Suc 0, Suc 0, Suc 0, Suc 0, Suc 0, 16]
      = rd_at (ud_data ud) 7"
    by (subst skips_rd_at [where k = 5]) simp_all
  have m: "mem_get 0 (nat (ud_len ud)) (ud_data ud) = Some (ud_data ud)"
    by (simp add: assms(2))
  have cs: "at (ud_data ud) (length (ud_data ud) - Suc 0) = Some (cdp_checksum body)"
    "butlast (ud_data ud) = body"
    by (simp_all add: assms(1))
  show ?thesis
    unfolding read_cdp_def by (simp add: m i cs s CDP_IDENTIFIER_def assms(4,5))
qed

lemma cdp_sections_body:
  fixes cs :: u8 and ftr :: bytes
  assumes "length hdr = 5" "length cc = 3 * c" "c < 32"
    and "\<And>t. tc = Some t \<Longrightarrow> length t = 4"
    and "\<And>v t. svc = Some (v, t) \<Longrightarrow> length t = 7 * unat (v AND 0xf)"
  defines "d \<equiv> cdp_body hdr tc c cc svc ftr @ [cs]"
  shows "cdp_sections (rd_at d 7) (0, 0) = (9 + length (tc_section tc), c)"
proof -
  define p2 where "p2 = 7 + length (tc_section tc)"
  define p3 where "p3 = p2 + 2 + 3 * c"
  define p4 where "p4 = p3 + length (svc_section svc)"
  have l: "p4 < length d"
    using assms(1,2) by (simp add: d_def cdp_body_def p4_def p3_def p2_def)
  have pre: "length ([0x96, 0x69] @ hdr) = 7"
    using assms(1) by simp
  have cat: "d = (([0x96, 0x69] @ hdr) @ tc_section tc @ [0x72, 0xe0 + of_nat c] @ cc @ svc_section svc @ 0x74 # ftr @ [cs])"
    by (simp add: d_def cdp_body_def)
  have "cdp_sections (rd_at d 7) (0, 0) = cdp_sections (rd_at d p2) (0, 0)"
  proof (cases tc)
    case (Some t)
    then have "d ! 7 = 0x71" "p2 = 7 + 5"
      using assms(4) assms(1) by (simp_all add: cat nth_append pre tc_section_def p2_def del: append_assoc append_Cons)
    then show ?thesis
      using cdp_tc_section [of 7 d "(0, 0)"] l by (simp add: p4_def p3_def)
  qed (simp add: p2_def tc_section_def)
  also have "\<dots> = cdp_sections (rd_at d p3) (p2 + 2, c)"
  proof -
    have "d = (([0x96, 0x69] @ hdr) @ tc_section tc) @ [0x72, 0xe0 + of_nat c] @ cc @ svc_section svc @ 0x74 # ftr @ [cs]"
      "length (([0x96, 0x69] @ hdr) @ tc_section tc) = p2"
      using pre by (simp_all add: cat p2_def)
    then have "d ! p2 = 0x72" "d ! (p2 + 1) = 0xe0 + of_nat c"
      by (metis append_Cons nth_append_length, metis append_Cons append_Nil nth_append_length_plus nth_Cons_Suc One_nat_def nth_Cons_0)
    then show ?thesis
      using cdp_cc_section [of p2 d c "(0, 0)"] assms(3) l by (simp add: p4_def p3_def)
  qed
  also have "\<dots> = cdp_sections (rd_at d p4) (p2 + 2, c)"
  proof (cases svc)
    case (Some vt)
    obtain v t where v: "svc = Some (v, t)"
      using Some by (cases vt) auto
    have "d = (([0x96, 0x69] @ hdr) @ tc_section tc @ [0x72, 0xe0 + of_nat c] @ cc) @ 0x73 # v # t @ 0x74 # ftr @ [cs]"
      "length (([0x96, 0x69] @ hdr) @ tc_section tc @ [0x72, 0xe0 + of_nat c] @ cc) = p3"
      using pre assms(2) by (simp_all add: cat p2_def p3_def v svc_section_def)
    then have "d ! p3 = 0x73" "d ! (p3 + 1) = v"
      by (metis nth_append_length, metis nth_append_length_plus nth_Cons_Suc One_nat_def nth_Cons_0)
    then show ?thesis
      using cdp_svc_section [of p3 d v "(p2 + 2, c)"] l assms(5) [OF v]
      by (simp add: p4_def v svc_section_def)
  qed (simp add: p4_def svc_section_def)
  also have "\<dots> = (p2 + 2, c)"
  proof -
    have "d = (([0x96, 0x69] @ hdr) @ tc_section tc @ [0x72, 0xe0 + of_nat c] @ cc @ svc_section svc) @ 0x74 # ftr @ [cs]"
      "length (([0x96, 0x69] @ hdr) @ tc_section tc @ [0x72, 0xe0 + of_nat c] @ cc @ svc_section svc) = p4"
      using pre assms(2) by (simp_all add: cat p2_def p3_def p4_def)
    then have "d ! p4 = 0x74"
      by (metis nth_append_length)
    then show ?thesis
      using cdp_footer_section l by blast
  qed
  finally show ?thesis
    by (simp add: p2_def add.commute)
qed

text \<open>C10 A caption distribution packet with a correct checksum, whatever its header, footer and
  optional time code and service sections, is replaced by the A/53 payload that carries its caption
  bytes unchanged.\<close>

theorem cdp_captions_delivered:
  fixes ud :: user_data
  assumes "length hdr = 5" "length cc = 3 * c" "0 < c" "c < 32"
    and "\<And>t. tc = Some t \<Longrightarrow> length t = 4"
    and "\<And>v t. svc = Some (v, t) \<Longrightarrow> length t = 7 * unat (v AND 0xf)"
    and "body = cdp_body hdr tc c cc svc ftr" "ud_data ud = body @ [cdp_checksum body]"
    and "ud_len ud = int (length (ud_data ud))" "ue_malloc_ok env"
  shows "read_cdp env ud
    = Some (0, ud\<lparr>ud_type := USER_DATA_AVC_REGISTERED_ITU_T35, ud_len := int (3 * c + 11),
                  ud_data := a53_header c @ cc @ [0xff]\<rparr>)"
proof -
  define start where "start = 9 + length (tc_section tc)"
  define pre where "pre = [0x96, 0x69] @ hdr @ tc_section tc @ [0x72, 0xe0 + of_nat c]"
  have "ud_data ud = pre @ cc @ (svc_section svc @ 0x74 # ftr @ [cdp_checksum body])"
    using assms(7,8) by (simp add: cdp_body_def pre_def)
  moreover have "length pre = start"
    using assms(1) by (simp add: start_def pre_def)
  ultimately have cc: "take (3 * c) (drop start (ud_data ud)) = cc" "start + 3 * c \<le> length (ud_data ud)"
    using assms(2) by simp_all
  have "cdp_sections (rd_at (ud_data ud) 7) (0, 0) = (start, c)"
    unfolding assms(7,8) start_def by (rule cdp_sections_body) (use assms in auto)
  moreover have "\<exists>rest. body = [0x96, 0x69] @ rest"
    by (simp add: assms(7) cdp_body_def)
  ultimately have "read_cdp env ud = do { (r, ud) \<leftarrow> write_708_cc env ud start c; Some (if r < 0 then -1 else 0, ud) }"
    using read_cdp_accepts [OF assms(8,9)] assms(3) by auto
  then show ?thesis
    using write_708_cc_spec [OF assms(4) cc(2), of env] assms(2,10) cc(1)
    by (simp add: Let_def a53_header_def a53_prefix_def)
qed


definition ud_wit :: user_data where
  "ud_wit = \<lparr>ud_type = USER_DATA_CEA_708_CDP, ud_source = VANC_GENERIC, ud_field = 0,
     ud_len = 21, ud_data = cdp_body [0x10, 0x4f, 0x43, 0, 1] (Some [1, 2, 3, 4]) 1 [0xfc, 0x41, 0x42] None [0, 1]
       @ [cdp_checksum (cdp_body [0x10, 0x4f, 0x43, 0, 1] (Some [1, 2, 3, 4]) 1 [0xfc, 0x41, 0x42] None [0, 1])]\<rparr>"

definition ud_env_wit :: ud_env where
  "ud_env_wit = \<lparr>ue_malloc_ok = True, ue_stack = (\<lambda>_ _. 0xcc)\<rparr>"

theorem cdp_captions_delivered_witness:
  "map_option (\<lambda>(r, ud). (r, ud_data ud)) (read_cdp ud_env_wit ud_wit)
   = Some (0, [0xb5, 0, 0x31, 0x47, 0x41, 0x39, 0x34, 3, 0xc1, 0xff, 0xfc, 0x41, 0x42, 0xff])"
proof -
  have "read_cdp ud_env_wit ud_wit
    = Some (0, ud_wit\<lparr>ud_type := USER_DATA_AVC_REGISTERED_ITU_T35, ud_len := int (3 * 1 + 11),
                  ud_data := a53_header 1 @ [0xfc, 0x41, 0x42] @ [0xff]\<rparr>)"
    by (rule cdp_captions_delivered [where tc = "Some [1, 2, 3, 4]" and svc = None
          and hdr = "[0x10, 0x4f, 0x43, 0, 1]" and ftr = "[0, 1]"])
       (simp_all add: ud_wit_def ud_env_wit_def cdp_body_def tc_section_def svc_section_def)
  then show ?thesis
    by (simp add: a53_header_def a53_prefix_def)
qed

lemma write_708_cc_overread:
  "length (ud_data ud) < start + 3 * c \<Longrightarrow> write_708_cc env ud start c = None \<or> c = 0"
  by (auto simp: write_708_cc_def write_bytes_def mem_get_def mult.commute split: Option.bind_split if_splits)

text \<open>The number of caption triples is not checked against the packet: a packet whose checksum is
  right but whose caption section ends early makes \<open>read_cdp\<close> copy from outside its buffer.\<close>

theorem cdp_count_not_checked:
  assumes "length hdr = 5" "c < 32" "length cc + 1 < 3 * c"
    and "body = [0x96, 0x69] @ hdr @ [0x72, 0xe0 + of_nat c] @ cc"
    and "ud_data ud = body @ [cdp_checksum body]" "ud_len ud = int (length (ud_data ud))"
  shows "read_cdp env ud = None"
proof -
  have "cdp_sections (rd_at (ud_data ud) 7) (0, 0) = cdp_sections (rd_at (ud_data ud) (9 + 3 * c)) (9, c)"
    using cdp_cc_section [of 7 "ud_data ud" c "(0, 0)"] assms by (simp add: nth_append)
  also have "\<dots> = (9, c)"
    using assms by (intro cdp_sections_end) simp
  finally have "read_cdp env ud = do { (r, ud) \<leftarrow> write_708_cc env ud 9 c; Some (if r < 0 then -1 else 0, ud) }"
    using read_cdp_accepts [OF assms(5,6)] assms(3,4) by auto
  moreover have "write_708_cc env ud 9 c = None"
    using write_708_cc_overread [of ud 9 c env] assms by auto
  ultimately show ?thesis
    by simp
qed

theorem cdp_count_not_checked_witness:
  "read_cdp ud_env_wit (ud_wit\<lparr>ud_len := 11, ud_data := [0x96, 0x69, 11, 0x4f, 0x43, 0, 1, 0x72, 0xff, 0xfc, 0xf6]\<rparr>) = None"
  by (rule cdp_count_not_checked [where hdr = "[11, 0x4f, 0x43, 0, 1]" and c = 31 and cc = "[0xfc]"
        and body = "[0x96, 0x69, 11, 0x4f, 0x43, 0, 1, 0x72, 0xff, 0xfc]"])
     (simp_all add: cdp_checksum_def Let_def)

text \<open>C11 Each pair of EIA-608 bytes a frame carries is put into the A/53 payload as a valid caption
  triple of its field; the triples the frame rate calls for beyond them are marked invalid, so that
  the payload size depends on the frame rate only.\<close>

theorem eia608_payload:
  fixes ud :: user_data and rf :: raw_frame
  assumes "cc_count_for (rf_timebase_num rf) (rf_timebase_den rf) = c" "c \<noteq> 0"
    and "ud_len ud \<le> int (length (ud_data ud))" "ue_malloc_ok env"
  shows "\<exists>pairs. write_608_cc env ud rf
      = Some (0, ud\<lparr>ud_type := USER_DATA_AVC_REGISTERED_ITU_T35, ud_len := int (3 * c + 11),
                    ud_data := a53_header c @ concat pairs @ [0xff]\<rparr>)
    \<and> length pairs = c
    \<and> (\<forall>i < c. pairs ! i = (if cc_valid_pair i ud
         then [0xfc + of_nat i, ud_data ud ! (2 * i), ud_data ud ! (2 * i + 1)] else [0xfa, 0, 0]))"
  using write_608_cc_spec [OF assms(3), of rf env] assms(1,2,4)
  by (intro exI [of _ "map (cc608_pair ud) [0..<c]"])
     (simp add: Let_def cc608_body_def length_cc608_pairs a53_prefix_def a53_header_def cc608_pair_def)

definition rf_wit :: raw_frame where
  "rf_wit = (the (new_raw_frame True))\<lparr>rf_timebase_num := 1001, rf_timebase_den := 60000\<rparr>"

theorem eia608_payload_witness:
  "\<exists>pairs. write_608_cc ud_env_wit (ud_wit\<lparr>ud_len := 2, ud_data := [0x94, 0x20]\<rparr>) rf_wit
      = Some (0, ud_wit\<lparr>ud_type := USER_DATA_AVC_REGISTERED_ITU_T35, ud_len := 41,
                    ud_data := a53_header 10 @ concat pairs @ [0xff]\<rparr>)
    \<and> length pairs = 10 \<and> pairs ! 0 = [0xfc, 0x94, 0x20] \<and> pairs ! 1 = [0xfa, 0, 0]"
proof -
  have "cc_count_for (rf_timebase_num rf_wit) (rf_timebase_den rf_wit) = 10"
    by (simp add: rf_wit_def new_raw_frame_def cc_count_for_def cc_timecode_def mk_cc_timecode_def)
  from eia608_payload [OF this, of "ud_wit\<lparr>ud_len := 2, ud_data := [0x94, 0x20]\<rparr>" ud_env_wit]
  obtain pairs where p: "write_608_cc ud_env_wit (ud_wit\<lparr>ud_len := 2, ud_data := [0x94, 0x20]\<rparr>) rf_wit
      = Some (0, ud_wit\<lparr>ud_type := USER_DATA_AVC_REGISTERED_ITU_T35, ud_len := 41,
                    ud_data := a53_header 10 @ concat pairs @ [0xff]\<rparr>)" "length pairs = 10"
    "\<forall>i < 10. pairs ! i = (if cc_valid_pair i (ud_wit\<lparr>ud_len := 2, ud_data := [0x94, 0x20]\<rparr>)
         then [0xfc + of_nat i, [0x94, 0x20] ! (2 * i), [0x94, 0x20] ! (2 * i + 1)] else [0xfa, 0, 0])"
    by (auto simp: ud_env_wit_def)
  then show ?thesis
    using p(3) by (intro exI [of _ pairs]) (simp add: cc_valid_pair_def)
qed

end
