(* ===== verification/Obe_Video.thy ===== *)
theory Obe_Video
  imports Obe_UserData
begin

text \<open>
  The video filter, \<open>filters/video/video.c\<close>: the aspect ratio tables, the row kernels (the C versions;
  the assembly ones are not modelled), the conversions of a whole image, the user data of a frame,
  and one turn of the filter thread.  Rows are read and written at offsets of a plane, with
  \<^const>\<open>None\<close> for an access outside it.
\<close>

section \<open>Tables\<close>

text \<open>Chroma sizes are in halves of the picture size.\<close>

(* src: filters/video/video.c 100-108 obe_cli_csp_t *)
record cli_csp =
  cc_planes :: nat
  cc_width2 :: "nat list"
  cc_height2 :: "nat list"
  cc_mod_width :: nat
  cc_mod_height :: nat
  cc_bit_depth :: nat

definition mk_cli_csp :: "nat \<Rightarrow> nat list \<Rightarrow> nat list \<Rightarrow> nat \<Rightarrow> cli_csp" where
  "mk_cli_csp p w h d = \<lparr>cc_planes = p, cc_width2 = w, cc_height2 = h, cc_mod_width = 2,
     cc_mod_height = 2, cc_bit_depth = d\<rparr>"

text \<open>The table ends at \<open>AV_PIX_FMT_YUV422P10\<close>; the formats below it that are not listed are zero.\<close>

(* src: filters/video/video.c 124-131 obe_cli_csps *)
definition obe_cli_csps :: "av_pix_fmt \<Rightarrow> cli_csp option" where
  "obe_cli_csps f =
     (case f of
        AV_PIX_FMT_YUV420P \<Rightarrow> Some (mk_cli_csp 3 [2, 1, 1, 0] [2, 1, 1, 0] 8)
      | AV_PIX_FMT_NV12 \<Rightarrow> Some (mk_cli_csp 2 [2, 2, 0, 0] [2, 1, 0, 0] 8)
      | AV_PIX_FMT_YUV420P10 \<Rightarrow> Some (mk_cli_csp 3 [2, 1, 1, 0] [2, 1, 1, 0] 10)
      | AV_PIX_FMT_YUV422P10 \<Rightarrow> Some (mk_cli_csp 3 [2, 1, 1, 0] [2, 2, 2, 0] 10)
      | AV_PIX_FMT_YUV420P16 \<Rightarrow> Some (mk_cli_csp 3 [2, 1, 1, 0] [2, 1, 1, 0] 16)
      | AV_PIX_FMT_QSV \<Rightarrow> None
      | _ \<Rightarrow> Some \<lparr>cc_planes = 0, cc_width2 = [0, 0, 0, 0], cc_height2 = [0, 0, 0, 0],
                  cc_mod_width = 0, cc_mod_height = 0, cc_bit_depth = 0\<rparr>)"

(* src: filters/video/video.c 133-176 obe_sars *)
definition obe_sars :: "(int \<times> int \<times> int \<times> int) list list" where
  "obe_sars =
     [[(720, 480, 10, 11), (640, 480, 1, 1), (528, 480, 40, 33), (544, 480, 40, 33), (480, 480, 15, 11),
       (352, 480, 20, 11),
       (720, 576, 12, 11), (544, 576, 16, 11), (480, 576, 18, 11), (352, 576, 24, 11),
       (1920, 1080, 1, 1), (1280, 720, 1, 1)],
      [(720, 480, 40, 33), (640, 480, 4, 3), (544, 480, 16, 99), (480, 480, 20, 11), (352, 480, 80, 33),
       (720, 576, 16, 11), (544, 576, 64, 33), (480, 576, 24, 11), (352, 576, 32, 11),
       (1920, 1080, 1, 1), (1440, 1080, 4, 3), (1280, 1080, 3, 2), (960, 1080, 2, 1), (1280, 720, 1, 1),
       (960, 720, 4, 3), (640, 720, 2, 1)]]"

(* src: filters/video/video.c 178-188 wss_to_afd *)
definition wss_to_afd :: "(nat \<times> nat) list" where
  "wss_to_afd = [(0x9, 0), (0xb, 0), (0x3, 0), (0xa, 1), (0x2, 1), (0x4, 1), (0xd, 0), (0xa, 1)]"

(* src: filters/video/video.c 190-203 set_sar *)
definition set_sar :: "raw_frame \<Rightarrow> nat \<Rightarrow> int \<times> raw_frame" where
  "set_sar rf is_wide =
     (case find (\<lambda>(w, h, _, _). img_width (rf_img rf) = w \<and> img_height (rf_img rf) = h)
             (obe_sars ! is_wide) of
        Some (_, _, sw, sh) \<Rightarrow> (0, rf\<lparr>rf_sar_width := sw, rf_sar_height := sh\<rparr>)
      | None \<Rightarrow> (-1, rf))"

section \<open>Rows of samples\<close>

(* src: filters/video/dither.h 25-35 obe_dithers *)
definition obe_dithers :: "nat list list" where
  "obe_dithers = concat (replicate 4 [[1, 2, 1, 2, 1, 2, 1, 2], [3, 0, 3, 0, 3, 0, 3, 0]])"

definition dither_px :: "u16 \<Rightarrow> nat \<Rightarrow> u16" where
  "dither_px s d = word_of_nat ((unat s + d) * 511 div 2048 mod 256)"

text \<open>
  A row is \<open>width\<close> samples from an offset of a plane.  The first loop handles eight samples, with the
  eight dither values in order, the second the rest.
\<close>

(* src: filters/video/video.c 211-221 dither_row_10_to_8_c *)
fun dither_loop8 :: "nat \<Rightarrow> nat \<Rightarrow> u16 list \<Rightarrow> nat \<Rightarrow> u16 list \<Rightarrow> nat \<Rightarrow> nat list \<Rightarrow> u16 list option" where
  "dither_loop8 0 k src so dst doff dither = Some dst"
| "dither_loop8 (Suc n) k src so dst doff dither =
     do { s \<leftarrow> mem_get (so + k) 8 src;
          dst \<leftarrow> mem_put (doff + k) (map2 dither_px s (take 8 dither)) dst;
          dither_loop8 n (k + 8) src so dst doff dither }"

(* src: filters/video/video.c 222-223 dither_row_10_to_8_c *)
fun dither_loop1 :: "nat \<Rightarrow> nat \<Rightarrow> u16 list \<Rightarrow> nat \<Rightarrow> u16 list \<Rightarrow> nat \<Rightarrow> nat list \<Rightarrow> u16 list option" where
  "dither_loop1 0 k src so dst doff dither = Some dst"
| "dither_loop1 (Suc n) k src so dst doff dither =
     do { s \<leftarrow> at src (so + k);
          dst \<leftarrow> mem_put (doff + k) [dither_px s (dither ! (k mod 8))] dst;
          dither_loop1 n (k + 1) src so dst doff dither }"

(* src: filters/video/video.c 205-225 dither_row_10_to_8_c *)
definition dither_row_10_to_8_c ::
    "u16 list \<Rightarrow> nat \<Rightarrow> u16 list \<Rightarrow> nat \<Rightarrow> nat list \<Rightarrow> nat \<Rightarrow> u16 list option" where
  "dither_row_10_to_8_c src so dst doff dither width =
     do { dst \<leftarrow> dither_loop8 (width div 8) 0 src so dst doff dither;
          dither_loop1 (width mod 8) (width div 8 * 8) src so dst doff dither }"

(* src: filters/video/video.c 227-234 downsample_chroma_row_top_c *)
definition downsample_chroma_row_top_c ::
    "u16 list \<Rightarrow> nat \<Rightarrow> u16 list \<Rightarrow> nat \<Rightarrow> nat \<Rightarrow> nat \<Rightarrow> u16 list option" where
  "downsample_chroma_row_top_c src so dst doff width stride =
     do { s \<leftarrow> mem_get so (width div 2) src;
          f \<leftarrow> mem_get (so + stride) (width div 2) src;
          mem_put doff (map2 (\<lambda>x y. word_of_nat ((3 * unat x + unat y + 2) div 4)) s f) dst }"

(* src: filters/video/video.c 236-242 downsample_chroma_row_bottom_c *)
definition downsample_chroma_row_bottom_c ::
    "u16 list \<Rightarrow> nat \<Rightarrow> u16 list \<Rightarrow> nat \<Rightarrow> nat \<Rightarrow> nat \<Rightarrow> u16 list option" where
  "downsample_chroma_row_bottom_c src so dst doff width stride =
     do { s \<leftarrow> mem_get so (width div 2) src;
          f \<leftarrow> mem_get (so + stride) (width div 2) src;
          mem_put doff (map2 (\<lambda>x y. word_of_nat ((unat x + 3 * unat y + 2) div 4)) s f) dst }"

(* src: filters/video/video.c 295-305 blank_line *)
definition blank_line ::
    "u16 list \<Rightarrow> u16 list \<Rightarrow> u16 list \<Rightarrow> nat \<Rightarrow> (u16 list \<times> u16 list \<times> u16 list) option" where
  "blank_line y u v width =
     do { y \<leftarrow> mem_put 0 (replicate width 0x40) y;
          u \<leftarrow> mem_put 0 (replicate (width div 2) 0x200) u;
          v \<leftarrow> mem_put 0 (replicate (width div 2) 0x200) v;
          Some (y, u, v) }"

(* src: filters/video/video.c 307-318 blank_lines *)
definition blank_lines :: "raw_frame \<Rightarrow> raw_frame option" where
  "blank_lines rf =
     (case img_plane (rf_img rf) of
        y # u # v # ps \<Rightarrow>
          do { (y, u, v) \<leftarrow> blank_line y u v (nat (img_width (rf_img rf) div 2));
               Some (rf\<lparr>rf_img := (rf_img rf)\<lparr>img_plane := y # u # v # ps\<rparr>\<rparr>) }
      | _ \<Rightarrow> None)"

section \<open>Images\<close>

text \<open>
  libswscale and libavutil are parameters: whether a scaling context exists, the planes a scaling
  gives, the planes and strides (in bytes) of a new image, and the tables of pixel formats.
  \<open>vx_bit_depth\<close> is the bit depth the encoder was built with.
\<close>

record vid_env =
  vx_get_context :: "obe_image \<Rightarrow> int \<Rightarrow> av_pix_fmt \<Rightarrow> bool"
  vx_scale :: "obe_image \<Rightarrow> obe_image \<Rightarrow> u16 list list"
  vx_alloc :: "av_pix_fmt \<Rightarrow> int \<Rightarrow> int \<Rightarrow> (u16 list list \<times> int list) option"
  vx_components :: "av_pix_fmt \<Rightarrow> nat"
  vx_chroma_shift :: "av_pix_fmt \<Rightarrow> (nat \<times> nat) option"
  vx_depth :: "av_pix_fmt \<Rightarrow> nat"
  vx_bit_depth :: nat
  vx_ud :: ud_env

(* src: filters/video/video.c 75-98 obe_vid_filter_ctx_t *)
record vid_filter_ctx =
  vf_sws_ctx :: bool
  vf_dst_pix_fmt :: av_pix_fmt

definition new_image :: "vid_env \<Rightarrow> av_pix_fmt \<Rightarrow> int \<Rightarrow> obe_image \<Rightarrow> av_pix_fmt \<Rightarrow> obe_image option" where
  "new_image env csp width img alloc_csp =
     do { (ps, st) \<leftarrow> vx_alloc env csp width (img_height img + 1);
          Some (obe_image_zero\<lparr>img_csp := csp, img_width := width, img_height := img_height img,
                  img_planes := int (vx_components env alloc_csp), img_format := img_format img,
                  img_plane := ps, img_stride := st\<rparr>) }"

(* src: filters/video/video.c 322-372 resize_frame *)
definition resize_frame ::
    "vid_env \<Rightarrow> vid_filter_ctx \<Rightarrow> raw_frame \<Rightarrow> int \<Rightarrow> int \<times> vid_filter_ctx \<times> raw_frame" where
  "resize_frame env vf rf width =
     (let img = rf_img rf;
          fresh = (\<not> vf_sws_ctx vf \<or> rf_reset_obe rf);
          fmt = (if \<not> fresh then vf_dst_pix_fmt vf
                 else if is_interlaced (img_format img) then img_csp img
                 else if img_csp img = AV_PIX_FMT_YUV422P10 then AV_PIX_FMT_YUV420P10
                 else AV_PIX_FMT_YUV420P);
          got = (if fresh then vx_get_context env img width fmt else True);
          vf = vf\<lparr>vf_sws_ctx := got, vf_dst_pix_fmt := fmt\<rparr>
      in if \<not> got then (-1, vf, rf)
         else case new_image env fmt width img (img_csp (rf_alloc_img rf)) of
                None \<Rightarrow> (-1, vf, rf)
              | Some tmp \<Rightarrow>
                  let out = tmp\<lparr>img_plane := vx_scale env img tmp\<rparr>
                  in (0, vf, rf\<lparr>rf_alloc_img := out, rf_img := out\<rparr>))"

(* src: filters/video/video.c 374-377 csp_num_interleaved *)
definition csp_num_interleaved :: "av_pix_fmt \<Rightarrow> nat \<Rightarrow> nat" where
  "csp_num_interleaved csp plane = (if csp = AV_PIX_FMT_NV12 \<and> plane = 1 then 2 else 1)"

definition plane_height :: "cli_csp \<Rightarrow> nat \<Rightarrow> obe_image \<Rightarrow> nat" where
  "plane_height c i img = cc_height2 c ! i * nat (img_height img) div 2"

definition plane_width :: "cli_csp \<Rightarrow> nat \<Rightarrow> obe_image \<Rightarrow> nat" where
  "plane_width c i img = cc_width2 c ! i * nat (img_width img) div 2 div csp_num_interleaved (img_csp img) i"

fun copy_rows :: "nat \<Rightarrow> nat \<Rightarrow> u16 list \<Rightarrow> nat \<Rightarrow> nat \<Rightarrow> u16 list \<Rightarrow> nat \<Rightarrow> nat \<Rightarrow> u16 list option" where
  "copy_rows 0 w src so sst dst doff dst_st = Some dst"
| "copy_rows (Suc n) w src so sst dst doff dst_st =
     do { r \<leftarrow> mem_get so w src;
          dst \<leftarrow> mem_put doff r dst;
          copy_rows n w src (so + sst) sst dst (doff + dst_st) dst_st }"

text \<open>Strides are in samples here; the filters are given the byte stride, which is two lines.\<close>

(* src: filters/video/video.c 494-502 downconvert_image_interlaced *)
fun downsample_rows :: "nat \<Rightarrow> nat \<Rightarrow> u16 list \<Rightarrow> nat \<Rightarrow> nat \<Rightarrow> u16 list \<Rightarrow> nat \<Rightarrow> nat \<Rightarrow> u16 list option" where
  "downsample_rows 0 w src so sst dst doff dst_st = Some dst"
| "downsample_rows (Suc n) w src so sst dst doff dst_st =
     do { dst \<leftarrow> downsample_chroma_row_top_c src so dst doff (w * 2) (2 * sst);
          dst \<leftarrow> downsample_chroma_row_bottom_c src (so + sst) dst (doff + dst_st) (w * 2) (2 * sst);
          downsample_rows n w src (so + 4 * sst) sst dst (doff + 2 * dst_st) dst_st }"

definition sample_stride :: "obe_image \<Rightarrow> nat \<Rightarrow> nat" where
  "sample_stride img i = nat (img_stride img ! i) div 2"

(* src: filters/video/video.c 485-503 downconvert_image_interlaced *)
fun downconvert_planes :: "obe_image \<Rightarrow> obe_image \<Rightarrow> nat list \<Rightarrow> u16 list list \<Rightarrow> u16 list list option" where
  "downconvert_planes img out [] ps = Some ps"
| "downconvert_planes img out (i # is) ps =
     do { c \<leftarrow> obe_cli_csps (img_csp out);
          src \<leftarrow> at (img_plane img) i;
          dst \<leftarrow> at ps i;
          dst \<leftarrow> downsample_rows ((plane_height c i img + 1) div 2) (plane_width c i img) src 0
                   (sample_stride img i) dst 0 (sample_stride out i);
          downconvert_planes img out is (ps[i := dst]) }"

(* src: filters/video/video.c 456-510 downconvert_image_interlaced *)
definition downconvert_image_interlaced :: "vid_env \<Rightarrow> raw_frame \<Rightarrow> (int \<times> raw_frame) option" where
  "downconvert_image_interlaced env rf =
     (let img = rf_img rf
      in case new_image env AV_PIX_FMT_YUV420P10 (img_width img) img (img_csp (rf_alloc_img rf)) of
           None \<Rightarrow> Some (-1, rf)
         | Some tmp \<Rightarrow>
             do { y \<leftarrow> at (img_plane img) 0;
                  d \<leftarrow> at (img_plane tmp) 0;
                  d \<leftarrow> copy_rows (nat (img_height img)) (nat (img_width img)) y 0 (sample_stride img 0)
                         d 0 (sample_stride tmp 0);
                  ps \<leftarrow> downconvert_planes img tmp [1..<nat (img_planes tmp)] ((img_plane tmp)[0 := d]);
                  let out = tmp\<lparr>img_plane := ps\<rparr>;
                  Some (0, rf\<lparr>rf_alloc_img := out, rf_img := out\<rparr>) })"

text \<open>The destination is 8-bit: its stride in bytes is its stride in samples.\<close>

(* src: filters/video/video.c 554-562 dither_image *)
fun dither_rows :: "nat \<Rightarrow> nat \<Rightarrow> nat \<Rightarrow> u16 list \<Rightarrow> nat \<Rightarrow> nat \<Rightarrow> u16 list \<Rightarrow> nat \<Rightarrow> nat \<Rightarrow> u16 list option" where
  "dither_rows 0 j w src so sst dst doff dst_st = Some dst"
| "dither_rows (Suc n) j w src so sst dst doff dst_st =
     do { dst \<leftarrow> dither_row_10_to_8_c src so dst doff (obe_dithers ! (j mod 8)) w;
          dither_rows n (j + 1) w src (so + sst) sst dst (doff + dst_st) dst_st }"

(* src: filters/video/video.c 540-563 dither_image *)
fun dither_planes :: "obe_image \<Rightarrow> obe_image \<Rightarrow> nat list \<Rightarrow> u16 list list \<Rightarrow> u16 list list option" where
  "dither_planes img out [] ps = Some ps"
| "dither_planes img out (i # is) ps =
     do { c \<leftarrow> obe_cli_csps (img_csp img);
          src \<leftarrow> at (img_plane img) i;
          dst \<leftarrow> at ps i;
          dst \<leftarrow> dither_rows (plane_height c i img) 0 (plane_width c i img) src 0 (sample_stride img i)
                   dst 0 (nat (img_stride out ! i));
          dither_planes img out is (ps[i := dst]) }"

(* src: filters/video/video.c 512-571 dither_image *)
definition dither_image :: "vid_env \<Rightarrow> raw_frame \<Rightarrow> (int \<times> raw_frame) option" where
  "dither_image env rf =
     (let img = rf_img rf;
          csp = (if img_csp img = AV_PIX_FMT_YUV422P10 then AV_PIX_FMT_YUV422P else AV_PIX_FMT_YUV420P)
      in case new_image env csp (img_width img) img (img_csp (rf_alloc_img rf)) of
           None \<Rightarrow> Some (-1, rf)
         | Some tmp \<Rightarrow>
             do { ps \<leftarrow> dither_planes img tmp [0..<nat (img_planes img)] (img_plane tmp);
                  let out = tmp\<lparr>img_plane := ps\<rparr>;
                  Some (0, rf\<lparr>rf_alloc_img := out, rf_img := out\<rparr>) })"


section \<open>User data\<close>

definition id_DTG1 :: "u32 list" where
  "id_DTG1 = [0x44, 0x54, 0x47, 0x31]"

(* src: filters/video/video.c 573-627 write_afd *)
definition write_afd :: "ud_env \<Rightarrow> user_data \<Rightarrow> raw_frame \<Rightarrow> (int \<times> user_data \<times> raw_frame) option" where
  "write_afd env ud rf =
     do { d0 \<leftarrow> at (ud_data ud) 0;
          let is_wide = unat (drop_bit 2 d0 AND 1);
          r \<leftarrow> bs_init (stack_buf env 2 100) 0 100;
          r \<leftarrow> bs_write r 8 0xb5;
          r \<leftarrow> bs_write r 16 0x31;
          r \<leftarrow> write_codes id_DTG1 r;
          r \<leftarrow> bs_write1 r 0;
          r \<leftarrow> bs_write1 r 1;
          r \<leftarrow> bs_write r 6 1;
          r \<leftarrow> bs_write r 4 0xf;
          r \<leftarrow> bs_write r 4 (ucast (drop_bit 3 d0 AND 0xf));
          r \<leftarrow> bs_flush r;
          let rf = (if is_sd (img_format (rf_img rf)) then snd (set_sar rf is_wide) else rf);
          let (ret, ud) = replace_user_data env r ud;
          Some (ret, ud, rf) }"

text \<open>One flagged element: two bytes from the read position.\<close>

(* src: filters/video/video.c 665-676 WRITE_ELEMENT *)
definition write_element :: "bool \<Rightarrow> user_data \<Rightarrow> nat \<times> bs \<Rightarrow> (nat \<times> bs) option" where
  "write_element x ud pr =
     (case pr of (pos, r) \<Rightarrow>
        if x then do { a \<leftarrow> at (ud_data ud) pos;
                       r \<leftarrow> bs_write r 8 (ucast a);
                       b \<leftarrow> at (ud_data ud) (pos + 1);
                       r \<leftarrow> bs_write r 8 (ucast b);
                       Some (pos + 2, r) }
        else Some (pos, r))"

(* src: filters/video/video.c 629-695 write_bar_data *)
definition write_bar_data :: "ud_env \<Rightarrow> user_data \<Rightarrow> (int \<times> user_data) option" where
  "write_bar_data env ud =
     do { r \<leftarrow> bs_init (stack_buf env 2 100) 0 100;
          r \<leftarrow> bs_write r 8 0xb5;
          r \<leftarrow> bs_write r 16 0x31;
          r \<leftarrow> write_codes id_GA94 r;
          r \<leftarrow> bs_write r 8 6;
          d0 \<leftarrow> at (ud_data ud) 0;
          r \<leftarrow> bs_write1 r (of_bool (bit d0 7));
          r \<leftarrow> bs_write1 r (of_bool (bit d0 6));
          r \<leftarrow> bs_write1 r (of_bool (bit d0 5));
          r \<leftarrow> bs_write1 r (of_bool (bit d0 4));
          r \<leftarrow> bs_write r 4 0xf;
          pr \<leftarrow> write_element (bit d0 7) ud (1, r);
          pr \<leftarrow> write_element (bit d0 6) ud pr;
          pr \<leftarrow> write_element (bit d0 5) ud pr;
          pr \<leftarrow> write_element (bit d0 4) ud pr;
          r \<leftarrow> bs_flush (snd pr);
          Some (replace_user_data env r ud) }"

(* src: filters/video/video.c 697-702 convert_wss_to_afd *)
definition convert_wss_to_afd ::
    "ud_env \<Rightarrow> user_data \<Rightarrow> raw_frame \<Rightarrow> (int \<times> user_data \<times> raw_frame) option" where
  "convert_wss_to_afd env ud rf =
     do { d0 \<leftarrow> at (ud_data ud) 0;
          (afd_code, is_wide) \<leftarrow> at wss_to_afd (unat d0);
          write_afd env (ud\<lparr>ud_data := (ud_data ud)[0 := of_nat (afd_code * 8 + is_wide * 4)]\<rparr>) rf }"

definition encapsulate_one ::
    "ud_env \<Rightarrow> int \<Rightarrow> user_data \<Rightarrow> raw_frame \<Rightarrow> (int \<times> user_data \<times> raw_frame) option" where
  "encapsulate_one env ret ud rf =
     (case ud_type ud of
        USER_DATA_CEA_608 \<Rightarrow> map_option (\<lambda>(r, u). (r, u, rf)) (write_608_cc env ud rf)
      | USER_DATA_CEA_708_CDP \<Rightarrow> map_option (\<lambda>(r, u). (r, u, rf)) (read_cdp env ud)
      | USER_DATA_AFD \<Rightarrow> write_afd env ud rf
      | USER_DATA_BAR_DATA \<Rightarrow> map_option (\<lambda>(r, u). (r, u, rf)) (write_bar_data env ud)
      | USER_DATA_WSS \<Rightarrow> convert_wss_to_afd env ud rf
      | _ \<Rightarrow> Some (ret, ud, rf))"

text \<open>
  \<open>ret\<close> is set before the loop and keeps its value for an item of another type.  The arguments are
  the items behind and before the loop index.
\<close>

(* src: filters/video/video.c 708-733 encapsulate_user_data *)
fun encapsulate_items ::
    "ud_env \<Rightarrow> int \<Rightarrow> user_data list \<Rightarrow> user_data list \<Rightarrow> raw_frame
     \<Rightarrow> (int \<times> user_data list \<times> raw_frame) option" where
  "encapsulate_items env ret done [] rf = Some (ret, done, rf)"
| "encapsulate_items env ret done (u # us) rf =
     do { (ret, u, rf) \<leftarrow> encapsulate_one env ret u rf;
          if ret < 0 then Some (ret, done @ u # us, rf)
          else if ret = 1 then encapsulate_items env ret done us rf
          else encapsulate_items env ret (done @ [u]) us rf }"

(* src: filters/video/video.c 704-742 encapsulate_user_data *)
definition encapsulate_user_data :: "ud_env \<Rightarrow> raw_frame \<Rightarrow> (int \<times> raw_frame) option" where
  "encapsulate_user_data env rf =
     do { (ret, uds, rf) \<leftarrow> encapsulate_items env 0 [] (rf_user_data rf) rf;
          Some (ret, rf\<lparr>rf_user_data := uds\<rparr>) }"

section \<open>The filter thread\<close>

text \<open>
  One turn of the loop of \<open>start_filter_video\<close> on the frame at the head of the queue: the frame for
  the encoder, or \<^const>\<open>Inl\<close> when the thread ends.
\<close>

(* src: filters/video/video.c 795-892 start_filter_video *)
definition filter_video_frame ::
    "vid_env \<Rightarrow> int \<Rightarrow> nat \<Rightarrow> bool \<Rightarrow> vid_filter_ctx \<Rightarrow> raw_frame
     \<Rightarrow> (unit + vid_filter_ctx \<times> raw_frame) option" where
  "filter_video_frame env i_width is_wide target_i420 vf rf =
     (if img_csp (rf_alloc_img rf) = AV_PIX_FMT_QSV then Some (Inr (vf, rf))
      else do {
        rf \<leftarrow> (if img_format (rf_img rf) = INPUT_VIDEO_FORMAT_PAL then blank_lines rf else Some rf);
        let (ret, vf, rf) =
          (if img_width (rf_img rf) \<noteq> i_width \<or> \<not> is_interlaced (img_format (rf_img rf)) \<and> target_i420
           then resize_frame env vf rf i_width else (0, vf, rf));
        if ret < 0 then Some (Inl ())
        else case vx_chroma_shift env (img_csp (rf_img rf)) of
               None \<Rightarrow> Some (Inl ())
             | Some (h_shift, v_shift) \<Rightarrow> do {
        (ret, rf) \<leftarrow> (if h_shift = 1 \<and> v_shift = 0 \<and> target_i420
                     then downconvert_image_interlaced env rf else Some (0, rf));
        if ret < 0 then Some (Inl ()) else do {
        (ret, rf) \<leftarrow> (if vx_depth env (img_csp (rf_img rf)) = 10 \<and> vx_bit_depth env = 8
                     then dither_image env rf else Some (0, rf));
        if ret < 0 then Some (Inl ()) else do {
        (ret, rf) \<leftarrow> encapsulate_user_data (vx_ud env) rf;
        if ret < 0 then Some (Inl ())
        else let rf = (if rf_sar_width rf = 1 \<and> rf_sar_height rf = 1
                       then (snd (set_sar rf (if is_sd (img_format (rf_img rf)) then is_wide else 1)))
                              \<lparr>rf_sar_guess := 1\<rparr>
                       else rf)
             in Some (Inr (vf, rf)) } } } })"

section \<open>The kernels compute their formulas\<close>

lemma splice_nth_out: "off + length new \<le> length xs \<Longrightarrow> i < length xs \<Longrightarrow> i < off \<or> off + length new \<le> i
    \<Longrightarrow> splice off new xs ! i = xs ! i"
  by (auto simp: splice_nth)

lemma downsample_rows_spec:
  assumes "w \<le> sst" "w \<le> dst_st" "so + 4 * n * sst \<le> length src" "doff + 2 * n * dst_st \<le> length dst"
  shows "\<exists>dst'. downsample_rows n w src so sst dst doff dst_st = Some dst' \<and> length dst' = length dst
    \<and> (\<forall>i < length dst. i < doff \<or> doff + 2 * n * dst_st \<le> i \<longrightarrow> dst' ! i = dst ! i)
    \<and> (\<forall>k < n. \<forall>x < w.
         dst' ! (doff + 2 * k * dst_st + x)
           = word_of_nat ((3 * unat (src ! (so + 4 * k * sst + x)) + unat (src ! (so + (4 * k + 2) * sst + x)) + 2) div 4)
       \<and> dst' ! (doff + (2 * k + 1) * dst_st + x)
           = word_of_nat ((unat (src ! (so + (4 * k + 1) * sst + x)) + 3 * unat (src ! (so + (4 * k + 3) * sst + x)) + 2) div 4))"
  using assms(3,4)
proof (induction n arbitrary: so dst doff)
  case 0
  then show ?case by simp
next
  case (Suc n)
  define f where "f = (\<lambda>(x :: u16) (y :: u16). word_of_nat ((3 * unat x + unat y + 2) div 4) :: u16)"
  define g where "g = (\<lambda>(x :: u16) (y :: u16). word_of_nat ((unat x + 3 * unat y + 2) div 4) :: u16)"
  define r0 where "r0 = map2 f (take w (drop so src)) (take w (drop (so + 2 * sst) src))"
  define r1 where "r1 = map2 g (take w (drop (so + sst) src)) (take w (drop (so + sst + 2 * sst) src))"
  define d1 where "d1 = splice doff r0 dst"
  define d2 where "d2 = splice (doff + dst_st) r1 d1"
  have src: "so + 4 * sst + 4 * n * sst \<le> length src" and dst: "doff + 2 * dst_st + 2 * n * dst_st \<le> length dst"
    using Suc.prems by (simp_all add: algebra_simps)
  have lr: "length r0 = w" "length r1 = w"
    using src assms(1) by (simp_all add: r0_def r1_def)
  have ld: "length d1 = length dst" "length d2 = length dst"
    using dst assms(2) lr by (simp_all add: d1_def d2_def)
  have step: "downsample_rows (Suc n) w src so sst dst doff dst_st
      = downsample_rows n w src (so + 4 * sst) sst d2 (doff + 2 * dst_st) dst_st"
  proof -
    have "downsample_chroma_row_top_c src so dst doff (w * 2) (2 * sst) = Some d1"
      using src dst assms(1,2) unfolding downsample_chroma_row_top_c_def d1_def r0_def f_def
      by simp
    moreover have "downsample_chroma_row_bottom_c src (so + sst) d1 (doff + dst_st) (w * 2) (2 * sst) = Some d2"
      using src dst assms(1,2) ld(1) unfolding downsample_chroma_row_bottom_c_def d2_def r1_def g_def
      by simp
    ultimately show ?thesis
      by simp
  qed
  obtain dst' where d': "downsample_rows n w src (so + 4 * sst) sst d2 (doff + 2 * dst_st) dst_st = Some dst'"
    "length dst' = length dst"
    "\<And>i. i < length dst \<Longrightarrow> i < doff + 2 * dst_st \<or> doff + 2 * dst_st + 2 * n * dst_st \<le> i \<Longrightarrow> dst' ! i = d2 ! i"
    "\<And>k x. k < n \<Longrightarrow> x < w \<Longrightarrow> dst' ! (doff + 2 * dst_st + 2 * k * dst_st + x)
        = f (src ! (so + 4 * sst + 4 * k * sst + x)) (src ! (so + 4 * sst + (4 * k + 2) * sst + x))"
    "\<And>k x. k < n \<Longrightarrow> x < w \<Longrightarrow> dst' ! (doff + 2 * dst_st + (2 * k + 1) * dst_st + x)
        = g (src ! (so + 4 * sst + (4 * k + 1) * sst + x)) (src ! (so + 4 * sst + (4 * k + 3) * sst + x))"
    using Suc.IH [of "so + 4 * sst" "doff + 2 * dst_st" d2] src dst ld(2) unfolding f_def g_def by auto
  have row0: "dst' ! (doff + x) = f (src ! (so + x)) (src ! (so + 2 * sst + x))"
    "dst' ! (doff + dst_st + x) = g (src ! (so + sst + x)) (src ! (so + 3 * sst + x))" if "x < w" for x
  proof -
    have "dst' ! (doff + x) = d2 ! (doff + x)" "dst' ! (doff + dst_st + x) = d2 ! (doff + dst_st + x)"
      using that dst assms(2) by (simp_all add: d'(3))
    moreover have "d2 ! (doff + x) = r0 ! x" "d2 ! (doff + dst_st + x) = r1 ! x"
      using that dst assms(2) lr ld by (simp_all add: d2_def d1_def splice_nth)
    moreover have "r0 ! x = f (src ! (so + x)) (src ! (so + 2 * sst + x))"
      "r1 ! x = g (src ! (so + sst + x)) (src ! (so + 3 * sst + x))"
      using that src assms(1) by (simp_all add: r0_def r1_def algebra_simps)
    ultimately show "dst' ! (doff + x) = f (src ! (so + x)) (src ! (so + 2 * sst + x))"
      "dst' ! (doff + dst_st + x) = g (src ! (so + sst + x)) (src ! (so + 3 * sst + x))"
      by simp_all
  qed
  have out: "dst' ! i = dst ! i" if "i < length dst" "i < doff \<or> doff + 2 * Suc n * dst_st \<le> i" for i
    using that d'(3) [of i] dst assms(2) lr ld
    by (auto simp: d2_def d1_def splice_nth_out algebra_simps)
  have "dst' ! (doff + 2 * k * dst_st + x) = f (src ! (so + 4 * k * sst + x)) (src ! (so + (4 * k + 2) * sst + x))
      \<and> dst' ! (doff + (2 * k + 1) * dst_st + x)
           = g (src ! (so + (4 * k + 1) * sst + x)) (src ! (so + (4 * k + 3) * sst + x))"
    if "k < Suc n" "x < w" for k x
  proof (cases k)
    case 0
    then show ?thesis using row0 that by (simp add: mult_2)
  next
    case (Suc m)
    then show ?thesis
      using d'(4,5) [of m x] that by (simp add: algebra_simps)
  qed
  then show ?case
    unfolding step using d'(1,2) out by (auto simp: f_def g_def)
qed


text \<open>The dither kernel is the pixel formula at every position, in spite of its two loops.\<close>

definition dither_ref :: "u16 list \<Rightarrow> nat \<Rightarrow> nat list \<Rightarrow> nat \<Rightarrow> nat \<Rightarrow> u16 list" where
  "dither_ref src so dither k n = map (\<lambda>i. dither_px (src ! (so + i)) (dither ! (i mod 8))) [k..<k + n]"

lemma length_dither_ref [simp]: "length (dither_ref src so dither k n) = n"
  by (simp add: dither_ref_def)

lemma dither_ref_append:
  "dither_ref src so dither k (m + n) = dither_ref src so dither k m @ dither_ref src so dither (k + m) n"
proof -
  have "[k..<k + (m + n)] = [k..<k + m] @ [k + m..<k + m + n]"
    using upt_add_eq_append [of k "k + m" n] by (simp add: add.assoc)
  then show ?thesis
    by (simp add: dither_ref_def)
qed

lemma splice_splice:
  assumes "length a = n" "off + n + length b \<le> length xs"
  shows "splice (off + n) b (splice off a xs) = splice off (a @ b) xs"
proof (rule nth_equalityI)
  fix i assume "i < length (splice (off + n) b (splice off a xs))"
  then show "splice (off + n) b (splice off a xs) ! i = splice off (a @ b) xs ! i"
    using assms by (auto simp: splice_nth nth_append)
qed (use assms in simp)

lemma dither_loop8_ref:
  assumes "so + k + 8 * n \<le> length src" "doff + k + 8 * n \<le> length dst" "length dither = 8" "k mod 8 = 0"
  shows "dither_loop8 n k src so dst doff dither
    = Some (splice (doff + k) (dither_ref src so dither k (8 * n)) dst)"
  using assms
proof (induction n arbitrary: k dst)
  case 0
  then show ?case by (simp add: splice_def dither_ref_def)
next
  case (Suc n)
  define r where "r = map2 dither_px (take 8 (drop (so + k) src)) dither"
  have r: "r = dither_ref src so dither k 8"
  proof (rule nth_equalityI)
    fix i assume "i < length r"
    moreover have "(k + i) mod 8 = i mod 8"
      using Suc.prems(4) by (metis add.left_neutral mod_add_left_eq)
    ultimately show "r ! i = dither_ref src so dither k 8 ! i"
      using Suc.prems(1,3) by (simp add: r_def dither_ref_def add.assoc)
  qed (use Suc.prems in \<open>simp add: r_def\<close>)
  have "dither_loop8 (Suc n) k src so dst doff dither
      = dither_loop8 n (k + 8) src so (splice (doff + k) r dst) doff dither"
    using Suc.prems r by (simp add: r_def [symmetric])
  also have "\<dots> = Some (splice (doff + (k + 8)) (dither_ref src so dither (k + 8) (8 * n)) (splice (doff + k) r dst))"
    using Suc.prems r by (intro Suc.IH) simp_all
  also have "\<dots> = Some (splice (doff + k) (dither_ref src so dither k (8 * Suc n)) dst)"
    using splice_splice [of r 8 "doff + k" "dither_ref src so dither (k + 8) (8 * n)" dst] Suc.prems r
      dither_ref_append [of src so dither k 8 "8 * n"]
    by (simp add: add.assoc)
  finally show ?case .
qed

lemma dither_loop1_ref:
  assumes "so + k + n \<le> length src" "doff + k + n \<le> length dst"
  shows "dither_loop1 n k src so dst doff dither = Some (splice (doff + k) (dither_ref src so dither k n) dst)"
  using assms
proof (induction n arbitrary: k dst)
  case 0
  then show ?case by (simp add: splice_def dither_ref_def)
next
  case (Suc n)
  have r: "dither_ref src so dither k (Suc 0) = [dither_px (src ! (so + k)) (dither ! (k mod 8))]"
    by (simp add: dither_ref_def)
  have "dither_loop1 (Suc n) k src so dst doff dither
      = dither_loop1 n (k + 1) src so (splice (doff + k) (dither_ref src so dither k 1) dst) doff dither"
    using Suc.prems by (simp add: r)
  also have "\<dots> = Some (splice (doff + (k + 1)) (dither_ref src so dither (k + 1) n)
                        (splice (doff + k) (dither_ref src so dither k 1) dst))"
    using Suc.prems by (intro Suc.IH) simp_all
  also have "\<dots> = Some (splice (doff + k) (dither_ref src so dither k (Suc n)) dst)"
    using splice_splice [of "dither_ref src so dither k 1" 1 "doff + k" "dither_ref src so dither (k + 1) n" dst]
      Suc.prems dither_ref_append [of src so dither k 1 n] by simp
  finally show ?case .
qed

lemma dither_row_ref:
  assumes "so + width \<le> length src" "doff + width \<le> length dst" "length dither = 8"
  shows "dither_row_10_to_8_c src so dst doff dither width
    = Some (splice doff (dither_ref src so dither 0 width) dst)"
proof -
  define m where "m = 8 * (width div 8)"
  have w: "width = m + width mod 8"
    by (simp add: m_def)
  define d1 where "d1 = splice doff (dither_ref src so dither 0 m) dst"
  have "dither_loop8 (width div 8) 0 src so dst doff dither = Some d1"
    using dither_loop8_ref [of so 0 "width div 8" src doff dst dither] assms w by (simp add: d1_def m_def)
  moreover have "dither_loop1 (width mod 8) m src so d1 doff dither
      = Some (splice (doff + m) (dither_ref src so dither m (width mod 8)) d1)"
    using assms w by (intro dither_loop1_ref) (simp_all add: d1_def)
  moreover have "splice (doff + m) (dither_ref src so dither m (width mod 8)) d1
      = splice doff (dither_ref src so dither 0 width) dst"
    using splice_splice [of "dither_ref src so dither 0 m" m doff "dither_ref src so dither m (width mod 8)" dst]
      assms w dither_ref_append [of src so dither 0 m "width mod 8"] by (simp add: d1_def)
  ultimately show ?thesis
    by (simp add: dither_row_10_to_8_c_def m_def mult.commute)
qed

lemma dither_formula:
  assumes "x < 1024" "d \<le> 3"
  shows "(x + d) * 511 div 2048 < (256 :: nat)" "x \<le> 4 * ((x + d) * 511 div 2048) + 5"
    "4 * ((x + d) * 511 div 2048) \<le> x + d"
proof -
  define v where "v = (x + d) * 511 div 2048"
  have "2048 * v \<le> 511 * x + 511 * d" "511 * x + 511 * d < 2048 * v + 2048"
    unfolding v_def using div_mult_mod_eq [of "(x + d) * 511" 2048] mod_less_divisor [of 2048 "(x + d) * 511"]
    by (simp_all add: algebra_simps)
  then show "(x + d) * 511 div 2048 < 256" "x \<le> 4 * ((x + d) * 511 div 2048) + 5"
    "4 * ((x + d) * 511 div 2048) \<le> x + d"
    unfolding v_def [symmetric] using assms by arith+
qed

lemma dither_px_value:
  assumes "unat s < 1024" "d \<le> 3"
  shows "unat (dither_px s d) = (unat s + d) * 511 div 2048" "unat (dither_px s d) < 256"
    "unat s \<le> 4 * unat (dither_px s d) + 5" "4 * unat (dither_px s d) \<le> unat s + d"
proof -
  define v where "v = (unat s + d) * 511 div 2048"
  note f = dither_formula [OF assms, folded v_def]
  then have "unat (dither_px s d) = v"
    unfolding dither_px_def v_def [symmetric] by (simp add: unat_of_nat)
  then show "unat (dither_px s d) = (unat s + d) * 511 div 2048" "unat (dither_px s d) < 256"
    "unat s \<le> 4 * unat (dither_px s d) + 5" "4 * unat (dither_px s d) \<le> unat s + d"
    using f by (simp_all add: v_def)
qed


section \<open>Properties\<close>

text \<open>C12 The dither kernel, for all its unrolling, writes exactly \<open>width\<close> samples, each the reference
  formula at its position; for 10-bit input each fits in 8 bits and four times it is at most 5 below
  and 3 above the source sample.\<close>

theorem dither_row_reference:
  assumes "so + width \<le> length src" "doff + width \<le> length dst" "j < 8"
  shows "\<exists>dst'. dither_row_10_to_8_c src so dst doff (obe_dithers ! j) width = Some dst'
    \<and> length dst' = length dst
    \<and> (\<forall>i < length dst. dst' ! i = (if doff \<le> i \<and> i < doff + width
          then dither_px (src ! (so + (i - doff))) (obe_dithers ! j ! ((i - doff) mod 8)) else dst ! i))
    \<and> (\<forall>x < width. unat (src ! (so + x)) < 1024 \<longrightarrow>
          unat (dst' ! (doff + x)) < 256 \<and> unat (src ! (so + x)) \<le> 4 * unat (dst' ! (doff + x)) + 5
          \<and> 4 * unat (dst' ! (doff + x)) \<le> unat (src ! (so + x)) + 3)"
proof -
  define dither where "dither = obe_dithers ! j"
  have "list_all (\<lambda>r. length r = 8 \<and> list_all (\<lambda>d. d \<le> 3) r) obe_dithers" "length obe_dithers = 8"
    by code_simp+
  then have l: "length dither = 8" "\<And>i. i < 8 \<Longrightarrow> dither ! i \<le> 3"
    using assms(3) by (auto simp: dither_def list_all_length)
  define dst' where "dst' = splice doff (dither_ref src so dither 0 width) dst"
  have n: "dst' ! i = (if doff \<le> i \<and> i < doff + width
          then dither_px (src ! (so + (i - doff))) (dither ! ((i - doff) mod 8)) else dst ! i)" if "i < length dst" for i
    using that assms(2) by (auto simp: dst'_def splice_nth dither_ref_def)
  have "unat (dst' ! (doff + x)) < 256 \<and> unat (src ! (so + x)) \<le> 4 * unat (dst' ! (doff + x)) + 5
          \<and> 4 * unat (dst' ! (doff + x)) \<le> unat (src ! (so + x)) + 3"
    if "x < width" "unat (src ! (so + x)) < 1024" for x
    using n [of "doff + x"] that assms(2) l(2) [of "x mod 8"]
      dither_px_value(2-4) [OF that(2), of "dither ! (x mod 8)"] by simp
  then show ?thesis
    using dither_row_ref [OF assms(1,2) l(1)] n assms(2)
    by (intro exI [of _ dst']) (simp add: dst'_def dither_def)
qed

theorem dither_row_reference_witness:
  "\<exists>dst'. dither_row_10_to_8_c (map of_nat [0..<12]) 1 (replicate 10 7) 0 (obe_dithers ! 1) 9 = Some dst'
     \<and> length dst' = 10 \<and> dst' ! 9 = 7"
  using dither_row_reference [of 1 9 "map of_nat [0..<12]" 0 "replicate 10 7" 1] by auto

text \<open>A plane holds a number of rows of samples.\<close>

definition plane_ok :: "u16 list \<Rightarrow> nat \<Rightarrow> nat \<Rightarrow> nat \<Rightarrow> bool" where
  "plane_ok p rows w st \<longleftrightarrow> w \<le> st \<and> rows * st \<le> length p"

lemma copy_rows_safe:
  assumes "w \<le> sst" "w \<le> dst_st" "so + n * sst \<le> length src" "doff + n * dst_st \<le> length dst"
  shows "\<exists>d. copy_rows n w src so sst dst doff dst_st = Some d"
  using assms(3,4)
proof (induction n arbitrary: so dst doff)
  case (Suc n)
  have "so + w \<le> length src" "doff + w \<le> length dst"
    using Suc.prems assms(1,2) by simp_all
  then show ?case
    using Suc.IH [of "so + sst" "doff + dst_st"] Suc.prems by (simp add: add.assoc)
qed simp

text \<open>C13 Downconverting an interlaced 4:2:2 picture keeps the fields apart: every output chroma line of
  a field is the 3:1 or 1:3 average of the two lines of the same field around it, and nothing
  outside the planes is read or written.\<close>

theorem downconvert_keeps_fields:
  assumes "img_plane (rf_img rf) = [y, u, v]" "img_stride (rf_img rf) = [2 * int sy, 2 * int sc, 2 * int sc]"
    and "img_height (rf_img rf) = 4 * int m" "img_width (rf_img rf) = 2 * int w"
    and "img_csp (rf_img rf) = AV_PIX_FMT_YUV422P10" "vx_components env (img_csp (rf_alloc_img rf)) = 3"
    and "vx_alloc env AV_PIX_FMT_YUV420P10 (2 * int w) (4 * int m + 1)
         = Some ([y', u', v'], [2 * int ty, 2 * int tc, 2 * int tc])"
    and "plane_ok y (4 * m) (2 * w) sy" "plane_ok u (4 * m) w sc" "plane_ok v (4 * m) w sc"
    and "plane_ok y' (4 * m) (2 * w) ty" "plane_ok u' (2 * m) w tc" "plane_ok v' (2 * m) w tc"
  shows "\<exists>rf' d ou ov. downconvert_image_interlaced env rf = Some (0, rf')
    \<and> img_csp (rf_img rf') = AV_PIX_FMT_YUV420P10 \<and> img_plane (rf_img rf') = [d, ou, ov]
    \<and> (\<forall>(s, t) \<in> {(u, ou), (v, ov)}. \<forall>k < m. \<forall>x < w.
         t ! (2 * k * tc + x)
           = word_of_nat ((3 * unat (s ! (4 * k * sc + x)) + unat (s ! ((4 * k + 2) * sc + x)) + 2) div 4)
       \<and> t ! ((2 * k + 1) * tc + x)
           = word_of_nat ((unat (s ! ((4 * k + 1) * sc + x)) + 3 * unat (s ! ((4 * k + 3) * sc + x)) + 2) div 4))"
proof -
  define tmp where "tmp = obe_image_zero\<lparr>img_csp := AV_PIX_FMT_YUV420P10, img_width := 2 * int w,
    img_height := 4 * int m, img_planes := 3, img_format := img_format (rf_img rf),
    img_plane := [y', u', v'], img_stride := [2 * int ty, 2 * int tc, 2 * int tc]\<rparr>"
  have new: "new_image env AV_PIX_FMT_YUV420P10 (2 * int w) (rf_img rf) (img_csp (rf_alloc_img rf)) = Some tmp"
    using assms(3,6,7) by (simp add: new_image_def tmp_def)
  obtain d where d: "copy_rows (4 * m) (2 * w) y 0 sy y' 0 ty = Some d"
    using copy_rows_safe [of "2 * w" sy ty 0 "4 * m" y 0 y'] assms(8,11) by (auto simp: plane_ok_def)
  have rows: "\<exists>t. downsample_rows m w s 0 sc s' 0 tc = Some t \<and> (\<forall>k < m. \<forall>x < w.
         t ! (2 * k * tc + x)
           = word_of_nat ((3 * unat (s ! (4 * k * sc + x)) + unat (s ! ((4 * k + 2) * sc + x)) + 2) div 4)
       \<and> t ! ((2 * k + 1) * tc + x)
           = word_of_nat ((unat (s ! ((4 * k + 1) * sc + x)) + 3 * unat (s ! ((4 * k + 3) * sc + x)) + 2) div 4))"
    if "plane_ok s (4 * m) w sc" "plane_ok s' (2 * m) w tc" for s s'
    using downsample_rows_spec [of w sc tc 0 m s 0 s'] that by (auto simp: plane_ok_def)
  obtain ou where ou: "downsample_rows m w u 0 sc u' 0 tc = Some ou" "\<forall>k < m. \<forall>x < w.
         ou ! (2 * k * tc + x)
           = word_of_nat ((3 * unat (u ! (4 * k * sc + x)) + unat (u ! ((4 * k + 2) * sc + x)) + 2) div 4)
       \<and> ou ! ((2 * k + 1) * tc + x)
           = word_of_nat ((unat (u ! ((4 * k + 1) * sc + x)) + 3 * unat (u ! ((4 * k + 3) * sc + x)) + 2) div 4)"
    using rows [OF assms(9,12)] by blast
  obtain ov where ov: "downsample_rows m w v 0 sc v' 0 tc = Some ov" "\<forall>k < m. \<forall>x < w.
         ov ! (2 * k * tc + x)
           = word_of_nat ((3 * unat (v ! (4 * k * sc + x)) + unat (v ! ((4 * k + 2) * sc + x)) + 2) div 4)
       \<and> ov ! ((2 * k + 1) * tc + x)
           = word_of_nat ((unat (v ! ((4 * k + 1) * sc + x)) + 3 * unat (v ! ((4 * k + 3) * sc + x)) + 2) div 4)"
    using rows [OF assms(10,13)] by blast
  have c: "obe_cli_csps AV_PIX_FMT_YUV420P10 = Some (mk_cli_csp 3 [2, 1, 1, 0] [2, 1, 1, 0] 10)"
    by (simp add: obe_cli_csps_def)
  have g: "(plane_height (mk_cli_csp 3 [2, 1, 1, 0] [2, 1, 1, 0] 10) i (rf_img rf) + 1) div 2 = m"
    "plane_width (mk_cli_csp 3 [2, 1, 1, 0] [2, 1, 1, 0] 10) i (rf_img rf) = w"
    "sample_stride (rf_img rf) i = sc" "sample_stride tmp i = tc" if "i = 1 \<or> i = 2" for i
    using that assms(2-5)
    by (auto simp: plane_height_def plane_width_def mk_cli_csp_def csp_num_interleaved_def
        sample_stride_def tmp_def nat_mult_distrib)
  have t: "img_csp tmp = AV_PIX_FMT_YUV420P10"
    by (simp add: tmp_def)
  have downconvert: "downconvert_planes (rf_img rf) tmp [1, 2] [d, u', v'] = Some [d, ou, ov]"
    using g [of 1] g [of 2] ou(1) ov(1) assms(1) by (simp add: t c)
  have "downconvert_image_interlaced env rf
      = Some (0, rf\<lparr>rf_alloc_img := tmp\<lparr>img_plane := [d, ou, ov]\<rparr>, rf_img := tmp\<lparr>img_plane := [d, ou, ov]\<rparr>\<rparr>)"
  proof -
    have t0: "img_plane tmp = [y', u', v']" "nat (img_planes tmp) = 3" "sample_stride tmp 0 = ty"
      "sample_stride (rf_img rf) 0 = sy" "[Suc 0..<3] = [1, 2 :: nat]"
      using assms(2) by (simp_all add: tmp_def sample_stride_def upt_rec)
    show ?thesis
      using downconvert d assms(1,3,4) new
      by (simp add: downconvert_image_interlaced_def t0 nat_mult_distrib Let_def
               del: downconvert_planes.simps)
  qed
  then show ?thesis
    using ou(2) ov(2) by (auto simp: tmp_def)
qed

text \<open>Formats as libavutil documents them, and images with exact strides.\<close>

definition vid_env_wit :: vid_env where
  "vid_env_wit = \<lparr>vx_get_context = (\<lambda>_ _ _. True),
     vx_scale = (\<lambda>_ tmp. img_plane tmp),
     vx_alloc = (\<lambda>csp w h. Some (replicate 3 (replicate (nat (w * h)) 0), [2 * w, 2 * (w div 2), 2 * (w div 2)])),
     vx_components = (\<lambda>_. 3),
     vx_chroma_shift = (\<lambda>f. if f = AV_PIX_FMT_YUV422P10 \<or> f = AV_PIX_FMT_YUV422P then Some (1, 0) else Some (1, 1)),
     vx_depth = (\<lambda>f. if f = AV_PIX_FMT_YUV422P10 \<or> f = AV_PIX_FMT_YUV420P10 then 10 else 8),
     vx_bit_depth = 10, vx_ud = ud_env_wit\<rparr>"

definition rf_422 :: "input_video_format \<Rightarrow> raw_frame" where
  "rf_422 f = (let img = obe_image_zero\<lparr>img_csp := AV_PIX_FMT_YUV422P10, img_width := 2, img_height := 4,
       img_planes := 3, img_plane := [replicate 8 0x40, [100, 200, 300, 400], [0x200, 0x200, 0x200, 0x200]],
       img_stride := [4, 2, 2], img_format := f\<rparr>
     in rf_wit\<lparr>rf_alloc_img := img, rf_img := img\<rparr>)"

theorem downconvert_keeps_fields_witness:
  "\<exists>rf' d ou ov. downconvert_image_interlaced vid_env_wit (rf_422 INPUT_VIDEO_FORMAT_1080I_50) = Some (0, rf')
    \<and> img_plane (rf_img rf') = [d, ou, ov] \<and> ou ! 0 = 150 \<and> ou ! 1 = 350"
proof -
  have "\<exists>rf' d ou ov. downconvert_image_interlaced vid_env_wit (rf_422 INPUT_VIDEO_FORMAT_1080I_50) = Some (0, rf')
    \<and> img_csp (rf_img rf') = AV_PIX_FMT_YUV420P10 \<and> img_plane (rf_img rf') = [d, ou, ov]
    \<and> (\<forall>(s, t) \<in> {([100, 200, 300, 400 :: u16], ou), ([0x200, 0x200, 0x200, 0x200], ov)}. \<forall>k < 1. \<forall>x < 1.
         t ! (2 * k * 1 + x)
           = word_of_nat ((3 * unat (s ! (4 * k * 1 + x)) + unat (s ! ((4 * k + 2) * 1 + x)) + 2) div 4)
       \<and> t ! ((2 * k + 1) * 1 + x)
           = word_of_nat ((unat (s ! ((4 * k + 1) * 1 + x)) + 3 * unat (s ! ((4 * k + 3) * 1 + x)) + 2) div 4))"
    by (rule downconvert_keeps_fields [where y = "replicate 8 0x40" and sy = 2 and ty = 2
          and y' = "replicate 10 0" and u' = "replicate 10 0" and v' = "replicate 10 0"])
       (simp_all add: rf_422_def vid_env_wit_def plane_ok_def numeral_3_eq_3 Let_def)
  then show ?thesis
    by (fastforce simp: numeral_3_eq_3)
qed

section \<open>User data of a frame\<close>

lemma writes_afd_head: "writes (\<lambda>r. do { r \<leftarrow> bs_write r 8 0xb5; r \<leftarrow> bs_write r 16 0x31; write_codes id_DTG1 r })
    (bytes_bits [0xb5, 0, 0x31, 0x44, 0x54, 0x47, 0x31])"
proof -
  have "writes (\<lambda>r. do { r \<leftarrow> bs_write r 8 0xb5; r \<leftarrow> bs_write r 16 0x31; write_codes id_DTG1 r })
    (bits_be 8 (0xb5 :: u32) @ bits_be 16 (0x31 :: u32) @ bytes_bits (map ucast id_DTG1))"
    by (intro writes_bind writes_write writes_codes) (simp_all add: id_DTG1_def)
  then show ?thesis
    by (simp add: bits_be_bytes id_DTG1_def)
qed

lemma writes_afd_data:
  "writes (\<lambda>r. do { r \<leftarrow> bs_write1 r 0; r \<leftarrow> bs_write1 r 1; r \<leftarrow> bs_write r 6 1; r \<leftarrow> bs_write r 4 0xf;
       bs_write r 4 (ucast (c AND 0xf :: u8)) }) (bytes_bits [0x41, 0xf0 OR (c AND 0xf)])"
proof -
  have m: "(0xf :: u8) = mask 4"
    by (simp add: mask_eq_exp_minus_1)
  have "uint (c AND 0xf) < 2 ^ 4"
    by (rule uint_lt_bitI) (simp add: m bit_simps)
  moreover define n where "n = unat (c AND 0xf)"
  ultimately have "int n < 16"
    by (simp only: n_def of_nat_unat) simp
  then have c: "c AND 0xf = of_nat n" "n < 16"
    by (simp add: n_def, simp)
  have "list_all (\<lambda>n. [bit (0 :: u32) 0] @ [bit (1 :: u32) 0] @ bits_be 6 (1 :: u32) @ bits_be 4 (0xf :: u32)
        @ bits_be 4 (ucast (of_nat n :: u8) :: u32) = bytes_bits [0x41, 0xf0 OR of_nat n]
        \<and> uint (ucast (of_nat n :: u8) :: u32) < 2 ^ 4) [0..<16]"
    by code_simp
  then have b: "[bit (0 :: u32) 0] @ [bit (1 :: u32) 0] @ bits_be 6 (1 :: u32) @ bits_be 4 (0xf :: u32)
        @ bits_be 4 (ucast (c AND 0xf) :: u32) = bytes_bits [0x41, 0xf0 OR (c AND 0xf)]"
    "uint (ucast (c AND 0xf) :: u32) < 2 ^ 4"
    using c(2) unfolding c(1) by (simp_all add: list_all_iff)
  have "writes (\<lambda>r. do { r \<leftarrow> bs_write1 r 0; r \<leftarrow> bs_write1 r 1; r \<leftarrow> bs_write r 6 1; r \<leftarrow> bs_write r 4 0xf;
       bs_write r 4 (ucast (c AND 0xf)) })
     ([bit (0 :: u32) 0] @ [bit (1 :: u32) 0] @ bits_be 6 (1 :: u32) @ bits_be 4 (0xf :: u32)
        @ bits_be 4 (ucast (c AND 0xf) :: u32))"
    using b(2) by (intro writes_bind writes_write writes_write1) simp_all
  then show ?thesis
    unfolding b(1) .
qed

definition afd_payload :: "u8 \<Rightarrow> bytes" where
  "afd_payload d = [0xb5, 0, 0x31, 0x44, 0x54, 0x47, 0x31, 0x41, 0xf0 OR (drop_bit 3 d AND 0xf)]"

lemma write_afd_spec:
  assumes "ud_data ud = d # ds" "ue_malloc_ok env"
  shows "write_afd env ud rf
    = Some (0, ud\<lparr>ud_type := USER_DATA_AVC_REGISTERED_ITU_T35, ud_len := 9, ud_data := afd_payload d\<rparr>,
            if is_sd (img_format (rf_img rf)) then snd (set_sar rf (unat (drop_bit 2 d AND 1))) else rf)"
proof -
  obtain r0 where r0: "bs_init (stack_buf env 2 100) 0 100 = Some r0" "bs_ok r0" "bs_bits r0 = []"
    "length (bs_mem r0) = 100"
    by (rule bs_init_stack [where n = 100]) simp
  define head where "head = (\<lambda>r. do { r \<leftarrow> bs_write r 8 0xb5; r \<leftarrow> bs_write r 16 0x31; write_codes id_DTG1 r })"
  define tail where "tail = (\<lambda>r. do { r \<leftarrow> bs_write1 r 0; r \<leftarrow> bs_write1 r 1; r \<leftarrow> bs_write r 6 1; r \<leftarrow> bs_write r 4 0xf;
       bs_write r 4 (ucast (drop_bit 3 d AND 0xf)) })"
  have w: "writes (\<lambda>r. do { r \<leftarrow> head r; tail r }) (bytes_bits (afd_payload d))"
    using writes_bind [OF writes_afd_head writes_afd_data [of "drop_bit 3 d"]]
    by (simp add: head_def tail_def afd_payload_def)
  obtain r1 where r1: "(do { r \<leftarrow> head r0; tail r }) = Some r1" "bs_ok r1"
    "bs_bits r1 = bytes_bits (afd_payload d)" "length (bs_mem r1) = 100"
    by (rule writes_fresh [OF w r0(2-4)]) (simp add: afd_payload_def)
  have "bs_room r1 32"
    using r1(3,4) by (simp add: bs_room_def afd_payload_def)
  then obtain r2 where r2: "bs_flush r1 = Some r2" "replace_user_data env r2 ud
      = (let ud = ud\<lparr>ud_type := USER_DATA_AVC_REGISTERED_ITU_T35, ud_len := int (length (afd_payload d)), ud_data := []\<rparr>
         in if ue_malloc_ok env then (0, ud\<lparr>ud_data := afd_payload d\<rparr>) else (-1, ud))"
    using finish_user_data [OF r1(2,3)] by (metis (no_types, lifting))
  show ?thesis
    using r0(1) r1(1) r2 assms unfolding write_afd_def head_def tail_def
    by (auto simp: bind_eq_Some_conv Let_def afd_payload_def)
qed

text \<open>Wide screen signalling is converted to the active format of its group: the payload carries the
  AFD code of the table, and the frame of a standard definition stream gets the sample aspect ratio
  the table's 4:3 or 16:9 column has for its size.\<close>

theorem wss_becomes_afd:
  fixes ud :: user_data
  assumes "ud_data ud = of_nat g # ds" "g < 8" "ue_malloc_ok env"
  shows "\<exists>code wide. wss_to_afd ! g = (code, wide) \<and> wide \<le> 1
    \<and> convert_wss_to_afd env ud rf
      = Some (0, ud\<lparr>ud_type := USER_DATA_AVC_REGISTERED_ITU_T35, ud_len := 9,
                    ud_data := [0xb5, 0, 0x31, 0x44, 0x54, 0x47, 0x31, 0x41, 0xf0 + of_nat code]\<rparr>,
              if is_sd (img_format (rf_img rf)) then snd (set_sar rf wide) else rf)"
proof -
  obtain code wide where t: "wss_to_afd ! g = (code, wide)"
    by fastforce
  have "list_all (\<lambda>g. case wss_to_afd ! g of (c, w) \<Rightarrow> w \<le> 1
      \<and> drop_bit 3 (of_nat (c * 8 + w * 4) :: u8) AND 0xf = of_nat c
      \<and> 0xf0 OR of_nat c = (0xf0 + of_nat c :: u8)
      \<and> unat (drop_bit 2 (of_nat (c * 8 + w * 4) :: u8) AND 1) = w) [0..<8]"
    by code_simp
  then have c: "wide \<le> 1" "drop_bit 3 (of_nat (code * 8 + wide * 4) :: u8) AND 0xf = of_nat code"
    "0xf0 OR of_nat code = (0xf0 + of_nat code :: u8)"
    "unat (drop_bit 2 (of_nat (code * 8 + wide * 4) :: u8) AND 1) = wide"
    using t assms(2) unfolding list_all_iff by force+
  have "at wss_to_afd (unat (of_nat g :: u8)) = Some (code, wide)"
    using t assms(2) by (simp add: unsigned_of_nat take_bit_eq_mod at_def) (simp add: wss_to_afd_def)
  then have "convert_wss_to_afd env ud rf
      = write_afd env (ud\<lparr>ud_data := of_nat (code * 8 + wide * 4) # ds\<rparr>) rf"
    by (simp add: convert_wss_to_afd_def assms(1))
  also have "\<dots> = Some (0, ud\<lparr>ud_type := USER_DATA_AVC_REGISTERED_ITU_T35, ud_len := 9,
        ud_data := afd_payload (of_nat (code * 8 + wide * 4))\<rparr>,
      if is_sd (img_format (rf_img rf)) then snd (set_sar rf wide) else rf)"
    using write_afd_spec [of "ud\<lparr>ud_data := of_nat (code * 8 + wide * 4) # ds\<rparr>"
        "of_nat (code * 8 + wide * 4)" ds env rf] assms(3) c(4) by simp
  finally show ?thesis
    using t c by (simp add: afd_payload_def)
qed


definition rf_pal :: raw_frame where
  "rf_pal = rf_wit\<lparr>rf_img := obe_image_zero\<lparr>img_width := 720, img_height := 576,
                                img_format := INPUT_VIDEO_FORMAT_PAL\<rparr>\<rparr>"

theorem wss_becomes_afd_witness:
  "\<exists>ud'. convert_wss_to_afd ud_env_wit (ud_wit\<lparr>ud_type := USER_DATA_WSS, ud_len := 1, ud_data := [3]\<rparr>) rf_pal
      = Some (0, ud', rf_pal\<lparr>rf_sar_width := 16, rf_sar_height := 11\<rparr>)
    \<and> ud_data ud' = [0xb5, 0, 0x31, 0x44, 0x54, 0x47, 0x31, 0x41, 0xfa]"
proof -
  have "set_sar rf_pal 1 = (0, rf_pal\<lparr>rf_sar_width := 16, rf_sar_height := 11\<rparr>)"
    by (simp add: set_sar_def rf_pal_def obe_sars_def)
  moreover have "is_sd (img_format (rf_img rf_pal))" "wss_to_afd ! 3 = (0xa, 1)"
    by (simp_all add: rf_pal_def is_sd_def wss_to_afd_def)
  ultimately show ?thesis
    using wss_becomes_afd [of "ud_wit\<lparr>ud_type := USER_DATA_WSS, ud_len := 1, ud_data := [3]\<rparr>" 3 "[]"
        ud_env_wit rf_pal] by (simp add: ud_env_wit_def)
qed

text \<open>C14 The return code of one item is still in force for the next item of a type the loop does not
  handle: behind a caption packet that was rejected, such an item is deleted from the frame too,
  whatever it holds.\<close>

theorem rejected_packet_deletes_next:
  fixes u v :: user_data
  assumes "ud_type u = USER_DATA_CEA_708_CDP" "read_cdp env u = Some (1, u')"
    and "ud_type v = USER_DATA_DVB_VBI \<or> ud_type v = USER_DATA_AVC_UNREGISTERED
         \<or> ud_type v = USER_DATA_AVC_REGISTERED_ITU_T35"
  shows "encapsulate_user_data env (rf\<lparr>rf_user_data := [u, v]\<rparr>) = Some (1, rf\<lparr>rf_user_data := []\<rparr>)"
  using assms by (auto simp: encapsulate_user_data_def encapsulate_one_def)

theorem rejected_packet_deletes_next_witness:
  "encapsulate_user_data ud_env_wit (rf_wit\<lparr>rf_user_data := [ud_wit\<lparr>ud_len := 1, ud_data := [0]\<rparr>,
       ud_wit\<lparr>ud_type := USER_DATA_AVC_UNREGISTERED, ud_len := 1, ud_data := [7]\<rparr>]\<rparr>)
   = Some (1, rf_wit\<lparr>rf_user_data := []\<rparr>)"
proof (rule rejected_packet_deletes_next)
  show "read_cdp ud_env_wit (ud_wit\<lparr>ud_len := 1, ud_data := [0]\<rparr>) = Some (1, ud_wit\<lparr>ud_len := 1, ud_data := [0]\<rparr>)"
    by (simp add: read_cdp_def bs_read_init_def bs_read_def bs_read_loop.simps bs_read_eof_def bsr_next_def
        Let_def CDP_IDENTIFIER_def)
qed (simp_all add: ud_wit_def)

section \<open>The format of a filtered frame\<close>

lemma encapsulate_one_img:
  "encapsulate_one env ret u rf = Some (ret', u', rf') \<Longrightarrow> rf_img rf' = rf_img rf"
  by (auto simp: encapsulate_one_def write_afd_def convert_wss_to_afd_def set_sar_def Let_def
      replace_user_data_def split: user_data_types.splits Option.bind_splits option.splits if_splits)

lemma encapsulate_items_img:
  "encapsulate_items env ret done us rf = Some (ret', us', rf') \<Longrightarrow> rf_img rf' = rf_img rf"
  by (induction env ret "done" us rf rule: encapsulate_items.induct)
     (auto dest: encapsulate_one_img split: Option.bind_splits if_splits)

lemma encapsulate_user_data_img:
  "encapsulate_user_data env rf = Some (ret, rf') \<Longrightarrow> rf_img rf' = rf_img rf"
  by (auto simp: encapsulate_user_data_def dest: encapsulate_items_img split: Option.bind_splits)

lemma set_sar_img [simp]: "rf_img (snd (set_sar rf w)) = rf_img rf"
  by (simp add: set_sar_def split: option.split)


lemma new_image_fmt:
  "new_image env csp w img a = Some tmp \<Longrightarrow> img_csp tmp = csp \<and> img_format tmp = img_format img \<and> img_width tmp = w"
  by (auto simp: new_image_def split: Option.bind_splits)

lemma blank_lines_fmt:
  "blank_lines rf = Some rf' \<Longrightarrow> img_csp (rf_img rf') = img_csp (rf_img rf)
     \<and> img_format (rf_img rf') = img_format (rf_img rf) \<and> img_width (rf_img rf') = img_width (rf_img rf)
     \<and> rf_reset_obe rf' = rf_reset_obe rf"
  by (auto simp: blank_lines_def split: Option.bind_splits list.splits)

lemma downconvert_fmt:
  "downconvert_image_interlaced env rf = Some (r, rf') \<Longrightarrow> 0 \<le> r \<Longrightarrow>
     img_csp (rf_img rf') = AV_PIX_FMT_YUV420P10 \<and> img_format (rf_img rf') = img_format (rf_img rf)
     \<and> img_width (rf_img rf') = img_width (rf_img rf)"
  by (auto simp: downconvert_image_interlaced_def Let_def dest: new_image_fmt
      split: Option.bind_splits option.splits)

lemma dither_fmt:
  "dither_image env rf = Some (r, rf') \<Longrightarrow> 0 \<le> r \<Longrightarrow>
     img_csp (rf_img rf') = (if img_csp (rf_img rf) = AV_PIX_FMT_YUV422P10 then AV_PIX_FMT_YUV422P
                             else AV_PIX_FMT_YUV420P)
     \<and> img_format (rf_img rf') = img_format (rf_img rf) \<and> img_width (rf_img rf') = img_width (rf_img rf)"
  by (auto simp: dither_image_def Let_def dest: new_image_fmt split: Option.bind_splits option.splits)

text \<open>The scaling context, once made, was made for the format the first frames ask for.\<close>

definition sws_target :: "raw_frame \<Rightarrow> av_pix_fmt" where
  "sws_target rf =
     (if is_interlaced (img_format (rf_img rf)) then img_csp (rf_img rf)
      else if img_csp (rf_img rf) = AV_PIX_FMT_YUV422P10 then AV_PIX_FMT_YUV420P10 else AV_PIX_FMT_YUV420P)"

definition vf_ok :: "vid_filter_ctx \<Rightarrow> raw_frame \<Rightarrow> bool" where
  "vf_ok vf rf \<longleftrightarrow> (vf_sws_ctx vf \<longrightarrow> vf_dst_pix_fmt vf = sws_target rf)"

lemma resize_fmt:
  assumes "resize_frame env vf rf w = (r, vf', rf')" "0 \<le> r" "vf_ok vf rf"
  shows "img_csp (rf_img rf') = sws_target rf \<and> img_format (rf_img rf') = img_format (rf_img rf)
    \<and> img_width (rf_img rf') = w \<and> vf_ok vf' rf"
  using assms unfolding resize_frame_def vf_ok_def sws_target_def
  by (auto simp: Let_def dest!: new_image_fmt split: if_splits option.splits)

definition av_tables_ok :: "vid_env \<Rightarrow> bool" where
  "av_tables_ok env \<longleftrightarrow>
     (\<forall>f \<in> {AV_PIX_FMT_YUV422P10, AV_PIX_FMT_YUV422P}. vx_chroma_shift env f = Some (1, 0))
   \<and> (\<forall>f \<in> {AV_PIX_FMT_YUV420P10, AV_PIX_FMT_YUV420P}. vx_chroma_shift env f = Some (1, 1))
   \<and> (\<forall>f \<in> {AV_PIX_FMT_YUV422P10, AV_PIX_FMT_YUV420P10}. vx_depth env f = 10)
   \<and> (\<forall>f \<in> {AV_PIX_FMT_YUV422P, AV_PIX_FMT_YUV420P}. vx_depth env f = 8)"

text \<open>The stages behind the scaling, on a picture of either 10-bit format.\<close>

definition filter_tail ::
    "vid_env \<Rightarrow> nat \<Rightarrow> bool \<Rightarrow> vid_filter_ctx \<Rightarrow> raw_frame \<Rightarrow> (unit + vid_filter_ctx \<times> raw_frame) option" where
  "filter_tail env is_wide target_i420 vf rf =
     (case vx_chroma_shift env (img_csp (rf_img rf)) of
        None \<Rightarrow> Some (Inl ())
      | Some (h_shift, v_shift) \<Rightarrow> do {
        (ret, rf) \<leftarrow> (if h_shift = 1 \<and> v_shift = 0 \<and> target_i420
                     then downconvert_image_interlaced env rf else Some (0, rf));
        if ret < 0 then Some (Inl ()) else do {
        (ret, rf) \<leftarrow> (if vx_depth env (img_csp (rf_img rf)) = 10 \<and> vx_bit_depth env = 8
                     then dither_image env rf else Some (0, rf));
        if ret < 0 then Some (Inl ()) else do {
        (ret, rf) \<leftarrow> encapsulate_user_data (vx_ud env) rf;
        if ret < 0 then Some (Inl ())
        else let rf = (if rf_sar_width rf = 1 \<and> rf_sar_height rf = 1
                       then (snd (set_sar rf (if is_sd (img_format (rf_img rf)) then is_wide else 1)))
                              \<lparr>rf_sar_guess := 1\<rparr>
                       else rf)
             in Some (Inr (vf, rf)) } } })"

lemma filter_tail_fmt:
  assumes "filter_tail env is_wide i420 vf rf = Some (Inr (vf', rf'))" "av_tables_ok env"
    and "img_csp (rf_img rf) \<in> {AV_PIX_FMT_YUV422P10, AV_PIX_FMT_YUV420P10, AV_PIX_FMT_YUV420P}"
  shows "vf' = vf \<and> img_width (rf_img rf') = img_width (rf_img rf) \<and> img_format (rf_img rf') = img_format (rf_img rf)
   \<and> img_csp (rf_img rf') =
     (if img_csp (rf_img rf) = AV_PIX_FMT_YUV420P then AV_PIX_FMT_YUV420P
      else if i420 \<or> img_csp (rf_img rf) = AV_PIX_FMT_YUV420P10
      then if vx_bit_depth env = 8 then AV_PIX_FMT_YUV420P else AV_PIX_FMT_YUV420P10
      else if vx_bit_depth env = 8 then AV_PIX_FMT_YUV422P else AV_PIX_FMT_YUV422P10)"
  using assms(3) assms(1,2) unfolding filter_tail_def av_tables_ok_def
  by (elim insertE emptyE)
     (auto simp: Let_def dest!: downconvert_fmt dither_fmt encapsulate_user_data_img
       split: Option.bind_splits if_splits)


lemma filter_video_frame_tail:
  "filter_video_frame env i_width is_wide i420 vf rf =
     (if img_csp (rf_alloc_img rf) = AV_PIX_FMT_QSV then Some (Inr (vf, rf))
      else do {
        rf \<leftarrow> (if img_format (rf_img rf) = INPUT_VIDEO_FORMAT_PAL then blank_lines rf else Some rf);
        let (ret, vf, rf) =
          (if img_width (rf_img rf) \<noteq> i_width \<or> \<not> is_interlaced (img_format (rf_img rf)) \<and> i420
           then resize_frame env vf rf i_width else (0, vf, rf));
        if ret < 0 then Some (Inl ()) else filter_tail env is_wide i420 vf rf })"
  unfolding filter_video_frame_def filter_tail_def by simp

text \<open>The scaler is used, and for a progressive picture it gives 4:2:0 whatever the target.\<close>

definition scaled_to_420 :: "raw_frame \<Rightarrow> int \<Rightarrow> bool" where
  "scaled_to_420 rf i_width \<longleftrightarrow>
     \<not> is_interlaced (img_format (rf_img rf)) \<and> img_width (rf_img rf) \<noteq> i_width"

lemma filter_video_frame_fmt:
  assumes "filter_video_frame env i_width is_wide i420 vf rf = Some (Inr (vf', rf'))"
    and "av_tables_ok env" "vf_ok vf rf"
    and "img_csp (rf_img rf) \<in> {AV_PIX_FMT_YUV422P10, AV_PIX_FMT_YUV420P}" "img_csp (rf_alloc_img rf) \<noteq> AV_PIX_FMT_QSV"
  shows "vf_ok vf' rf \<and> img_width (rf_img rf') = i_width \<and> img_format (rf_img rf') = img_format (rf_img rf)
   \<and> img_csp (rf_img rf') =
     (if img_csp (rf_img rf) = AV_PIX_FMT_YUV420P then AV_PIX_FMT_YUV420P
      else if i420 \<or> scaled_to_420 rf i_width
      then if vx_bit_depth env = 8 then AV_PIX_FMT_YUV420P else AV_PIX_FMT_YUV420P10
      else if vx_bit_depth env = 8 then AV_PIX_FMT_YUV422P else AV_PIX_FMT_YUV422P10)"
proof -
  obtain r1 where r1: "img_csp (rf_img r1) = img_csp (rf_img rf)" "img_format (rf_img r1) = img_format (rf_img rf)"
    "img_width (rf_img r1) = img_width (rf_img rf)"
    and f: "(let (ret, vf, rf) =
          (if img_width (rf_img r1) \<noteq> i_width \<or> \<not> is_interlaced (img_format (rf_img r1)) \<and> i420
           then resize_frame env vf r1 i_width else (0, vf, r1))
        in if ret < 0 then Some (Inl ()) else filter_tail env is_wide i420 vf rf) = Some (Inr (vf', rf'))"
    using assms(1,5) unfolding filter_video_frame_tail
    by (auto dest: blank_lines_fmt split: if_splits Option.bind_splits)
  have t: "sws_target r1 = sws_target rf" "vf_ok vf r1"
    using assms(3) r1(1,2) by (simp_all add: sws_target_def vf_ok_def)
  show ?thesis
  proof (cases "img_width (rf_img r1) \<noteq> i_width \<or> \<not> is_interlaced (img_format (rf_img r1)) \<and> i420")
    case True
    obtain ret v2 r2 where rs: "resize_frame env vf r1 i_width = (ret, v2, r2)"
      by (cases "resize_frame env vf r1 i_width") auto
    then have g: "0 \<le> ret" "filter_tail env is_wide i420 v2 r2 = Some (Inr (vf', rf'))"
      using f True by (auto split: if_splits)
    note z = resize_fmt [OF rs g(1) t(2)]
    have "img_csp (rf_img r2) \<in> {AV_PIX_FMT_YUV422P10, AV_PIX_FMT_YUV420P10, AV_PIX_FMT_YUV420P}"
      using z assms(4) t(1) by (auto simp: sws_target_def)
    from filter_tail_fmt [OF g(2) assms(2) this] show ?thesis
      using z assms(4) t(1) True r1
      by (auto simp: sws_target_def vf_ok_def scaled_to_420_def split: if_splits)
  next
    case False
    then have g: "filter_tail env is_wide i420 vf r1 = Some (Inr (vf', rf'))"
      using f unfolding if_not_P [OF False] by simp
    have "img_csp (rf_img r1) \<in> {AV_PIX_FMT_YUV422P10, AV_PIX_FMT_YUV420P10, AV_PIX_FMT_YUV420P}"
      using r1(1) assms(4) by auto
    from filter_tail_fmt [OF g assms(2) this] show ?thesis
      using assms(3,4) False r1 by (auto simp: scaled_to_420_def)
  qed
qed

text \<open>C15 A frame the filter passes on has the width the encoder was set up for, and for each of the formats the
  capture cards deliver its format is known.  A 10-bit 4:2:2 picture has the chroma format of the encoder and
  the bit depth the encoder was built with, except that a progressive picture whose width had to be scaled
  is always 4:2:0; an 8-bit 4:2:0 picture stays one, whatever the encoder was set up for; and a frame that
  is already coded passes through unchanged.  The scaling context stays right for the frames that follow.\<close>

theorem filter_delivers_target_format:
  assumes "filter_video_frame env i_width is_wide i420 vf rf = Some (Inr (vf', rf'))"
    and "av_tables_ok env" "vf_ok vf rf"
    and "img_csp (rf_alloc_img rf) = AV_PIX_FMT_QSV \<or> img_csp (rf_img rf) = AV_PIX_FMT_YUV422P10
      \<or> img_csp (rf_img rf) = AV_PIX_FMT_YUV420P"
  shows "if img_csp (rf_alloc_img rf) = AV_PIX_FMT_QSV then vf' = vf \<and> rf' = rf
    else vf_ok vf' rf \<and> img_width (rf_img rf') = i_width \<and> img_format (rf_img rf') = img_format (rf_img rf)
      \<and> img_csp (rf_img rf') =
        (if img_csp (rf_img rf) = AV_PIX_FMT_YUV420P then AV_PIX_FMT_YUV420P
         else if i420 \<or> \<not> is_interlaced (img_format (rf_img rf)) \<and> img_width (rf_img rf) \<noteq> i_width
         then if vx_bit_depth env = 8 then AV_PIX_FMT_YUV420P else AV_PIX_FMT_YUV420P10
         else if vx_bit_depth env = 8 then AV_PIX_FMT_YUV422P else AV_PIX_FMT_YUV422P10)"
proof (cases "img_csp (rf_alloc_img rf) = AV_PIX_FMT_QSV")
  case True
  then show ?thesis
    using assms(1) by (simp add: filter_video_frame_def)
next
  case False
  then show ?thesis
    using filter_video_frame_fmt [OF assms(1-3)] assms(4) by (simp add: scaled_to_420_def)
qed

text \<open>A progressive frame that has to be scaled leaves the filter as 4:2:0 although the encoder is
  set up for 4:2:2: the scaler's target format does not look at the encoder's.\<close>

theorem scaled_progressive_loses_422:
  assumes "filter_video_frame env i_width is_wide False vf rf = Some (Inr (vf', rf'))"
    and "av_tables_ok env" "vf_ok vf rf"
    and "img_csp (rf_img rf) = AV_PIX_FMT_YUV422P10" "img_csp (rf_alloc_img rf) \<noteq> AV_PIX_FMT_QSV"
    and "\<not> is_interlaced (img_format (rf_img rf))" "img_width (rf_img rf) \<noteq> i_width"
  shows "img_csp (rf_img rf') = AV_PIX_FMT_YUV420P \<or> img_csp (rf_img rf') = AV_PIX_FMT_YUV420P10"
  using filter_video_frame_fmt [OF assms(1-3)] assms(4-7) by (auto simp: scaled_to_420_def)

definition vf_wit :: vid_filter_ctx where
  "vf_wit = \<lparr>vf_sws_ctx = False, vf_dst_pix_fmt = AV_PIX_FMT_YUV420P\<rparr>"

lemma filter_wit_runs:
  "\<exists>vf' rf'. filter_video_frame vid_env_wit 2 0 False vf_wit (rf_422 INPUT_VIDEO_FORMAT_1080I_50) = Some (Inr (vf', rf'))"
  "\<exists>vf' rf'. filter_video_frame vid_env_wit 6 0 False vf_wit (rf_422 INPUT_VIDEO_FORMAT_720P_50) = Some (Inr (vf', rf'))"
  by (simp_all add: filter_video_frame_def rf_422_def Let_def vid_env_wit_def is_interlaced_def
      encapsulate_user_data_def rf_wit_def new_raw_frame_def resize_frame_def vf_wit_def new_image_def)

lemma av_tables_wit: "av_tables_ok vid_env_wit" "vf_ok vf_wit rf"
  by (simp_all add: av_tables_ok_def vid_env_wit_def vf_ok_def vf_wit_def)

theorem filter_delivers_target_format_witness:
  "(\<exists>vf' rf'. filter_video_frame vid_env_wit 2 0 False vf_wit (rf_422 INPUT_VIDEO_FORMAT_1080I_50) = Some (Inr (vf', rf'))
     \<and> img_csp (rf_img rf') = AV_PIX_FMT_YUV422P10)
   \<and> (\<exists>vf' rf'. filter_video_frame vid_env_wit 6 0 False vf_wit (rf_422 INPUT_VIDEO_FORMAT_720P_50) = Some (Inr (vf', rf'))
     \<and> img_csp (rf_img rf') = AV_PIX_FMT_YUV420P10 \<and> img_width (rf_img rf') = 6)"
proof -
  obtain vf1 rf1 vf2 rf2
    where f: "filter_video_frame vid_env_wit 2 0 False vf_wit (rf_422 INPUT_VIDEO_FORMAT_1080I_50) = Some (Inr (vf1, rf1))"
      "filter_video_frame vid_env_wit 6 0 False vf_wit (rf_422 INPUT_VIDEO_FORMAT_720P_50) = Some (Inr (vf2, rf2))"
    using filter_wit_runs by blast
  have c: "img_csp (rf_img (rf_422 x)) = AV_PIX_FMT_YUV422P10" for x
    by (simp add: rf_422_def Let_def)
  show ?thesis
    using filter_delivers_target_format [OF f(1) av_tables_wit] filter_delivers_target_format [OF f(2) av_tables_wit] f c
    by (simp add: rf_422_def vid_env_wit_def Let_def is_interlaced_def)
qed

theorem scaled_progressive_loses_422_witness:
  "\<exists>vf' rf'. filter_video_frame vid_env_wit 6 0 False vf_wit (rf_422 INPUT_VIDEO_FORMAT_720P_50) = Some (Inr (vf', rf'))
     \<and> (img_csp (rf_img rf') = AV_PIX_FMT_YUV420P \<or> img_csp (rf_img rf') = AV_PIX_FMT_YUV420P10)"
proof -
  obtain vf' rf' where f: "filter_video_frame vid_env_wit 6 0 False vf_wit (rf_422 INPUT_VIDEO_FORMAT_720P_50)
      = Some (Inr (vf', rf'))"
    using filter_wit_runs(2) by blast
  show ?thesis
    using scaled_progressive_loses_422 [OF f av_tables_wit] f
    by (simp add: rf_422_def Let_def is_interlaced_def)
qed

end
