(* ===== verification/Obe_Core.thy ===== *)
theory Obe_Core
  imports Obe_Types "HOL-Library.Signed_Division" "HOL-Library.Multiset"
begin

text \<open>
  The core, \<open>obe/obe.c\<close>: the clocks, the encoder handle with its stages, the queues between them,
  probing, set-up, and the start and shutdown of the threads.  Allocation outcomes are arguments.
  \<open>obe_start\<close> returns the threads it has created, \<open>obe_close\<close> the threads it joins; \<open>pthread_create\<close> is
  taken to succeed, because the code does not notice when it does not.
\<close>

section \<open>Clocks\<close>

text \<open>The monotonic clock is a number of seconds and nanoseconds; a tick is 1/27000000 s.\<close>

(* src: obe/obe.c 601-607 get_wallclock_in_mpeg_ticks *)
definition get_wallclock_in_mpeg_ticks :: "int \<Rightarrow> int \<Rightarrow> int" where
  "get_wallclock_in_mpeg_ticks sec nsec = sec * 27000000 + (nsec * 27) sdiv 1000"

text \<open>The time \<open>sleep_mpeg_ticks\<close> sleeps until.\<close>

(* src: obe/obe.c 648-660 sleep_mpeg_ticks *)
definition sleep_mpeg_ticks :: "int \<Rightarrow> int \<times> int" where
  "sleep_mpeg_ticks i_time = (i_time sdiv 27000000, ((i_time smod 27000000) * 1000) sdiv 27)"

record obe_clock =
  clk_last_pts :: int
  clk_last_wallclock :: int

(* src: obe/obe.c 662-670 obe_clock_tick *)
definition obe_clock_tick :: "int \<Rightarrow> int \<Rightarrow> obe_clock \<Rightarrow> obe_clock" where
  "obe_clock_tick now value h = h\<lparr>clk_last_pts := value, clk_last_wallclock := now\<rparr>"

(* src: obe/obe.c 672-680 get_input_clock_in_mpeg_ticks *)
definition get_input_clock_in_mpeg_ticks :: "int \<Rightarrow> obe_clock \<Rightarrow> int" where
  "get_input_clock_in_mpeg_ticks now h = clk_last_pts h + (now - clk_last_wallclock h)"

(* src: obe/obe.c 682-690 sleep_input_clock *)
definition sleep_input_clock :: "obe_clock \<Rightarrow> int \<Rightarrow> int \<times> int" where
  "sleep_input_clock h i_time = sleep_mpeg_ticks ((i_time - clk_last_pts h) + clk_last_wallclock h)"

text \<open>Before the first tick both values are zero.\<close>

definition zero_clock :: obe_clock where
  "zero_clock = \<lparr>clk_last_pts = 0, clk_last_wallclock = 0\<rparr>"

section \<open>The encoder's state\<close>

text \<open>The format the video filter thread is given in its parameters is kept with the filter.\<close>

(* src: common/common.h 468-476 obe_filter_t *)
record obe_filter =
  fl_target_csp :: "int option"
  fl_stream_id_list :: "int list"
  fl_queue :: "raw_frame obe_queue"
  fl_cancel_thread :: bool

(* src: common/common.h 483-499 obe_encoder_t *)
record obe_encoder =
  en_output_stream_id :: int
  en_is_ready :: bool
  en_is_video :: bool
  en_format :: stream_formats
  en_queue :: "raw_frame obe_queue"
  en_cancel_thread :: bool
  en_num_samples :: int

(* src: common/common.h 501-510 obe_output_t *)
record obe_output =
  ou_dest :: output_dest
  ou_cancel_thread :: bool

(* src: common/common.h 181-200 obe_device_t *)
record obe_device =
  dv_type :: input_type
  dv_program_num :: int
  dv_ts_id :: int
  dv_pmt_pid :: int
  dv_pcr_pid :: int
  dv_input_streams :: "int_input_stream list"
  dv_probed_streams :: "input_stream list"

(* src: common/common.h 555-640 obe_t *)
record obe_t =
  h_is_active :: bool
  h_system :: int
  h_clock :: obe_clock
  h_devices :: "obe_device list"
  h_output_streams :: "output_stream list"
  h_filters :: "obe_filter list"
  h_encoders :: "obe_encoder list"
  h_outputs :: "obe_output list"
  h_mux_queue :: "coded_frame obe_queue"
  h_mux_opts :: mux_opts
  h_probe_time_seconds :: nat

(* src: common/common.h 56-57 MAX_DEVICES *)
definition MAX_DEVICES :: nat where
  "MAX_DEVICES = 1"

definition MAX_STREAMS :: nat where
  "MAX_STREAMS = 40"

(* src: obe/obe.c 587-598 obe_set_config *)
definition obe_set_config :: "obe_t \<Rightarrow> int \<Rightarrow> int \<times> obe_t" where
  "obe_set_config h system_type =
     (if system_type < 0 \<and> system_type > 2 then (-1, h) else (0, h\<lparr>h_system := system_type\<rparr>))"

section \<open>Queues between the stages\<close>

text \<open>Only the inner loop is left at a match: the last filter that lists the stream is used.\<close>

fun last_match :: "('a \<Rightarrow> bool) \<Rightarrow> 'a list \<Rightarrow> nat \<Rightarrow> nat option \<Rightarrow> nat option" where
  "last_match P [] i best = best"
| "last_match P (x # xs) i best = last_match P xs (i + 1) (if P x then Some i else best)"

fun first_match :: "('a \<Rightarrow> bool) \<Rightarrow> 'a list \<Rightarrow> nat \<Rightarrow> nat option" where
  "first_match P [] i = None"
| "first_match P (x # xs) i = (if P x then Some i else first_match P xs (i + 1))"

(* src: obe/obe.c 331-354 add_to_filter_queue *)
definition add_to_filter_queue :: "bool \<Rightarrow> obe_t \<Rightarrow> raw_frame \<Rightarrow> (int \<times> obe_t) option" where
  "add_to_filter_queue ok h rf =
     (case last_match (\<lambda>f. rf_input_stream_id rf \<in> set (fl_stream_id_list f)) (h_filters h) 0 None of
        None \<Rightarrow> Some (-1, h)
      | Some i \<Rightarrow>
          let f = h_filters h ! i
          in map_option (\<lambda>(r, q). (r, h\<lparr>h_filters := (h_filters h)[i := f\<lparr>fl_queue := q\<rparr>]\<rparr>))
               (add_to_queue ok rf (fl_queue f)))"

(* src: obe/obe.c 374-391 add_to_encode_queue *)
definition add_to_encode_queue :: "bool \<Rightarrow> obe_t \<Rightarrow> raw_frame \<Rightarrow> int \<Rightarrow> (int \<times> obe_t) option" where
  "add_to_encode_queue ok h rf output_stream_id =
     (case first_match (\<lambda>e. en_output_stream_id e = output_stream_id) (h_encoders h) 0 of
        None \<Rightarrow> Some (-1, h)
      | Some i \<Rightarrow>
          let e = h_encoders h ! i
          in map_option (\<lambda>(r, q). (r, h\<lparr>h_encoders := (h_encoders h)[i := e\<lparr>en_queue := q\<rparr>]\<rparr>))
               (add_to_queue ok rf (en_queue e)))"

text \<open>The caller holds the mutex; the index is not advanced past a removed frame.\<close>

(* src: obe/obe.c 452-475 remove_early_frames *)
function early_loop :: "bool \<Rightarrow> int \<Rightarrow> nat \<Rightarrow> coded_frame obe_queue \<Rightarrow> int \<times> coded_frame obe_queue" where
  "early_loop ok pts i q =
     (if int i < q_size q
      then let frame = q_buf q ! i
           in if cf_type frame \<noteq> CF_VIDEO \<and> cf_pts frame < pts
              then let n = q_size q - 1;
                       b = splice i (take (nat n - i) (drop (i + 1) (q_buf q))) (q_buf q)
                   in case realloc_cells ok n b of
                        Some b' \<Rightarrow> early_loop ok pts i (q\<lparr>q_buf := b', q_size := n\<rparr>)
                      | None \<Rightarrow> if n \<noteq> 0 then (-1, q\<lparr>q_buf := b, q_size := n\<rparr>)
                                else early_loop ok pts i (q\<lparr>q_buf := [], q_size := n\<rparr>)
              else early_loop ok pts (i + 1) q
      else (0, q))"
  by auto
termination
  by (relation "measure (\<lambda>(ok, pts, i, q). nat (q_size q - int i))") auto

declare early_loop.simps [simp del]

(* src: obe/obe.c 452-475 remove_early_frames *)
definition remove_early_frames :: "bool \<Rightarrow> obe_t \<Rightarrow> int \<Rightarrow> int \<times> obe_t" where
  "remove_early_frames ok h pts =
     (case early_loop ok pts 0 (h_mux_queue h) of (r, q) \<Rightarrow> (r, h\<lparr>h_mux_queue := q\<rparr>))"

section \<open>Look-ups\<close>

text \<open>Without a device the first cell of the array is NULL.\<close>

(* src: obe/obe.c 490-498 get_input_stream *)
definition get_input_stream :: "obe_t \<Rightarrow> int \<Rightarrow> int_input_stream option option" where
  "get_input_stream h input_stream_id =
     do { d \<leftarrow> at (h_devices h) 0;
          Some (find (\<lambda>s. iis_input_stream_id s = input_stream_id) (dv_input_streams d)) }"

(* src: obe/obe.c 501-509 get_encoder *)
definition get_encoder :: "obe_t \<Rightarrow> int \<Rightarrow> obe_encoder option" where
  "get_encoder h output_stream_id = find (\<lambda>e. en_output_stream_id e = output_stream_id) (h_encoders h)"

text \<open>The identifier is used as an index.\<close>

(* src: obe/obe.c 512-519 obe_core_get_output_stream_queue_depth *)
definition obe_core_get_output_stream_queue_depth :: "obe_t \<Rightarrow> nat \<Rightarrow> int option" where
  "obe_core_get_output_stream_queue_depth h output_stream_id =
     map_option (\<lambda>e. q_size (en_queue e)) (at (h_encoders h) output_stream_id)"

(* src: common/common.h 272-290 non_display_data_locations *)
definition non_display_data_locations :: "(stream_formats \<times> user_data_location) list" where
  "non_display_data_locations =
     [(MISC_TELETEXT, USER_DATA_LOCATION_DVB_STREAM), (MISC_TELETEXT_INVERTED, USER_DATA_LOCATION_DVB_STREAM),
      (MISC_WSS, USER_DATA_LOCATION_DVB_STREAM), (MISC_VPS, USER_DATA_LOCATION_DVB_STREAM),
      (CAPTIONS_CEA_608, USER_DATA_LOCATION_FRAME), (CAPTIONS_CEA_708, USER_DATA_LOCATION_FRAME),
      (MISC_AFD, USER_DATA_LOCATION_FRAME), (MISC_BAR_DATA, USER_DATA_LOCATION_FRAME),
      (MISC_PAN_SCAN, USER_DATA_LOCATION_FRAME), (VBI_AMOL_48, USER_DATA_LOCATION_DVB_STREAM),
      (VBI_AMOL_96, USER_DATA_LOCATION_DVB_STREAM), (VBI_NABTS, USER_DATA_LOCATION_DVB_STREAM),
      (VBI_TVG2X, USER_DATA_LOCATION_DVB_STREAM), (VBI_CP, USER_DATA_LOCATION_DVB_STREAM)]"

(* src: obe/obe.c 692-702 get_non_display_location *)
definition get_non_display_location :: "stream_formats \<Rightarrow> user_data_location option" where
  "get_non_display_location t = map_of non_display_data_locations t"

text \<open>A new encoder handle: everything is 0 but the probe time.\<close>

definition mux_opts_zero :: mux_opts where
  "mux_opts_zero = \<lparr>mo_ts_type = 0, mo_cbr = 0, mo_ts_muxrate = 0, mo_passthrough = 0, mo_ts_id = 0,
     mo_program_num = 0, mo_pmt_pid = 0, mo_pcr_pid = 0, mo_scte35_pids = [], mo_smpte2038_pid = 0,
     mo_smpte2031_pid = 0, mo_pcr_period = 0, mo_pat_period = 0, mo_is_3dtv = 0, mo_service_name = None,
     mo_provider_name = None, mo_section_padding = 0\<rparr>"

(* src: obe/obe.c 545-585 obe_setup *)
definition obe_setup :: "nat \<Rightarrow> bool \<Rightarrow> obe_t option" where
  "obe_setup x264_bit_depth calloc_ok =
     (if x264_bit_depth = 9 \<or> 10 < x264_bit_depth \<or> \<not> calloc_ok then None
      else Some \<lparr>h_is_active = False, h_system = 0, h_clock = zero_clock, h_devices = [],
                 h_output_streams = [], h_filters = [], h_encoders = [], h_outputs = [],
                 h_mux_queue = zeroed_queue, h_mux_opts = mux_opts_zero,
                 h_probe_time_seconds = 20\<rparr>)"

text \<open>A stream is found by its PID, but its input identifier is returned.\<close>

(* src: obe/obe.c 2301-2310 obe_core_findOutputStreamIdByPID *)
definition obe_core_findOutputStreamIdByPID :: "output_stream list \<Rightarrow> int \<Rightarrow> int" where
  "obe_core_findOutputStreamIdByPID outs pidnr =
     (case find (\<lambda>s. tso_pid (os_ts_opts s) = pidnr) outs of
        None \<Rightarrow> -1 | Some s \<Rightarrow> os_input_stream_id s)"

(* src: obe/obe.c 2275-2278 obe_core_get_payload_packets *)
definition obe_core_get_payload_packets :: "int \<Rightarrow> int" where
  "obe_core_get_payload_packets g_core_payload_size = g_core_payload_size sdiv 188"


section \<open>Probing\<close>

text \<open>Input back ends the build contains.\<close>

record build_config =
  bc_decklink :: bool
  bc_bluefish :: bool
  bc_ndi :: bool
  bc_dektec :: bool
  bc_vega3301 :: bool
  bc_vega3311 :: bool
  bc_linux :: bool
  bc_apple :: bool
  bc_x265 :: bool
  bc_va :: bool

(* src: obe/obe.c 1206-1252 obe_start *)
definition input_supported :: "build_config \<Rightarrow> input_type \<Rightarrow> bool" where
  "input_supported bc t =
     (case t of
        INPUT_URL \<Rightarrow> False
      | INPUT_DEVICE_DECKLINK \<Rightarrow> bc_decklink bc
      | INPUT_DEVICE_BLUEFISH \<Rightarrow> bc_bluefish bc
      | INPUT_DEVICE_NDI \<Rightarrow> bc_ndi bc
      | INPUT_DEVICE_DEKTEC \<Rightarrow> bc_dektec bc
      | INPUT_DEVICE_VEGA3301 \<Rightarrow> bc_vega3301 bc
      | INPUT_DEVICE_VEGA3311 \<Rightarrow> bc_vega3311 bc
      | INPUT_DEVICE_V210 \<Rightarrow> True
      | INPUT_DEVICE_LINSYS_SDI \<Rightarrow> bc_linux bc
      | INPUT_DEVICE_V4L2 \<Rightarrow> bc_linux bc
      | INPUT_DEVICE_AVFOUNDATION \<Rightarrow> bc_apple bc)"

text \<open>
  The members a probed stream takes from the device's stream; those of other stream types stay 0.
  The audio members are copied with one \<open>memcpy\<close> of 28 bytes from \<open>channel_layout\<close> on.  The
  destination has \<open>dialnorm\<close> between \<open>sdi_audio_pair\<close> and \<open>sample_format\<close>, the source has not.
\<close>

(* src: obe/obe.c 910-940 obe_probe_device *)
definition clone_input_stream :: "int_input_stream \<Rightarrow> input_stream" where
  "clone_input_stream s =
     (let video = (iis_stream_type s = STREAM_TYPE_VIDEO); audio = (iis_stream_type s = STREAM_TYPE_AUDIO)
      in \<lparr>is_input_stream_id = iis_input_stream_id s, is_stream_type = iis_stream_type s,
          is_stream_format = iis_stream_format s, is_lang_code = iis_lang_code s,
          is_csp = (if video then iis_csp s else 0),
          is_width = (if video then iis_width s else 0),
          is_height = (if video then iis_height s else 0),
          is_sar_num = (if video then iis_sar_num s else 0),
          is_sar_den = (if video then iis_sar_den s else 0),
          is_interl = (if video then iis_interlaced s else 0),
          is_timebase_num = (if video then iis_timebase_num s else 0),
          is_timebase_den = (if video then iis_timebase_den s else 0),
          is_frame_data = iis_frame_data s,
          is_channel_layout = (if audio then iis_channel_layout s else 0),
          is_num_channels = (if audio then iis_num_channels s else 0),
          is_sample_rate = (if audio then iis_sample_rate s else 0),
          is_sdi_audio_pair = iis_sdi_audio_pair s,
          is_dialnorm = (if audio then iis_sample_format s else 0),
          is_sample_format = (if audio then iis_bitrate s else 0),
          is_bitrate = iis_bitrate s,
          is_aac_is_latm = (if audio then iis_is_latm s else 0),
          is_dvb_has_dds = 0,
          is_hdr_flag = (if video then iis_is_hdr s else 0)\<rparr>)"

text \<open>
  The probe thread adds at most one device; \<open>pthread_create\<close> reports an error with a positive number,
  so the test for a negative one never holds.
\<close>

(* src: obe/obe.c 730-953 obe_probe_device *)
definition obe_probe_device ::
    "build_config \<Rightarrow> bool \<Rightarrow> bool \<Rightarrow> obe_t \<Rightarrow> obe_input \<Rightarrow> obe_device option
     \<Rightarrow> int \<times> obe_t \<times> input_stream list" where
  "obe_probe_device bc malloc_ok calloc_ok h input_device probed =
     (if length (h_devices h) = MAX_DEVICES then (-1, h, [])
      else if \<not> input_supported bc (in_type input_device) then (-1, h, [])
      else if \<not> malloc_ok then (-1, h, [])
      else case probed of
             None \<Rightarrow> (-1, h, [])
           | Some d \<Rightarrow>
               let streams = map clone_input_stream (dv_input_streams d)
               in if \<not> calloc_ok then (-1, h\<lparr>h_devices := h_devices h @ [d]\<rparr>, [])
                  else (0, h\<lparr>h_devices := h_devices h @ [d\<lparr>dv_probed_streams := streams\<rparr>]\<rparr>, streams))"

section \<open>Encoder parameters\<close>

text \<open>The members of x264's parameters the core sets; the defaults of x264 are an argument.\<close>

record x264_param =
  xp_deterministic :: int
  xp_vfr_input :: int
  xp_pic_struct :: int
  xp_open_gop :: int
  xp_width :: int
  xp_height :: int
  xp_fps_num :: int
  xp_fps_den :: int
  xp_interlaced :: int
  xp_tff :: int
  xp_frame_reference :: int
  xp_sar_width :: int
  xp_sar_height :: int
  xp_overscan :: int
  xp_vidformat :: int
  xp_colorprim :: int
  xp_transfer :: int
  xp_colmatrix :: int
  xp_keyint_max :: int
  xp_aud :: int
  xp_speed_buffer :: int
  xp_lookahead :: int
  xp_trellis_adapt :: bool

definition set_colour :: "int \<Rightarrow> x264_param \<Rightarrow> x264_param" where
  "set_colour c p = p\<lparr>xp_colorprim := c, xp_transfer := c, xp_colmatrix := c\<rparr>"

(* src: obe/obe.c 1011-1046 obe_populate_avc_encoder_params *)
definition avc_vui :: "x264_param \<Rightarrow> x264_param" where
  "avc_vui p =
     (let num = xp_fps_num p; den = xp_fps_den p
      in if (num = 25 \<or> num = 50) \<and> den = 1
         then set_colour 5 (p\<lparr>xp_vidformat := 1, xp_keyint_max := (if num = 50 then 48 else 24)\<rparr>)
         else if (num = 30000 \<or> num = 60000) \<and> den = 1001
         then set_colour 6 (p\<lparr>xp_vidformat := 2, xp_keyint_max := num sdiv 1000\<rparr>)
         else if (num = 30 \<or> num = 60) \<and> den = 1
         then set_colour 6 (p\<lparr>xp_vidformat := 2, xp_keyint_max := (if num = 60 then 59 else 29)\<rparr>)
         else if num = 24 \<and> den = 1
         then p\<lparr>xp_vidformat := 2, xp_keyint_max := num\<rparr>
         else set_colour 2 (p\<lparr>xp_vidformat := 5\<rparr>))"

text \<open>
  \<open>defaults\<close> gives x264's defaults: the preset with \<open>zerolatency\<close> for the low latency systems, with
  the tuning the user asked for, or the plain ones.
\<close>

(* src: obe/obe.c 955-1076 obe_populate_avc_encoder_params *)
definition obe_populate_avc_encoder_params ::
    "(string option \<Rightarrow> string option \<Rightarrow> x264_param) \<Rightarrow> obe_t \<Rightarrow> int \<Rightarrow> string option \<Rightarrow> string option
     \<Rightarrow> (x264_param option) option" where
  "obe_populate_avc_encoder_params defaults h input_stream_id preset_name tuning_name =
     do { found \<leftarrow> get_input_stream h input_stream_id;
          Some (case found of
            None \<Rightarrow> None
          | Some stream \<Rightarrow>
              if iis_stream_type stream \<noteq> STREAM_TYPE_VIDEO then None
              else
                let p = (if h_system h = 1 \<or> h_system h = 2 then defaults preset_name (Some ''zerolatency'')
                         else if tuning_name \<noteq> None then defaults preset_name tuning_name
                         else defaults None None);
                    p = p\<lparr>xp_deterministic := 0, xp_vfr_input := 0, xp_pic_struct := 1, xp_open_gop := 1,
                          xp_width := iis_width stream, xp_height := iis_height stream,
                          xp_fps_num := iis_timebase_den stream, xp_fps_den := iis_timebase_num stream,
                          xp_interlaced := iis_interlaced stream\<rparr>;
                    p = (if xp_interlaced p \<noteq> 0 then p\<lparr>xp_tff := iis_tff stream\<rparr> else p);
                    p = (if h_system h = 0 then p\<lparr>xp_frame_reference := 4\<rparr> else p);
                    p = (if iis_sar_num stream \<noteq> 0 \<and> iis_sar_den stream \<noteq> 0
                         then p\<lparr>xp_sar_width := iis_sar_num stream, xp_sar_height := iis_sar_den stream\<rparr> else p);
                    p = avc_vui (p\<lparr>xp_overscan := 2\<rparr>);
                    p = (if 1280 \<le> xp_width p \<and> 720 \<le> xp_height p then set_colour 1 p else p);
                    p = p\<lparr>xp_aud := 1\<rparr>
                in Some (if h_system h = 0
                         then p\<lparr>xp_speed_buffer := 12,
                                xp_trellis_adapt := (xp_width p < 1280 \<or> xp_height p < 720 \<or> xp_trellis_adapt p),
                                xp_lookahead := xp_keyint_max p\<rparr>
                         else p)) }"

section \<open>Set-up\<close>

text \<open>When the copy of the streams cannot be allocated the array is NULL but its length is set; the model
  has no streams then.\<close>

(* src: obe/obe.c 1078-1102 obe_setup_streams *)
definition obe_setup_streams :: "bool \<Rightarrow> obe_t \<Rightarrow> output_stream list \<Rightarrow> int \<times> obe_t" where
  "obe_setup_streams ok h output_streams =
     (if output_streams = [] then (-1, h)
      else if \<not> ok then (-1, h\<lparr>h_output_streams := []\<rparr>)
      else (0, h\<lparr>h_output_streams := output_streams\<rparr>))"

text \<open>The names are copied into memory of their own; each allocation may fail.\<close>

(* src: obe/obe.c 1104-1134 obe_setup_muxer *)
definition obe_setup_muxer :: "bool \<Rightarrow> bool \<Rightarrow> obe_t \<Rightarrow> mux_opts \<Rightarrow> int \<times> obe_t" where
  "obe_setup_muxer ok1 ok2 h opts =
     (let h = h\<lparr>h_mux_opts := opts\<rparr>
      in if mo_service_name opts \<noteq> None \<and> \<not> ok1
         then (-1, h\<lparr>h_mux_opts := opts\<lparr>mo_service_name := None\<rparr>\<rparr>)
         else if mo_provider_name opts \<noteq> None \<and> \<not> ok2
         then (-1, h\<lparr>h_mux_opts := opts\<lparr>mo_provider_name := None\<rparr>\<rparr>)
         else (0, h))"

(* src: obe/obe.c 1136-1175 obe_setup_output *)
definition obe_setup_output :: "bool \<Rightarrow> obe_t \<Rightarrow> output_dest list \<Rightarrow> int \<times> obe_t" where
  "obe_setup_output ok h dests =
     (if dests = [] \<or> \<not> ok then (-1, h)
      else (0, h\<lparr>h_outputs := map (\<lambda>d. \<lparr>ou_dest = d, ou_cancel_thread = False\<rparr>) dests\<rparr>))"


section \<open>Starting and closing\<close>

datatype obe_thread =
    T_INPUT nat | T_FILTER nat | T_ENCODER nat | T_ENC_SMOOTHING | T_MUX | T_MUX_SMOOTHING | T_OUTPUT nat

(* src: obe/obe.c 1255-1282 obe_start *)
fun start_outputs :: "obe_output list \<Rightarrow> nat \<Rightarrow> obe_thread list \<Rightarrow> bool \<times> obe_thread list" where
  "start_outputs [] i ts = (True, ts)"
| "start_outputs (ou # os) i ts =
     (if od_type (ou_dest ou) = OUTPUT_UDP \<or> od_type (ou_dest ou) = OUTPUT_RTP
         \<or> od_type (ou_dest ou) = OUTPUT_FILE_TS
      then start_outputs os (i + 1) (ts @ [T_OUTPUT i]) else (False, ts))"

text \<open>The formats a video encoder thread of the build takes.\<close>

definition video_encoder_for :: "build_config \<Rightarrow> stream_formats \<Rightarrow> bool" where
  "video_encoder_for bc f \<longleftrightarrow>
     f = VIDEO_AVC \<or> f = VIDEO_HEVC_GPU_NVENC_AVCODEC
     \<or> bc_vega3301 bc \<and> f = VIDEO_HEVC_VEGA3301
     \<or> bc_vega3311 bc \<and> (f = VIDEO_HEVC_VEGA3311 \<or> f = VIDEO_AVC_VEGA3311)
     \<or> bc_x265 bc \<and> f = VIDEO_HEVC_X265
     \<or> bc_va bc \<and> (f = VIDEO_AVC_CPU_AVCODEC \<or> f = VIDEO_AVC_GPU_VAAPI_AVCODEC
          \<or> f = VIDEO_HEVC_GPU_VAAPI_AVCODEC \<or> f = VIDEO_HEVC_CPU_AVCODEC
          \<or> f = VIDEO_AVC_VAAPI \<or> f = VIDEO_HEVC_VAAPI)"

definition audio_encoder_for :: "stream_formats \<Rightarrow> bool" where
  "audio_encoder_for f \<longleftrightarrow> f = AUDIO_AC_3 \<or> f = AUDIO_E_AC_3 \<or> f = AUDIO_AAC \<or> f = AUDIO_MP2"

text \<open>\<open>double\<close> division of integers below 2 to the 53, truncated, is integer division; a zero divisor
  makes the conversion to \<open>int\<close> undefined.\<close>

definition trunc_div :: "int \<Rightarrow> int \<Rightarrow> int option" where
  "trunc_div a b = (if b = 0 then None else Some (a sdiv b))"

definition audio_num_samples :: "stream_formats \<Rightarrow> int" where
  "audio_num_samples f = (if f = AUDIO_MP2 then 1152 else if f = AUDIO_AAC then 1024 else 1536)"

(* src: obe/obe.c 1651-1665 obe_start *)
definition choose_frames_per_pes :: "obe_t \<Rightarrow> output_stream \<Rightarrow> int \<Rightarrow> int option" where
  "choose_frames_per_pes h os sample_rate =
     (if tso_frames_per_pes (os_ts_opts os) = 0 \<and> h_system h = 0 \<and> os_stream_format os \<noteq> AUDIO_E_AC_3
      then let f = os_stream_format os;
               buf_size = (if f = AUDIO_MP2 \<or> f = AUDIO_AAC then 3584 else 5696);
               buf_size = (if buf_size = 5696 \<and> (mo_ts_type (h_mux_opts h) = 2 \<or> mo_ts_type (h_mux_opts h) = 3)
                           then 2592 else buf_size)
           in do { single \<leftarrow> trunc_div (audio_num_samples f * 125 * os_bitrate os) sample_rate;
                   let single = (if os_aac_profile os = 1 \<or> os_aac_profile os = 2 then single * 2 else single);
                   n \<leftarrow> (if single = 0 then None else Some (buf_size sdiv single));
                   Some (min (max n 1) 6) }
      else Some 1)"

text \<open>
  Some allocation may fail: \<open>left\<close> is the number of those that succeed first.  The encoders of the
  output streams that are encoded: whether all were set up, the streams with their final options,
  the encoders, the threads, the samples per audio frame and the allocations left.  A format without
  an encoder in the build gets an encoder without a thread.  \<open>obe_core_encoder_alloc\<close> writes to the
  encoder before the caller tests the pointer.
\<close>

type_synonym encoders_state = "output_stream list \<times> obe_encoder list \<times> obe_thread list \<times> int \<times> nat"

(* src: obe/obe.c 1284-1688 obe_start *)
fun start_encoders ::
    "build_config \<Rightarrow> obe_t \<Rightarrow> output_stream list \<Rightarrow> encoders_state \<Rightarrow> (bool \<times> encoders_state) option" where
  "start_encoders bc h [] acc = Some (True, acc)"
| "start_encoders bc h (os # rest) (outs, encs, ts, num_samples, left) =
     (if os_stream_action os \<noteq> STREAM_ENCODE
      then start_encoders bc h rest (outs @ [os], encs, ts, num_samples, left)
      else if left = 0 \<or> MAX_STREAMS \<le> length encs then None
      else
        let f = os_stream_format os; t = T_ENCODER (length encs);
            e = \<lparr>en_output_stream_id = os_output_stream_id os, en_is_ready = False,
                 en_is_video = video_encoder_for bc f, en_format = f, en_queue = zeroed_queue,
                 en_cancel_thread = False, en_num_samples = 0\<rparr>;
            threaded = (video_encoder_for bc f \<or> f = AUDIO_AC_3_BITSTREAM \<or> audio_encoder_for f)
        in if threaded \<and> left = 1 then Some (False, outs @ os # rest, encs, ts, num_samples, 0)
           else if video_encoder_for bc f
           then do { os \<leftarrow> (if h_system h = 1
                            then do { v \<leftarrow> trunc_div (avc_vbv_max_bitrate (os_avc_param os) * avc_fps_den (os_avc_param os))
                                              (avc_fps_num (os_avc_param os));
                                      Some (os\<lparr>os_avc_param := (os_avc_param os)\<lparr>avc_vbv_buffer_size := v\<rparr>\<rparr>) }
                            else Some os);
                     start_encoders bc h rest (outs @ [os], encs @ [e], ts @ [t], num_samples, left - 2) }
           else if f = AUDIO_AC_3_BITSTREAM
           then start_encoders bc h rest (outs @ [os], encs @ [e], ts @ [t], num_samples, left - 2)
           else if audio_encoder_for f
           then do { found \<leftarrow> get_input_stream h (os_input_stream_id os);
                     s \<leftarrow> found;
                     n \<leftarrow> choose_frames_per_pes h os (iis_sample_rate s);
                     start_encoders bc h rest
                       (outs @ [os\<lparr>os_ts_opts := (os_ts_opts os)\<lparr>tso_frames_per_pes := n\<rparr>\<rparr>],
                        encs @ [e], ts @ [t], audio_num_samples f, left - 2) }
           else start_encoders bc h rest (outs @ [os], encs @ [e], ts, num_samples, left - 1))"

text \<open>A video filter takes its format from the output stream with the index of the input stream.\<close>

(* src: obe/obe.c 1729-1812 obe_start *)
fun start_filters ::
    "output_stream list \<Rightarrow> int_input_stream list \<Rightarrow> nat \<Rightarrow> obe_filter list \<times> obe_thread list \<times> nat
     \<Rightarrow> (bool \<times> obe_filter list \<times> obe_thread list \<times> nat) option" where
  "start_filters outs [] i acc = Some (True, acc)"
| "start_filters outs (s # rest) i (fs, ts, left) =
     (if iis_stream_type s = STREAM_TYPE_VIDEO \<or> iis_stream_type s = STREAM_TYPE_AUDIO
      then if MAX_STREAMS \<le> length fs then None
           else if left < 3 then Some (False, fs, ts, left)
           else do {
             csp \<leftarrow> (if iis_stream_type s = STREAM_TYPE_VIDEO
                    then do { os \<leftarrow> at outs i; Some (Some (avc_csp (os_avc_param os) AND 255)) }
                    else Some None);
             start_filters outs rest (i + 1)
               (fs @ [\<lparr>fl_target_csp = csp, fl_stream_id_list = [iis_input_stream_id s],
                       fl_queue = zeroed_queue, fl_cancel_thread = False\<rparr>],
                ts @ [T_FILTER (length fs)], left - 3) }
      else start_filters outs rest (i + 1) (fs, ts, left))"

text \<open>The threads joined, in order: those that were never started are skipped.\<close>

(* src: obe/obe.c 1845-1975 obe_close *)
definition obe_close :: "obe_t \<Rightarrow> obe_thread list \<Rightarrow> obe_thread list" where
  "obe_close h started =
     filter (\<lambda>t. t \<in> set started)
       (map T_INPUT [0..<length (h_devices h)]
        @ map T_FILTER [0..<length (h_filters h)]
        @ map T_ENCODER [0..<length (h_encoders h)]
        @ (if h_system h = 0 then [T_ENC_SMOOTHING] else [])
        @ [T_MUX, T_MUX_SMOOTHING]
        @ map T_OUTPUT [0..<length (h_outputs h)])"

text \<open>
  The state and the threads of a started encoder, or the state and the threads at the failure, which
  \<open>obe_close\<close> then joins.  The tests of \<open>pthread_create\<close> for a negative result never hold.
\<close>

(* src: obe/obe.c 1180-1842 obe_start *)
definition obe_start ::
    "build_config \<Rightarrow> nat \<Rightarrow> obe_t \<Rightarrow> (obe_t \<times> obe_thread list + obe_t \<times> obe_thread list) option" where
  "obe_start bc left h =
     do { d \<leftarrow> at (h_devices h) 0;
          let (outputs_ok, ts) = start_outputs (h_outputs h) 0 [];
          if \<not> input_supported bc (dv_type d) then Some (Inl (h, []))
          else if \<not> outputs_ok then Some (Inl (h, ts))
          else do {
            (encoders_ok, outs, encs, ts, num_samples, left) \<leftarrow>
               start_encoders bc h (h_output_streams h) ([], h_encoders h, ts, 0, left);
            let h = h\<lparr>h_output_streams := outs, h_encoders := encs\<rparr>;
            if \<not> encoders_ok then Some (Inl (h, ts))
            else do {
              let ts = ts @ (if h_system h = 0 then [T_ENC_SMOOTHING] else []) @ [T_MUX_SMOOTHING];
              if left = 0 then Some (Inl (h, ts))
              else do {
                (filters_ok, fs, ts, left) \<leftarrow>
                  start_filters outs (dv_input_streams d) 0 (h_filters h, ts @ [T_MUX], left - 1);
                let h = h\<lparr>h_filters := fs\<rparr>;
                if \<not> filters_ok \<or> left = 0 then Some (Inl (h, ts))
                else Some (Inr (h\<lparr>h_is_active := True\<rparr>, ts @ [T_INPUT 0])) } } } }"


section \<open>Clock facts\<close>

lemma sdiv_nonneg: "0 \<le> (a :: int) \<Longrightarrow> 0 < b \<Longrightarrow> a sdiv b = a div b"
  by (simp add: signed_divide_int_def sgn_if)

lemma smod_nonneg: "0 \<le> (a :: int) \<Longrightarrow> 0 < b \<Longrightarrow> a smod b = a mod b"
  by (cases "a = 0") (simp_all add: signed_modulo_int_def sgn_if)

text \<open>A sleep until a tick of the input clock ends at a valid time of the monotonic clock, in the
  tick before it or in the tick itself, and at that time the input clock reads the value asked for
  or one less: the two conversions lose less than a tick together.\<close>

theorem sleep_input_clock_wakes_in_time:
  assumes "0 \<le> i_time - clk_last_pts h + clk_last_wallclock h"
    and "sleep_input_clock h i_time = (sec, nsec)"
  shows "0 \<le> nsec \<and> nsec < 1000000000
    \<and> i_time - 1 \<le> get_input_clock_in_mpeg_ticks (get_wallclock_in_mpeg_ticks sec nsec) h
    \<and> get_input_clock_in_mpeg_ticks (get_wallclock_in_mpeg_ticks sec nsec) h \<le> i_time"
proof -
  define t where "t = i_time - clk_last_pts h + clk_last_wallclock h"
  define r where "r = t mod 27000000"
  have r: "0 \<le> r" "r < 27000000" "t = t div 27000000 * 27000000 + r"
    by (simp_all add: r_def)
  have s: "sec = t div 27000000" "nsec = r * 1000 div 27"
    using assms t_def by (simp_all add: sleep_input_clock_def sleep_mpeg_ticks_def sdiv_nonneg smod_nonneg r_def)
  have "27 * nsec + (r * 1000) mod 27 = r * 1000"
    unfolding s(2) by simp
  moreover have "0 \<le> (r * 1000) mod 27" "(r * 1000) mod 27 < 27"
    by simp_all
  ultimately have n: "27 * nsec \<le> r * 1000" "r * 1000 < 27 * nsec + 27" "0 \<le> nsec"
    using r(1) s(2) by (linarith, linarith, simp add: pos_imp_zdiv_nonneg_iff)
  define m where "m = nsec * 27 div 1000"
  have "1000 * m + (nsec * 27) mod 1000 = nsec * 27"
    unfolding m_def by simp
  moreover have "0 \<le> (nsec * 27) mod 1000" "(nsec * 27) mod 1000 < 1000"
    by simp_all
  ultimately have m: "1000 * m \<le> nsec * 27" "nsec * 27 < 1000 * m + 1000"
    by linarith+
  have "get_wallclock_in_mpeg_ticks sec nsec = t div 27000000 * 27000000 + m"
    using n(3) by (simp add: get_wallclock_in_mpeg_ticks_def sdiv_nonneg s(1) m_def)
  moreover have "r - 1 \<le> m" "m \<le> r" "nsec < 1000000000"
    using n m r(2) by linarith+
  ultimately show ?thesis
    using n(3) r(3) unfolding get_input_clock_in_mpeg_ticks_def t_def by linarith
qed

theorem sleep_input_clock_wakes_in_time_witness:
  "28000004 \<le> get_input_clock_in_mpeg_ticks (get_wallclock_in_mpeg_ticks 4 37037037) (obe_clock_tick 81000000 5 zero_clock)
   \<and> get_input_clock_in_mpeg_ticks (get_wallclock_in_mpeg_ticks 4 37037037) (obe_clock_tick 81000000 5 zero_clock) \<le> 28000005"
proof -
  have "sleep_input_clock (obe_clock_tick 81000000 5 zero_clock) 28000005 = (4, 37037037)"
    by (simp add: sleep_input_clock_def sleep_mpeg_ticks_def obe_clock_tick_def sdiv_nonneg smod_nonneg)
  from sleep_input_clock_wakes_in_time [OF _ this] show ?thesis
    by (simp add: obe_clock_tick_def)
qed

section \<open>The mux queue\<close>

lemma early_loop_spec:
  assumes "queue_ok q" "i \<le> length (queue_list q)"
  shows "\<exists>q'. early_loop True pts i q = (0, q') \<and> queue_ok q'
    \<and> queue_list q' = take i (queue_list q)
        @ filter (\<lambda>f. cf_type f = CF_VIDEO \<or> pts \<le> cf_pts f) (drop i (queue_list q))"
  using assms
proof (induction "True" pts i q rule: early_loop.induct)
  case (1 pts i q)
  define xs where "xs = queue_list q"
  have ok: "0 \<le> q_size q" "nat (q_size q) \<le> length (q_buf q)" "length xs = nat (q_size q)"
    using "1.prems"(1) by (simp_all add: queue_ok_def xs_def queue_list_def)
  show ?case
  proof (cases "int i < q_size q")
    case False
    then show ?thesis
      using "1.prems" ok by (simp add: early_loop.simps [of _ _ i q] xs_def)
  next
    case True
    define f where "f = q_buf q ! i"
    have f: "f = xs ! i" "i < length xs"
      using True ok by (auto simp: f_def xs_def queue_list_def)
    then have f3: "drop i xs = f # drop (Suc i) xs"
      by (simp add: Cons_nth_drop_Suc)
    show ?thesis
    proof (cases "cf_type f \<noteq> CF_VIDEO \<and> cf_pts f < pts")
      case False
      have e: "early_loop True pts i q = early_loop True pts (i + 1) q"
        using True False by (subst early_loop.simps) (auto simp: f_def [symmetric] Let_def)
      show ?thesis
        unfolding e using "1.hyps"(3) [OF True f_def] False "1.prems"(1) f f3
        by (fastforce simp: xs_def [symmetric] take_Suc_conv_app_nth)
    next
      case True
      define n where "n = q_size q - 1"
      define b where "b = splice i (take (nat n - i) (drop (i + 1) (q_buf q))) (q_buf q)"
      have lb: "length b = length (q_buf q)"
        using ok f(2) unfolding b_def by (subst length_splice) (auto simp: n_def)
      have tb: "take (nat n) b = take i xs @ drop (Suc i) xs"
        using ok f(2) by (auto simp: b_def n_def splice_def xs_def queue_list_def min_def take_drop nat_diff_distrib
            intro!: arg_cong2 [where f = take] arg_cong2 [where f = drop])
      show ?thesis
      proof (cases "n = 0")
        case True
        define q' where "q' = q\<lparr>q_buf := [], q_size := n\<rparr>"
        have "realloc_cells True n b = None"
          using True by (simp add: realloc_cells_def)
        then have "early_loop True pts i q = early_loop True pts i q'"
          using \<open>int i < q_size q\<close> \<open>cf_type f \<noteq> CF_VIDEO \<and> cf_pts f < pts\<close> True
          by (subst early_loop.simps) (simp add: f_def [symmetric] n_def [symmetric] Let_def q'_def realloc_cells_def)
        also have "\<dots> = (0, q')"
          using True by (subst early_loop.simps) (simp add: q'_def)
        finally have e: "early_loop True pts i q = (0, q')" .
        have "queue_ok q'" "queue_list q' = []"
          using True by (simp_all add: q'_def queue_ok_def queue_list_def)
        moreover have "i = 0" "xs = [f]"
          using True ok(3) f f3 by (auto simp: n_def)
        ultimately show ?thesis
          using e \<open>cf_type f \<noteq> CF_VIDEO \<and> cf_pts f < pts\<close>
          by (intro exI [of _ q']) (simp add: xs_def [symmetric])
      next
        case False
        define q' where "q' = q\<lparr>q_buf := take (nat n) b, q_size := n\<rparr>"
        have n: "0 < n" "nat n \<le> length (q_buf q)"
          using False \<open>int i < q_size q\<close> ok by (auto simp: n_def)
        have r: "realloc_cells True n b = Some (take (nat n) b)"
          using n by (simp add: realloc_cells_def)
        have e: "early_loop True pts i q = early_loop True pts i q'"
          using \<open>int i < q_size q\<close> \<open>cf_type f \<noteq> CF_VIDEO \<and> cf_pts f < pts\<close> r [unfolded b_def] False
          by (subst early_loop.simps) (simp add: f_def [symmetric] n_def [symmetric] Let_def q'_def b_def)
        have q': "queue_ok q'" "queue_list q' = take i xs @ drop (Suc i) xs"
          using n lb tb f(2) ok(3) by (auto simp: q'_def queue_ok_def queue_list_def n_def min_def nat_diff_distrib)
            (rule arg_cong [where f = "\<lambda>k. take k xs"], linarith)
        have "\<exists>q''. early_loop True pts i q' = (0, q'') \<and> queue_ok q''
            \<and> queue_list q'' = take i (queue_list q') @ filter (\<lambda>f. cf_type f = CF_VIDEO \<or> pts \<le> cf_pts f) (drop i (queue_list q'))"
          using "1.hyps"(2) [OF \<open>int i < q_size q\<close> f_def \<open>cf_type f \<noteq> CF_VIDEO \<and> cf_pts f < pts\<close> n_def b_def r]
            q' f(2) ok(3) by (simp add: q'_def n_def)
        then show ?thesis
          using e q' f(2) f3 \<open>cf_type f \<noteq> CF_VIDEO \<and> cf_pts f < pts\<close> ok(3)
          by (simp add: xs_def [symmetric] min_def)
      qed
    qed
  qed
qed


text \<open>C18 \<open>remove_early_frames\<close> drops from the mux queue exactly the frames that are not video and whose
  time stamp lies before the given one, and keeps the others in their order.\<close>

theorem remove_early_frames_filters:
  assumes "queue_ok (h_mux_queue h)"
  shows "\<exists>q. remove_early_frames True h pts = (0, h\<lparr>h_mux_queue := q\<rparr>) \<and> queue_ok q
    \<and> queue_list q = filter (\<lambda>f. cf_type f = CF_VIDEO \<or> pts \<le> cf_pts f) (queue_list (h_mux_queue h))"
proof -
  obtain q where "early_loop True pts 0 (h_mux_queue h) = (0, q)" "queue_ok q"
    "queue_list q = filter (\<lambda>f. cf_type f = CF_VIDEO \<or> pts \<le> cf_pts f) (queue_list (h_mux_queue h))"
    using early_loop_spec [OF assms, of 0 pts] by auto
  then show ?thesis
    by (intro exI [of _ q]) (simp add: remove_early_frames_def)
qed

section \<open>Probed streams\<close>

text \<open>The description of a probed audio stream is shifted: its sample format is the bit rate of the
  device's stream and its dialogue normalisation the sample format, because the copied ranges of the
  two structures are not laid out alike.\<close>

theorem probed_audio_format_is_bitrate:
  assumes "iis_stream_type s = STREAM_TYPE_AUDIO" "input_supported bc (in_type dev)"
    and "h_devices h = []" "dv_input_streams d = [s]"
  shows "\<exists>h' out. obe_probe_device bc True True h dev (Some d) = (0, h', [out])
    \<and> is_sample_rate out = iis_sample_rate s \<and> is_num_channels out = iis_num_channels s
    \<and> is_sample_format out = iis_bitrate s \<and> is_dialnorm out = iis_sample_format s"
  using assms by (simp add: obe_probe_device_def clone_input_stream_def Let_def MAX_DEVICES_def)

section \<open>Audio frames in a PES packet\<close>

text \<open>The number of audio frames per PES packet the core chooses is between 1 and 6, and more than
  one only if they fit into the decoder buffer of the format; but a number the user has set is
  never used: it is replaced by 1.\<close>

theorem frames_per_pes_chosen:
  assumes "choose_frames_per_pes h os rate = Some n" "0 < rate" "0 \<le> os_bitrate os"
  shows "1 \<le> n \<and> n \<le> 6
    \<and> (1 < n \<longrightarrow> n * (audio_num_samples (os_stream_format os) * 125 * os_bitrate os div rate) \<le> 5696)
    \<and> (tso_frames_per_pes (os_ts_opts os) \<noteq> 0 \<longrightarrow> n = 1)"
proof (cases "tso_frames_per_pes (os_ts_opts os) = 0 \<and> h_system h = 0 \<and> os_stream_format os \<noteq> AUDIO_E_AC_3")
  case False
  then show ?thesis
    using assms(1) by (auto simp: choose_frames_per_pes_def)
next
  case True
  define f where "f = os_stream_format os"
  define b where "b = (let b = (if f = AUDIO_MP2 \<or> f = AUDIO_AAC then 3584 else 5696 :: int)
     in if b = 5696 \<and> (mo_ts_type (h_mux_opts h) = 2 \<or> mo_ts_type (h_mux_opts h) = 3) then 2592 else b)"
  define single where "single = audio_num_samples f * 125 * os_bitrate os div rate"
  define s2 where "s2 = (if os_aac_profile os = 1 \<or> os_aac_profile os = 2 then single * 2 else single)"
  have p: "0 \<le> single"
    using assms(2,3) by (simp add: single_def audio_num_samples_def pos_imp_zdiv_nonneg_iff)
  have t: "trunc_div (audio_num_samples f * 125 * os_bitrate os) rate = Some single"
    using assms(2,3) by (simp add: trunc_div_def single_def sdiv_nonneg audio_num_samples_def)
  have bb: "0 < b" "b \<le> 5696"
    by (simp_all add: b_def)
  have n: "s2 \<noteq> 0" "n = min (max (b sdiv s2) 1) 6"
    using assms(1) True t unfolding choose_frames_per_pes_def f_def [symmetric] Let_def b_def s2_def
    by (auto split: if_splits)
  have s2: "0 < s2" "single \<le> s2"
    using n(1) p by (auto simp: s2_def split: if_splits)
  have "n * single \<le> 5696" if "1 < n"
  proof -
    have "n \<le> b div s2"
      using that n(2) bb s2(1) by (auto simp: sdiv_nonneg)
    then have "n * s2 \<le> b"
    proof -
      have "b div s2 * s2 \<le> b"
        using pos_mod_sign [OF s2(1), of b] by (simp add: minus_mod_eq_div_mult [symmetric])
      moreover have "n * s2 \<le> b div s2 * s2"
        using \<open>n \<le> b div s2\<close> s2(1) by (simp add: mult_right_mono)
      ultimately show ?thesis
        by linarith
    qed
    moreover have "n * single \<le> n * s2"
      using that s2(2) by (simp add: mult_left_mono)
    ultimately show ?thesis
      using bb(2) by linarith
  qed
  then show ?thesis
    using n(2) True by (auto simp: single_def f_def)
qed


section \<open>Threads and queues of a started encoder\<close>

lemma start_outputs_threads:
  "start_outputs os i ts = (ok, ts') \<Longrightarrow>
   \<exists>k \<le> length os. ts' = ts @ map T_OUTPUT [i..<i + k]"
proof (induction os arbitrary: i ts)
  case (Cons ou os)
  show ?case
  proof (cases "od_type (ou_dest ou) \<in> {OUTPUT_UDP, OUTPUT_RTP, OUTPUT_FILE_TS}")
    case True
    then have "start_outputs os (i + 1) (ts @ [T_OUTPUT i]) = (ok, ts')"
      using Cons.prems by auto
    from Cons.IH [OF this] obtain k where "k \<le> length os" "ts' = ts @ T_OUTPUT i # map T_OUTPUT [i + 1..<i + 1 + k]"
      by auto
    then show ?thesis
      by (intro exI [of _ "Suc k"]) (simp add: upt_conv_Cons del: upt_Suc)
  next
    case False
    then show ?thesis
      using Cons.prems by (intro exI [of _ 0]) (auto split: if_splits)
  qed
qed auto

text \<open>The encoders and threads added, and the streams they belong to.\<close>

lemma start_encoders_spec:
  "start_encoders bc h os (outs, encs, ts, n, left) = Some (ok, outs', encs', ts', n', left') \<Longrightarrow>
   \<exists>es is. encs' = encs @ es \<and> ts' = ts @ map T_ENCODER is \<and> distinct is
     \<and> set is \<subseteq> {length encs..<length encs'} \<and> (\<forall>e \<in> set es. en_queue e = zeroed_queue)
     \<and> (ok \<longrightarrow> map en_output_stream_id es
          = map os_output_stream_id (filter (\<lambda>s. os_stream_action s = STREAM_ENCODE) os))"
proof (induction os arbitrary: outs encs ts n left)
  case (Cons s rest)
  have step: ?case if "os_stream_action s = STREAM_ENCODE"
    and r: "start_encoders bc h rest (o2, encs @ [e], ts @ map T_ENCODER is1, n2, l2)
        = Some (ok, outs', encs', ts', n', left')"
    and e: "is1 = [] \<or> is1 = [length encs]" "en_queue e = zeroed_queue" "en_output_stream_id e = os_output_stream_id s"
    for o2 e is1 n2 l2
  proof -
    obtain es i2 where h: "encs' = (encs @ [e]) @ es" "ts' = (ts @ map T_ENCODER is1) @ map T_ENCODER i2" "distinct i2"
      "set i2 \<subseteq> {length (encs @ [e])..<length encs'}" "\<forall>e \<in> set es. en_queue e = zeroed_queue"
      "ok \<longrightarrow> map en_output_stream_id es = map os_output_stream_id (filter (\<lambda>s. os_stream_action s = STREAM_ENCODE) rest)"
      using Cons.IH [OF r] by blast
    show ?thesis
      using h e that(1) by (intro exI [of _ "e # es"] exI [of _ "is1 @ i2"]) auto
  qed
  show ?case
  proof (cases "os_stream_action s = STREAM_ENCODE")
    case False
    then show ?thesis
      using Cons.prems Cons.IH by (auto split: if_splits)
  next
    case True
    then show ?thesis
      using Cons.prems
      by (auto simp: Let_def bind_eq_Some_conv split: if_splits
          intro: step [of _ _ "[length encs]", simplified] step [of _ _ "[]", simplified])
  qed
qed auto

lemma start_filters_spec:
  "start_filters outs ss i (fs, ts, left) = Some (ok, fs', ts', left') \<Longrightarrow>
   \<exists>gs. fs' = fs @ gs \<and> ts' = ts @ map T_FILTER [length fs..<length fs']
     \<and> (\<forall>g \<in> set gs. fl_queue g = zeroed_queue)
     \<and> (ok \<longrightarrow> map fl_stream_id_list gs = map (\<lambda>s. [iis_input_stream_id s])
          (filter (\<lambda>s. iis_stream_type s = STREAM_TYPE_VIDEO \<or> iis_stream_type s = STREAM_TYPE_AUDIO) ss))"
proof (induction ss arbitrary: i fs ts left)
  case (Cons s rest)
  show ?case
  proof (cases "(iis_stream_type s = STREAM_TYPE_VIDEO \<or> iis_stream_type s = STREAM_TYPE_AUDIO) \<and> 3 \<le> left")
    case False
    then show ?thesis
      using Cons.prems Cons.IH by (auto split: if_splits)
  next
    case True
    then obtain g l2 where g: "start_filters outs rest (i + 1) (fs @ [g], ts @ [T_FILTER (length fs)], l2) = Some (ok, fs', ts', left')"
      "fl_stream_id_list g = [iis_input_stream_id s]" "fl_queue g = zeroed_queue"
      using Cons.prems by (auto simp: bind_eq_Some_conv split: if_splits)
    from Cons.IH [OF g(1)] obtain gs where gs: "fs' = (fs @ [g]) @ gs"
      "ts' = (ts @ [T_FILTER (length fs)]) @ map T_FILTER [length (fs @ [g])..<length fs']"
      "\<forall>g \<in> set gs. fl_queue g = zeroed_queue"
      "ok \<longrightarrow> map fl_stream_id_list gs = map (\<lambda>s. [iis_input_stream_id s])
          (filter (\<lambda>s. iis_stream_type s = STREAM_TYPE_VIDEO \<or> iis_stream_type s = STREAM_TYPE_AUDIO) rest)"
      by blast
    then have "[length fs..<length fs'] = length fs # [length (fs @ [g])..<length fs']"
      by (simp add: upt_conv_Cons del: upt_Suc)
    then show ?thesis
      using True g(2,3) gs by (intro exI [of _ "g # gs"]) (simp del: upt_Suc)
  qed
qed auto

text \<open>Threads the encoder's shutdown knows of, each once.\<close>

definition threads_known :: "obe_t \<Rightarrow> obe_thread list \<Rightarrow> bool" where
  "threads_known h ts \<longleftrightarrow>
     (\<exists>k is sm nf inp. ts = map T_OUTPUT [0..<k] @ map T_ENCODER is @ sm @ map T_FILTER [0..<nf] @ inp
        \<and> k \<le> length (h_outputs h) \<and> distinct is \<and> set is \<subseteq> {0..<length (h_encoders h)}
        \<and> distinct sm \<and> set sm \<subseteq> {T_MUX, T_MUX_SMOOTHING} \<union> (if h_system h = 0 then {T_ENC_SMOOTHING} else {})
        \<and> nf \<le> length (h_filters h) \<and> (inp = [] \<or> inp = [T_INPUT 0] \<and> h_devices h \<noteq> []))"

lemma threads_knownI:
  assumes "k \<le> length (h_outputs h)" "distinct is" "set is \<subseteq> {0..<length (h_encoders h)}"
    "distinct sm" "set sm \<subseteq> {T_MUX, T_MUX_SMOOTHING} \<union> (if h_system h = 0 then {T_ENC_SMOOTHING} else {})"
    "nf \<le> length (h_filters h)" "inp = [] \<or> inp = [T_INPUT 0] \<and> h_devices h \<noteq> []"
    "ts = map T_OUTPUT [0..<k] @ map T_ENCODER is @ sm @ map T_FILTER [0..<nf] @ inp"
  shows "threads_known h ts"
  using assms unfolding threads_known_def by blast

lemma obe_close_known:
  assumes "threads_known h ts"
  shows "mset (obe_close h ts) = mset ts"
proof -
  obtain k "is" sm nf inp where t: "ts = map T_OUTPUT [0..<k] @ map T_ENCODER is @ sm @ map T_FILTER [0..<nf] @ inp"
    "k \<le> length (h_outputs h)" "distinct is" "set is \<subseteq> {0..<length (h_encoders h)}" "distinct sm"
    "set sm \<subseteq> {T_MUX, T_MUX_SMOOTHING} \<union> (if h_system h = 0 then {T_ENC_SMOOTHING} else {})"
    "nf \<le> length (h_filters h)" "inp = [] \<or> inp = [T_INPUT 0] \<and> h_devices h \<noteq> []"
    using assms unfolding threads_known_def by blast
  have "distinct (obe_close h ts)"
    by (auto simp: obe_close_def distinct_map inj_on_def)
  moreover have "distinct ts"
    unfolding t(1) using t(3,5,6,8) by (auto simp: distinct_map inj_on_def split: if_splits)
  moreover have "set (obe_close h ts) = set ts"
  proof
    show "set (obe_close h ts) \<subseteq> set ts"
      by (auto simp: obe_close_def)
    have "set ts \<subseteq> T_OUTPUT ` {0..<length (h_outputs h)} \<union> T_ENCODER ` {0..<length (h_encoders h)}
        \<union> T_FILTER ` {0..<length (h_filters h)} \<union> {T_MUX, T_MUX_SMOOTHING}
        \<union> (if h_system h = 0 then {T_ENC_SMOOTHING} else {}) \<union> T_INPUT ` {0..<length (h_devices h)}"
      unfolding t(1) using t(2,4,6,7,8) by (auto split: if_splits)
    then show "set ts \<subseteq> set (obe_close h ts)"
      unfolding obe_close_def by (auto split: if_splits)
  qed
  ultimately show ?thesis
    by (simp add: set_eq_iff_mset_eq_distinct)
qed

lemma obe_start_cases:
  assumes "obe_start bc left h = Some r"
  obtains (invalid) ts where "r = Inl (h, ts)" "ts = [] \<or> (\<exists>ok. start_outputs (h_outputs h) 0 [] = (ok, ts))"
  | (failed) d ok ts outs encs ts1 ns l1 where "at (h_devices h) 0 = Some d"
      "start_outputs (h_outputs h) 0 [] = (ok, ts)"
      "start_encoders bc h (h_output_streams h) ([], h_encoders h, ts, 0, left) = Some (False, outs, encs, ts1, ns, l1)"
      "r = Inl (h\<lparr>h_output_streams := outs, h_encoders := encs\<rparr>, ts1)"
  | (started) d ok ts outs encs ts1 ns l1 where "at (h_devices h) 0 = Some d"
      "start_outputs (h_outputs h) 0 [] = (ok, ts)"
      "start_encoders bc h (h_output_streams h) ([], h_encoders h, ts, 0, left) = Some (True, outs, encs, ts1, ns, l1)"
      "r = Inl (h\<lparr>h_output_streams := outs, h_encoders := encs\<rparr>,
          ts1 @ (if h_system h = 0 then [T_ENC_SMOOTHING] else []) @ [T_MUX_SMOOTHING])"
  | (filtered) d ok ts outs encs ts1 ns l1 fok fs ts2 l2 where "at (h_devices h) 0 = Some d"
      "start_outputs (h_outputs h) 0 [] = (ok, ts)"
      "start_encoders bc h (h_output_streams h) ([], h_encoders h, ts, 0, left) = Some (True, outs, encs, ts1, ns, l1)"
      "start_filters outs (dv_input_streams d) 0 (h_filters h,
          ts1 @ (if h_system h = 0 then [T_ENC_SMOOTHING] else []) @ [T_MUX_SMOOTHING, T_MUX], l1 - 1)
        = Some (fok, fs, ts2, l2)"
      "r = Inl (h\<lparr>h_output_streams := outs, h_encoders := encs, h_filters := fs\<rparr>, ts2)
       \<or> r = Inr (h\<lparr>h_output_streams := outs, h_encoders := encs, h_filters := fs, h_is_active := True\<rparr>,
             ts2 @ [T_INPUT 0]) \<and> fok"
proof -
  obtain d where d: "at (h_devices h) 0 = Some d"
    using assms by (auto simp: obe_start_def bind_eq_Some_conv)
  obtain ok ts where o: "start_outputs (h_outputs h) 0 [] = (ok, ts)"
    by fastforce
  show ?thesis
  proof (cases "\<not> input_supported bc (dv_type d) \<or> \<not> ok")
    case True
    then show ?thesis
      using invalid assms d o by (auto simp: obe_start_def split: if_splits)
  next
    case False
    then obtain eok outs encs ts1 ns l1 where
      e: "start_encoders bc h (h_output_streams h) ([], h_encoders h, ts, 0, left) = Some (eok, outs, encs, ts1, ns, l1)"
      using assms d o by (auto simp: obe_start_def bind_eq_Some_conv)
    note s = assms [unfolded obe_start_def, simplified d o e]
    show ?thesis
    proof (cases eok)
      case False
      then show ?thesis
        using failed [OF d o] e s \<open>\<not> (\<not> input_supported bc (dv_type d) \<or> \<not> ok)\<close> by simp
    next
      case True
      then have e: "start_encoders bc h (h_output_streams h) ([], h_encoders h, ts, 0, left) = Some (True, outs, encs, ts1, ns, l1)"
        using e by simp
      show ?thesis
      proof (cases "l1 = 0")
        case True
        then show ?thesis
          using started [OF d o e] s e True \<open>eok\<close> \<open>\<not> (\<not> input_supported bc (dv_type d) \<or> \<not> ok)\<close> by simp
      next
        case False
        then obtain fok fs ts2 l2 where f: "start_filters outs (dv_input_streams d) 0 (h_filters h,
            ts1 @ (if h_system h = 0 then [T_ENC_SMOOTHING] else []) @ [T_MUX_SMOOTHING, T_MUX], l1 - 1)
          = Some (fok, fs, ts2, l2)"
          using s e False \<open>eok\<close> \<open>\<not> (\<not> input_supported bc (dv_type d) \<or> \<not> ok)\<close> by (auto simp: bind_eq_Some_conv)
        show ?thesis
          using filtered [OF d o e f] s e f False \<open>eok\<close> \<open>\<not> (\<not> input_supported bc (dv_type d) \<or> \<not> ok)\<close>
          by (auto simp: Let_def split: if_splits)
      qed
    qed
  qed
qed

text \<open>C17 \<open>obe_close\<close> joins every thread that \<open>obe_start\<close> has created, and no other, exactly once, whether
  the start succeeded or failed at any point.\<close>

theorem obe_close_joins_started_threads:
  assumes "obe_start bc left h = Some r" "r = Inl (h', ts) \<or> r = Inr (h', ts)"
    and "h_encoders h = []" "h_filters h = []"
  shows "mset (obe_close h' ts) = mset ts"
proof (rule obe_close_known)
  from assms(1) show "threads_known h' ts"
  proof (cases rule: obe_start_cases)
    case (invalid ts2)
    then obtain k where "k \<le> length (h_outputs h)" "ts2 = map T_OUTPUT [0..<k]"
      using start_outputs_threads [of "h_outputs h" 0 "[]" _ ts2] by fastforce
    then show ?thesis
      using invalid(1) assms(2,3,4)
      by (intro threads_knownI [of k h' "[]" "[]" 0 "[]"]) auto
  next
    case (failed d ok ts2 outs encs ts1 ns l1)
    obtain k where k: "k \<le> length (h_outputs h)" "ts2 = map T_OUTPUT [0..<k]"
      using start_outputs_threads [OF failed(2)] by auto
    obtain "is" where i: "distinct is" "set is \<subseteq> {0..<length encs}" "ts1 = ts2 @ map T_ENCODER is"
      using start_encoders_spec [OF failed(3)] assms(3) by auto
    show ?thesis
      using failed(4) assms(2,4) k i by (intro threads_knownI [of k h' "is" "[]" 0 "[]"]) auto
  next
    case (started d ok ts2 outs encs ts1 ns l1)
    obtain k where k: "k \<le> length (h_outputs h)" "ts2 = map T_OUTPUT [0..<k]"
      using start_outputs_threads [OF started(2)] by auto
    obtain "is" where i: "distinct is" "set is \<subseteq> {0..<length encs}" "ts1 = ts2 @ map T_ENCODER is"
      using start_encoders_spec [OF started(3)] assms(3) by auto
    show ?thesis
      using started(4) assms(2,4) k i
      by (intro threads_knownI [of k h' "is" "(if h_system h = 0 then [T_ENC_SMOOTHING] else []) @ [T_MUX_SMOOTHING]" 0 "[]"])
         auto
  next
    case (filtered d ok ts2 outs encs ts1 ns l1 fok fs ts3 l2)
    obtain k where k: "k \<le> length (h_outputs h)" "ts2 = map T_OUTPUT [0..<k]"
      using start_outputs_threads [OF filtered(2)] by auto
    obtain "is" where i: "distinct is" "set is \<subseteq> {0..<length encs}" "ts1 = ts2 @ map T_ENCODER is"
      using start_encoders_spec [OF filtered(3)] assms(3) by auto
    have f: "ts3 = ts1 @ (if h_system h = 0 then [T_ENC_SMOOTHING] else []) @ [T_MUX_SMOOTHING, T_MUX]
        @ map T_FILTER [0..<length fs]"
      using start_filters_spec [OF filtered(4)] assms(4) by auto
    have "h_devices h \<noteq> []"
      using filtered(1) by (auto simp: at_def split: if_splits)
    then show ?thesis
      using filtered(5) assms(2) k i f
      by (intro threads_knownI [of k h' "is" "(if h_system h = 0 then [T_ENC_SMOOTHING] else []) @ [T_MUX_SMOOTHING, T_MUX]"
            "length fs" "if \<exists>x. r = Inr x then [T_INPUT 0] else []"]) auto
  qed
qed

section \<open>Routing\<close>

lemma first_match_find:
  "\<exists>x \<in> set xs. P x \<Longrightarrow> \<exists>i < length xs. first_match P xs k = Some (k + i) \<and> P (xs ! i)
     \<and> (\<forall>y. P y \<longrightarrow> find P (xs[i := y]) = Some y)"
proof (induction xs arbitrary: k)
  case (Cons x xs)
  show ?case
  proof (cases "P x")
    case True
    then show ?thesis
      by (intro exI [of _ 0]) simp
  next
    case False
    then obtain i where "i < length xs" "first_match P xs (k + 1) = Some (k + 1 + i)" "P (xs ! i)"
      "\<forall>y. P y \<longrightarrow> find P (xs[i := y]) = Some y"
      using Cons.IH [of "k + 1"] Cons.prems by auto
    then show ?thesis
      using False by (intro exI [of _ "Suc i"]) simp
  qed
qed simp

lemma last_match_some:
  "\<exists>x \<in> set xs. P x \<Longrightarrow> \<exists>i < length xs. last_match P xs k b = Some (k + i) \<and> P (xs ! i)"
proof (induction xs arbitrary: k b)
  case (Cons x xs)
  show ?case
  proof (cases "\<exists>x \<in> set xs. P x")
    case True
    then obtain i where "i < length xs" "last_match P xs (k + 1) (if P x then Some k else b) = Some (k + 1 + i)" "P (xs ! i)"
      using Cons.IH by blast
    then show ?thesis
      by (intro exI [of _ "Suc i"]) simp
  next
    case False
    then have "last_match P xs j c = c" for j c
      by (induction xs arbitrary: j c) auto
    then show ?thesis
      using False Cons.prems by (intro exI [of _ 0]) auto
  qed
qed simp

lemma obe_start_queues:
  assumes "obe_start bc left h = Some (Inr (h', ts))" "h_encoders h = []" "h_filters h = []"
  obtains d where "at (h_devices h) 0 = Some d"
    "map en_output_stream_id (h_encoders h')
      = map os_output_stream_id (filter (\<lambda>s. os_stream_action s = STREAM_ENCODE) (h_output_streams h))"
    "\<And>e. e \<in> set (h_encoders h') \<Longrightarrow> en_queue e = zeroed_queue"
    "map fl_stream_id_list (h_filters h') = map (\<lambda>s. [iis_input_stream_id s])
      (filter (\<lambda>s. iis_stream_type s = STREAM_TYPE_VIDEO \<or> iis_stream_type s = STREAM_TYPE_AUDIO) (dv_input_streams d))"
    "\<And>f. f \<in> set (h_filters h') \<Longrightarrow> fl_queue f = zeroed_queue"
  using assms(1)
proof (cases rule: obe_start_cases)
  case (filtered d ok ts2 outs encs ts1 ns l1 fok fs ts3 l2)
  then have h': "h_encoders h' = encs" "h_filters h' = fs" fok
    by auto
  obtain es where "encs = es" "\<forall>e \<in> set es. en_queue e = zeroed_queue"
    "map en_output_stream_id es = map os_output_stream_id (filter (\<lambda>s. os_stream_action s = STREAM_ENCODE) (h_output_streams h))"
    using start_encoders_spec [OF filtered(3)] assms(2) by auto
  moreover obtain gs where "fs = gs" "\<forall>g \<in> set gs. fl_queue g = zeroed_queue"
    "map fl_stream_id_list gs = map (\<lambda>s. [iis_input_stream_id s])
      (filter (\<lambda>s. iis_stream_type s = STREAM_TYPE_VIDEO \<or> iis_stream_type s = STREAM_TYPE_AUDIO) (dv_input_streams d))"
    using start_filters_spec [OF filtered(4)] assms(3) h'(3) by auto
  ultimately show ?thesis
    by (intro that [OF filtered(1)]) (simp_all only: h')
qed auto

text \<open>C16 After a successful start every frame of a video or audio input stream is queued at one filter
  that was set up for this stream, and every frame sent to an encoded output stream arrives in the
  queue of the encoder that is found under the stream's identifier; the other encoders found by
  identifier do not see it.\<close>

theorem started_pipeline_routes_frames:
  assumes "obe_start bc left h = Some (Inr (h', ts))" "h_encoders h = []" "h_filters h = []"
    and "h_devices h = d # ds" "s \<in> set (dv_input_streams d)"
    and "iis_stream_type s = STREAM_TYPE_VIDEO \<or> iis_stream_type s = STREAM_TYPE_AUDIO"
    and "rf_input_stream_id rf = iis_input_stream_id s"
    and "os \<in> set (h_output_streams h)" "os_stream_action os = STREAM_ENCODE"
  shows "(\<exists>i q. i < length (h_filters h')
           \<and> add_to_filter_queue True h' rf
             = Some (0, h'\<lparr>h_filters := (h_filters h')[i := (h_filters h' ! i)\<lparr>fl_queue := q\<rparr>]\<rparr>)
           \<and> fl_stream_id_list (h_filters h' ! i) = [iis_input_stream_id s] \<and> queue_list q = [rf])
    \<and> (\<exists>h2 e. add_to_encode_queue True h' rf (os_output_stream_id os) = Some (0, h2)
           \<and> get_encoder h2 (os_output_stream_id os) = Some e \<and> queue_list (en_queue e) = [rf]
           \<and> (\<forall>id. id \<noteq> os_output_stream_id os \<longrightarrow> get_encoder h2 id = get_encoder h' id))"
proof -
  obtain d' where s: "at (h_devices h) 0 = Some d'"
    "map en_output_stream_id (h_encoders h')
      = map os_output_stream_id (filter (\<lambda>s. os_stream_action s = STREAM_ENCODE) (h_output_streams h))"
    "\<And>e. e \<in> set (h_encoders h') \<Longrightarrow> en_queue e = zeroed_queue"
    "map fl_stream_id_list (h_filters h') = map (\<lambda>s. [iis_input_stream_id s])
      (filter (\<lambda>s. iis_stream_type s = STREAM_TYPE_VIDEO \<or> iis_stream_type s = STREAM_TYPE_AUDIO) (dv_input_streams d'))"
    "\<And>f. f \<in> set (h_filters h') \<Longrightarrow> fl_queue f = zeroed_queue"
    using obe_start_queues [OF assms(1-3)] by blast
  have d: "d' = d"
    using s(1) assms(4) by (simp add: at_def)
  have "[iis_input_stream_id s] \<in> set (map fl_stream_id_list (h_filters h'))"
    unfolding s(4) d using assms(5,6) by auto
  then obtain f where f: "f \<in> set (h_filters h')" "[iis_input_stream_id s] = fl_stream_id_list f"
    unfolding set_map by (elim imageE)
  have "rf_input_stream_id rf \<in> set (fl_stream_id_list f)"
    unfolding f(2) [symmetric] assms(7) by simp
  with f(1) have "\<exists>f \<in> set (h_filters h'). rf_input_stream_id rf \<in> set (fl_stream_id_list f)" ..
  from last_match_some [OF this, of 0 None] obtain i where i: "i < length (h_filters h')"
    "last_match (\<lambda>f. rf_input_stream_id rf \<in> set (fl_stream_id_list f)) (h_filters h') 0 None = Some i"
    "rf_input_stream_id rf \<in> set (fl_stream_id_list (h_filters h' ! i))"
    by auto
  have "fl_stream_id_list (h_filters h' ! i) \<in> set (map fl_stream_id_list (h_filters h'))"
    using i(1) by simp
  then have il: "fl_stream_id_list (h_filters h' ! i) = [iis_input_stream_id s]"
    using i(3) assms(7) unfolding s(4) by auto
  obtain q :: "raw_frame obe_queue" where q: "add_to_queue True rf zeroed_queue = Some (0, q)" "queue_list q = [rf]"
    using add_ok [of "zeroed_queue :: raw_frame obe_queue" rf] by auto
  have filt: "\<exists>i q. i < length (h_filters h')
           \<and> add_to_filter_queue True h' rf
             = Some (0, h'\<lparr>h_filters := (h_filters h')[i := (h_filters h' ! i)\<lparr>fl_queue := q\<rparr>]\<rparr>)
           \<and> fl_stream_id_list (h_filters h' ! i) = [iis_input_stream_id s] \<and> queue_list q = [rf]"
    using i(1,2) il q s(5) [OF nth_mem [OF i(1)]]
    by (intro exI [of _ i] exI [of _ q]) (simp add: add_to_filter_queue_def)
  define P where "P = (\<lambda>e :: obe_encoder. en_output_stream_id e = os_output_stream_id os)"
  have "os_output_stream_id os \<in> set (map en_output_stream_id (h_encoders h'))"
    unfolding s(2) using assms(8,9) by auto
  then have "\<exists>e \<in> set (h_encoders h'). P e"
    by (auto simp: P_def)
  from first_match_find [OF this, of 0] obtain j where j: "j < length (h_encoders h')"
    "first_match P (h_encoders h') 0 = Some j" "P (h_encoders h' ! j)"
    "\<And>y. P y \<Longrightarrow> find P ((h_encoders h')[j := y]) = Some y"
    by auto
  define e where "e = (h_encoders h' ! j)\<lparr>en_queue := q\<rparr>"
  have other: "find (\<lambda>e. en_output_stream_id e = id) ((h_encoders h')[j := e])
      = find (\<lambda>e. en_output_stream_id e = id) (h_encoders h')" if "id \<noteq> os_output_stream_id os" for id
  proof -
    have "find Q (xs[k := y]) = find Q xs" if "\<not> Q y" "k < length xs \<longrightarrow> \<not> Q (xs ! k)" for Q xs k and y :: obe_encoder
      using that by (induction xs arbitrary: k) (auto split: nat.split)
    then show ?thesis
      using that j(1,3) by (simp add: e_def P_def)
  qed
  have enc: "\<exists>h2 e. add_to_encode_queue True h' rf (os_output_stream_id os) = Some (0, h2)
           \<and> get_encoder h2 (os_output_stream_id os) = Some e \<and> queue_list (en_queue e) = [rf]
           \<and> (\<forall>id. id \<noteq> os_output_stream_id os \<longrightarrow> get_encoder h2 id = get_encoder h' id)"
    using j(2) j(4) [of e] j(3) q s(3) [OF nth_mem [OF j(1)]] other
    by (intro exI [of _ "h'\<lparr>h_encoders := (h_encoders h')[j := e]\<rparr>"] exI [of _ e])
       (simp add: add_to_encode_queue_def P_def [symmetric] get_encoder_def, simp add: e_def P_def)
  show ?thesis
    using filt enc by (rule conjI)
qed

section \<open>A small configuration\<close>

text \<open>A v210 file with one video and one audio stream, encoded as AVC and MP2 for a UDP output.\<close>

definition example_input :: "int \<Rightarrow> stream_type \<Rightarrow> int_input_stream" where
  "example_input i t = \<lparr>iis_input_stream_id = i, iis_stream_type = t, iis_stream_format = VIDEO_UNCOMPRESSED,
     iis_lavf_stream_idx = 0, iis_lang_code = ''eng'', iis_timebase_num = 1, iis_timebase_den = 25, iis_pid = 0, iis_has_stream_identifier = 0,
     iis_stream_identifier = 0, iis_audio_type = 0,
     iis_csp = 0, iis_width = 720, iis_height = 576, iis_sar_num = 1, iis_sar_den = 1, iis_interlaced = 1,
     iis_tff = 1, iis_num_frame_data = 0, iis_frame_data = [], iis_channel_layout = 3, iis_num_channels = 2,
     iis_sample_rate = 48000, iis_sdi_audio_pair = 1, iis_sample_format = 2, iis_bitrate = 384, iis_is_latm = 0,
     iis_has_dds = 0, iis_dvb_subtitling_type = 0, iis_composition_page_id = 0, iis_ancillary_page_id = 0, iis_vbi_ntsc = 0, iis_is_hdr = 0\<rparr>"

definition example_output :: "int \<Rightarrow> stream_formats \<Rightarrow> output_stream" where
  "example_output i f = \<lparr>os_input_stream_id = i, os_output_stream_id = i, os_stream_action = STREAM_ENCODE,
     os_stream_format = f, os_is_wide = 0,
     os_video_anc = \<lparr>fao_cea_608 = False, fao_cea_708 = False, fao_afd = False, fao_wss_to_afd = False\<rparr>,
     os_avc_param = \<lparr>avc_csp = 2, avc_width = 720, avc_height = 576, avc_interlaced = True, avc_fps_num = 25,
       avc_fps_den = 1, avc_profile_idc = 0, avc_level_idc = 0, avc_intra_refresh = False, avc_keyint_max = 24,
       avc_bitrate = 2000, avc_vbv_max_bitrate = 2000, avc_vbv_buffer_size = 2000, avc_lookahead = 24\<rparr>,
     os_bitrate = 192, os_sdi_audio_pair = 1, os_channel_layout = 3, os_mono_channel = 0, os_audio_offset_ms = 0,
     os_aac_profile = 0, os_latm_output = 0, os_mp2_mode = 0,
     os_dvb_vbi_opts = \<lparr>dvo_ttx = False, dvo_inverted_ttx = False, dvo_vps = False, dvo_wss = False\<rparr>,
     os_ts_opts = \<lparr>tso_passthrough_opts = 0, tso_pid = 256 + i, tso_frames_per_pes = 0, tso_write_lang_code = 0,
       tso_lang_code = ''eng'', tso_audio_type = 0, tso_has_stream_identifier = 0, tso_stream_identifier = 0,
       tso_teletexts = [], tso_data_identifier = 0\<rparr>\<rparr>"

definition example_device :: obe_device where
  "example_device = \<lparr>dv_type = INPUT_DEVICE_V210, dv_program_num = 0, dv_ts_id = 0, dv_pmt_pid = 0, dv_pcr_pid = 0,
     dv_input_streams = [example_input 0 STREAM_TYPE_VIDEO, example_input 1 STREAM_TYPE_AUDIO],
     dv_probed_streams = []\<rparr>"

definition example_state :: obe_t where
  "example_state = (the (obe_setup 8 True))\<lparr>h_devices := [example_device],
     h_output_streams := [example_output 0 VIDEO_AVC, example_output 1 AUDIO_MP2],
     h_outputs := [\<lparr>ou_dest = \<lparr>od_type = OUTPUT_UDP, od_target = ''udp://''\<rparr>, ou_cancel_thread = False\<rparr>]\<rparr>"

definition example_build :: build_config where
  "example_build = \<lparr>bc_decklink = True, bc_bluefish = False, bc_ndi = False, bc_dektec = False,
     bc_vega3301 = False, bc_vega3311 = False, bc_linux = True, bc_apple = False, bc_x265 = False, bc_va = False\<rparr>"

definition example_coded :: "coded_frame_type \<Rightarrow> int \<Rightarrow> coded_frame" where
  "example_coded t pts = \<lparr>cf_output_stream_id = 0, cf_type = t, cf_avfm = avfm_zero, cf_pts = pts, cf_cpb_initial_arrival_time = 0,
     cf_cpb_final_arrival_time = 0, cf_real_dts = 0, cf_real_pts = 0, cf_random_access = 0, cf_priority = 0,
     cf_arrival_time = 0, cf_data = []\<rparr>"

definition example_selection :: obe_input where
  "example_selection = \<lparr>in_type = INPUT_DEVICE_V210, in_location = Some ''in.v210'', in_card_idx = 0, in_name = None,
     in_video_format = 0, in_video_connection = 0, in_audio_connection = 0, in_smpte2038 = 0, in_scte35 = 0,
     in_vanc_cache = 0, in_bitstream_audio = 0, in_patch1 = 0, in_los_exit_ms = 0, in_frame_injection = 0,
     in_allow_1080p60 = 0, in_hdr = 0, in_smpte2031 = 0\<rparr>"

definition example_mux_queue :: "coded_frame obe_queue" where
  "example_mux_queue = zeroed_queue\<lparr>q_size := 3,
     q_buf := [example_coded CF_AUDIO 5, example_coded CF_VIDEO 6, example_coded CF_AUDIO 20]\<rparr>"

lemmas example_defs = example_selection_def example_input_def example_output_def example_device_def example_state_def
  example_build_def obe_setup_def zero_clock_def

lemma example_frames_per_pes:
  "choose_frames_per_pes example_state (example_output 1 AUDIO_MP2) 48000 = Some 6"
  by (simp add: choose_frames_per_pes_def example_defs Let_def trunc_div_def audio_num_samples_def sdiv_nonneg)

lemma example_started:
  "\<exists>h' ts. obe_start example_build 100 example_state = Some (Inr (h', ts))
     \<and> length ts = 9 \<and> length (h_filters h') = 2 \<and> length (h_encoders h') = 2"
  by (simp add: obe_start_def at_def example_defs input_supported_def Let_def video_encoder_for_def
      audio_encoder_for_def get_input_stream_def choose_frames_per_pes_def trunc_div_def
      audio_num_samples_def sdiv_nonneg MAX_STREAMS_def)

theorem obe_close_joins_started_threads_witness:
  "\<exists>h' ts. obe_start example_build 100 example_state = Some (Inr (h', ts)) \<and> length ts = 9
     \<and> mset (obe_close h' ts) = mset ts"
proof -
  obtain h' ts where s: "obe_start example_build 100 example_state = Some (Inr (h', ts))" "length ts = 9"
    using example_started by blast
  moreover have "mset (obe_close h' ts) = mset ts"
    by (rule obe_close_joins_started_threads [OF s(1)]) (simp_all add: example_defs)
  ultimately show ?thesis
    by blast
qed

theorem started_pipeline_routes_frames_witness:
  "\<exists>h' ts. obe_start example_build 100 example_state = Some (Inr (h', ts))
     \<and> (\<exists>h2 e. add_to_encode_queue True h' (the (new_raw_frame True)) 0 = Some (0, h2)
          \<and> get_encoder h2 0 = Some e \<and> queue_list (en_queue e) = [the (new_raw_frame True)])"
proof -
  obtain h' ts where s: "obe_start example_build 100 example_state = Some (Inr (h', ts))"
    using example_started by blast
  have o: "os_output_stream_id (example_output 0 VIDEO_AVC) = 0"
    by (simp add: example_output_def)
  have "\<exists>h2 e. add_to_encode_queue True h' (the (new_raw_frame True)) (os_output_stream_id (example_output 0 VIDEO_AVC)) = Some (0, h2)
      \<and> get_encoder h2 (os_output_stream_id (example_output 0 VIDEO_AVC)) = Some e
      \<and> queue_list (en_queue e) = [the (new_raw_frame True)]
      \<and> (\<forall>id. id \<noteq> os_output_stream_id (example_output 0 VIDEO_AVC) \<longrightarrow> get_encoder h2 id = get_encoder h' id)"
    by (rule started_pipeline_routes_frames [THEN conjunct2, OF s, of example_device "[]"
          "example_input 0 STREAM_TYPE_VIDEO"])
       (simp_all add: example_defs new_raw_frame_def)
  then show ?thesis
    using s unfolding o by blast
qed

theorem remove_early_frames_filters_witness:
  "\<exists>q. remove_early_frames True (example_state\<lparr>h_mux_queue := example_mux_queue\<rparr>) 10
       = (0, example_state\<lparr>h_mux_queue := q\<rparr>)
     \<and> queue_list q = [example_coded CF_VIDEO 6, example_coded CF_AUDIO 20]"
proof -
  have "queue_ok example_mux_queue"
    "queue_list example_mux_queue = [example_coded CF_AUDIO 5, example_coded CF_VIDEO 6, example_coded CF_AUDIO 20]"
    by (simp_all add: example_mux_queue_def queue_ok_def queue_list_def)
  moreover have "cf_type (example_coded t n) = t" "cf_pts (example_coded t n) = n" for t n
    by (simp_all add: example_coded_def)
  ultimately show ?thesis
    using remove_early_frames_filters [of "example_state\<lparr>h_mux_queue := example_mux_queue\<rparr>" 10] by auto
qed

theorem probed_audio_format_is_bitrate_witness:
  "\<exists>h' out. obe_probe_device example_build True True (the (obe_setup 8 True))
        example_selection
        (Some (example_device\<lparr>dv_input_streams := [example_input 1 STREAM_TYPE_AUDIO]\<rparr>)) = (0, h', [out])
     \<and> is_sample_format out = 384"
  using probed_audio_format_is_bitrate [of "example_input 1 STREAM_TYPE_AUDIO" example_build
      example_selection "the (obe_setup 8 True)"
      "example_device\<lparr>dv_input_streams := [example_input 1 STREAM_TYPE_AUDIO]\<rparr>"]
  by (auto simp: example_defs input_supported_def)

theorem frames_per_pes_chosen_witness:
  "6 * (audio_num_samples AUDIO_MP2 * 125 * 192 div 48000) \<le> 5696"
  using frames_per_pes_chosen [OF example_frames_per_pes] by (simp add: example_output_def)

end
