(* ===== verification/Obe_Metadata.thy ===== *)
theory Obe_Metadata
  imports Obe_Types
begin

text \<open>
  The metadata attached to frames, \<open>common/metadata.c\<close>, and the copies and releases of frames of
  \<open>obe/obe.c\<close>, over an explicit heap of blocks: a use of freed memory, a second free and an access
  outside a block are \<^const>\<open>None\<close>.  Allocation outcomes are arguments.
\<close>

section \<open>The heap\<close>

type_synonym addr = nat

text \<open>Members of an item that nothing has written yet are \<^const>\<open>None\<close>.\<close>

(* src: common/metadata.h 8-20 avmetadata_item_s *)
record avmetadata_item =
  mi_item_type :: nat
  mi_dataLengthAlloc :: int
  mi_dataLengthBytes :: int
  mi_data :: addr
  mi_outputStreamId :: "int option"
  mi_lineNr :: "int option"

(* src: common/metadata.h 22-27 avmetadata_s *)
record avmetadata =
  ml_array :: "addr list"
  ml_count :: int

text \<open>A plane pointer is a block and an offset in it.\<close>

record heap_image =
  hi_planes :: int
  hi_plane :: "(addr \<times> int) list"

record heap_frame =
  hf_alloc_img :: heap_image
  hf_img :: heap_image
  hf_num_user_data :: int
  hf_user_data :: addr
  hf_metadata :: avmetadata

text \<open>The processor of \<open>Obe_Scte104\<close> lives in the same heap; \<open>vp_vh\<close> is its context of libklvanc.\<close>

(* src: common/vancprocessor.h 15-24 vanc_processor_s *)
record vanc_processor =
  vp_vh :: addr
  vp_outputStreamId :: int
  vp_lineNr :: int
  vp_cf :: coded_frame

text \<open>
  An allocated block: an item with the number of bytes allocated for it, bytes that may still be
  undefined, an array of user data (pointer and length), a raw frame, a processor, or an object of a
  library that only the library looks into.
\<close>

datatype cell =
    Item nat avmetadata_item
  | Bytes "u8 option list"
  | User "(addr \<times> int) list"
  | Frame heap_frame
  | Proc vanc_processor
  | Library

record heap =
  hp_cell :: "addr \<Rightarrow> cell option"
  hp_next :: addr

definition heap_ok :: "heap \<Rightarrow> bool" where
  "heap_ok hp \<longleftrightarrow> 0 < hp_next hp \<and> hp_cell hp 0 = None \<and> (\<forall>a \<ge> hp_next hp. hp_cell hp a = None)"

definition c_malloc :: "cell \<Rightarrow> heap \<Rightarrow> addr \<times> heap" where
  "c_malloc c hp = (hp_next hp,
     hp\<lparr>hp_cell := (hp_cell hp)(hp_next hp \<mapsto> c), hp_next := hp_next hp + 1\<rparr>)"

text \<open>Freeing NULL does nothing; freeing a block twice is undefined.\<close>

definition c_free :: "addr \<Rightarrow> heap \<Rightarrow> heap option" where
  "c_free a hp = (if a = 0 then Some hp
     else if hp_cell hp a = None then None
     else Some (hp\<lparr>hp_cell := (hp_cell hp)(a := None)\<rparr>))"

definition get_item :: "addr \<Rightarrow> heap \<Rightarrow> (nat \<times> avmetadata_item) option" where
  "get_item a hp = (case hp_cell hp a of Some (Item cap it) \<Rightarrow> Some (cap, it) | _ \<Rightarrow> None)"

definition get_bytes :: "addr \<Rightarrow> heap \<Rightarrow> u8 option list option" where
  "get_bytes a hp = (case hp_cell hp a of Some (Bytes bs) \<Rightarrow> Some bs | _ \<Rightarrow> None)"

definition put_cell :: "addr \<Rightarrow> cell \<Rightarrow> heap \<Rightarrow> heap" where
  "put_cell a c hp = hp\<lparr>hp_cell := (hp_cell hp)(a \<mapsto> c)\<rparr>"

section \<open>Items\<close>

text \<open>
  Layout of an item on a 64-bit target: the type, the two lengths, the data pointer in bytes 16 to 23,
  the stream identifier and the line number up to byte 32.
\<close>

definition end_of_data :: nat where "end_of_data = 24"
definition end_of_streamid :: nat where "end_of_streamid = 28"
definition end_of_linenr :: nat where "end_of_linenr = 32"

definition check_item :: "nat \<Rightarrow> addr \<Rightarrow> heap \<Rightarrow> (nat \<times> avmetadata_item) option" where
  "check_item n a hp = do { (cap, it) \<leftarrow> get_item a hp; if n \<le> cap then Some (cap, it) else None }"

text \<open>
  Room for an item is allocated with the number of bytes its data needs, not the size of the
  structure.  A negative length asks for more memory than there is.
\<close>

(* src: common/metadata.c 50-73 avmetadata_item_alloc *)
definition avmetadata_item_alloc :: "bool \<Rightarrow> bool \<Rightarrow> int \<Rightarrow> nat \<Rightarrow> heap \<Rightarrow> (addr \<times> heap) option" where
  "avmetadata_item_alloc ok1 ok2 lengthBytes item_type hp =
     (if \<not> ok1 \<or> lengthBytes < 0 then Some (0, hp)
      else if nat lengthBytes < end_of_data then None
      else
        let it = \<lparr>mi_item_type = item_type, mi_dataLengthAlloc = lengthBytes, mi_dataLengthBytes = 0,
                  mi_data = 0, mi_outputStreamId = None, mi_lineNr = None\<rparr>;
            (dst, hp) = c_malloc (Item (nat lengthBytes) it) hp
        in if \<not> ok2 then do { hp \<leftarrow> c_free dst hp; Some (0, hp) }
           else let (d, hp) = c_malloc (Bytes (replicate (nat lengthBytes) None)) hp
                in Some (dst, put_cell dst (Item (nat lengthBytes) (it\<lparr>mi_data := d\<rparr>)) hp))"

(* src: common/metadata.c 75-89 avmetadata_item_clone *)
definition avmetadata_item_clone :: "bool \<Rightarrow> bool \<Rightarrow> addr \<Rightarrow> heap \<Rightarrow> (addr \<times> heap) option" where
  "avmetadata_item_clone ok1 ok2 src hp =
     do { (scap, s) \<leftarrow> check_item end_of_linenr src hp;
          (dst, hp) \<leftarrow> avmetadata_item_alloc ok1 ok2 (mi_dataLengthAlloc s) (mi_item_type s) hp;
          (cap, it) \<leftarrow> check_item end_of_linenr dst hp;
          let it = it\<lparr>mi_outputStreamId := mi_outputStreamId s, mi_lineNr := mi_lineNr s,
                     mi_dataLengthBytes := mi_dataLengthBytes s\<rparr>;
          from \<leftarrow> get_bytes (mi_data s) hp;
          to \<leftarrow> get_bytes (mi_data it) hp;
          new \<leftarrow> mem_get 0 (nat (mi_dataLengthAlloc s)) from;
          to \<leftarrow> mem_put 0 new to;
          Some (dst, put_cell (mi_data it) (Bytes to) (put_cell dst (Item cap it) hp)) }"

(* src: common/metadata.c 91-105 avmetadata_item_free *)
definition avmetadata_item_free :: "addr \<Rightarrow> heap \<Rightarrow> heap option" where
  "avmetadata_item_free src hp =
     (if src = 0 then Some hp
      else do { (cap, it) \<leftarrow> get_item src hp;
                hp \<leftarrow> c_free (mi_data it) hp;
                c_free src hp })"

(* src: common/metadata.c 117-126 avmetadata_item_data_write *)
definition avmetadata_item_data_write :: "addr \<Rightarrow> bytes \<Rightarrow> heap \<Rightarrow> (int \<times> heap) option" where
  "avmetadata_item_data_write dst buf hp =
     do { (cap, it) \<leftarrow> get_item dst hp;
          if mi_dataLengthAlloc it < int (length buf) then Some (-1, hp)
          else do { to \<leftarrow> get_bytes (mi_data it) hp;
                    to \<leftarrow> mem_put 0 (map Some buf) to;
                    Some (0, put_cell (mi_data it) (Bytes to)
                              (put_cell dst (Item cap (it\<lparr>mi_dataLengthBytes := int (length buf)\<rparr>)) hp)) } }"

text \<open>A failed reallocation leaves the old data allocated and the item without data.\<close>

(* src: common/metadata.c 145-154 avmetadata_item_data_realloc *)
definition avmetadata_item_data_realloc :: "bool \<Rightarrow> addr \<Rightarrow> nat \<Rightarrow> heap \<Rightarrow> (int \<times> heap) option" where
  "avmetadata_item_data_realloc ok src lengthBytes hp =
     do { (cap, it) \<leftarrow> get_item src hp;
          old \<leftarrow> (if mi_data it = 0 then Some [] else get_bytes (mi_data it) hp);
          if \<not> ok then Some (-1, put_cell src (Item cap (it\<lparr>mi_data := 0\<rparr>)) hp)
          else do {
            hp \<leftarrow> c_free (mi_data it) hp;
            let (d, hp) = c_malloc (Bytes (take lengthBytes old @ replicate (lengthBytes - length old) None)) hp;
            Some (0, put_cell src (Item cap (it\<lparr>mi_data := d, mi_dataLengthAlloc := int lengthBytes\<rparr>)) hp) } }"

(* src: common/metadata.c 156-160 avmetadata_item_data_set_linenr *)
definition avmetadata_item_data_set_linenr :: "addr \<Rightarrow> int \<Rightarrow> heap \<Rightarrow> (int \<times> heap) option" where
  "avmetadata_item_data_set_linenr src lineNr hp =
     do { (cap, it) \<leftarrow> check_item end_of_linenr src hp;
          Some (0, put_cell src (Item cap (it\<lparr>mi_lineNr := Some lineNr\<rparr>)) hp) }"

(* src: common/metadata.c 162-165 avmetadata_item_data_get_linenr *)
definition avmetadata_item_data_get_linenr :: "addr \<Rightarrow> heap \<Rightarrow> int option" where
  "avmetadata_item_data_get_linenr src hp = do { (cap, it) \<leftarrow> check_item end_of_linenr src hp; mi_lineNr it }"

(* src: common/metadata.c 167-171 avmetadata_item_data_set_outputstreamid *)
definition avmetadata_item_data_set_outputstreamid :: "addr \<Rightarrow> int \<Rightarrow> heap \<Rightarrow> (int \<times> heap) option" where
  "avmetadata_item_data_set_outputstreamid src outputStreamId hp =
     do { (cap, it) \<leftarrow> check_item end_of_streamid src hp;
          Some (0, put_cell src (Item cap (it\<lparr>mi_outputStreamId := Some outputStreamId\<rparr>)) hp) }"

(* src: common/metadata.c 173-176 avmetadata_item_data_get_outputstreamid *)
definition avmetadata_item_data_get_outputstreamid :: "addr \<Rightarrow> heap \<Rightarrow> int option" where
  "avmetadata_item_data_get_outputstreamid src hp =
     do { (cap, it) \<leftarrow> check_item end_of_streamid src hp; mi_outputStreamId it }"

section \<open>Lists of items\<close>

text \<open>A list holds at most 16 items.\<close>

definition AVMETADATA_SECTION_SCTE35 :: nat where "AVMETADATA_SECTION_SCTE35 = 1"
definition AVMETADATA_VANC_SCTE104 :: nat where "AVMETADATA_VANC_SCTE104 = 2"

(* src: common/metadata.c 19-23 avmetadata_init *)
definition avmetadata_init :: avmetadata where
  "avmetadata_init = \<lparr>ml_array = replicate 16 0, ml_count = 0\<rparr>"

(* src: common/metadata.c 6-17 avmetadata_reset *)
fun reset_items :: "nat \<Rightarrow> nat \<Rightarrow> addr list \<Rightarrow> heap \<Rightarrow> (addr list \<times> heap) option" where
  "reset_items 0 i arr hp = Some (arr, hp)"
| "reset_items (Suc n) i arr hp =
     do { a \<leftarrow> at arr i;
          hp \<leftarrow> avmetadata_item_free a hp;
          reset_items n (i + 1) (arr[i := 0]) hp }"

(* src: common/metadata.c 6-17 avmetadata_reset *)
definition avmetadata_reset :: "avmetadata \<Rightarrow> heap \<Rightarrow> (avmetadata \<times> heap) option" where
  "avmetadata_reset l hp =
     (if ml_count l = 0 then Some (l, hp)
      else do { (arr, hp) \<leftarrow> reset_items (nat (ml_count l)) 0 (ml_array l) hp;
                Some (\<lparr>ml_array = arr, ml_count = 0\<rparr>, hp) })"

(* src: common/metadata.c 25-36 avmetadata_clone *)
fun clone_items ::
    "(nat \<Rightarrow> bool \<times> bool) \<Rightarrow> avmetadata \<Rightarrow> nat \<Rightarrow> nat \<Rightarrow> avmetadata \<Rightarrow> heap \<Rightarrow> (avmetadata \<times> heap) option" where
  "clone_items ok src 0 i dst hp = Some (dst, hp)"
| "clone_items ok src (Suc n) i dst hp =
     do { a \<leftarrow> at (ml_array src) i;
          (b, hp) \<leftarrow> avmetadata_item_clone (fst (ok i)) (snd (ok i)) a hp;
          arr \<leftarrow> mem_put i [b] (ml_array dst);
          clone_items ok src n (i + 1) \<lparr>ml_array = arr, ml_count = ml_count dst + 1\<rparr> hp }"

text \<open>\<open>ok\<close> gives the outcomes of the two allocations for each item.\<close>

(* src: common/metadata.c 25-36 avmetadata_clone *)
definition avmetadata_clone ::
    "(nat \<Rightarrow> bool \<times> bool) \<Rightarrow> avmetadata \<Rightarrow> avmetadata \<Rightarrow> heap \<Rightarrow> (avmetadata \<times> heap) option" where
  "avmetadata_clone ok dst src hp =
     (if ml_count src = 0 then Some (dst, hp)
      else do { (dst, hp) \<leftarrow> avmetadata_reset dst hp;
                clone_items ok src (nat (ml_count src)) 0 dst hp })"

(* src: common/metadata.c 38-48 avmetadata_count_by_type *)
fun count_items :: "avmetadata \<Rightarrow> nat \<Rightarrow> nat \<Rightarrow> nat \<Rightarrow> heap \<Rightarrow> nat option" where
  "count_items src t 0 i hp = Some 0"
| "count_items src t (Suc n) i hp =
     do { a \<leftarrow> at (ml_array src) i;
          (cap, it) \<leftarrow> get_item a hp;
          c \<leftarrow> count_items src t n (i + 1) hp;
          Some (if mi_item_type it = t then c + 1 else c) }"

(* src: common/metadata.c 38-48 avmetadata_count_by_type *)
definition avmetadata_count_by_type :: "avmetadata \<Rightarrow> nat \<Rightarrow> heap \<Rightarrow> nat option" where
  "avmetadata_count_by_type src item_type hp = count_items src item_type (nat (ml_count src)) 0 hp"

text \<open>A message found in the vertical ancillary data is attached to the frame.\<close>

(* src: input/sdi/decklink/decklink.cpp 2152-2175 add_metadata_scte104_vanc_section *)
definition add_metadata_scte104_vanc_section ::
    "bool \<Rightarrow> bool \<Rightarrow> avmetadata \<Rightarrow> bytes \<Rightarrow> int \<Rightarrow> int \<Rightarrow> heap \<Rightarrow> (int \<times> avmetadata \<times> heap) option" where
  "add_metadata_scte104_vanc_section ok1 ok2 md section lineNr streamId hp =
     (let idx = nat (ml_count md)
      in if 16 \<le> idx then Some (-1, md, hp)
         else do {
           (a, hp) \<leftarrow> avmetadata_item_alloc ok1 ok2 (int (length section)) AVMETADATA_VANC_SCTE104 hp;
           arr \<leftarrow> mem_put idx [a] (ml_array md);
           if a = 0 then Some (-1, md\<lparr>ml_array := arr\<rparr>, hp)
           else do {
             (_, hp) \<leftarrow> avmetadata_item_data_write a section hp;
             (_, hp) \<leftarrow> avmetadata_item_data_set_linenr a lineNr hp;
             (_, hp) \<leftarrow> avmetadata_item_data_set_outputstreamid a streamId hp;
             Some (0, \<lparr>ml_array = arr, ml_count = ml_count md + 1\<rparr>, hp) } })"


section \<open>Copies of images and frames\<close>

text \<open>The size of a plane is the distance to the next one; of three planes the last is as long as the second.\<close>

(* src: obe/obe.c 2105-2116 obe_image_copy *)
definition plane_len :: "heap_image \<Rightarrow> nat \<Rightarrow> int option" where
  "plane_len img i =
     (let n = nat (hi_planes img);
          dist = (\<lambda>i. do { (b, off) \<leftarrow> at (hi_plane img) i; (b', off') \<leftarrow> at (hi_plane img) (i + 1);
                           if b = b' then Some ((off' - off) mod 2 ^ 32) else None })
      in if i + 1 < n then dist i else if n = 3 then dist 1 else Some 0)"

fun running :: "int \<Rightarrow> int list \<Rightarrow> int list" where
  "running s [] = []"
| "running s (x # xs) = s # running (s + x) xs"

(* src: obe/obe.c 2105-2132 obe_image_copy *)
definition obe_image_copy :: "bool \<Rightarrow> heap_image \<Rightarrow> heap \<Rightarrow> (heap_image \<times> heap) option" where
  "obe_image_copy ok src hp =
     do { lens \<leftarrow> those (map (plane_len src) [0..<nat (hi_planes src)]);
          let alloc_size = sum_list lens mod 2 ^ 32;
          if lens = [] then Some (src, hp)
          else do {
            (b, off) \<leftarrow> at (hi_plane src) 0;
            if b = 0 then Some (src\<lparr>hi_plane := map (\<lambda>o'. (0, o')) (running off lens)\<rparr>, hp)
            else do {
              from \<leftarrow> get_bytes b hp;
              new \<leftarrow> (if off < 0 then None else mem_get (nat off) (nat alloc_size) from);
              if \<not> ok then None
              else let (d, hp) = c_malloc (Bytes new) hp
                   in Some (src\<lparr>hi_plane := map (\<lambda>o'. (d, o')) (running 0 lens)\<rparr>, hp) } } }"

definition get_frame :: "addr \<Rightarrow> heap \<Rightarrow> heap_frame option" where
  "get_frame a hp = (case hp_cell hp a of Some (Frame f) \<Rightarrow> Some f | _ \<Rightarrow> None)"

definition get_user :: "addr \<Rightarrow> heap \<Rightarrow> (addr \<times> int) list option" where
  "get_user a hp = (case hp_cell hp a of Some (User us) \<Rightarrow> Some us | _ \<Rightarrow> None)"

(* src: obe/obe.c 2155-2163 obe_raw_frame_copy *)
fun copy_user_data :: "(addr \<times> int) list \<Rightarrow> heap \<Rightarrow> ((addr \<times> int) list \<times> heap) option" where
  "copy_user_data [] hp = Some ([], hp)"
| "copy_user_data ((a, len) # us) hp =
     do { bs \<leftarrow> get_bytes a hp;
          new \<leftarrow> mem_get 0 (nat len) bs;
          let (d, hp) = c_malloc (Bytes new) hp;
          (vs, hp) \<leftarrow> copy_user_data us hp;
          Some ((d, len) # vs, hp) }"

text \<open>
  The structure is copied as a whole, so the copy has the metadata pointers of the original.  The
  allocations are not tested: a failed one is a write through NULL.
\<close>

(* src: obe/obe.c 2145-2171 obe_raw_frame_copy *)
definition obe_raw_frame_copy :: "bool \<Rightarrow> addr \<Rightarrow> heap \<Rightarrow> (addr \<times> heap) option" where
  "obe_raw_frame_copy ok a hp =
     do { frame \<leftarrow> get_frame a hp;
          if \<not> ok then None
          else do {
            let (f, hp) = c_malloc (Frame frame) hp;
            (img, hp) \<leftarrow> obe_image_copy ok (hf_alloc_img frame) hp;
            (u, hp) \<leftarrow> (if hf_num_user_data frame = 0 then Some (0, hp)
                        else do { us \<leftarrow> get_user (hf_user_data frame) hp;
                                  us \<leftarrow> mem_get 0 (nat (hf_num_user_data frame)) us;
                                  let (u, hp) = c_malloc (User us) hp;
                                  (vs, hp) \<leftarrow> copy_user_data us hp;
                                  Some (u, put_cell u (User vs) hp) });
            Some (f, put_cell f (Frame (frame\<lparr>hf_alloc_img := img, hf_img := img, hf_user_data := u\<rparr>)) hp) } }"

(* src: obe/obe.c 281-291 obe_release_frame *)
fun free_user_data :: "(addr \<times> int) list \<Rightarrow> heap \<Rightarrow> heap option" where
  "free_user_data [] hp = Some hp"
| "free_user_data ((a, len) # us) hp = do { hp \<leftarrow> c_free a hp; free_user_data us hp }"

(* src: obe/obe.c 281-291 obe_release_frame *)
definition obe_release_frame :: "addr \<Rightarrow> heap \<Rightarrow> heap option" where
  "obe_release_frame a hp =
     do { f \<leftarrow> get_frame a hp;
          us \<leftarrow> (if hf_num_user_data f = 0 then Some []
                 else do { us \<leftarrow> get_user (hf_user_data f) hp; mem_get 0 (nat (hf_num_user_data f)) us });
          hp \<leftarrow> free_user_data us hp;
          hp \<leftarrow> c_free (hf_user_data f) hp;
          (md, hp) \<leftarrow> avmetadata_reset (hf_metadata f) hp;
          c_free a hp }"

(* src: obe/obe.c 269-273 obe_release_video_data *)
definition obe_release_video_data :: "addr \<Rightarrow> heap \<Rightarrow> heap option" where
  "obe_release_video_data a hp =
     do { f \<leftarrow> get_frame a hp;
          (b, off) \<leftarrow> at (hi_plane (hf_alloc_img f)) 0;
          hp \<leftarrow> (if off = 0 then c_free b hp else None);
          Some (put_cell a (Frame (f\<lparr>hf_alloc_img := (hf_alloc_img f)\<lparr>hi_plane :=
                  (hi_plane (hf_alloc_img f))[0 := (0, 0)]\<rparr>\<rparr>)) hp) }"

section \<open>Deep copies\<close>

lemma heap_okD: "heap_ok hp \<Longrightarrow> hp_next hp \<le> a \<Longrightarrow> hp_cell hp a = None"
  by (simp add: heap_ok_def)

lemma heap_ok_lt: "heap_ok hp \<Longrightarrow> hp_cell hp a = Some c \<Longrightarrow> 0 < a \<and> a < hp_next hp"
  by (metis gr0I heap_ok_def leI option.distinct(1))

lemma c_malloc_facts:
  assumes "c_malloc c hp = (a, hp')"
  shows "a = hp_next hp" "hp_next hp' = Suc a" "hp_cell hp' = (hp_cell hp)(a \<mapsto> c)"
    and "heap_ok hp \<Longrightarrow> heap_ok hp'"
  using assms by (auto simp: c_malloc_def heap_ok_def)

lemma put_cell_facts [simp]:
  "hp_cell (put_cell a c hp) = (hp_cell hp)(a \<mapsto> c)" "hp_next (put_cell a c hp) = hp_next hp"
  by (simp_all add: put_cell_def)

lemma heap_ok_put: "heap_ok hp \<Longrightarrow> a < hp_next hp \<Longrightarrow> 0 < a \<Longrightarrow> heap_ok (put_cell a c hp)"
  by (auto simp: heap_ok_def)

text \<open>An entry lists the address of an item, the bytes allocated for it, the item and its data.\<close>

type_synonym entry = "addr \<times> nat \<times> avmetadata_item \<times> u8 option list"

definition entry_at :: "heap \<Rightarrow> entry \<Rightarrow> bool" where
  "entry_at hp = (\<lambda>(a, cap, it, bs). hp_cell hp a = Some (Item cap it) \<and> hp_cell hp (mi_data it) = Some (Bytes bs)
     \<and> 32 \<le> cap \<and> mi_dataLengthAlloc it = int (length bs) \<and> 32 \<le> length bs)"

definition entry_addrs :: "entry \<Rightarrow> addr list" where
  "entry_addrs = (\<lambda>(a, cap, it, bs). [a, mi_data it])"

text \<open>What a reader of the item sees.\<close>

definition entry_content :: "entry \<Rightarrow> nat \<times> int \<times> int \<times> int option \<times> int option \<times> u8 option list" where
  "entry_content = (\<lambda>(a, cap, it, bs). (mi_item_type it, mi_dataLengthAlloc it, mi_dataLengthBytes it,
     mi_outputStreamId it, mi_lineNr it, bs))"

definition list_at :: "heap \<Rightarrow> avmetadata \<Rightarrow> entry list \<Rightarrow> bool" where
  "list_at hp l xs \<longleftrightarrow> length (ml_array l) = 16 \<and> ml_count l = int (length xs) \<and> length xs \<le> 16
     \<and> take (length xs) (ml_array l) = map fst xs \<and> (\<forall>x \<in> set xs. entry_at hp x)
     \<and> distinct (concat (map entry_addrs xs))"

lemma clone_item_spec:
  assumes "heap_ok hp" "entry_at hp (a, cap, it, bs)"
  shows "\<exists>b it' hp'. avmetadata_item_clone True True a hp = Some (b, hp')
    \<and> b = hp_next hp \<and> mi_data it' = Suc b \<and> hp_next hp' = b + 2 \<and> heap_ok hp'
    \<and> entry_at hp' (b, length bs, it', bs) \<and> entry_content (b, length bs, it', bs) = entry_content (a, cap, it, bs)
    \<and> hp_cell hp' = (hp_cell hp)(b \<mapsto> Item (length bs) it', Suc b \<mapsto> Bytes bs)"
proof -
  define b where "b = hp_next hp"
  have e: "hp_cell hp a = Some (Item cap it)" "hp_cell hp (mi_data it) = Some (Bytes bs)" "32 \<le> cap"
    "mi_dataLengthAlloc it = int (length bs)" "32 \<le> length bs"
    using assms(2) by (auto simp: entry_at_def)
  have lt: "0 < a" "a < b" "0 < mi_data it" "mi_data it < b"
    using heap_ok_lt [OF assms(1)] e(1,2) by (auto simp: b_def)
  define it1 where "it1 = \<lparr>mi_item_type = mi_item_type it, mi_dataLengthAlloc = int (length bs), mi_dataLengthBytes = 0,
      mi_data = Suc b, mi_outputStreamId = None, mi_lineNr = None\<rparr>"
  define it' where "it' = it1\<lparr>mi_outputStreamId := mi_outputStreamId it, mi_lineNr := mi_lineNr it,
      mi_dataLengthBytes := mi_dataLengthBytes it\<rparr>"
  define hp1 where "hp1 = hp\<lparr>hp_cell := (hp_cell hp)(b \<mapsto> Item (length bs) it1, Suc b \<mapsto> Bytes (replicate (length bs) None)),
      hp_next := b + 2\<rparr>"
  have "avmetadata_item_alloc True True (mi_dataLengthAlloc it) (mi_item_type it) hp = Some (b, hp1)"
    using e by (simp add: avmetadata_item_alloc_def end_of_data_def c_malloc_def b_def [symmetric] it1_def hp1_def
        put_cell_def fun_upd_twist)
  moreover have "check_item end_of_linenr b hp1 = Some (length bs, it1)"
    using e by (simp add: check_item_def get_item_def hp1_def end_of_linenr_def)
  moreover have "check_item end_of_linenr a hp = Some (cap, it)"
    using e by (simp add: check_item_def get_item_def end_of_linenr_def)
  moreover have "get_bytes (mi_data it) hp1 = Some bs"
    using e lt by (simp add: get_bytes_def hp1_def)
  moreover have "get_bytes (Suc b) hp1 = Some (replicate (length bs) None)"
    by (simp add: get_bytes_def hp1_def)
  ultimately have "avmetadata_item_clone True True a hp
      = Some (b, put_cell (Suc b) (Bytes bs) (put_cell b (Item (length bs) it') hp1))"
    using e by (simp add: avmetadata_item_clone_def it'_def it1_def splice_def)
  moreover have "heap_ok (put_cell (Suc b) (Bytes bs) (put_cell b (Item (length bs) it') hp1))"
    using assms(1) by (auto simp: heap_ok_def hp1_def b_def)
  ultimately show ?thesis
    using e lt by (intro exI [of _ b] exI [of _ it'] exI [of _ "put_cell (Suc b) (Bytes bs) (put_cell b (Item (length bs) it') hp1)"])
      (auto simp: entry_at_def entry_content_def it'_def it1_def b_def hp1_def)
qed

lemma entry_at_cong:
  assumes "entry_at hp x" "\<And>a. a \<in> set (entry_addrs x) \<Longrightarrow> hp_cell hp' a = hp_cell hp a"
  shows "entry_at hp' x"
  using assms by (cases x) (simp add: entry_at_def entry_addrs_def)

lemma entry_addrs_lt: "heap_ok hp \<Longrightarrow> entry_at hp x \<Longrightarrow> a \<in> set (entry_addrs x) \<Longrightarrow> 0 < a \<and> a < hp_next hp"
  using heap_ok_lt by (cases x) (auto simp: entry_at_def entry_addrs_def)

lemma entries_below:
  assumes "heap_ok hp" "\<forall>x \<in> set xs. entry_at hp x" "\<forall>a < hp_next hp. hp_cell hp' a = hp_cell hp a"
  shows "\<forall>x \<in> set xs. entry_at hp' x"
proof
  fix x assume x: "x \<in> set xs"
  show "entry_at hp' x"
  proof (rule entry_at_cong)
    show "entry_at hp x"
      using assms(2) x by blast
    show "hp_cell hp' a = hp_cell hp a" if "a \<in> set (entry_addrs x)" for a
      using entry_addrs_lt [OF assms(1) \<open>entry_at hp x\<close> that] assms(3) by blast
  qed
qed

lemma clone_items_spec:
  assumes "heap_ok hp" "\<forall>x \<in> set xs. entry_at hp x" "map fst xs = take n (drop i (ml_array src))"
    and "length xs = n" "i + n \<le> length (ml_array dst)" "i + n \<le> length (ml_array src)"
  shows "\<exists>ys dst' hp'. clone_items (\<lambda>_. (True, True)) src n i dst hp = Some (dst', hp') \<and> heap_ok hp'
    \<and> map entry_content ys = map entry_content xs \<and> (\<forall>y \<in> set ys. entry_at hp' y)
    \<and> concat (map entry_addrs ys) = [hp_next hp..<hp_next hp'] \<and> hp_next hp \<le> hp_next hp'
    \<and> (\<forall>a < hp_next hp. hp_cell hp' a = hp_cell hp a)
    \<and> ml_array dst' = take i (ml_array dst) @ map fst ys @ drop (i + n) (ml_array dst)
    \<and> ml_count dst' = ml_count dst + int n"
  using assms
proof (induction n arbitrary: i dst hp xs)
  case 0
  then show ?case
    by (intro exI [of _ "[]"] exI [of _ dst] exI [of _ hp]) simp
next
  case (Suc n)
  then obtain a cap it bs xs' where xs: "xs = (a, cap, it, bs) # xs'"
    by (cases xs) auto
  have a: "i < length (ml_array src)" "ml_array src ! i = a" "map fst xs' = take n (drop (i + 1) (ml_array src))"
    using Suc.prems(3,6) xs by (auto simp: drop_nth_conv [of i "ml_array src"])
  obtain b it' hp1 where c: "avmetadata_item_clone True True a hp = Some (b, hp1)" "b = hp_next hp" "mi_data it' = Suc b"
    "hp_next hp1 = b + 2" "heap_ok hp1" "entry_at hp1 (b, length bs, it', bs)"
    "entry_content (b, length bs, it', bs) = entry_content (a, cap, it, bs)"
    "hp_cell hp1 = (hp_cell hp)(b \<mapsto> Item (length bs) it', Suc b \<mapsto> Bytes bs)"
    using clone_item_spec [OF Suc.prems(1), of a cap it bs] Suc.prems(2) xs by auto
  define dst1 where "dst1 = \<lparr>ml_array = splice i [b] (ml_array dst), ml_count = ml_count dst + 1\<rparr>"
  have same: "\<forall>a < hp_next hp. hp_cell hp1 a = hp_cell hp a"
    using c(2,8) by simp
  have "\<forall>x \<in> set xs'. entry_at hp1 x"
    by (rule entries_below [OF Suc.prems(1) _ same]) (use Suc.prems(2) xs in simp)
  then obtain ys dst' hp' where r: "clone_items (\<lambda>_. (True, True)) src n (i + 1) dst1 hp1 = Some (dst', hp')" "heap_ok hp'"
    "map entry_content ys = map entry_content xs'" "\<forall>y \<in> set ys. entry_at hp' y"
    "concat (map entry_addrs ys) = [hp_next hp1..<hp_next hp']" "hp_next hp1 \<le> hp_next hp'"
    "\<forall>a < hp_next hp1. hp_cell hp' a = hp_cell hp1 a"
    "ml_array dst' = take (i + 1) (ml_array dst1) @ map fst ys @ drop (i + 1 + n) (ml_array dst1)"
    "ml_count dst' = ml_count dst1 + int n"
    using Suc.IH [OF c(5) _ a(3), of dst1] Suc.prems(4,5,6) xs by (auto simp: dst1_def)
  have e: "entry_at hp' (b, length bs, it', bs)"
    using c(3,4,6) r(7) by (auto intro!: entry_at_cong [of hp1] simp: entry_addrs_def)
  have f: "[hp_next hp..<hp_next hp'] = b # Suc b # [hp_next hp1..<hp_next hp']"
    using c(2,4) r(6) by (simp add: upt_conv_Cons)
  have arr: "ml_array dst' = take i (ml_array dst) @ map fst ((b, length bs, it', bs) # ys) @ drop (i + Suc n) (ml_array dst)"
    using Suc.prems(5) unfolding r(8) dst1_def by (simp add: splice_def add.commute [of n i])
  show ?case
    using a(1,2) c r e Suc.prems(5) same arr f xs
    by (intro exI [of _ "(b, length bs, it', bs) # ys"] exI [of _ dst'] exI [of _ hp'])
       (simp_all add: dst1_def entry_addrs_def del: upt_Suc)
qed

text \<open>Freeing the items of a list removes exactly their blocks.\<close>

lemma free_item_spec:
  assumes "entry_at hp (a, cap, it, bs)" "0 < a" "0 < mi_data it" "heap_ok hp"
  shows "\<exists>hp'. avmetadata_item_free a hp = Some hp' \<and> heap_ok hp' \<and> hp_next hp' = hp_next hp
    \<and> hp_cell hp' = (hp_cell hp)(mi_data it := None, a := None)"
proof -
  have "a \<noteq> mi_data it"
    using assms(1) by (auto simp: entry_at_def)
  then show ?thesis
    using assms by (auto simp: avmetadata_item_free_def get_item_def c_free_def entry_at_def heap_ok_def)
qed

text \<open>Freeing one item leaves the others.\<close>

lemma entries_apart:
  assumes "distinct (concat (map entry_addrs ((a, cap, it, bs) # xs)))" "\<forall>x \<in> set xs. entry_at hp x"
    and "hp_cell hp1 = (hp_cell hp)(mi_data it := None, a := None)"
  shows "\<forall>x \<in> set xs. entry_at hp1 x"
proof
  fix x assume x: "x \<in> set xs"
  then have "a \<notin> set (entry_addrs x)" "mi_data it \<notin> set (entry_addrs x)"
    using assms(1) by (auto simp: entry_addrs_def)
  then have "hp_cell hp1 c = hp_cell hp c" if "c \<in> set (entry_addrs x)" for c
    using that assms(3) by auto
  then show "entry_at hp1 x"
    by (rule entry_at_cong [rotated]) (use assms(2) x in auto)
qed

lemma reset_items_spec:
  assumes "heap_ok hp" "\<forall>x \<in> set xs. entry_at hp x" "distinct (concat (map entry_addrs xs))"
    "map fst xs = take n (drop i arr)" "length xs = n" "i + n \<le> length arr"
  shows "\<exists>hp'. reset_items n i arr hp = Some (take i arr @ replicate n 0 @ drop (i + n) arr, hp') \<and> heap_ok hp'
    \<and> hp_next hp' = hp_next hp
    \<and> (\<forall>a. hp_cell hp' a = (if a \<in> set (concat (map entry_addrs xs)) then None else hp_cell hp a))"
  using assms
proof (induction n arbitrary: i arr hp xs)
  case (Suc n)
  then obtain a cap it bs xs' where xs: "xs = (a, cap, it, bs) # xs'"
    by (cases xs) auto
  have a: "i < length arr" "arr ! i = a" "map fst xs' = take n (drop (i + 1) (arr[i := 0]))"
    using Suc.prems(4,6) xs by (auto simp: drop_nth_conv [of i arr])
  have pos: "0 < a" "0 < mi_data it"
    using entry_addrs_lt [OF Suc.prems(1), of "(a, cap, it, bs)"] Suc.prems(2) xs by (auto simp: entry_addrs_def)
  obtain hp1 where f: "avmetadata_item_free a hp = Some hp1" "heap_ok hp1" "hp_next hp1 = hp_next hp"
    "hp_cell hp1 = (hp_cell hp)(mi_data it := None, a := None)"
    using free_item_spec [of hp a cap it bs] Suc.prems(1,2) xs pos by auto
  have "\<forall>x \<in> set xs'. entry_at hp1 x"
    by (rule entries_apart [of a cap it bs _ hp]) (use Suc.prems(2,3) xs f(4) in auto)
  moreover have "distinct (concat (map entry_addrs xs'))"
    using Suc.prems(3) xs by (simp add: entry_addrs_def)
  ultimately obtain hp' where r: "reset_items n (i + 1) (arr[i := 0]) hp1
      = Some (take (i + 1) (arr[i := 0]) @ replicate n 0 @ drop (i + 1 + n) (arr[i := 0]), hp')" "heap_ok hp'"
    "hp_next hp' = hp_next hp1"
    "\<forall>a. hp_cell hp' a = (if a \<in> set (concat (map entry_addrs xs')) then None else hp_cell hp1 a)"
    using Suc.IH [OF f(2) _ _ a(3)] Suc.prems(5,6) xs by auto
  have "take (i + 1) (arr[i := 0]) @ replicate n 0 @ drop (i + 1 + n) (arr[i := 0])
      = take i arr @ replicate (Suc n) 0 @ drop (i + Suc n) arr"
    using a(1) by (simp add: take_Suc_conv_app_nth)
  then show ?case
    using a(1,2) f r xs by (intro exI [of _ hp']) (auto simp: entry_addrs_def)
qed simp

lemma reset_spec:
  assumes "heap_ok hp" "list_at hp l xs"
  shows "\<exists>l' hp'. avmetadata_reset l hp = Some (l', hp') \<and> heap_ok hp' \<and> ml_count l' = 0 \<and> length (ml_array l') = 16
    \<and> hp_next hp' = hp_next hp
    \<and> (\<forall>a. hp_cell hp' a = (if a \<in> set (concat (map entry_addrs xs)) then None else hp_cell hp a))"
proof (cases "xs = []")
  case True
  then show ?thesis
    using assms by (simp add: avmetadata_reset_def list_at_def)
next
  case False
  obtain hp' where "reset_items (length xs) 0 (ml_array l) hp
      = Some (take 0 (ml_array l) @ replicate (length xs) 0 @ drop (0 + length xs) (ml_array l), hp')" "heap_ok hp'"
    "hp_next hp' = hp_next hp"
    "\<forall>a. hp_cell hp' a = (if a \<in> set (concat (map entry_addrs xs)) then None else hp_cell hp a)"
    using reset_items_spec [OF assms(1), of xs "length xs" 0 "ml_array l"] assms(2) by (auto simp: list_at_def)
  then show ?thesis
    using assms(2) False by (intro exI [of _ "\<lparr>ml_array = replicate (length xs) 0 @ drop (length xs) (ml_array l), ml_count = 0\<rparr>"]
        exI [of _ hp']) (simp add: avmetadata_reset_def list_at_def)
qed

lemma metadata_clone_spec:
  assumes "heap_ok hp" "list_at hp src xs" "xs \<noteq> []" "ml_count dst = 0" "length (ml_array dst) = 16"
  shows "\<exists>dst' hp' ys. avmetadata_clone (\<lambda>_. (True, True)) dst src hp = Some (dst', hp') \<and> heap_ok hp'
    \<and> list_at hp' dst' ys \<and> map entry_content ys = map entry_content xs \<and> list_at hp' src xs
    \<and> set (concat (map entry_addrs ys)) = {hp_next hp..<hp_next hp'} \<and> (\<forall>a < hp_next hp. hp_cell hp' a = hp_cell hp a)"
proof -
  have s: "length (ml_array src) = 16" "ml_count src = int (length xs)" "length xs \<le> 16"
    "take (length xs) (ml_array src) = map fst xs" "\<forall>x \<in> set xs. entry_at hp x" "distinct (concat (map entry_addrs xs))"
    using assms(2) by (simp_all add: list_at_def)
  obtain ys dst' hp' where c: "clone_items (\<lambda>_. (True, True)) src (length xs) 0 dst hp = Some (dst', hp')" "heap_ok hp'"
    "map entry_content ys = map entry_content xs" "\<forall>y \<in> set ys. entry_at hp' y"
    "concat (map entry_addrs ys) = [hp_next hp..<hp_next hp']" "hp_next hp \<le> hp_next hp'"
    "\<forall>a < hp_next hp. hp_cell hp' a = hp_cell hp a"
    "ml_array dst' = take 0 (ml_array dst) @ map fst ys @ drop (0 + length xs) (ml_array dst)"
    "ml_count dst' = ml_count dst + int (length xs)"
    using clone_items_spec [OF assms(1) s(5), of "length xs" 0 src dst] s assms(5) by auto
  have ly: "length ys = length xs"
    using c(3) map_eq_imp_length_eq by blast
  have d: "list_at hp' dst' ys"
    using c ly assms(4,5) s(3) by (simp add: list_at_def)
  have "\<forall>x \<in> set xs. entry_at hp' x"
    by (rule entries_below [OF assms(1) s(5) c(7)])
  then have o: "list_at hp' src xs"
    using s by (simp add: list_at_def)
  show ?thesis
    using c(1,2,3,5,7) d o s(2) assms(3,4)
    by (intro exI [of _ dst'] exI [of _ hp'] exI [of _ ys]) (simp add: avmetadata_clone_def avmetadata_reset_def)
qed

text \<open>C20 A cloned metadata list is a deep copy: it has the contents of the original at addresses of its
  own, the original stays as it was, and resetting the clone gives back exactly the memory it took,
  so each of the two lists can be freed without the other noticing.\<close>

theorem metadata_clone_is_deep:
  assumes "heap_ok hp" "list_at hp src xs" "0 < length xs" "ml_count dst = 0" "length (ml_array dst) = 16"
  shows "\<exists>dst' hp' ys. avmetadata_clone (\<lambda>_. (True, True)) dst src hp = Some (dst', hp') \<and> heap_ok hp'
    \<and> list_at hp' dst' ys \<and> map entry_content ys = map entry_content xs \<and> list_at hp' src xs
    \<and> (\<exists>l hp''. avmetadata_reset dst' hp' = Some (l, hp'') \<and> hp_cell hp'' = hp_cell hp)"
proof -
  obtain dst' hp' ys where c: "avmetadata_clone (\<lambda>_. (True, True)) dst src hp = Some (dst', hp')" "heap_ok hp'"
    "list_at hp' dst' ys" "map entry_content ys = map entry_content xs" "list_at hp' src xs"
    "set (concat (map entry_addrs ys)) = {hp_next hp..<hp_next hp'}" "\<forall>a < hp_next hp. hp_cell hp' a = hp_cell hp a"
    using metadata_clone_spec [OF assms(1,2) _ assms(4,5)] assms(3) by auto
  obtain l hp'' where r: "avmetadata_reset dst' hp' = Some (l, hp'')"
    "\<forall>a. hp_cell hp'' a = (if a \<in> set (concat (map entry_addrs ys)) then None else hp_cell hp' a)"
    using reset_spec [OF c(2,3)] by blast
  have "hp_cell hp'' a = hp_cell hp a" for a
    using r(2) c(2,6,7) heap_okD [OF assms(1), of a] heap_okD [OF c(2), of a] by (cases "a < hp_next hp") (auto simp del: set_concat)
  then have "hp_cell hp'' = hp_cell hp"
    by auto
  then show ?thesis
    using c(1-5) r(1) by blast
qed

section \<open>Adding messages\<close>

lemma list_at_init [simp]: "list_at hp avmetadata_init []"
  by (simp add: list_at_def avmetadata_init_def)

definition scte104_content :: "bytes \<Rightarrow> int \<Rightarrow> int \<Rightarrow> nat \<times> int \<times> int \<times> int option \<times> int option \<times> u8 option list" where
  "scte104_content section lineNr streamId = (AVMETADATA_VANC_SCTE104, int (length section), int (length section),
     Some streamId, Some lineNr, map Some section)"

lemma add_section_spec:
  assumes "heap_ok hp" "list_at hp md xs" "length xs < 16" "32 \<le> length section"
  shows "\<exists>md' hp' x. add_metadata_scte104_vanc_section True True md section lineNr streamId hp = Some (0, md', hp')
    \<and> heap_ok hp' \<and> list_at hp' md' (xs @ [x]) \<and> entry_content x = scte104_content section lineNr streamId
    \<and> set (entry_addrs x) = {hp_next hp..<hp_next hp'} \<and> (\<forall>a < hp_next hp. hp_cell hp' a = hp_cell hp a)"
proof -
  define a where "a = hp_next hp"
  define it where "it = \<lparr>mi_item_type = AVMETADATA_VANC_SCTE104, mi_dataLengthAlloc = int (length section),
      mi_dataLengthBytes = int (length section), mi_data = Suc a, mi_outputStreamId = Some streamId, mi_lineNr = Some lineNr\<rparr>"
  define hp' where "hp' = hp\<lparr>hp_cell := (hp_cell hp)(a \<mapsto> Item (length section) it, Suc a \<mapsto> Bytes (map Some section)),
      hp_next := a + 2\<rparr>"
  define md' where "md' = \<lparr>ml_array = splice (length xs) [a] (ml_array md), ml_count = ml_count md + 1\<rparr>"
  have l: "length (ml_array md) = 16" "ml_count md = int (length xs)" "take (length xs) (ml_array md) = map fst xs"
    "\<forall>x \<in> set xs. entry_at hp x" "distinct (concat (map entry_addrs xs))"
    using assms(2) by (simp_all add: list_at_def)
  have a: "a \<noteq> 0"
    using assms(1) by (simp add: a_def heap_ok_def)
  define it1 where "it1 = \<lparr>mi_item_type = AVMETADATA_VANC_SCTE104, mi_dataLengthAlloc = int (length section),
      mi_dataLengthBytes = 0, mi_data = Suc a, mi_outputStreamId = None, mi_lineNr = None\<rparr>"
  define hp1 where "hp1 = hp\<lparr>hp_cell := (hp_cell hp)(a \<mapsto> Item (length section) it1,
      Suc a \<mapsto> Bytes (replicate (length section) None)), hp_next := a + 2\<rparr>"
  define hp2 where "hp2 = put_cell (Suc a) (Bytes (map Some section))
      (put_cell a (Item (length section) (it1\<lparr>mi_dataLengthBytes := int (length section)\<rparr>)) hp1)"
  have al: "avmetadata_item_alloc True True (int (length section)) AVMETADATA_VANC_SCTE104 hp = Some (a, hp1)"
    using assms(4) by (simp add: avmetadata_item_alloc_def end_of_data_def c_malloc_def a_def [symmetric] hp1_def it1_def
        put_cell_def fun_upd_twist)
  have wr: "avmetadata_item_data_write a section hp1 = Some (0, hp2)"
    by (simp add: avmetadata_item_data_write_def get_item_def get_bytes_def hp1_def hp2_def it1_def splice_def)
  have ln: "avmetadata_item_data_set_linenr a lineNr hp2 = Some (0, put_cell a (Item (length section)
      (it1\<lparr>mi_dataLengthBytes := int (length section), mi_lineNr := Some lineNr\<rparr>)) hp2)"
    using assms(4) by (simp add: avmetadata_item_data_set_linenr_def check_item_def get_item_def end_of_linenr_def hp2_def)
  have "add_metadata_scte104_vanc_section True True md section lineNr streamId hp = Some (0, md', hp')"
    using assms(3,4) l a al wr ln
    by (simp add: add_metadata_scte104_vanc_section_def Let_def
        avmetadata_item_data_set_outputstreamid_def check_item_def get_item_def end_of_streamid_def
        md'_def hp'_def hp2_def hp1_def it_def it1_def put_cell_def fun_upd_twist)
  moreover have ok: "heap_ok hp'"
    using assms(1) by (auto simp: heap_ok_def hp'_def a_def)
  moreover have same: "\<forall>a < hp_next hp. hp_cell hp' a = hp_cell hp a"
    by (simp add: hp'_def a_def)
  moreover have "list_at hp' md' (xs @ [(a, length section, it, map Some section)])"
  proof -
    have "set (concat (map entry_addrs xs)) \<subseteq> {..<a}"
      using entry_addrs_lt [OF assms(1)] l(4) by (auto simp: a_def)
    then have "a \<notin> set (concat (map entry_addrs xs))" "Suc a \<notin> set (concat (map entry_addrs xs))"
      by (auto simp del: set_concat)
    moreover have "entry_addrs (a, length section, it, map Some section) = [a, Suc a]"
      by (simp add: entry_addrs_def it_def)
    ultimately have "distinct (concat (map entry_addrs (xs @ [(a, length section, it, map Some section)])))"
      using l(5) by (simp del: set_concat)
    moreover have "take (Suc (length xs)) (splice (length xs) [a] (ml_array md)) = map fst xs @ [a]"
      using l(1,3) assms(3) by (simp add: splice_def)
    moreover have "entry_at hp' (a, length section, it, map Some section)"
      using assms(4) by (simp add: entry_at_def hp'_def it_def)
    ultimately show ?thesis
      using l(1,2) assms(3) entries_below [OF assms(1) l(4) same] by (auto simp: list_at_def md'_def)
  qed
  ultimately show ?thesis
    by (intro exI [of _ md'] exI [of _ hp'] exI [of _ "(a, length section, it, map Some section)"])
       (auto simp: entry_content_def scte104_content_def entry_addrs_def it_def hp'_def a_def)
qed

definition empty_heap :: heap where
  "empty_heap = \<lparr>hp_cell = \<lambda>_. None, hp_next = 1\<rparr>"

lemma empty_heap_ok [simp]: "heap_ok empty_heap"
  by (simp add: heap_ok_def empty_heap_def)

theorem metadata_clone_is_deep_witness:
  "\<exists>md hp dst' hp' l hp''. add_metadata_scte104_vanc_section True True avmetadata_init (replicate 40 7) 13 5 empty_heap = Some (0, md, hp)
     \<and> avmetadata_clone (\<lambda>_. (True, True)) avmetadata_init md hp = Some (dst', hp')
     \<and> avmetadata_reset dst' hp' = Some (l, hp'') \<and> hp_cell hp'' = hp_cell hp"
proof -
  obtain md hp x where a: "add_metadata_scte104_vanc_section True True avmetadata_init (replicate 40 7) 13 5 empty_heap = Some (0, md, hp)"
    "heap_ok hp" "list_at hp md ([] @ [x])"
    using add_section_spec [of empty_heap avmetadata_init "[]" "replicate 40 7" 13 5] by auto
  have "0 < length ([] @ [x])" "ml_count avmetadata_init = 0" "length (ml_array avmetadata_init) = 16"
    by (simp_all add: avmetadata_init_def)
  from metadata_clone_is_deep [OF a(2,3) this] show ?thesis
    using a(1) by blast
qed

text \<open>A message of fewer than 32 bytes cannot be attached to a frame without writing past the memory
  allocated for the item, because the item itself gets as many bytes as the message has.\<close>

theorem short_section_overflows_item:
  assumes "length section < 32" "0 \<le> ml_count md" "ml_count md < 16" "length (ml_array md) = 16" "heap_ok hp"
  shows "add_metadata_scte104_vanc_section True True md section lineNr streamId hp = None"
proof (cases "length section < 24")
  case True
  then show ?thesis
    using assms(3) by (simp add: add_metadata_scte104_vanc_section_def avmetadata_item_alloc_def end_of_data_def Let_def)
next
  case False
  define n where "n = length section"
  define a where "a = hp_next hp"
  obtain hp1 it where al: "avmetadata_item_alloc True True (int n) AVMETADATA_VANC_SCTE104 hp = Some (a, hp1)"
    "hp_cell hp1 a = Some (Item n it)" "mi_data it = Suc a" "mi_dataLengthAlloc it = int n"
    "hp_cell hp1 (Suc a) = Some (Bytes (replicate n None))"
    using False by (auto simp: avmetadata_item_alloc_def end_of_data_def c_malloc_def n_def a_def)
  have "a \<noteq> 0"
    using assms(5) by (simp add: a_def heap_ok_def)
  moreover have "avmetadata_item_data_write a section hp1 = Some (0, put_cell (Suc a) (Bytes (map Some section))
      (put_cell a (Item n (it\<lparr>mi_dataLengthBytes := int n\<rparr>)) hp1))"
    using al by (simp add: avmetadata_item_data_write_def get_item_def get_bytes_def n_def splice_def)
  moreover have "avmetadata_item_data_set_linenr a lineNr (put_cell (Suc a) (Bytes (map Some section))
      (put_cell a (Item n (it\<lparr>mi_dataLengthBytes := int n\<rparr>)) hp1)) = None"
    using assms(1) by (simp add: avmetadata_item_data_set_linenr_def check_item_def get_item_def end_of_linenr_def n_def)
  ultimately show ?thesis
    using al(1) assms(2-4) by (simp add: add_metadata_scte104_vanc_section_def Let_def n_def [symmetric])
qed

theorem short_section_overflows_item_witness:
  "add_metadata_scte104_vanc_section True True avmetadata_init (replicate 30 7) 13 5 empty_heap = None"
  by (rule short_section_overflows_item) (simp_all add: avmetadata_init_def)

section \<open>Frames that share their metadata\<close>

text \<open>Freeing only removes blocks.\<close>

definition shrinks :: "heap \<Rightarrow> heap \<Rightarrow> bool" where
  "shrinks hp hp' \<longleftrightarrow> (\<forall>a. hp_cell hp' a = None \<or> hp_cell hp' a = hp_cell hp a)"

lemma shrinks_refl [simp]: "shrinks hp hp"
  by (simp add: shrinks_def)

lemma shrinks_trans: "shrinks hp hp1 \<Longrightarrow> shrinks hp1 hp2 \<Longrightarrow> shrinks hp hp2"
  by (metis shrinks_def)

lemma c_free_shrinks: "c_free b hp = Some hp' \<Longrightarrow> shrinks hp hp'"
  by (auto simp: c_free_def shrinks_def split: if_splits)

lemma item_free_shrinks: "avmetadata_item_free b hp = Some hp' \<Longrightarrow> shrinks hp hp'"
  by (auto simp: avmetadata_item_free_def bind_eq_Some_conv split: if_splits
      intro: shrinks_trans [OF c_free_shrinks c_free_shrinks])

lemma reset_items_shrinks: "reset_items n i arr hp = Some (arr', hp') \<Longrightarrow> shrinks hp hp'"
  by (induction n arbitrary: i arr hp)
     (auto simp: bind_eq_Some_conv intro: shrinks_trans [OF item_free_shrinks])

lemma reset_shrinks: "avmetadata_reset l hp = Some (l', hp') \<Longrightarrow> shrinks hp hp'"
  by (auto simp: avmetadata_reset_def bind_eq_Some_conv split: if_splits intro: reset_items_shrinks)

lemma free_user_data_shrinks: "free_user_data us hp = Some hp' \<Longrightarrow> shrinks hp hp'"
proof (induction us arbitrary: hp)
  case (Cons u us)
  obtain a len where "u = (a, len)"
    by fastforce
  then obtain hp1 where "c_free a hp = Some hp1" "free_user_data us hp1 = Some hp'"
    using Cons.prems by (auto simp: bind_eq_Some_conv)
  then show ?case
    using shrinks_trans [OF c_free_shrinks Cons.IH] by blast
qed simp

lemmas shrinks_intros = c_free_shrinks item_free_shrinks reset_shrinks free_user_data_shrinks

lemma shrinks_None: "shrinks hp hp' \<Longrightarrow> hp_cell hp a = None \<Longrightarrow> hp_cell hp' a = None"
  by (metis shrinks_def)

lemma shrinks_Some: "shrinks hp hp' \<Longrightarrow> hp_cell hp' a = Some v \<Longrightarrow> hp_cell hp a = Some v"
  by (metis shrinks_def option.distinct(1))

lemma release_shrinks: "obe_release_frame a hp = Some hp' \<Longrightarrow> shrinks hp hp'"
proof -
  assume "obe_release_frame a hp = Some hp'"
  then obtain us hp1 hp2 hp3 md and f :: heap_frame where "free_user_data us hp = Some hp1" "c_free (hf_user_data f) hp1 = Some hp2"
    "avmetadata_reset (hf_metadata f) hp2 = Some (md, hp3)" "c_free a hp3 = Some hp'"
    by (auto simp: obe_release_frame_def bind_eq_Some_conv)
  then show ?thesis
    by (meson shrinks_trans shrinks_intros)
qed

text \<open>The first item of a list that is reset is freed, and must still be allocated.\<close>

lemma reset_first:
  assumes "avmetadata_reset l hp = Some (l', hp')" "0 < ml_count l" "ml_array l = x # xs" "x \<noteq> 0"
  shows "hp_cell hp x \<noteq> None \<and> hp_cell hp' x = None"
proof -
  obtain n where n: "nat (ml_count l) = Suc n"
    using assms(2) by (metis gr0_implies_Suc zero_less_nat_eq)
  obtain hp1 arr where r: "avmetadata_item_free x hp = Some hp1" "reset_items n 1 ((ml_array l)[0 := 0]) hp1 = Some (arr, hp')"
    using assms(1,2,3) n by (auto simp: avmetadata_reset_def bind_eq_Some_conv)
  have "hp_cell hp x \<noteq> None" "hp_cell hp1 x = None"
    using r(1) assms(4) by (auto simp: avmetadata_item_free_def get_item_def c_free_def bind_eq_Some_conv split: if_splits)
  then show ?thesis
    using shrinks_None [OF reset_items_shrinks [OF r(2)]] by blast
qed

text \<open>After the original is released, releasing its copy touches metadata that is already freed.\<close>

lemma copied_frame_releases_metadata_twice:
  assumes "obe_raw_frame_copy ok a hp = Some (c, hp1)" "get_frame a hp = Some f" "get_frame a hp1 = Some f"
    and "0 < ml_count (hf_metadata f)" "ml_array (hf_metadata f) = x # xs" "x \<noteq> 0"
    and "obe_release_frame a hp1 = Some hp2"
  shows "obe_release_frame c hp2 = None"
proof -
  obtain hp3 md hp4 where r: "avmetadata_reset (hf_metadata f) hp3 = Some (md, hp4)" "c_free a hp4 = Some hp2"
    using assms(3,7) by (auto simp: obe_release_frame_def bind_eq_Some_conv)
  have x: "hp_cell hp2 x = None"
    using reset_first [OF r(1) assms(4-6)] shrinks_None [OF c_free_shrinks [OF r(2)]] by blast
  show ?thesis
  proof (rule ccontr)
    assume "obe_release_frame c hp2 \<noteq> None"
    then obtain us hp5 hp6 md' hp7 and g :: heap_frame where g: "get_frame c hp2 = Some g" "free_user_data us hp2 = Some hp5"
      "c_free (hf_user_data g) hp5 = Some hp6" "avmetadata_reset (hf_metadata g) hp6 = Some (md', hp7)"
      by (auto simp: obe_release_frame_def bind_eq_Some_conv)
    obtain g1 where g1: "hp_cell hp1 c = Some (Frame g1)" "hf_metadata g1 = hf_metadata f"
      using assms(1,2) by (auto simp: obe_raw_frame_copy_def c_malloc_def bind_eq_Some_conv Let_def split: if_splits)
    have "hp_cell hp2 c = Some (Frame g)"
      using g(1) by (auto simp: get_frame_def split: option.splits cell.splits)
    then have "hf_metadata g = hf_metadata f"
      using shrinks_Some [OF release_shrinks [OF assms(7)]] g1 by fastforce
    then have "hp_cell hp6 x \<noteq> None"
      using reset_first [OF g(4)] assms(4-6) by auto
    then show False
      using x g(2,3) shrinks_None free_user_data_shrinks c_free_shrinks by metis
  qed
qed

section \<open>Copies of planes\<close>

text \<open>Three planes that lie one behind the other, the last two of one size, are copied as they are.\<close>

lemma three_planes_copied:
  assumes "hp_cell hp b = Some (Bytes (ys @ us @ vs))" "b \<noteq> 0" "length us = length vs"
    and "hi_planes img = 3" "hi_plane img = [(b, 0), (b, int (length ys)), (b, int (length ys + length us))] @ rest"
    and "length (ys @ us @ vs) < 2 ^ 32"
  shows "\<exists>img' hp' d. obe_image_copy True img hp = Some (img', hp') \<and> hp_cell hp' d = Some (Bytes (ys @ us @ vs))
    \<and> hi_plane img' = [(d, 0), (d, int (length ys)), (d, int (length ys + length us))]"
proof -
  have "int (length ys) mod 2 ^ 32 = int (length ys)" "int (length us) mod 2 ^ 32 = int (length us)"
    "(int (length ys) + (int (length us) + int (length us))) mod 2 ^ 32 = int (length ys + length us + length vs)"
    using assms(3,6) by simp_all
  then show ?thesis
    using assms by (simp add: obe_image_copy_def plane_len_def Let_def upt_conv_Cons nat_add_distrib get_bytes_def c_malloc_def)
qed

text \<open>Of two planes, as in NV12, only the first is copied: the second starts where the copy ends.\<close>

lemma two_planes_lose_chroma:
  assumes "hp_cell hp b = Some (Bytes (ys @ uvs))" "b \<noteq> 0"
    and "hi_planes img = 2" "hi_plane img = [(b, 0), (b, int (length ys))] @ rest" "length ys < 2 ^ 32"
  shows "\<exists>img' hp' d. obe_image_copy True img hp = Some (img', hp') \<and> hp_cell hp' d = Some (Bytes ys)
    \<and> hi_plane img' = [(d, 0), (d, int (length ys))]"
proof -
  have "int (length ys) mod 2 ^ 32 = int (length ys)"
    using assms(5) by simp
  then show ?thesis
    using assms by (simp add: obe_image_copy_def plane_len_def Let_def upt_conv_Cons get_bytes_def c_malloc_def)
qed

end
