(* ===== verification/Obe_Scte104.thy ===== *)
theory Obe_Scte104
  imports Obe_Metadata
begin

text \<open>
  SCTE-104 messages: the filter table \<open>common/scte104filtering.c\<close>, the ancillary data processor
  \<open>common/vancprocessor.c\<close> and its use by the encoder threads (\<open>encoders/video/avc/x264.c\<close>; the x265
  thread has the same loop).  libklvanc's packet parser and libklscte35's conversion are arguments.
\<close>

section \<open>Filters\<close>

text \<open>An index of -1 matches every message.\<close>

(* src: common/scte104filtering.h 27-33 scte104_filter_s *)
record scte104_filter =
  sf_pid :: u16
  sf_AS_index :: int
  sf_DPI_PID_index :: int
  sf_messageCount :: u64

text \<open>The active filters, at most 64.\<close>

type_synonym scte104_filtering = "scte104_filter list"

definition MAX_SCTE104_FILTERS :: nat where "MAX_SCTE104_FILTERS = 64"

(* src: common/scte104filtering.c 14-17 scte104filter_init *)
definition scte104filter_init :: scte104_filtering where
  "scte104filter_init = []"

(* src: common/scte104filtering.c 19-22 scte104filter_count *)
definition scte104filter_count :: "scte104_filtering \<Rightarrow> nat" where
  "scte104filter_count ctx = length ctx"

(* src: common/scte104filtering.c 29-46 scte104filter_add_filter *)
definition scte104filter_add_filter ::
    "scte104_filtering \<Rightarrow> u16 \<Rightarrow> int \<Rightarrow> int \<Rightarrow> int \<times> scte104_filtering" where
  "scte104filter_add_filter ctx pid AS_index DPI_PID_index =
     (if MAX_SCTE104_FILTERS \<le> length ctx then (-1, ctx)
      else (0, ctx @ [\<lparr>sf_pid = pid, sf_AS_index = AS_index, sf_DPI_PID_index = DPI_PID_index, sf_messageCount = 0\<rparr>]))"

text \<open>The part of a multiple operation message the filters look at.\<close>

record multiple_operation_message =
  mom_AS_index :: int
  mom_DPI_PID_index :: int

(* src: common/scte104filtering.c 58-75 scte104filter_lookup_scte35_pids *)
definition filter_appends :: "scte104_filter \<Rightarrow> multiple_operation_message \<Rightarrow> bool" where
  "filter_appends f msg =
     (if sf_AS_index f = -1
      then if sf_DPI_PID_index f = -1 then True else sf_DPI_PID_index f = mom_DPI_PID_index msg
      else if sf_AS_index f = mom_AS_index msg
      then if sf_DPI_PID_index f = -1 then True else sf_DPI_PID_index f = mom_DPI_PID_index msg
      else False)"

text \<open>\<open>ok\<close> gives the outcome of each reallocation; \<^const>\<open>None\<close> is the error return.\<close>

(* src: common/scte104filtering.c 53-85 scte104filter_lookup_scte35_pids *)
fun lookup_loop :: "(nat \<Rightarrow> bool) \<Rightarrow> scte104_filtering \<Rightarrow> multiple_operation_message \<Rightarrow> u16 list \<Rightarrow> u16 list option" where
  "lookup_loop ok [] msg arr = Some arr"
| "lookup_loop ok (f # fs) msg arr =
     (if filter_appends f msg
      then if ok (length arr) then lookup_loop ok fs msg (arr @ [sf_pid f]) else None
      else lookup_loop ok fs msg arr)"

(* src: common/scte104filtering.c 48-92 scte104filter_lookup_scte35_pids *)
definition scte104filter_lookup_scte35_pids ::
    "(nat \<Rightarrow> bool) \<Rightarrow> scte104_filtering \<Rightarrow> multiple_operation_message \<Rightarrow> (u16 list \<times> u8) option" where
  "scte104filter_lookup_scte35_pids ok ctx msg =
     map_option (\<lambda>arr. (arr, of_nat (length arr))) (lookup_loop ok ctx msg [])"

section \<open>The ancillary data processor\<close>

text \<open>
  The packets libklvanc hands to the callback: whether it is a type 1 packet, the operation identifier,
  and the rest of the packet.  \<open>parse\<close> stands for \<open>klvanc_packet_parse\<close>: the packets it finds in the words
  of a line, in the order of the callbacks.  \<open>generate\<close> stands for \<open>scte35_generate_from_scte104\<close>: its
  result and the splice sections; a result other than 0 may leave the sections undefined (\<^const>\<open>None\<close>).
\<close>

record 'p scte104_packet =
  sp_type1 :: bool
  sp_opID :: u16
  sp_message :: 'p

type_synonym 'p vanc_parser = "u16 list \<Rightarrow> int \<Rightarrow> 'p scte104_packet list"
type_synonym 'p scte35_generator = "'p scte104_packet \<Rightarrow> int \<Rightarrow> int \<times> bytes list option"

text \<open>The result of \<open>add_to_queue\<close> is not looked at; a blocked queue blocks the thread.\<close>

(* src: common/vancprocessor.c 12-50 transmit_scte35_section_to_muxer *)
definition transmit_scte35_section_to_muxer ::
    "bool \<Rightarrow> bool \<Rightarrow> vanc_processor \<Rightarrow> bytes \<Rightarrow> coded_frame obe_queue \<Rightarrow> (int \<times> coded_frame obe_queue) option" where
  "transmit_scte35_section_to_muxer ok okq ctx section q =
     (if vp_outputStreamId ctx < 0 then Some (0, q)
      else case new_coded_frame ok ok (vp_outputStreamId ctx) (length section) of
             None \<Rightarrow> Some (-1, q)
           | Some f \<Rightarrow>
               let f = f\<lparr>cf_pts := cf_pts (vp_cf ctx), cf_real_pts := cf_real_pts (vp_cf ctx),
                         cf_real_dts := cf_real_dts (vp_cf ctx),
                         cf_cpb_initial_arrival_time := cf_cpb_initial_arrival_time (vp_cf ctx),
                         cf_cpb_final_arrival_time := cf_cpb_final_arrival_time (vp_cf ctx),
                         cf_random_access := 1, cf_data := section\<rparr>
               in map_option (\<lambda>(_, q). (0, q)) (add_to_queue okq f q))"

text \<open>The library allocates the sections; the callback sends and frees each of them.\<close>

fun alloc_sections :: "bytes list \<Rightarrow> heap \<Rightarrow> addr list \<times> heap" where
  "alloc_sections [] hp = ([], hp)"
| "alloc_sections (s # ss) hp =
     (let (a, hp) = c_malloc (Bytes (map Some s)) hp; (as, hp) = alloc_sections ss hp in (a # as, hp))"

(* src: common/vancprocessor.c 78-83 vancprocessor_cb_SCTE_104 *)
fun transmit_all ::
    "bool \<Rightarrow> bool \<Rightarrow> vanc_processor \<Rightarrow> addr list \<Rightarrow> heap \<Rightarrow> coded_frame obe_queue \<Rightarrow> (heap \<times> coded_frame obe_queue) option" where
  "transmit_all ok okq ctx [] hp q = Some (hp, q)"
| "transmit_all ok okq ctx (a # as) hp q =
     do { bs \<leftarrow> get_bytes a hp;
          section \<leftarrow> those bs;
          (_, q) \<leftarrow> transmit_scte35_section_to_muxer ok okq ctx section q;
          hp \<leftarrow> c_free a hp;
          transmit_all ok okq ctx as hp q }"

text \<open>Only the multiple operation message is converted.  The sections are sent whatever the result.\<close>

(* src: common/vancprocessor.c 52-91 vancprocessor_cb_SCTE_104 *)
definition vancprocessor_cb_SCTE_104 ::
    "'p scte35_generator \<Rightarrow> bool \<Rightarrow> bool \<Rightarrow> vanc_processor \<Rightarrow> 'p scte104_packet \<Rightarrow> heap \<Rightarrow> coded_frame obe_queue
     \<Rightarrow> (heap \<times> coded_frame obe_queue) option" where
  "vancprocessor_cb_SCTE_104 generate ok okq ctx pkt hp q =
     (if sp_type1 pkt then Some (hp, q)
      else if sp_opID pkt = 0xFFFF
      then case generate pkt (cf_real_pts (vp_cf ctx) sdiv 300 + 10 * 90000) of
             (r, None) \<Rightarrow> None
           | (r, Some splices) \<Rightarrow>
               let (entries, hp) = alloc_sections splices hp in transmit_all ok okq ctx entries hp q
      else Some (hp, q))"

fun callbacks_all ::
    "'p scte35_generator \<Rightarrow> bool \<Rightarrow> bool \<Rightarrow> vanc_processor \<Rightarrow> 'p scte104_packet list \<Rightarrow> heap \<Rightarrow> coded_frame obe_queue
     \<Rightarrow> (heap \<times> coded_frame obe_queue) option" where
  "callbacks_all generate ok okq ctx [] hp q = Some (hp, q)"
| "callbacks_all generate ok okq ctx (p # ps) hp q =
     do { (hp, q) \<leftarrow> vancprocessor_cb_SCTE_104 generate ok okq ctx p hp q;
          callbacks_all generate ok okq ctx ps hp q }"

definition get_proc :: "addr \<Rightarrow> heap \<Rightarrow> vanc_processor option" where
  "get_proc a hp = (case hp_cell hp a of Some (Proc v) \<Rightarrow> Some v | _ \<Rightarrow> None)"

text \<open>\<open>created\<close> tells whether libklvanc gives a context; the address of the processor is 0 on failure.\<close>

(* src: common/vancprocessor.c 101-131 vancprocessor_alloc *)
definition vancprocessor_alloc :: "bool \<Rightarrow> bool \<Rightarrow> int \<Rightarrow> coded_frame \<Rightarrow> heap \<Rightarrow> (int \<times> addr \<times> heap) option" where
  "vancprocessor_alloc ok created outputStreamId cf hp =
     (if \<not> ok then Some (-1, 0, hp)
      else let (ctx, hp) = c_malloc (Proc \<lparr>vp_vh = 0, vp_outputStreamId = 0, vp_lineNr = 0, vp_cf = coded_frame_zero\<rparr>) hp
        in if \<not> created then map_option (\<lambda>hp. (-1, 0, hp)) (c_free ctx hp)
           else let (vh, hp) = c_malloc Library hp
             in Some (0, ctx, put_cell ctx (Proc \<lparr>vp_vh = vh, vp_outputStreamId = outputStreamId, vp_lineNr = 0,
                                                  vp_cf = cf\<rparr>) hp))"

(* src: common/vancprocessor.c 133-144 vancprocessor_free *)
definition vancprocessor_free :: "addr \<Rightarrow> heap \<Rightarrow> heap option" where
  "vancprocessor_free ctx hp =
     do { v \<leftarrow> get_proc ctx hp;
          hp \<leftarrow> c_free (vp_vh v) hp;
          c_free ctx hp }"

(* src: common/vancprocessor.c 149-165 vancprocessor_write *)
definition vancprocessor_write ::
    "'p vanc_parser \<Rightarrow> 'p scte35_generator \<Rightarrow> bool \<Rightarrow> bool \<Rightarrow> addr \<Rightarrow> u16 list \<Rightarrow> int
     \<Rightarrow> heap \<Rightarrow> coded_frame obe_queue \<Rightarrow> (int \<times> heap \<times> coded_frame obe_queue) option" where
  "vancprocessor_write parse generate ok okq ctx array lineNr hp q =
     (if ctx = 0 \<or> array = [] then Some (-1, hp, q)
      else do {
        v \<leftarrow> get_proc ctx hp;
        let v = v\<lparr>vp_lineNr := lineNr\<rparr>;
        (hp, q) \<leftarrow> callbacks_all generate ok okq v (parse array lineNr) (put_cell ctx (Proc v) hp) q;
        Some (0, hp, q) })"

section \<open>The messages of a frame\<close>

text \<open>The data of an item read as 16-bit words of a little-endian machine.\<close>

fun words_of :: "u8 option list \<Rightarrow> nat \<Rightarrow> u16 list option" where
  "words_of bs 0 = Some []"
| "words_of (Some l # Some h # bs) (Suc n) =
     map_option (\<lambda>ws. (ucast l OR push_bit 8 (ucast h)) # ws) (words_of bs n)"
| "words_of _ (Suc n) = None"

text \<open>\<open>vancprocessor_free\<close> of the NULL a failed \<open>vancprocessor_alloc\<close> leaves is an access through NULL.\<close>

(* src: encoders/video/avc/x264.c 334-356 helper_vancprocessor_scte104 *)
definition helper_vancprocessor_scte104 ::
    "'p vanc_parser \<Rightarrow> 'p scte35_generator \<Rightarrow> bool \<Rightarrow> bool \<Rightarrow> bool \<Rightarrow> addr \<Rightarrow> coded_frame \<Rightarrow> heap
     \<Rightarrow> coded_frame obe_queue \<Rightarrow> (heap \<times> coded_frame obe_queue) option" where
  "helper_vancprocessor_scte104 parse generate ok okq created a cf hp q =
     do { (cap, it) \<leftarrow> get_item a hp;
          let arrLengthWords = nat (mi_dataLengthBytes it sdiv 2) mod 65536;
          bs \<leftarrow> get_bytes (mi_data it) hp;
          streamId \<leftarrow> avmetadata_item_data_get_outputstreamid a hp;
          lineNr \<leftarrow> avmetadata_item_data_get_linenr a hp;
          arr \<leftarrow> words_of bs arrLengthWords;
          (_, v, hp) \<leftarrow> vancprocessor_alloc ok created streamId cf hp;
          (_, hp, q) \<leftarrow> vancprocessor_write parse generate ok okq v arr lineNr hp q;
          hp \<leftarrow> vancprocessor_free v hp;
          Some (hp, q) }"

text \<open>The loop of the encoder threads over the metadata a coded frame came back with.\<close>

(* src: encoders/video/avc/x264.c 991-1008 x264_start_encoder *)
fun process_items ::
    "'p vanc_parser \<Rightarrow> 'p scte35_generator \<Rightarrow> bool \<Rightarrow> bool \<Rightarrow> bool \<Rightarrow> coded_frame \<Rightarrow> nat \<Rightarrow> nat \<Rightarrow> addr list \<Rightarrow> heap
     \<Rightarrow> coded_frame obe_queue \<Rightarrow> (addr list \<times> heap \<times> coded_frame obe_queue) option" where
  "process_items parse generate ok okq created cf 0 i arr hp q = Some (arr, hp, q)"
| "process_items parse generate ok okq created cf (Suc n) i arr hp q =
     do { a \<leftarrow> at arr i;
          (cap, it) \<leftarrow> get_item a hp;
          (hp, q) \<leftarrow> (if mi_item_type it = AVMETADATA_VANC_SCTE104
                     then helper_vancprocessor_scte104 parse generate ok okq created a cf hp q else Some (hp, q));
          hp \<leftarrow> avmetadata_item_free a hp;
          process_items parse generate ok okq created cf n (i + 1) (arr[i := 0]) hp q }"

(* src: encoders/video/avc/x264.c 988-1008 x264_start_encoder *)
definition process_metadata ::
    "'p vanc_parser \<Rightarrow> 'p scte35_generator \<Rightarrow> bool \<Rightarrow> bool \<Rightarrow> bool \<Rightarrow> coded_frame \<Rightarrow> avmetadata \<Rightarrow> heap
     \<Rightarrow> coded_frame obe_queue \<Rightarrow> (avmetadata \<times> heap \<times> coded_frame obe_queue) option" where
  "process_metadata parse generate ok okq created cf md hp q =
     (if 0 < ml_count md
      then do { (arr, hp, q) \<leftarrow> process_items parse generate ok okq created cf (nat (ml_count md)) 0 (ml_array md) hp q;
                (md, hp) \<leftarrow> avmetadata_reset (md\<lparr>ml_array := arr\<rparr>) hp;
                Some (md, hp, q) }
      else Some (md, hp, q))"

section \<open>From the message to the mux queue\<close>

text \<open>The coded frames that belong to a message.\<close>

definition scte35_frame :: "coded_frame \<Rightarrow> int \<Rightarrow> bytes \<Rightarrow> coded_frame" where
  "scte35_frame cf streamId section = coded_frame_zero\<lparr>cf_output_stream_id := streamId, cf_pts := cf_pts cf,
     cf_real_pts := cf_real_pts cf, cf_real_dts := cf_real_dts cf,
     cf_cpb_initial_arrival_time := cf_cpb_initial_arrival_time cf,
     cf_cpb_final_arrival_time := cf_cpb_final_arrival_time cf, cf_random_access := 1, cf_data := section\<rparr>"

definition packet_sections :: "'p scte35_generator \<Rightarrow> int \<Rightarrow> 'p scte104_packet \<Rightarrow> bytes list" where
  "packet_sections generate t p =
     (if sp_type1 p \<or> sp_opID p \<noteq> 0xFFFF then [] else the (snd (generate p (t sdiv 300 + 900000))))"

fun le_words :: "bytes \<Rightarrow> u16 list" where
  "le_words (l # h # bs) = (ucast l OR push_bit 8 (ucast h)) # le_words bs"
| "le_words _ = []"

definition message_frames ::
    "'p vanc_parser \<Rightarrow> 'p scte35_generator \<Rightarrow> coded_frame \<Rightarrow> bytes \<times> int \<times> int \<Rightarrow> coded_frame list" where
  "message_frames parse generate cf = (\<lambda>(section, lineNr, streamId).
     map (scte35_frame cf streamId)
       (concat (map (packet_sections generate (cf_real_pts cf)) (parse (le_words section) lineNr))))"

lemma scte35_frame_made:
  assumes "queue_ok q" "\<not> q_locked q" "0 \<le> vp_outputStreamId ctx"
  obtains q' where "transmit_scte35_section_to_muxer True True ctx s q = Some (0, q')" "queue_ok q'" "\<not> q_locked q'"
    "queue_list q' = queue_list q @ [scte35_frame (vp_cf ctx) (vp_outputStreamId ctx) s]"
proof -
  obtain q' where "add_to_queue True (scte35_frame (vp_cf ctx) (vp_outputStreamId ctx) s) q = Some (0, q')" "queue_ok q'"
    "\<not> q_locked q'" "queue_list q' = queue_list q @ [scte35_frame (vp_cf ctx) (vp_outputStreamId ctx) s]"
    using add_ok [OF assms(1,2)] by blast
  then show ?thesis
    using that [of q'] assms(3)
    by (simp add: transmit_scte35_section_to_muxer_def new_coded_frame_def scte35_frame_def coded_frame_zero_def)
qed

text \<open>Sections in the heap, each in a block of its own.\<close>

definition sections_at :: "heap \<Rightarrow> addr list \<Rightarrow> bytes list \<Rightarrow> bool" where
  "sections_at hp as ss \<longleftrightarrow> distinct as \<and> 0 \<notin> set as \<and> list_all2 (\<lambda>a s. hp_cell hp a = Some (Bytes (map Some s))) as ss"

lemma alloc_sections_spec:
  "heap_ok hp \<Longrightarrow> alloc_sections ss hp = (as, hp') \<Longrightarrow> heap_ok hp' \<and> sections_at hp' as ss
    \<and> (\<forall>a \<in> set as. hp_next hp \<le> a) \<and> (\<forall>a. a \<notin> set as \<longrightarrow> hp_cell hp' a = hp_cell hp a)"
proof (induction ss arbitrary: hp as)
  case (Cons s ss)
  obtain a hp1 where m: "c_malloc (Bytes (map Some s)) hp = (a, hp1)"
    by fastforce
  obtain as1 where r: "alloc_sections ss hp1 = (as1, hp')" "as = a # as1"
    using Cons.prems(2) m by (auto split: prod.splits)
  note c = c_malloc_facts [OF m]
  note ih = Cons.IH [OF c(4) [OF Cons.prems(1)] r(1)]
  have "a \<notin> set as1"
    using ih c(2) by auto
  moreover have "0 < a"
    using Cons.prems(1) c(1) by (simp add: heap_ok_def)
  moreover from this have "hp_cell hp' a = Some (Bytes (map Some s))"
    using ih c(3) \<open>a \<notin> set as1\<close> by simp
  ultimately show ?case
    using ih c(1,2,3) r(2) by (auto simp: sections_at_def)
qed (simp add: sections_at_def)

lemma transmit_all_spec:
  assumes "queue_ok q" "\<not> q_locked q" "0 \<le> vp_outputStreamId ctx" "heap_ok hp" "sections_at hp as ss"
  shows "\<exists>hp' q'. transmit_all True True ctx as hp q = Some (hp', q') \<and> heap_ok hp'
    \<and> (\<forall>a. hp_cell hp' a = (if a \<in> set as then None else hp_cell hp a)) \<and> queue_ok q' \<and> \<not> q_locked q'
    \<and> queue_list q' = queue_list q @ map (scte35_frame (vp_cf ctx) (vp_outputStreamId ctx)) ss"
  using assms(1,2,4,5)
proof (induction ss arbitrary: as hp q)
  case (Cons s ss)
  obtain a as1 where as: "as = a # as1"
    using Cons.prems(4) by (cases as) (auto simp: sections_at_def)
  have a: "hp_cell hp a = Some (Bytes (map Some s))" "a \<noteq> 0" "a \<notin> set as1"
    using Cons.prems(4) as by (auto simp: sections_at_def)
  obtain q1 where q1: "transmit_scte35_section_to_muxer True True ctx s q = Some (0, q1)" "queue_ok q1" "\<not> q_locked q1"
    "queue_list q1 = queue_list q @ [scte35_frame (vp_cf ctx) (vp_outputStreamId ctx) s]"
    using scte35_frame_made [OF Cons.prems(1,2) assms(3)] by blast
  define hp1 where "hp1 = hp\<lparr>hp_cell := (hp_cell hp)(a := None)\<rparr>"
  have f: "c_free a hp = Some hp1" "heap_ok hp1"
    using a Cons.prems(3) by (auto simp: c_free_def hp1_def heap_ok_def)
  have "sections_at hp1 as1 ss"
    using Cons.prems(4) as a(3) unfolding sections_at_def hp1_def by (auto elim!: list.rel_mono_strong)
  then obtain hp' q' where r: "transmit_all True True ctx as1 hp1 q1 = Some (hp', q')" "heap_ok hp'"
    "\<forall>a. hp_cell hp' a = (if a \<in> set as1 then None else hp_cell hp1 a)" "queue_ok q'" "\<not> q_locked q'"
    "queue_list q' = queue_list q1 @ map (scte35_frame (vp_cf ctx) (vp_outputStreamId ctx)) ss"
    using Cons.IH [OF q1(2,3) f(2)] by blast
  then show ?case
    using q1(1,4) f(1) a(1) as by (intro exI [of _ hp'] exI [of _ q']) (simp add: get_bytes_def hp1_def)
qed (simp add: sections_at_def)

text \<open>A packet that is not converted at all, or with success.\<close>

definition converts :: "'p scte35_generator \<Rightarrow> int \<Rightarrow> 'p scte104_packet \<Rightarrow> bool" where
  "converts generate t p \<longleftrightarrow> sp_type1 p \<or> sp_opID p \<noteq> 0xFFFF \<or> fst (generate p (t sdiv 300 + 900000)) = 0"

text \<open>After a successful conversion the library has filled in the sections.\<close>

definition generator_ok :: "'p scte35_generator \<Rightarrow> bool" where
  "generator_ok generate \<longleftrightarrow> (\<forall>p t. fst (generate p t) = 0 \<longrightarrow> snd (generate p t) \<noteq> None)"

lemma cb_SCTE_104_spec:
  assumes "queue_ok q" "\<not> q_locked q" "0 \<le> vp_outputStreamId ctx" "heap_ok hp" "generator_ok generate"
    "converts generate (cf_real_pts (vp_cf ctx)) p"
  shows "\<exists>hp' q'. vancprocessor_cb_SCTE_104 generate True True ctx p hp q = Some (hp', q') \<and> heap_ok hp'
    \<and> hp_cell hp' = hp_cell hp \<and> queue_ok q' \<and> \<not> q_locked q'
    \<and> queue_list q' = queue_list q @ map (scte35_frame (vp_cf ctx) (vp_outputStreamId ctx))
         (packet_sections generate (cf_real_pts (vp_cf ctx)) p)"
proof (cases "sp_type1 p \<or> sp_opID p \<noteq> 0xFFFF")
  case True
  then show ?thesis
    using assms(1,2,4) by (auto simp: vancprocessor_cb_SCTE_104_def packet_sections_def)
next
  case False
  obtain ss where g: "generate p (cf_real_pts (vp_cf ctx) sdiv 300 + 900000) = (0, Some ss)"
    using assms(5,6) False unfolding generator_ok_def converts_def
    by (metis option.exhaust prod.collapse)
  obtain as hp1 where al: "alloc_sections ss hp = (as, hp1)"
    by fastforce
  note a = alloc_sections_spec [OF assms(4) al]
  obtain hp' q' where t: "transmit_all True True ctx as hp1 q = Some (hp', q')" "heap_ok hp'"
    "\<forall>a. hp_cell hp' a = (if a \<in> set as then None else hp_cell hp1 a)" "queue_ok q'" "\<not> q_locked q'"
    "queue_list q' = queue_list q @ map (scte35_frame (vp_cf ctx) (vp_outputStreamId ctx)) ss"
    using transmit_all_spec [OF assms(1-3), of hp1 as ss] a by blast
  have "hp_cell hp' = hp_cell hp"
    using t(3) a heap_okD [OF assms(4)] by (auto simp: fun_eq_iff)
  then show ?thesis
    using False g al t by (simp add: vancprocessor_cb_SCTE_104_def packet_sections_def)
qed

lemma callbacks_all_spec:
  assumes "queue_ok q" "\<not> q_locked q" "0 \<le> vp_outputStreamId ctx" "heap_ok hp" "generator_ok generate"
    "list_all (converts generate (cf_real_pts (vp_cf ctx))) ps"
  shows "\<exists>hp' q'. callbacks_all generate True True ctx ps hp q = Some (hp', q') \<and> heap_ok hp' \<and> hp_cell hp' = hp_cell hp
    \<and> queue_ok q' \<and> \<not> q_locked q'
    \<and> queue_list q' = queue_list q @ map (scte35_frame (vp_cf ctx) (vp_outputStreamId ctx))
         (concat (map (packet_sections generate (cf_real_pts (vp_cf ctx))) ps))"
  using assms(1,2,4,6)
proof (induction ps arbitrary: hp q)
  case (Cons p ps)
  obtain hp1 q1 where 1: "vancprocessor_cb_SCTE_104 generate True True ctx p hp q = Some (hp1, q1)" "heap_ok hp1"
    "hp_cell hp1 = hp_cell hp" "queue_ok q1" "\<not> q_locked q1"
    "queue_list q1 = queue_list q @ map (scte35_frame (vp_cf ctx) (vp_outputStreamId ctx))
         (packet_sections generate (cf_real_pts (vp_cf ctx)) p)"
    using cb_SCTE_104_spec [OF Cons.prems(1,2) assms(3) Cons.prems(3) assms(5), of p] Cons.prems(4) by auto
  show ?case
    using Cons.IH [OF 1(4,5,2)] 1(1,3,6) Cons.prems(4) by auto
qed simp

text \<open>A conversion that fails leaves the results undefined, and the callback reads them all the same.\<close>

lemma failed_conversion_undefined:
  "\<not> sp_type1 p \<Longrightarrow> sp_opID p = 0xFFFF \<Longrightarrow> generate p (cf_real_pts (vp_cf ctx) sdiv 300 + 900000) = (r, None) \<Longrightarrow>
    vancprocessor_cb_SCTE_104 generate ok okq ctx p hp q = None"
  by (simp add: vancprocessor_cb_SCTE_104_def)

lemma words_of_bytes: "n = length s div 2 \<Longrightarrow> words_of (map Some s) n = Some (le_words s)"
  by (induction s arbitrary: n rule: le_words.induct) auto

lemma le_words_empty: "2 \<le> length s \<Longrightarrow> le_words s \<noteq> []"
  by (cases s rule: le_words.cases) auto

text \<open>The packets of all messages convert.\<close>

definition messages_convert ::
    "'p vanc_parser \<Rightarrow> 'p scte35_generator \<Rightarrow> coded_frame \<Rightarrow> (bytes \<times> int \<times> int) list \<Rightarrow> bool" where
  "messages_convert parse generate cf ms \<longleftrightarrow>
     (\<forall>(s, l, k) \<in> set ms. list_all (converts generate (cf_real_pts cf)) (parse (le_words s) l))"

lemma processor_spec:
  assumes "heap_ok hp"
  shows "\<exists>a vh hp1. vancprocessor_alloc True True sid cf hp = Some (0, a, hp1) \<and> heap_ok hp1 \<and> 0 < a \<and> 0 < vh \<and> a \<noteq> vh
    \<and> hp_next hp \<le> a \<and> hp_next hp \<le> vh
    \<and> hp_cell hp1 = (hp_cell hp)(a \<mapsto> Proc \<lparr>vp_vh = vh, vp_outputStreamId = sid, vp_lineNr = 0, vp_cf = cf\<rparr>, vh \<mapsto> Library)"
proof -
  let ?a = "hp_next hp"
  let ?p = "\<lparr>vp_vh = Suc ?a, vp_outputStreamId = sid, vp_lineNr = 0, vp_cf = cf\<rparr>"
  define hp1 where "hp1 = hp\<lparr>hp_cell := (hp_cell hp)(?a \<mapsto> Proc ?p, Suc ?a \<mapsto> Library), hp_next := Suc (Suc ?a)\<rparr>"
  have "vancprocessor_alloc True True sid cf hp = Some (0, ?a, hp1)"
    by (simp add: vancprocessor_alloc_def c_malloc_def put_cell_def hp1_def fun_upd_twist)
  moreover have "heap_ok hp1" "0 < ?a"
    using assms by (auto simp: heap_ok_def hp1_def)
  ultimately show ?thesis
    by (intro exI [of _ ?a] exI [of _ "Suc ?a"] exI [of _ hp1]) (simp add: hp1_def)
qed

lemma processor_freed:
  assumes "heap_ok hp" "hp_cell hp a = Some (Proc v)" "0 < a" "0 < vp_vh v" "hp_cell hp (vp_vh v) \<noteq> None" "a \<noteq> vp_vh v"
  shows "\<exists>hp'. vancprocessor_free a hp = Some hp' \<and> heap_ok hp' \<and> hp_cell hp' = (hp_cell hp)(vp_vh v := None, a := None)"
  using assms by (auto simp: vancprocessor_free_def get_proc_def c_free_def heap_ok_def)

lemma helper_spec:
  assumes "entry_at hp x" "entry_content x = scte104_content section lineNr streamId" "0 \<le> streamId"
    and "length section < 2 ^ 17" "queue_ok q" "\<not> q_locked q" "heap_ok hp" "generator_ok generate"
    and "messages_convert parse generate cf [(section, lineNr, streamId)]"
  shows "\<exists>hp' q'. helper_vancprocessor_scte104 parse generate True True True (fst x) cf hp q = Some (hp', q')
    \<and> heap_ok hp' \<and> hp_cell hp' = hp_cell hp \<and> queue_ok q' \<and> \<not> q_locked q'
    \<and> queue_list q' = queue_list q @ message_frames parse generate cf (section, lineNr, streamId)"
proof -
  obtain a cap it bs where x: "x = (a, cap, it, bs)"
    by (cases x) auto
  have e: "hp_cell hp a = Some (Item cap it)" "hp_cell hp (mi_data it) = Some (Bytes bs)" "32 \<le> cap" "32 \<le> length bs"
    "mi_dataLengthBytes it = int (length section)" "mi_outputStreamId it = Some streamId" "mi_lineNr it = Some lineNr"
    "bs = map Some section"
    using assms(1,2) by (auto simp: x entry_at_def entry_content_def scte104_content_def)
  obtain v vh hp1 where p: "vancprocessor_alloc True True streamId cf hp = Some (0, v, hp1)" "heap_ok hp1" "0 < v" "0 < vh"
    "v \<noteq> vh" "hp_next hp \<le> v" "hp_next hp \<le> vh"
    "hp_cell hp1 = (hp_cell hp)(v \<mapsto> Proc \<lparr>vp_vh = vh, vp_outputStreamId = streamId, vp_lineNr = 0, vp_cf = cf\<rparr>, vh \<mapsto> Library)"
    using processor_spec [OF assms(7)] by blast
  define ctx where "ctx = \<lparr>vp_vh = vh, vp_outputStreamId = streamId, vp_lineNr = lineNr, vp_cf = cf\<rparr>"
  define hp2 where "hp2 = put_cell v (Proc ctx) hp1"
  have hp2: "heap_ok hp2" "hp_cell hp2 = (hp_cell hp)(v \<mapsto> Proc ctx, vh \<mapsto> Library)"
    using p heap_ok_lt [OF p(2), of v] by (auto simp: hp2_def fun_eq_iff intro!: heap_ok_put)
  obtain hp3 q' where c: "callbacks_all generate True True ctx (parse (le_words section) lineNr) hp2 q = Some (hp3, q')"
    "heap_ok hp3" "hp_cell hp3 = hp_cell hp2" "queue_ok q'" "\<not> q_locked q'"
    "queue_list q' = queue_list q @ message_frames parse generate cf (section, lineNr, streamId)"
    using callbacks_all_spec [OF assms(5,6) _ hp2(1) assms(8), of ctx "parse (le_words section) lineNr"] assms(3,9)
    by (auto simp: ctx_def message_frames_def messages_convert_def)
  have v3: "hp_cell hp3 v = Some (Proc ctx)" "hp_cell hp3 (vp_vh ctx) \<noteq> None" "0 < vp_vh ctx" "v \<noteq> vp_vh ctx"
    using c(3) hp2(2) p(4,5) by (simp_all add: ctx_def)
  obtain hp4 where f: "vancprocessor_free v hp3 = Some hp4" "heap_ok hp4" "hp_cell hp4 = (hp_cell hp3)(vp_vh ctx := None, v := None)"
    using processor_freed [OF c(2) v3(1) p(3) v3(3,2,4)] by blast
  have same: "hp_cell hp4 = hp_cell hp"
    using f(3) c(3) hp2(2) heap_okD [OF assms(7) p(6)] heap_okD [OF assms(7) p(7)] by (auto simp: ctx_def fun_eq_iff)
  have n: "nat (mi_dataLengthBytes it sdiv 2) mod 65536 = length section div 2"
    using assms(4) e(5) by (simp add: signed_divide_int_def sgn_if nat_div_distrib)
  have "le_words section \<noteq> []"
    using e(4,8) by (intro le_words_empty) simp
  then have "vancprocessor_write parse generate True True v (le_words section) lineNr hp1 q = Some (0, hp3, q')"
    using c(1) p(3,5,8) by (simp add: vancprocessor_write_def get_proc_def ctx_def hp2_def)
  moreover have "words_of bs (length section div 2) = Some (le_words section)"
    unfolding e(8) by (rule words_of_bytes) simp
  ultimately have "helper_vancprocessor_scte104 parse generate True True True a cf hp q = Some (hp4, q')"
    using e n p(1) f(1)
    by (simp add: helper_vancprocessor_scte104_def get_item_def get_bytes_def check_item_def
        avmetadata_item_data_get_outputstreamid_def avmetadata_item_data_get_linenr_def
        end_of_streamid_def end_of_linenr_def)
  then show ?thesis
    using f(2) same c(4-6) x by simp
qed

lemma process_items_spec:
  assumes "heap_ok hp" "\<forall>x \<in> set xs. entry_at hp x" "distinct (concat (map entry_addrs xs))"
    "map fst xs = take n (drop i arr)" "length xs = n" "i + n \<le> length arr" "queue_ok q" "\<not> q_locked q"
    and "map entry_content xs = map (\<lambda>(s, l, k). scte104_content s l k) ms"
    and "\<forall>(s, l, k) \<in> set ms. 0 \<le> k \<and> length s < 2 ^ 17" "messages_convert parse generate cf ms" "generator_ok generate"
  shows "\<exists>hp' q'. process_items parse generate True True True cf n i arr hp q
      = Some (take i arr @ replicate n 0 @ drop (i + n) arr, hp', q') \<and> heap_ok hp'
    \<and> (\<forall>a. hp_cell hp' a = (if a \<in> set (concat (map entry_addrs xs)) then None else hp_cell hp a))
    \<and> queue_ok q' \<and> \<not> q_locked q' \<and> queue_list q' = queue_list q @ concat (map (message_frames parse generate cf) ms)"
  using assms(1-11)
proof (induction n arbitrary: i arr hp xs ms q)
  case (Suc n)
  then obtain a cap it bs xs' where xs: "xs = (a, cap, it, bs) # xs'"
    by (cases xs) auto
  obtain s l k ms' where ms: "ms = (s, l, k) # ms'"
    using Suc.prems(9) xs by (cases ms) auto
  have cv: "messages_convert parse generate cf [(s, l, k)]" "messages_convert parse generate cf ms'"
    using Suc.prems(11) ms by (auto simp: messages_convert_def)
  have a: "i < length arr" "arr ! i = a" "map fst xs' = take n (drop (i + 1) (arr[i := 0]))"
    using Suc.prems(4,6) xs by (auto simp: drop_nth_conv [of i arr])
  have at: "entry_at hp (a, cap, it, bs)" "entry_content (a, cap, it, bs) = scte104_content s l k" "0 \<le> k" "length s < 2 ^ 17"
    using Suc.prems(2,9,10) xs ms by auto
  obtain hp1 q1 where q1: "helper_vancprocessor_scte104 parse generate True True True a cf hp q = Some (hp1, q1)" "heap_ok hp1"
    "hp_cell hp1 = hp_cell hp" "queue_ok q1" "\<not> q_locked q1"
    "queue_list q1 = queue_list q @ message_frames parse generate cf (s, l, k)"
    using helper_spec [OF at Suc.prems(7,8,1) assms(12) cv(1)] by auto
  have e1: "\<forall>x \<in> set xs. entry_at hp1 x"
    using Suc.prems(2) entry_at_cong [of hp _ hp1] q1(3) by auto
  have pos: "0 < a" "0 < mi_data it"
    using entry_addrs_lt [OF q1(2), of "(a, cap, it, bs)"] e1 xs by (auto simp: entry_addrs_def)
  obtain hp2 where f: "avmetadata_item_free a hp1 = Some hp2" "heap_ok hp2"
    "hp_cell hp2 = (hp_cell hp1)(mi_data it := None, a := None)"
    using free_item_spec [of hp1 a cap it bs] q1(2) e1 xs pos by auto
  have "\<forall>x \<in> set xs'. entry_at hp2 x"
    by (rule entries_apart [of a cap it bs _ hp1]) (use Suc.prems(3) e1 xs f(3) in auto)
  moreover have "distinct (concat (map entry_addrs xs'))"
    using Suc.prems(3) xs by (simp add: entry_addrs_def)
  ultimately obtain hp' q' where r: "process_items parse generate True True True cf n (i + 1) (arr[i := 0]) hp2 q1
      = Some (take (i + 1) (arr[i := 0]) @ replicate n 0 @ drop (i + 1 + n) (arr[i := 0]), hp', q')" "heap_ok hp'"
    "\<forall>a. hp_cell hp' a = (if a \<in> set (concat (map entry_addrs xs')) then None else hp_cell hp2 a)"
    "queue_ok q'" "\<not> q_locked q'" "queue_list q' = queue_list q1 @ concat (map (message_frames parse generate cf) ms')"
    using Suc.IH [OF f(2) _ _ a(3) _ _ q1(4,5) _ _ cv(2)] Suc.prems(5,6,9,10) xs ms by auto
  have arr: "take (i + 1) (arr[i := 0]) @ replicate n 0 @ drop (i + 1 + n) (arr[i := 0])
      = take i arr @ replicate (Suc n) 0 @ drop (i + Suc n) arr"
    using a(1) by (simp add: take_Suc_conv_app_nth)
  have it: "get_item a hp = Some (cap, it)" "mi_item_type it = AVMETADATA_VANC_SCTE104"
    using at(1,2) by (auto simp: entry_at_def get_item_def entry_content_def scte104_content_def)
  have "\<forall>a. hp_cell hp' a = (if a \<in> set (concat (map entry_addrs xs)) then None else hp_cell hp a)"
    using r(3) f(3) q1(3) by (auto simp: xs entry_addrs_def)
  then show ?case
    using a(1,2) it q1(1,6) f(1) r(1,2,4-6) arr ms by (intro exI [of _ hp'] exI [of _ q']) simp
qed simp

lemma reset_items_null:
  "(\<And>j. i \<le> j \<Longrightarrow> j < i + n \<Longrightarrow> arr ! j = 0) \<Longrightarrow> i + n \<le> length arr \<Longrightarrow> reset_items n i arr hp = Some (arr, hp)"
proof (induction n arbitrary: i)
  case (Suc n)
  have "arr[i := 0] = arr"
    using Suc.prems(1) [of i] by (metis le_refl list_update_id add_Suc_right less_add_Suc1)
  then show ?case
    using Suc.IH [of "i + 1"] Suc.prems by (simp add: avmetadata_item_free_def)
qed simp

text \<open>C19 The splice messages found in a frame's ancillary data reach the multiplexer: the encoder clones
  the metadata, converts every message with the time stamps of the coded frame it came out with, and
  puts the resulting sections into the mux queue in order, each for its message's output stream.
  Afterwards every block that was allocated on the way, the clone, the processor of each message with its
  libklvanc context, and the sections libklscte35 made, is free again, and nothing else has changed.
  The packets of the messages convert successfully.\<close>

theorem scte104_messages_reach_mux:
  assumes "heap_ok hp" "list_at hp md xs" "map entry_content xs = map (\<lambda>(s, l, k). scte104_content s l k) ms"
    and "\<forall>(s, l, k) \<in> set ms. 0 \<le> k \<and> length s < 2 ^ 17"
    and "generator_ok generate" "messages_convert parse generate cf ms"
    and "queue_ok q" "\<not> q_locked q"
  shows "\<exists>md1 hp1 md2 hp2 q'. avmetadata_clone (\<lambda>_. (True, True)) avmetadata_init md hp = Some (md1, hp1)
    \<and> process_metadata parse generate True True True cf md1 hp1 q = Some (md2, hp2, q') \<and> ml_count md2 = 0
    \<and> hp_cell hp2 = hp_cell hp \<and> queue_ok q' \<and> \<not> q_locked q'
    \<and> queue_list q' = queue_list q @ concat (map (message_frames parse generate cf) ms)"
proof (cases "xs = []")
  case True
  then show ?thesis
    using assms by (simp add: avmetadata_clone_def process_metadata_def list_at_def avmetadata_init_def)
next
  case False
  obtain md1 hp1 ys where c: "avmetadata_clone (\<lambda>_. (True, True)) avmetadata_init md hp = Some (md1, hp1)" "heap_ok hp1"
    "list_at hp1 md1 ys" "map entry_content ys = map entry_content xs"
    "set (concat (map entry_addrs ys)) = {hp_next hp..<hp_next hp1}" "\<forall>a < hp_next hp. hp_cell hp1 a = hp_cell hp a"
    using metadata_clone_spec [OF assms(1,2), of avmetadata_init] False by (auto simp: avmetadata_init_def)
  have y: "length (ml_array md1) = 16" "ml_count md1 = int (length ys)" "length ys \<le> 16"
    "take (length ys) (ml_array md1) = map fst ys" "\<forall>x \<in> set ys. entry_at hp1 x" "distinct (concat (map entry_addrs ys))"
    using c(3) by (simp_all add: list_at_def)
  have n: "0 < length ys"
    using c(4) False map_eq_imp_length_eq by force
  obtain hp2 q' where p: "process_items parse generate True True True cf (length ys) 0 (ml_array md1) hp1 q
      = Some (replicate (length ys) 0 @ drop (length ys) (ml_array md1), hp2, q')" "heap_ok hp2"
    "\<forall>a. hp_cell hp2 a = (if a \<in> set (concat (map entry_addrs ys)) then None else hp_cell hp1 a)"
    "queue_ok q'" "\<not> q_locked q'" "queue_list q' = queue_list q @ concat (map (message_frames parse generate cf) ms)"
    using process_items_spec [OF c(2) y(5,6), of "length ys" 0 "ml_array md1" q ms parse generate cf] y(1,3,4)
      assms(3-8) c(4) by auto
  have "hp_cell hp2 a = hp_cell hp a" for a
    using p(3) c(5,6) heap_okD [OF assms(1), of a] heap_okD [OF c(2), of a] by (cases "a < hp_next hp") (auto simp del: set_concat)
  then have "hp_cell hp2 = hp_cell hp"
    by auto
  moreover have "reset_items (length ys) 0 (replicate (length ys) 0 @ drop (length ys) (ml_array md1)) hp2
      = Some (replicate (length ys) 0 @ drop (length ys) (ml_array md1), hp2)"
    by (rule reset_items_null) (use y(1,3) in \<open>auto simp: nth_append\<close>)
  ultimately show ?thesis
    using c(1) p(1,4-6) y(2) n by (simp add: process_metadata_def avmetadata_reset_def)
qed

text \<open>A generator that makes one section of every message.\<close>

theorem scte104_messages_reach_mux_witness:
  "\<exists>md hp md1 hp1 md2 hp2 q'. add_metadata_scte104_vanc_section True True avmetadata_init (replicate 40 7) 13 5 empty_heap = Some (0, md, hp)
     \<and> avmetadata_clone (\<lambda>_. (True, True)) avmetadata_init md hp = Some (md1, hp1)
     \<and> process_metadata (\<lambda>ws l. [\<lparr>sp_type1 = False, sp_opID = 0xFFFF, sp_message = ws\<rparr>]) (\<lambda>p t. (0, Some [[0xFC, 0x30]]))
         True True True (coded_frame_zero\<lparr>cf_pts := 90\<rparr>) md1 hp1 zeroed_queue = Some (md2, hp2, q')
     \<and> hp_cell hp2 = hp_cell hp
     \<and> map (\<lambda>f. (cf_pts f, cf_output_stream_id f, cf_data f)) (queue_list q') = [(90, 5, [0xFC, 0x30])]"
proof -
  obtain md hp x where a: "add_metadata_scte104_vanc_section True True avmetadata_init (replicate 40 7) 13 5 empty_heap = Some (0, md, hp)"
    "heap_ok hp" "list_at hp md ([] @ [x])" "entry_content x = scte104_content (replicate 40 7) 13 5"
    using add_section_spec [of empty_heap avmetadata_init "[]" "replicate 40 7" 13 5] by auto
  define parse :: "u16 list vanc_parser" where "parse = (\<lambda>ws l. [\<lparr>sp_type1 = False, sp_opID = 0xFFFF, sp_message = ws\<rparr>])"
  define generate :: "u16 list scte35_generator" where "generate = (\<lambda>p t. (0, Some [[0xFC, 0x30]]))"
  let ?cf = "coded_frame_zero\<lparr>cf_pts := 90\<rparr>"
  have "\<exists>md1 hp1 md2 hp2 q'. avmetadata_clone (\<lambda>_. (True, True)) avmetadata_init md hp = Some (md1, hp1)
    \<and> process_metadata parse generate True True True ?cf md1 hp1 zeroed_queue = Some (md2, hp2, q')
    \<and> ml_count md2 = 0 \<and> hp_cell hp2 = hp_cell hp \<and> queue_ok q' \<and> \<not> q_locked q'
    \<and> queue_list q' = queue_list zeroed_queue @ concat (map (message_frames parse generate ?cf) [(replicate 40 7, 13, 5)])"
    by (rule scte104_messages_reach_mux [OF a(2,3)])
      (simp_all add: a(4) generate_def generator_ok_def messages_convert_def converts_def parse_def)
  moreover have "concat (map (message_frames parse generate ?cf) [(replicate 40 7, 13, 5)]) = [scte35_frame ?cf 5 [0xFC, 0x30]]"
    by (simp add: message_frames_def parse_def generate_def packet_sections_def)
  ultimately obtain md1 hp1 md2 hp2 q' where "avmetadata_clone (\<lambda>_. (True, True)) avmetadata_init md hp = Some (md1, hp1)"
    "process_metadata parse generate True True True ?cf md1 hp1 zeroed_queue = Some (md2, hp2, q')" "hp_cell hp2 = hp_cell hp"
    "queue_list q' = [scte35_frame ?cf 5 [0xFC, 0x30]]"
    by auto
  then show ?thesis
    using a(1) unfolding parse_def generate_def
    by (intro exI [of _ md] exI [of _ hp] exI [of _ md1] exI [of _ hp1] exI [of _ md2] exI [of _ hp2] exI [of _ q'])
       (simp add: scte35_frame_def coded_frame_zero_def)
qed

section \<open>Routing by filter\<close>

lemma lookup_loop_all: "lookup_loop (\<lambda>_. True) fs msg arr = Some (arr @ map sf_pid (filter (\<lambda>f. filter_appends f msg) fs))"
  by (induction fs arbitrary: arr) auto

lemma lookup_matches:
  assumes "length ctx \<le> MAX_SCTE104_FILTERS"
  shows "\<exists>n. scte104filter_lookup_scte35_pids (\<lambda>_. True) ctx msg
      = Some (map sf_pid (filter (\<lambda>f. sf_AS_index f \<in> {-1, mom_AS_index msg} \<and> sf_DPI_PID_index f \<in> {-1, mom_DPI_PID_index msg}) ctx), n)
    \<and> unat n = length (filter (\<lambda>f. sf_AS_index f \<in> {-1, mom_AS_index msg} \<and> sf_DPI_PID_index f \<in> {-1, mom_DPI_PID_index msg}) ctx)"
proof -
  have f: "filter_appends f msg \<longleftrightarrow> sf_AS_index f \<in> {-1, mom_AS_index msg} \<and> sf_DPI_PID_index f \<in> {-1, mom_DPI_PID_index msg}" for f
    by (auto simp: filter_appends_def)
  have "length (filter P ctx) < 256" for P
    by (rule le_less_trans [OF length_filter_le]) (use assms in \<open>simp add: MAX_SCTE104_FILTERS_def\<close>)
  then show ?thesis
    by (simp add: scte104filter_lookup_scte35_pids_def lookup_loop_all f unat_of_nat)
qed

end
