(* ===== verification/Obe_Mux.thy ===== *)
theory Obe_Mux
  imports Obe_Core Obe_Sdi
begin

text \<open>
  The transport stream multiplexer, \<open>mux/ts/ts.c\<close>: the tables, the set-up of the streams with the
  calls it makes to libmpegts, and one turn of the thread's loop.  libmpegts itself is not modelled:
  the outcomes of its set-up calls and what \<open>ts_write_frames\<close> produced are arguments.
\<close>

section \<open>The vocabulary of libmpegts\<close>

text \<open>The constants of libmpegts the code names; their numbers do not matter to it.\<close>

datatype mpegts_format =
    LIBMPEGTS_VIDEO_AVC | LIBMPEGTS_VIDEO_MPEG2 | LIBMPEGTS_VIDEO_HEVC | LIBMPEGTS_AUDIO_MPEG1
  | LIBMPEGTS_AUDIO_MPEG2 | LIBMPEGTS_AUDIO_AC3 | LIBMPEGTS_AUDIO_EAC3 | LIBMPEGTS_AUDIO_ADTS
  | LIBMPEGTS_AUDIO_LATM | LIBMPEGTS_DVB_SUB | LIBMPEGTS_DVB_TELETEXT | LIBMPEGTS_DVB_VBI
  | LIBMPEGTS_TABLE_SECTION | LIBMPEGTS_ANCILLARY_2038 | LIBMPEGTS_ANCILLARY_2031

datatype mpegts_stream_id =
    LIBMPEGTS_STREAM_ID_MPEGVIDEO | LIBMPEGTS_STREAM_ID_MPEGAUDIO | LIBMPEGTS_STREAM_ID_PRIVATE_1

datatype vbi_data_service_id =
    LIBMPEGTS_DVB_VBI_DATA_SERVICE_ID_TTX | LIBMPEGTS_DVB_VBI_DATA_SERVICE_ID_WSS | LIBMPEGTS_DVB_VBI_DATA_SERVICE_ID_VPS

datatype video_profile =
    AVC_BASELINE | AVC_MAIN | AVC_HIGH | AVC_HIGH_10 | AVC_HIGH_422 | AVC_HIGH_444_PRED | HEVC_PROFILE_MAIN | PROFILE_ZERO

datatype aac_level =
    LIBMPEGTS_MPEG4_AAC_PROFILE_LEVEL_2 | LIBMPEGTS_MPEG4_AAC_PROFILE_LEVEL_5
  | LIBMPEGTS_MPEG4_HE_AAC_PROFILE_LEVEL_2 | LIBMPEGTS_MPEG4_HE_AAC_PROFILE_LEVEL_5
  | LIBMPEGTS_MPEG4_HE_AAC_V2_PROFILE_LEVEL_2 | LIBMPEGTS_MPEG4_HE_AAC_V2_PROFILE_LEVEL_5

section \<open>Tables\<close>

(* src: mux/ts/ts.c 291-319 mpegts_stream_info *)
definition mpegts_stream_info :: "(stream_formats \<times> mpegts_format \<times> mpegts_stream_id) list" where
  "mpegts_stream_info =
     [(VIDEO_AVC, LIBMPEGTS_VIDEO_AVC, LIBMPEGTS_STREAM_ID_MPEGVIDEO),
      (VIDEO_MPEG2, LIBMPEGTS_VIDEO_MPEG2, LIBMPEGTS_STREAM_ID_MPEGVIDEO),
      (VIDEO_HEVC_X265, LIBMPEGTS_VIDEO_HEVC, LIBMPEGTS_STREAM_ID_MPEGVIDEO),
      (VIDEO_HEVC_VEGA3301, LIBMPEGTS_VIDEO_HEVC, LIBMPEGTS_STREAM_ID_MPEGVIDEO),
      (VIDEO_HEVC_VEGA3311, LIBMPEGTS_VIDEO_HEVC, LIBMPEGTS_STREAM_ID_MPEGVIDEO),
      (VIDEO_AVC_VAAPI, LIBMPEGTS_VIDEO_AVC, LIBMPEGTS_STREAM_ID_MPEGVIDEO),
      (VIDEO_AVC_CPU_AVCODEC, LIBMPEGTS_VIDEO_AVC, LIBMPEGTS_STREAM_ID_MPEGVIDEO),
      (VIDEO_AVC_GPU_VAAPI_AVCODEC, LIBMPEGTS_VIDEO_AVC, LIBMPEGTS_STREAM_ID_MPEGVIDEO),
      (VIDEO_HEVC_CPU_AVCODEC, LIBMPEGTS_VIDEO_HEVC, LIBMPEGTS_STREAM_ID_MPEGVIDEO),
      (VIDEO_HEVC_GPU_VAAPI_AVCODEC, LIBMPEGTS_VIDEO_HEVC, LIBMPEGTS_STREAM_ID_MPEGVIDEO),
      (VIDEO_HEVC_GPU_NVENC_AVCODEC, LIBMPEGTS_VIDEO_HEVC, LIBMPEGTS_STREAM_ID_MPEGVIDEO),
      (VIDEO_HEVC_VAAPI, LIBMPEGTS_VIDEO_HEVC, LIBMPEGTS_STREAM_ID_MPEGVIDEO),
      (AUDIO_MP2, LIBMPEGTS_AUDIO_MPEG2, LIBMPEGTS_STREAM_ID_MPEGAUDIO),
      (AUDIO_AC_3, LIBMPEGTS_AUDIO_AC3, LIBMPEGTS_STREAM_ID_PRIVATE_1),
      (AUDIO_AC_3_BITSTREAM, LIBMPEGTS_AUDIO_AC3, LIBMPEGTS_STREAM_ID_PRIVATE_1),
      (AUDIO_E_AC_3, LIBMPEGTS_AUDIO_EAC3, LIBMPEGTS_STREAM_ID_PRIVATE_1),
      (AUDIO_AAC, LIBMPEGTS_AUDIO_ADTS, LIBMPEGTS_STREAM_ID_MPEGAUDIO),
      (AUDIO_AAC, LIBMPEGTS_AUDIO_LATM, LIBMPEGTS_STREAM_ID_MPEGAUDIO),
      (SUBTITLES_DVB, LIBMPEGTS_DVB_SUB, LIBMPEGTS_STREAM_ID_PRIVATE_1),
      (MISC_TELETEXT, LIBMPEGTS_DVB_TELETEXT, LIBMPEGTS_STREAM_ID_PRIVATE_1),
      (VBI_RAW, LIBMPEGTS_DVB_VBI, LIBMPEGTS_STREAM_ID_PRIVATE_1),
      (DVB_TABLE_SECTION, LIBMPEGTS_TABLE_SECTION, LIBMPEGTS_STREAM_ID_PRIVATE_1),
      (SMPTE2038, LIBMPEGTS_ANCILLARY_2038, LIBMPEGTS_STREAM_ID_PRIVATE_1),
      (SMPTE2031, LIBMPEGTS_ANCILLARY_2031, LIBMPEGTS_STREAM_ID_PRIVATE_1)]"

(* src: mux/ts/ts.c 321-327 vbi_service_ids *)
definition vbi_service_ids :: "(stream_formats \<times> vbi_data_service_id) list" where
  "vbi_service_ids =
     [(MISC_TELETEXT, LIBMPEGTS_DVB_VBI_DATA_SERVICE_ID_TTX),
      (MISC_WSS, LIBMPEGTS_DVB_VBI_DATA_SERVICE_ID_WSS),
      (MISC_VPS, LIBMPEGTS_DVB_VBI_DATA_SERVICE_ID_VPS)]"

text \<open>The terminator has the profile 0.\<close>

(* src: mux/ts/ts.c 329-338 avc_profiles *)
definition avc_profiles :: "(int \<times> video_profile) list" where
  "avc_profiles = [(66, AVC_BASELINE), (77, AVC_MAIN), (100, AVC_HIGH), (110, AVC_HIGH_10),
                   (122, AVC_HIGH_422), (244, AVC_HIGH_444_PRED)]"

definition MIN_PID :: int where "MIN_PID = 0x30"

(* src: mux/ts/ts.c 340-348 get_output_mux_stream *)
definition get_output_mux_stream :: "output_stream list \<Rightarrow> int \<Rightarrow> output_stream option" where
  "get_output_mux_stream outs output_stream_id = find (\<lambda>s. os_output_stream_id s = output_stream_id) outs"

section \<open>What is in the queue\<close>

record queue_size_s =
  qs_entries :: nat
  qs_totalSizeBytes :: nat

definition count_frame :: "coded_frame \<Rightarrow> queue_size_s \<Rightarrow> queue_size_s" where
  "count_frame cf q = q\<lparr>qs_entries := qs_entries q + 1, qs_totalSizeBytes := qs_totalSizeBytes q + length (cf_data cf)\<rparr>"

(* src: mux/ts/ts.c 371-394 mux_get_queue_counts *)
fun queue_counts :: "coded_frame list \<Rightarrow> queue_size_s \<times> queue_size_s \<times> queue_size_s \<Rightarrow> queue_size_s \<times> queue_size_s \<times> queue_size_s" where
  "queue_counts [] acc = acc"
| "queue_counts (cf # fs) (vq, aq, oq) =
     queue_counts fs (if cf_type cf = CF_VIDEO then (count_frame cf vq, aq, oq)
                      else if cf_type cf = CF_AUDIO then (vq, count_frame cf aq, oq)
                      else (vq, aq, count_frame cf oq))"

definition queue_size_init :: queue_size_s where
  "queue_size_init = \<lparr>qs_entries = 0, qs_totalSizeBytes = 0\<rparr>"

(* src: mux/ts/ts.c 371-394 mux_get_queue_counts *)
definition mux_get_queue_counts :: "coded_frame obe_queue \<Rightarrow> queue_size_s \<times> queue_size_s \<times> queue_size_s" where
  "mux_get_queue_counts q = queue_counts (queue_list q) (queue_size_init, queue_size_init, queue_size_init)"

text \<open>Whether the warning about the audio frames is printed.\<close>

(* src: mux/ts/ts.c 473-494 mux_monitor_queue *)
definition mux_monitor_queue :: "coded_frame obe_queue \<Rightarrow> int \<Rightarrow> int \<Rightarrow> bool \<times> int" where
  "mux_monitor_queue q now lastReport =
     (case mux_get_queue_counts q of (vq, aq, oq) \<Rightarrow>
        if 100 < qs_entries aq \<and> lastReport + 15 \<le> now then (True, now) else (False, lastReport))"

section \<open>Setting up the streams\<close>

record ts_stream =
  tss_pid :: int
  tss_stream_format :: "mpegts_format option"
  tss_stream_id :: "mpegts_stream_id option"
  tss_write_lang_code :: bool
  tss_lang_code :: string
  tss_audio_type :: int
  tss_has_stream_identifier :: int
  tss_stream_identifier :: int
  tss_audio_frame_size :: int

text \<open>The next free PID, the size of the picture and the PID of the last video stream.\<close>

record mux_vars =
  mv_cur_pid :: int
  mv_width :: int
  mv_height :: int
  mv_video_pid :: int

definition is_mux_video :: "stream_formats \<Rightarrow> bool" where
  "is_mux_video f \<longleftrightarrow> f \<in> {VIDEO_AVC, VIDEO_HEVC_X265, VIDEO_AVC_VAAPI, VIDEO_HEVC_VAAPI,
     VIDEO_AVC_GPU_VAAPI_AVCODEC, VIDEO_HEVC_GPU_VAAPI_AVCODEC, VIDEO_AVC_CPU_AVCODEC, VIDEO_HEVC_CPU_AVCODEC,
     VIDEO_HEVC_GPU_NVENC_AVCODEC, VIDEO_HEVC_VEGA3301, VIDEO_HEVC_VEGA3311}"

definition mux_stream_format :: "output_stream \<Rightarrow> int_input_stream \<Rightarrow> stream_formats" where
  "mux_stream_format os s = (if os_stream_action os = STREAM_ENCODE then os_stream_format os else iis_stream_format s)"

text \<open>
  The row of the table; for LATM the one after the first for AAC.  Behind the last row the terminator
  has the format -1, here \<^const>\<open>None\<close>.
\<close>

(* src: mux/ts/ts.c 598-609 open_muxer *)
definition mux_format_row :: "output_stream \<Rightarrow> int_input_stream \<Rightarrow> (stream_formats \<times> mpegts_format \<times> mpegts_stream_id) option" where
  "mux_format_row os s =
     (let f = mux_stream_format os s;
          j = length (takeWhile (\<lambda>row. fst row \<noteq> f) mpegts_stream_info);
          j = (if f = AUDIO_AAC \<and> (os_stream_action os = STREAM_PASSTHROUGH \<and> iis_is_latm s \<noteq> 0
                    \<or> os_stream_action os = STREAM_ENCODE \<and> os_latm_output os \<noteq> 0)
               then j + 1 else j)
      in at mpegts_stream_info j)"

(* src: mux/ts/ts.c 620-632 open_muxer *)
definition mux_choose_pid :: "mux_opts \<Rightarrow> output_stream \<Rightarrow> int_input_stream \<Rightarrow> int \<Rightarrow> int \<times> int" where
  "mux_choose_pid mo os s cur_pid =
     (let wanted = (if mo_passthrough mo \<noteq> 0 then iis_pid s else tso_pid (os_ts_opts os))
      in if wanted \<noteq> 0 then (wanted, cur_pid) else (cur_pid, cur_pid + 1))"

text \<open>
  The length of the audio in a PES packet, in ticks of 90 kHz; the second component is the number of
  frames per PES packet afterwards.  \<open>double\<close> division by a rate of 0 has no \<open>int\<close> result.  The wait
  for the encoder is over when the model runs: its encoders have reported their frame sizes.
\<close>

(* src: mux/ts/ts.c 648-677 open_muxer *)
definition mux_audio_frame_size :: "obe_t \<Rightarrow> output_stream \<Rightarrow> int_input_stream \<Rightarrow> (int \<times> int) option" where
  "mux_audio_frame_size h os s =
     (let f = mux_stream_format os s; n = tso_frames_per_pes (os_ts_opts os)
      in if is_mux_video f
         then (if get_encoder h (os_output_stream_id os) = None then None else Some (0, n))
         else if f = AUDIO_MP2 then map_option (\<lambda>v. (v, n)) (trunc_div (1152 * 90000 * n) (iis_sample_rate s))
         else if f = AUDIO_AC_3 then map_option (\<lambda>v. (v, n)) (trunc_div (1536 * 90000 * n) (iis_sample_rate s))
         else if f = AUDIO_E_AC_3 \<or> f = AUDIO_AAC
         then do { e \<leftarrow> get_encoder h (os_output_stream_id os);
                   v \<leftarrow> trunc_div (en_num_samples e * 90000 * n) (iis_sample_rate s);
                   Some (v, n) }
         else if f = AUDIO_AC_3_BITSTREAM then Some (2880, 1)
         else Some (0, n))"

(* src: mux/ts/ts.c 592-678 open_muxer *)
definition mux_setup_stream ::
    "bool \<Rightarrow> obe_t \<Rightarrow> mux_vars \<Rightarrow> output_stream \<Rightarrow> (output_stream \<times> ts_stream \<times> mux_vars) option" where
  "mux_setup_stream force_11172 h v os =
     do { found \<leftarrow> get_input_stream h (os_input_stream_id os);
          s \<leftarrow> found;
          let row = mux_format_row os s;
          let fmt = map_option (fst \<circ> snd) row;
          let fmt = (if fmt = Some LIBMPEGTS_AUDIO_MPEG2 \<and> force_11172 then Some LIBMPEGTS_AUDIO_MPEG1 else fmt);
          let pass = (mo_passthrough (h_mux_opts h) \<noteq> 0);
          let audio = (iis_stream_type s = STREAM_TYPE_AUDIO);
          let lang = (if pass then iis_lang_code s else tso_lang_code (os_ts_opts os));
          let (pid, cur_pid) = mux_choose_pid (h_mux_opts h) os s (mv_cur_pid v);
          (size, n) \<leftarrow> mux_audio_frame_size h os s;
          let video = is_mux_video (mux_stream_format os s);
          Some (os\<lparr>os_ts_opts := (os_ts_opts os)\<lparr>tso_pid := pid, tso_frames_per_pes := n\<rparr>\<rparr>,
                \<lparr>tss_pid = pid, tss_stream_format = fmt, tss_stream_id = map_option (snd \<circ> snd) row,
                 tss_write_lang_code = (audio \<and> lang \<noteq> []),
                 tss_lang_code = (if audio then lang else []),
                 tss_audio_type = (if \<not> audio then 0 else if pass then iis_audio_type s else tso_audio_type (os_ts_opts os)),
                 tss_has_stream_identifier =
                   (if pass then iis_has_stream_identifier s else tso_has_stream_identifier (os_ts_opts os)),
                 tss_stream_identifier = (if pass then iis_stream_identifier s else tso_stream_identifier (os_ts_opts os)),
                 tss_audio_frame_size = size\<rparr>,
                (if video
                 then v\<lparr>mv_cur_pid := cur_pid, mv_width := avc_width (os_avc_param os),
                        mv_height := avc_height (os_avc_param os), mv_video_pid := pid\<rparr>
                 else v\<lparr>mv_cur_pid := cur_pid\<rparr>)) }"

(* src: mux/ts/ts.c 592-678 open_muxer *)
fun mux_setup_streams ::
    "bool \<Rightarrow> obe_t \<Rightarrow> mux_vars \<Rightarrow> output_stream list \<Rightarrow> (output_stream list \<times> ts_stream list \<times> mux_vars) option" where
  "mux_setup_streams force_11172 h v [] = Some ([], [], v)"
| "mux_setup_streams force_11172 h v (os # outs) =
     do { (os, t, v) \<leftarrow> mux_setup_stream force_11172 h v os;
          (outs, ts, v) \<leftarrow> mux_setup_streams force_11172 h v outs;
          Some (os # outs, t # ts, v) }"

section \<open>The calls that set up the writer\<close>

record ts_main =
  tm_ts_type :: int
  tm_cbr :: bool
  tm_muxrate :: int
  tm_pcr_period :: int
  tm_pat_period :: int
  tm_ts_id :: int
  tm_program_num :: int
  tm_pmt_pid :: int
  tm_pcr_pid :: int
  tm_is_3dtv :: bool
  tm_hd_service :: bool
  tm_service_name :: string
  tm_provider_name :: string
  tm_streams :: "ts_stream list"

text \<open>A line of a VBI service: field parity and line offset.\<close>

type_synonym vbi_service = "vbi_data_service_id \<times> (int \<times> int) list"

datatype ts_call =
    TS_SETUP_TRANSPORT_STREAM ts_main
  | TS_SET_SECTION_PADDING int
  | TS_SETUP_SDT
  | TS_SETUP_MPEGVIDEO int int video_profile
  | TS_SETUP_MPEG4_AAC int aac_level int
  | TS_SETUP_DVB_SUBTITLES int bool string int int int
  | TS_SETUP_DVB_TELETEXT int "(string \<times> int \<times> int \<times> int) list"
  | TS_SETUP_DVB_VBI int "vbi_service list"

text \<open>Calls are made until one fails; \<open>ok\<close> stands for their outcomes.  The padding is only stored.\<close>

definition call_ok :: "(ts_call \<Rightarrow> bool) \<Rightarrow> ts_call \<Rightarrow> bool" where
  "call_ok ok c = (case c of TS_SET_SECTION_PADDING n \<Rightarrow> True | _ \<Rightarrow> ok c)"

fun issue :: "(ts_call \<Rightarrow> bool) \<Rightarrow> ts_call list \<Rightarrow> bool \<times> ts_call list" where
  "issue ok [] = (True, [])"
| "issue ok (c # cs) = (if call_ok ok c then map_prod id ((#) c) (issue ok cs) else (False, [c]))"

(* src: mux/ts/ts.c 724-736 open_muxer *)
definition mux_avc_profile :: "int \<Rightarrow> video_profile" where
  "mux_avc_profile p = (case map_of avc_profiles p of None \<Rightarrow> PROFILE_ZERO | Some v \<Rightarrow> v)"

(* src: mux/ts/ts.c 771-792 open_muxer *)
definition mux_aac_call :: "(u64 \<Rightarrow> int) \<Rightarrow> output_stream \<Rightarrow> int \<Rightarrow> ts_call" where
  "mux_aac_call nb_channels os pid =
     (let n = nb_channels (os_channel_layout os);
          level = (if 2 < n
                   then (if os_aac_profile os = 2 then LIBMPEGTS_MPEG4_HE_AAC_V2_PROFILE_LEVEL_5
                         else if os_aac_profile os = 1 then LIBMPEGTS_MPEG4_HE_AAC_PROFILE_LEVEL_5
                         else LIBMPEGTS_MPEG4_AAC_PROFILE_LEVEL_5)
                   else (if os_aac_profile os = 2 then LIBMPEGTS_MPEG4_HE_AAC_V2_PROFILE_LEVEL_2
                         else if os_aac_profile os = 1 then LIBMPEGTS_MPEG4_HE_AAC_PROFILE_LEVEL_2
                         else LIBMPEGTS_MPEG4_AAC_PROFILE_LEVEL_2));
          n = (if os_channel_layout os AND 8 \<noteq> 0 then n - 1 else n)
      in TS_SETUP_MPEG4_AAC pid level n)"

text \<open>A service the table does not have, or a failed allocation, ends the set-up (\<^const>\<open>None\<close> inside).\<close>

(* src: mux/ts/ts.c 841-862 open_muxer *)
definition mux_vbi_service :: "bool \<Rightarrow> bool \<Rightarrow> frame_data \<Rightarrow> vbi_service option option" where
  "mux_vbi_service ok ntsc fd =
     (case map_of vbi_service_ids (fd_type fd) of
        None \<Rightarrow> Some None
      | Some sid \<Rightarrow>
          if \<not> ok then Some None
          else do {
            lines \<leftarrow> mem_get 0 (nat (fd_num_lines fd)) (fd_lines fd);
            ls \<leftarrow> those (map (\<lambda>l. map_option (\<lambda>(line, field). (if field = 1 then 1 else 0, line))
                (obe_convert_smpte_to_analogue (if ntsc then INPUT_VIDEO_FORMAT_NTSC else INPUT_VIDEO_FORMAT_PAL) l)) lines);
            Some (Some (sid, ls)) })"

fun mux_vbi_services :: "bool \<Rightarrow> bool \<Rightarrow> frame_data list \<Rightarrow> vbi_service list option option" where
  "mux_vbi_services ok ntsc [] = Some (Some [])"
| "mux_vbi_services ok ntsc (fd # fds) =
     do { r \<leftarrow> mux_vbi_service ok ntsc fd;
          (case r of None \<Rightarrow> Some None
           | Some v \<Rightarrow> map_option (map_option ((#) v)) (mux_vbi_services ok ntsc fds)) }"

text \<open>
  The calls for one stream, and whether the set-up goes on behind them.  \<open>video_params\<close> gives the level
  and profile an encoder has settled on; teletext descriptors are only set up where the options have some.
\<close>

(* src: mux/ts/ts.c 709-877 open_muxer *)
definition mux_stream_calls ::
    "(u64 \<Rightarrow> int) \<Rightarrow> (obe_encoder \<Rightarrow> int \<times> int) \<Rightarrow> bool \<Rightarrow> obe_t \<Rightarrow> mux_vars \<Rightarrow> output_stream \<Rightarrow> ts_stream
     \<Rightarrow> (ts_call list \<times> bool) option" where
  "mux_stream_calls nb_channels video_params malloc_ok h v os t =
     do { found \<leftarrow> get_input_stream h (os_input_stream_id os);
          s \<leftarrow> found;
          let f = mux_stream_format os s;
          let pid = tss_pid t;
          let ttx = tso_teletexts (os_ts_opts os);
          if f = VIDEO_AVC
          then do { e \<leftarrow> get_encoder h (os_output_stream_id os);
                    let (level, profile) = video_params e;
                    Some ([TS_SETUP_MPEGVIDEO pid level (mux_avc_profile profile)], True) }
          else if f = VIDEO_AVC_GPU_VAAPI_AVCODEC \<or> f = VIDEO_AVC_CPU_AVCODEC \<or> f = VIDEO_AVC_VAAPI
          then Some ([TS_SETUP_MPEGVIDEO pid 40 AVC_HIGH], True)
          else if f \<in> {VIDEO_HEVC_X265, VIDEO_HEVC_GPU_VAAPI_AVCODEC, VIDEO_HEVC_GPU_NVENC_AVCODEC,
                       VIDEO_HEVC_CPU_AVCODEC, VIDEO_HEVC_VEGA3301, VIDEO_HEVC_VEGA3311}
          then Some ([TS_SETUP_MPEGVIDEO pid 51 HEVC_PROFILE_MAIN], True)
          else if f = VIDEO_HEVC_VAAPI then Some ([TS_SETUP_MPEGVIDEO pid 40 HEVC_PROFILE_MAIN], True)
          else if f = AUDIO_AAC then Some ([mux_aac_call nb_channels os pid], True)
          else if f = SUBTITLES_DVB
          then Some ([TS_SETUP_DVB_SUBTITLES pid (1280 \<le> mv_width v \<and> 720 \<le> mv_height v) (iis_lang_code s)
                        (iis_dvb_subtitling_type s) (iis_composition_page_id s) (iis_ancillary_page_id s)], True)
          else if f = SMPTE2031 then Some ([TS_SETUP_DVB_TELETEXT pid ttx], True)
          else if f = VBI_RAW \<or> f = MISC_TELETEXT
          then (let cs = (if ttx \<noteq> [] then [TS_SETUP_DVB_TELETEXT pid ttx] else [])
                in if f = VBI_RAW
                   then if \<not> malloc_ok then Some (cs, False)
                        else do { fds \<leftarrow> mem_get 0 (nat (iis_num_frame_data s)) (iis_frame_data s);
                                  r \<leftarrow> mux_vbi_services malloc_ok (iis_vbi_ntsc s \<noteq> 0) fds;
                                  (case r of None \<Rightarrow> Some (cs, False)
                                   | Some vs \<Rightarrow> Some (cs @ [TS_SETUP_DVB_VBI pid vs], True)) }
                   else Some (cs, True))
          else Some ([], True) }"

(* src: mux/ts/ts.c 709-877 open_muxer *)
fun mux_all_calls ::
    "(u64 \<Rightarrow> int) \<Rightarrow> (obe_encoder \<Rightarrow> int \<times> int) \<Rightarrow> bool \<Rightarrow> (ts_call \<Rightarrow> bool) \<Rightarrow> obe_t \<Rightarrow> mux_vars
     \<Rightarrow> (output_stream \<times> ts_stream) list \<Rightarrow> (bool \<times> ts_call list) option" where
  "mux_all_calls nb vp m ok h v [] = Some (True, [])"
| "mux_all_calls nb vp m ok h v ((os, t) # rest) =
     do { (cs, go) \<leftarrow> mux_stream_calls nb vp m h v os t;
          let (set_up, made) = issue ok cs;
          if \<not> set_up \<or> \<not> go then Some (False, made)
          else do { (r, more) \<leftarrow> mux_all_calls nb vp m ok h v rest; Some (r, made @ more) } }"

(* src: mux/ts/ts.c 576-590 open_muxer *)
definition mux_program_ids :: "mux_opts \<Rightarrow> obe_device \<Rightarrow> int \<times> int \<times> int \<times> int" where
  "mux_program_ids mo d =
     (if mo_passthrough mo \<noteq> 0 then (dv_ts_id d, dv_program_num d, dv_pmt_pid d, MIN_PID)
      else (if mo_ts_id mo \<noteq> 0 then mo_ts_id mo else 1,
            if mo_program_num mo \<noteq> 0 then mo_program_num mo else 1,
            if mo_pmt_pid mo \<noteq> 0 then mo_pmt_pid mo else MIN_PID,
            if mo_pmt_pid mo \<noteq> 0 then MIN_PID else MIN_PID + 1))"

text \<open>
  The set-up as a whole: the output streams with their PIDs, the calls made, and whether the thread
  goes on to its loop.  Without a writer or memory it returns at once.
\<close>

(* src: mux/ts/ts.c 531-707 open_muxer *)
definition mux_setup ::
    "(u64 \<Rightarrow> int) \<Rightarrow> (obe_encoder \<Rightarrow> int \<times> int) \<Rightarrow> bool \<Rightarrow> bool \<Rightarrow> (ts_call \<Rightarrow> bool) \<Rightarrow> bool \<Rightarrow> obe_t
     \<Rightarrow> (bool \<times> output_stream list \<times> ts_call list) option" where
  "mux_setup nb vp writer_ok malloc_ok ok force_11172 h =
     (let mo = h_mux_opts h
      in if \<not> writer_ok \<or> \<not> malloc_ok then Some (False, h_output_streams h, [])
         else do {
           d \<leftarrow> at (h_devices h) 0;
           let (ts_id, program_num, pmt_pid, cur_pid) = mux_program_ids mo d;
           (outs, ts, v) \<leftarrow> mux_setup_streams force_11172 h
              \<lparr>mv_cur_pid = cur_pid, mv_width = 0, mv_height = 0, mv_video_pid = 0\<rparr> (h_output_streams h);
           let params = \<lparr>tm_ts_type = mo_ts_type mo, tm_cbr = (mo_cbr mo \<noteq> 0), tm_muxrate = mo_ts_muxrate mo,
              tm_pcr_period = mo_pcr_period mo, tm_pat_period = mo_pat_period mo, tm_ts_id = ts_id,
              tm_program_num = program_num, tm_pmt_pid = pmt_pid,
              tm_pcr_pid = (if mo_passthrough mo \<noteq> 0 then dv_pcr_pid d
                            else if mo_pcr_pid mo \<noteq> 0 then mo_pcr_pid mo else mv_video_pid v),
              tm_is_3dtv = (mo_is_3dtv mo \<noteq> 0), tm_hd_service = (720 \<le> mv_height v),
              tm_service_name = (case mo_service_name mo of Some n \<Rightarrow> n | None \<Rightarrow> ''OBE Service''),
              tm_provider_name = (case mo_provider_name mo of Some n \<Rightarrow> n | None \<Rightarrow> ''Open Broadcast Encoder''),
              tm_streams = ts\<rparr>;
           let first = [TS_SETUP_TRANSPORT_STREAM params, TS_SET_SECTION_PADDING (mo_section_padding mo)]
                       @ (if mo_ts_type mo = 0 \<or> mo_ts_type mo = 1 then [TS_SETUP_SDT] else []);
           let (set, made) = issue ok first;
           if \<not> set then Some (False, outs, made)
           else do { (r, more) \<leftarrow> mux_all_calls nb vp malloc_ok ok (h\<lparr>h_output_streams := outs\<rparr>) v (zip outs ts);
                     Some (r, outs, made @ more) } })"

section \<open>One turn of the loop\<close>

(* src: mux/ts/ts.c 1020-1046 open_muxer *)
record ts_frame =
  tsf_opaque :: coded_frame
  tsf_data :: bytes
  tsf_pid :: int
  tsf_cpb_initial_arrival_time :: int
  tsf_cpb_final_arrival_time :: int
  tsf_dts :: int
  tsf_pts :: int
  tsf_random_access :: int
  tsf_priority :: int

text \<open>The values the loop keeps; -1 stands for not known yet.\<close>

record mux_clock =
  mc_first_video_pts :: int
  mc_first_video_real_pts :: int
  mc_last_video_dts :: int
  mc_initial_audio_latency :: int

definition mux_clock_init :: mux_clock where
  "mux_clock_init = \<lparr>mc_first_video_pts = -1, mc_first_video_real_pts = -1, mc_last_video_dts = 0,
     mc_initial_audio_latency = -1\<rparr>"

text \<open>The first video frame, and the time stamp of the last other frame before it.\<close>

(* src: mux/ts/ts.c 903-933 open_muxer *)
fun mux_find_video :: "coded_frame list \<Rightarrow> int \<Rightarrow> coded_frame option \<times> int" where
  "mux_find_video [] audio_pts = (None, audio_pts)"
| "mux_find_video (cf # fs) audio_pts =
     (if cf_type cf = CF_VIDEO then (Some cf, audio_pts) else mux_find_video fs (cf_pts cf))"

(* src: mux/ts/ts.c 999-1006 open_muxer *)
definition mux_rescaled_dts :: "mux_clock \<Rightarrow> coded_frame \<Rightarrow> int" where
  "mux_rescaled_dts c cf =
     (if cf_type cf = CF_VIDEO then cf_real_dts cf
      else cf_pts cf - mc_first_video_pts c + mc_first_video_real_pts c)"

text \<open>A frame of an unknown output stream is an access through NULL.\<close>

(* src: mux/ts/ts.c 1020-1046 open_muxer *)
definition mux_ts_frame :: "output_stream list \<Rightarrow> mux_clock \<Rightarrow> coded_frame \<Rightarrow> ts_frame option" where
  "mux_ts_frame outs c cf =
     do { os \<leftarrow> get_output_mux_stream outs (cf_output_stream_id cf);
          let video = (cf_type cf = CF_VIDEO);
          let rebased = cf_pts cf - mc_first_video_pts c + mc_first_video_real_pts c;
          Some \<lparr>tsf_opaque = cf, tsf_data = cf_data cf, tsf_pid = tso_pid (os_ts_opts os),
                tsf_cpb_initial_arrival_time = (if video then cf_cpb_initial_arrival_time cf else 0),
                tsf_cpb_final_arrival_time = (if video then cf_cpb_final_arrival_time cf else 0),
                tsf_dts = (if video then cf_real_dts cf else rebased) sdiv 300,
                tsf_pts = (if video then cf_real_pts cf else rebased) sdiv 300,
                tsf_random_access = cf_random_access cf, tsf_priority = cf_priority cf\<rparr> }"

(* src: mux/ts/ts.c 977-1056 open_muxer *)
fun mux_select :: "output_stream list \<Rightarrow> mux_clock \<Rightarrow> int \<Rightarrow> coded_frame list \<Rightarrow> ts_frame list option" where
  "mux_select outs c video_dts [] = Some []"
| "mux_select outs c video_dts (cf # fs) =
     (if mux_rescaled_dts c cf \<le> video_dts
      then do { t \<leftarrow> mux_ts_frame outs c cf; ts \<leftarrow> mux_select outs c video_dts fs; Some (t # ts) }
      else mux_select outs c video_dts fs)"

text \<open>
  The part of a turn under the queue's mutex: the thread waits (\<^const>\<open>None\<close> inside) while there is no
  video frame.  The first video frame ever seen fixes the offset of the other streams, and the frames
  too early for it are dropped.
\<close>

(* src: mux/ts/ts.c 882-1058 open_muxer *)
definition mux_collect ::
    "output_stream list \<Rightarrow> mux_clock \<Rightarrow> coded_frame obe_queue
     \<Rightarrow> (mux_clock \<times> coded_frame obe_queue \<times> ts_frame list) option option" where
  "mux_collect outs c q =
     (case mux_find_video (queue_list q) 0 of
        (None, _) \<Rightarrow> Some None
      | (Some v, audio_pts) \<Rightarrow>
          let c = c\<lparr>mc_last_video_dts := cf_real_dts v\<rparr>;
              (c, q) = (if mc_first_video_pts c = -1
                        then (c\<lparr>mc_first_video_pts := cf_pts v, mc_first_video_real_pts := cf_real_pts v\<rparr>,
                              snd (early_loop True (cf_pts v) 0 q))
                        else (c, q));
              c = (if mc_initial_audio_latency c = -1 then c\<lparr>mc_initial_audio_latency := audio_pts\<rparr> else c)
          in map_option (\<lambda>ts. Some (c, q, ts)) (mux_select outs c (cf_real_dts v) (queue_list q)))"

text \<open>
  What libmpegts made of the frames goes to the smoothing queue, with the PCR of every packet.
  \<open>written\<close> is the output and the PCR list after \<open>ts_write_frames\<close>, whose result is only reported, and
  \<open>buffered\<close> the number of frames it holds back; past 2200 the process ends.
\<close>

datatype mux_outcome = MUX_GOES_ON | MUX_ENDS | MUX_EXITS

(* src: mux/ts/ts.c 1071-1136 open_muxer *)
definition mux_emit ::
    "bool \<Rightarrow> bool \<Rightarrow> bool \<Rightarrow> nat \<Rightarrow> bytes \<Rightarrow> int list \<Rightarrow> muxed_data obe_queue \<Rightarrow> (mux_outcome \<times> muxed_data obe_queue) option" where
  "mux_emit ok1 ok2 okq buffered output pcr_list q =
     (if 2200 < buffered then Some (MUX_EXITS, q)
      else if output = [] then Some (MUX_GOES_ON, q)
      else case new_muxed_data ok1 ok1 (length output) of
             None \<Rightarrow> Some (MUX_ENDS, q)
           | Some md \<Rightarrow>
               if \<not> ok2 then Some (MUX_ENDS, q)
               else do { pcrs \<leftarrow> mem_get 0 (length output div 188) pcr_list;
                         (_, q) \<leftarrow> add_to_queue okq (md\<lparr>md_data := output, md_pcr_list := pcrs\<rparr>) q;
                         Some (MUX_GOES_ON, q) })"

(* src: mux/ts/ts.c 1138-1144 open_muxer *)
fun mux_remove :: "ts_frame list \<Rightarrow> coded_frame obe_queue \<Rightarrow> coded_frame obe_queue option" where
  "mux_remove [] q = Some q"
| "mux_remove (t # ts) q =
     do { (_, q) \<leftarrow> remove_item_from_queue True (tsf_opaque t) q; mux_remove ts q }"

section \<open>Frames through the multiplexer\<close>

lemma remove_item_some:
  assumes "queue_ok q" "\<not> q_locked q"
  shows "\<exists>q'. remove_item_from_queue True x q = Some (0, q')"
proof (cases "find_item x 0 (take (nat (q_size q)) (q_buf q))")
  case None
  then show ?thesis
    using assms by (simp add: remove_item_from_queue_def)
next
  case (Some i)
  then have "take (nat (q_size q)) (q_buf q) \<noteq> []"
    by auto
  then have "0 < q_size q"
    by auto
  then show ?thesis
    using Some assms by (auto simp: remove_item_from_queue_def Let_def realloc_cells_def)
qed

lemma mux_remove_list:
  assumes "queue_ok q" "\<not> q_locked q"
  shows "\<exists>q'. mux_remove ts q = Some q' \<and> queue_ok q' \<and> \<not> q_locked q'
    \<and> queue_list q' = fold remove1 (map tsf_opaque ts) (queue_list q)"
  using assms
proof (induction ts arbitrary: q)
  case (Cons t ts)
  obtain q1 where q1: "remove_item_from_queue True (tsf_opaque t) q = Some (0, q1)"
    using remove_item_some [OF Cons.prems] by blast
  have "queue_ok q1" "\<not> q_locked q1" "queue_list q1 = remove1 (tsf_opaque t) (queue_list q)"
    using remove_item_list [OF Cons.prems(1) q1] by auto
  then show ?case
    using Cons.IH [of q1] q1 by auto
qed simp

lemma fold_remove1_filter:
  assumes "\<forall>z \<in> set zs. \<not> P z"
  shows "fold remove1 (filter P xs) (zs @ xs @ new) = zs @ filter (\<lambda>x. \<not> P x) xs @ new"
  using assms
proof (induction xs arbitrary: zs)
  case (Cons x xs)
  show ?case
  proof (cases "P x")
    case True
    then have "x \<notin> set zs"
      using Cons.prems by blast
    then show ?thesis
      using True Cons by (simp add: remove1_append)
  next
    case False
    then show ?thesis
      using Cons.IH [of "zs @ [x]"] Cons.prems by simp
  qed
qed simp

lemma mux_select_spec:
  "\<forall>cf \<in> set fs. get_output_mux_stream outs (cf_output_stream_id cf) \<noteq> None \<Longrightarrow>
   \<exists>ts. mux_select outs c d fs = Some ts \<and> map tsf_opaque ts = filter (\<lambda>cf. mux_rescaled_dts c cf \<le> d) fs
     \<and> (\<forall>t \<in> set ts. mux_ts_frame outs c (tsf_opaque t) = Some t)"
proof (induction fs)
  case (Cons cf fs)
  obtain ts where ts: "mux_select outs c d fs = Some ts" "map tsf_opaque ts = filter (\<lambda>cf. mux_rescaled_dts c cf \<le> d) fs"
    "\<forall>t \<in> set ts. mux_ts_frame outs c (tsf_opaque t) = Some t"
    using Cons by auto
  obtain os where "get_output_mux_stream outs (cf_output_stream_id cf) = Some os"
    using Cons.prems by auto
  then have "\<exists>t. mux_ts_frame outs c cf = Some t \<and> tsf_opaque t = cf"
    by (simp add: mux_ts_frame_def Let_def)
  then obtain t where t: "mux_ts_frame outs c cf = Some t" "tsf_opaque t = cf"
    by blast
  then show ?case
    using ts by auto
qed simp

lemma mux_find_video_some:
  "\<exists>cf \<in> set fs. cf_type cf = CF_VIDEO \<Longrightarrow> \<exists>v a'. mux_find_video fs a = (Some v, a') \<and> v \<in> set fs \<and> cf_type v = CF_VIDEO"
proof (induction fs arbitrary: a)
  case (Cons cf fs)
  then show ?case
  proof (cases "cf_type cf = CF_VIDEO")
    case False
    then obtain v a' where "mux_find_video fs (cf_pts cf) = (Some v, a')" "v \<in> set fs" "cf_type v = CF_VIDEO"
      using Cons by force
    then show ?thesis
      using False by simp
  qed simp
qed simp

lemma early_loop_locked: "q_locked (snd (early_loop ok pts i q)) = q_locked q"
proof (induction ok pts i q rule: early_loop.induct)
  case (1 ok pts i q)
  define f where "f = q_buf q ! i"
  define n where "n = q_size q - 1"
  define b where "b = splice i (take (nat n - i) (drop (i + 1) (q_buf q))) (q_buf q)"
  have e: "early_loop ok pts i q = (if int i < q_size q
      then if cf_type f \<noteq> CF_VIDEO \<and> cf_pts f < pts
           then case realloc_cells ok n b of
                  Some b' \<Rightarrow> early_loop ok pts i (q\<lparr>q_buf := b', q_size := n\<rparr>)
                | None \<Rightarrow> if n \<noteq> 0 then (-1, q\<lparr>q_buf := b, q_size := n\<rparr>)
                          else early_loop ok pts i (q\<lparr>q_buf := [], q_size := n\<rparr>)
           else early_loop ok pts (i + 1) q
      else (0, q))"
    unfolding f_def n_def b_def by (subst early_loop.simps) (simp only: Let_def)
  note ih = 1 [OF _ f_def]
  show ?case
    unfolding e using ih(1) [OF _ _ n_def b_def] ih(2) [OF _ _ n_def b_def] ih(3)
    by (cases "realloc_cells ok n b"; cases "n = 0"; simp)
qed

lemma mux_collect_spec:
  assumes "queue_ok q" "\<exists>cf \<in> set (queue_list q). cf_type cf = CF_VIDEO"
    and "\<forall>cf \<in> set (queue_list q). get_output_mux_stream outs (cf_output_stream_id cf) \<noteq> None"
  shows "\<exists>v c' q' ts. mux_collect outs c q = Some (Some (c', q', ts)) \<and> fst (mux_find_video (queue_list q) 0) = Some v
    \<and> cf_type v = CF_VIDEO \<and> v \<in> set (queue_list q') \<and> queue_ok q' \<and> q_locked q' = q_locked q
    \<and> queue_list q' = (if mc_first_video_pts c = -1
        then filter (\<lambda>f. cf_type f = CF_VIDEO \<or> cf_pts v \<le> cf_pts f) (queue_list q) else queue_list q)
    \<and> mc_last_video_dts c' = cf_real_dts v
    \<and> (mc_first_video_pts c', mc_first_video_real_pts c') = (if mc_first_video_pts c = -1
         then (cf_pts v, cf_real_pts v) else (mc_first_video_pts c, mc_first_video_real_pts c))
    \<and> map tsf_opaque ts = filter (\<lambda>cf. mux_rescaled_dts c' cf \<le> cf_real_dts v) (queue_list q')
    \<and> (\<forall>t \<in> set ts. mux_ts_frame outs c' (tsf_opaque t) = Some t)"
proof -
  obtain v a where v: "mux_find_video (queue_list q) 0 = (Some v, a)" "v \<in> set (queue_list q)" "cf_type v = CF_VIDEO"
    using mux_find_video_some [OF assms(2)] by blast
  obtain q1 where q1: "early_loop True (cf_pts v) 0 q = (0, q1)" "queue_ok q1" "q_locked q1 = q_locked q"
    "queue_list q1 = filter (\<lambda>f. cf_type f = CF_VIDEO \<or> cf_pts v \<le> cf_pts f) (queue_list q)"
    using early_loop_spec [OF assms(1), of 0 "cf_pts v"] early_loop_locked [of True "cf_pts v" 0 q] by auto
  define q' where "q' = (if mc_first_video_pts c = -1 then q1 else q)"
  define c1 where "c1 = (let c = c\<lparr>mc_last_video_dts := cf_real_dts v\<rparr>
      in if mc_first_video_pts c = -1 then c\<lparr>mc_first_video_pts := cf_pts v, mc_first_video_real_pts := cf_real_pts v\<rparr> else c)"
  define c' where "c' = (if mc_initial_audio_latency c1 = -1 then c1\<lparr>mc_initial_audio_latency := a\<rparr> else c1)"
  have l: "queue_list q' = (if mc_first_video_pts c = -1
        then filter (\<lambda>f. cf_type f = CF_VIDEO \<or> cf_pts v \<le> cf_pts f) (queue_list q) else queue_list q)"
    by (simp add: q'_def q1(4))
  then have "\<forall>cf \<in> set (queue_list q'). get_output_mux_stream outs (cf_output_stream_id cf) \<noteq> None"
    using assms(3) by auto
  from mux_select_spec [OF this, of c' "cf_real_dts v"] obtain ts where ts:
    "mux_select outs c' (cf_real_dts v) (queue_list q') = Some ts"
    "map tsf_opaque ts = filter (\<lambda>cf. mux_rescaled_dts c' cf \<le> cf_real_dts v) (queue_list q')"
    "\<forall>t \<in> set ts. mux_ts_frame outs c' (tsf_opaque t) = Some t"
    by blast
  have "mux_collect outs c q = Some (Some (c', q', ts))"
    using ts(1) v(1) q1(1) by (auto simp: mux_collect_def c'_def c1_def q'_def Let_def)
  moreover have "v \<in> set (queue_list q')"
    using v(2,3) l by auto
  moreover have "queue_ok q'" "q_locked q' = q_locked q"
    using q1(2,3) assms(1) by (simp_all add: q'_def)
  moreover have "mc_last_video_dts c' = cf_real_dts v"
    "(mc_first_video_pts c', mc_first_video_real_pts c') = (if mc_first_video_pts c = -1
         then (cf_pts v, cf_real_pts v) else (mc_first_video_pts c, mc_first_video_real_pts c))"
    by (simp_all add: c'_def c1_def Let_def)
  ultimately show ?thesis
    using v(1,3) l ts(2,3) by auto
qed

lemma mux_find_video_find: "fst (mux_find_video fs a) = find (\<lambda>cf. cf_type cf = CF_VIDEO) fs"
  by (induction fs arbitrary: a) simp_all

text \<open>The queue a turn looks at: the first turn drops the other frames that are too early for the video.\<close>

definition mux_kept :: "mux_clock \<Rightarrow> coded_frame \<Rightarrow> coded_frame list \<Rightarrow> coded_frame list" where
  "mux_kept c v fs = (if mc_first_video_pts c = -1
     then filter (\<lambda>f. cf_type f = CF_VIDEO \<or> cf_pts v \<le> cf_pts f) fs else fs)"

text \<open>The decoding time of a frame in the time base of the video.\<close>

definition stream_time :: "mux_clock \<Rightarrow> coded_frame \<Rightarrow> int" where
  "stream_time c cf = (if cf_type cf = CF_VIDEO then cf_real_dts cf
     else cf_pts cf + (mc_first_video_real_pts c - mc_first_video_pts c))"

lemma mux_rescaled_dts_time: "mux_rescaled_dts c cf = stream_time c cf"
  by (simp add: mux_rescaled_dts_def stream_time_def)

text \<open>What libmpegts is told of a frame: the identifier of its stream, its data, and its time stamps in the
  time base of the video.\<close>

definition frame_described :: "output_stream list \<Rightarrow> mux_clock \<Rightarrow> ts_frame \<Rightarrow> bool" where
  "frame_described outs c t \<longleftrightarrow> (let cf = tsf_opaque t in
     (\<exists>os. get_output_mux_stream outs (cf_output_stream_id cf) = Some os \<and> tsf_pid t = tso_pid (os_ts_opts os))
     \<and> tsf_data t = cf_data cf \<and> tsf_random_access t = cf_random_access cf \<and> tsf_priority t = cf_priority cf
     \<and> (if cf_type cf = CF_VIDEO
        then tsf_dts t = cf_real_dts cf sdiv 300 \<and> tsf_pts t = cf_real_pts cf sdiv 300
           \<and> tsf_cpb_initial_arrival_time t = cf_cpb_initial_arrival_time cf
           \<and> tsf_cpb_final_arrival_time t = cf_cpb_final_arrival_time cf
        else tsf_dts t = stream_time c cf sdiv 300 \<and> tsf_pts t = stream_time c cf sdiv 300))"

lemma mux_ts_frame_described: "mux_ts_frame outs c cf = Some t \<Longrightarrow> frame_described outs c t"
  by (auto simp: mux_ts_frame_def Let_def bind_eq_Some_conv frame_described_def stream_time_def algebra_simps)

text \<open>C21 One turn of the multiplexer looks for the first video frame in the queue.  In the first turn of all
  this frame fixes the offset of the other streams, and the other frames with earlier time stamps are
  dropped.  The turn then hands libmpegts exactly the queued frames that are due, those whose decoding
  time in the time base of the video is not after that of the first video frame, in queue order, each with the PID of its
  stream and its time stamps; the first video frame is always one of them.  Frames added meanwhile stay:
  afterwards the queue holds the frames that were not due and the new ones, so every turn makes progress.\<close>

theorem mux_turn_takes_due_frames:
  assumes "queue_ok q" "\<exists>cf \<in> set (queue_list q). cf_type cf = CF_VIDEO"
    and "\<forall>cf \<in> set (queue_list q). get_output_mux_stream outs (cf_output_stream_id cf) \<noteq> None"
  shows "\<exists>v c' q' ts. find (\<lambda>cf. cf_type cf = CF_VIDEO) (queue_list q) = Some v
    \<and> mux_collect outs c q = Some (Some (c', q', ts)) \<and> queue_ok q' \<and> q_locked q' = q_locked q
    \<and> queue_list q' = mux_kept c v (queue_list q)
    \<and> (mc_first_video_pts c', mc_first_video_real_pts c')
       = (if mc_first_video_pts c = -1 then (cf_pts v, cf_real_pts v) else (mc_first_video_pts c, mc_first_video_real_pts c))
    \<and> map tsf_opaque ts = filter (\<lambda>cf. stream_time c' cf \<le> cf_real_dts v) (queue_list q')
    \<and> v \<in> set (map tsf_opaque ts) \<and> (\<forall>t \<in> set ts. frame_described outs c' t)
    \<and> (\<forall>q2 new. queue_ok q2 \<and> \<not> q_locked q2 \<and> queue_list q2 = queue_list q' @ new \<longrightarrow>
        (\<exists>q3. mux_remove ts q2 = Some q3 \<and> queue_ok q3 \<and> \<not> q_locked q3
           \<and> queue_list q3 = filter (\<lambda>cf. cf_real_dts v < stream_time c' cf) (queue_list q') @ new
           \<and> length (queue_list q3) < length (queue_list q2)))"
proof -
  obtain v c' q' ts where m: "mux_collect outs c q = Some (Some (c', q', ts))" "fst (mux_find_video (queue_list q) 0) = Some v"
    "cf_type v = CF_VIDEO" "v \<in> set (queue_list q')" "queue_ok q' \<and> q_locked q' = q_locked q" "queue_list q' = mux_kept c v (queue_list q)"
    "(mc_first_video_pts c', mc_first_video_real_pts c')
       = (if mc_first_video_pts c = -1 then (cf_pts v, cf_real_pts v) else (mc_first_video_pts c, mc_first_video_real_pts c))"
    "map tsf_opaque ts = filter (\<lambda>cf. stream_time c' cf \<le> cf_real_dts v) (queue_list q')"
    "\<forall>t \<in> set ts. mux_ts_frame outs c' (tsf_opaque t) = Some t"
    using mux_collect_spec [OF assms, of c] unfolding mux_kept_def [symmetric] mux_rescaled_dts_time by blast
  have first: "find (\<lambda>cf. cf_type cf = CF_VIDEO) (queue_list q) = Some v"
    using m(2) by (simp add: mux_find_video_find)
  have due: "\<not> cf_real_dts v < stream_time c' v"
    using m(3) by (simp add: stream_time_def)
  then have v: "v \<in> set (map tsf_opaque ts)"
    unfolding m(8) using m(4) by simp
  have f: "\<forall>t \<in> set ts. frame_described outs c' t"
    using m(9) mux_ts_frame_described by blast
  have r: "\<exists>q3. mux_remove ts q2 = Some q3 \<and> queue_ok q3 \<and> \<not> q_locked q3
           \<and> queue_list q3 = filter (\<lambda>cf. cf_real_dts v < stream_time c' cf) (queue_list q') @ new
           \<and> length (queue_list q3) < length (queue_list q2)"
    if q2: "queue_ok q2 \<and> \<not> q_locked q2 \<and> queue_list q2 = queue_list q' @ new" for q2 new
  proof -
    obtain q3 where q3: "mux_remove ts q2 = Some q3" "queue_ok q3" "\<not> q_locked q3"
      "queue_list q3 = fold remove1 (map tsf_opaque ts) (queue_list q2)"
      using mux_remove_list [of q2] q2 by blast
    have l3: "queue_list q3 = filter (\<lambda>cf. cf_real_dts v < stream_time c' cf) (queue_list q') @ new"
      using fold_remove1_filter [of "[]" "\<lambda>cf. stream_time c' cf \<le> cf_real_dts v" "queue_list q'" new] q3(4) m(8) q2
      by (simp add: not_le)
    have "length (filter (\<lambda>cf. cf_real_dts v < stream_time c' cf) (queue_list q')) < length (queue_list q')"
      using m(4) due by (rule length_filter_less)
    then show ?thesis
      using q3(1-3) l3 q2 by simp
  qed
  show ?thesis
    using first m(1,5,6,7,8) v f r by blast
qed

definition example_queue :: "coded_frame obe_queue" where
  "example_queue = zeroed_queue\<lparr>q_size := 3,
     q_buf := [example_coded CF_AUDIO 5, example_coded CF_VIDEO 6, example_coded CF_AUDIO 20]\<rparr>"

theorem mux_turn_takes_due_frames_witness:
  "\<exists>ts c' q' q3. mux_collect [example_output 0 VIDEO_AVC] mux_clock_init example_queue = Some (Some (c', q', ts))
     \<and> map tsf_opaque ts = [example_coded CF_VIDEO 6] \<and> mux_remove ts q' = Some q3 \<and> queue_list q3 = [example_coded CF_AUDIO 20]"
proof -
  have q: "queue_ok example_queue" "\<not> q_locked example_queue"
    "queue_list example_queue = [example_coded CF_AUDIO 5, example_coded CF_VIDEO 6, example_coded CF_AUDIO 20]"
    by (simp_all add: example_queue_def queue_ok_def queue_list_def zeroed_queue_def)
  have c: "cf_type (example_coded t n) = t" "cf_pts (example_coded t n) = n" "cf_real_dts (example_coded t n) = 0"
    "cf_real_pts (example_coded t n) = 0" "cf_output_stream_id (example_coded t n) = 0" for t n
    by (simp_all add: example_coded_def)
  have s: "get_output_mux_stream [example_output 0 VIDEO_AVC] 0 = Some (example_output 0 VIDEO_AVC)"
    by (simp add: get_output_mux_stream_def example_output_def)
  have h: "\<exists>cf \<in> set (queue_list example_queue). cf_type cf = CF_VIDEO"
    "\<forall>cf \<in> set (queue_list example_queue). get_output_mux_stream [example_output 0 VIDEO_AVC] (cf_output_stream_id cf) \<noteq> None"
    by (simp_all add: q(3) c s)
  obtain v c' q' ts where t: "find (\<lambda>cf. cf_type cf = CF_VIDEO) (queue_list example_queue) = Some v"
    "mux_collect [example_output 0 VIDEO_AVC] mux_clock_init example_queue = Some (Some (c', q', ts))"
    "queue_ok q'" "q_locked q' = q_locked example_queue" "queue_list q' = mux_kept mux_clock_init v (queue_list example_queue)"
    "(mc_first_video_pts c', mc_first_video_real_pts c') = (if mc_first_video_pts mux_clock_init = -1
       then (cf_pts v, cf_real_pts v) else (mc_first_video_pts mux_clock_init, mc_first_video_real_pts mux_clock_init))"
    "map tsf_opaque ts = filter (\<lambda>cf. stream_time c' cf \<le> cf_real_dts v) (queue_list q')"
    and r: "\<forall>q2 new. queue_ok q2 \<and> \<not> q_locked q2 \<and> queue_list q2 = queue_list q' @ new \<longrightarrow>
        (\<exists>q3. mux_remove ts q2 = Some q3 \<and> queue_ok q3 \<and> \<not> q_locked q3
           \<and> queue_list q3 = filter (\<lambda>cf. cf_real_dts v < stream_time c' cf) (queue_list q') @ new
           \<and> length (queue_list q3) < length (queue_list q2))"
    using mux_turn_takes_due_frames [OF q(1) h, of mux_clock_init] by (elim exE conjE) (rule that)
  have v: "v = example_coded CF_VIDEO 6"
    using t(1) by (simp add: q(3) c)
  have l: "queue_list q' = [example_coded CF_VIDEO 6, example_coded CF_AUDIO 20]"
    using t(5) by (simp add: v q(3) c mux_kept_def mux_clock_init_def)
  have k: "stream_time c' (example_coded k n) = (if k = CF_VIDEO then 0 else n - 6)" for k n
    using t(6) by (simp add: v c stream_time_def mux_clock_init_def)
  obtain q3 where "mux_remove ts q' = Some q3" "queue_list q3 = [example_coded CF_AUDIO 20]"
    using spec [OF spec [OF r, of q'], of "[]"] t(3,4) q(2) by (auto simp: l k v c)
  moreover have "map tsf_opaque ts = [example_coded CF_VIDEO 6]"
    using t(7) by (simp add: l k v c)
  ultimately show ?thesis
    using t(2) by (intro exI conjI)
qed

section \<open>Assignment of PIDs\<close>

text \<open>Streams without a PID take the next free one.\<close>

fun assigned_pids :: "int \<Rightarrow> int list \<Rightarrow> int list" where
  "assigned_pids cur [] = []"
| "assigned_pids cur (w # ws) = (if w \<noteq> 0 then w # assigned_pids cur ws else cur # assigned_pids (cur + 1) ws)"

lemma mux_setup_stream_pid:
  assumes "mux_setup_stream f h v os = Some (os', t, v')" "mo_passthrough (h_mux_opts h) = 0"
  shows "tss_pid t = (if tso_pid (os_ts_opts os) \<noteq> 0 then tso_pid (os_ts_opts os) else mv_cur_pid v)
    \<and> mv_cur_pid v' = (if tso_pid (os_ts_opts os) \<noteq> 0 then mv_cur_pid v else mv_cur_pid v + 1)
    \<and> tso_pid (os_ts_opts os') = tss_pid t"
  using assms by (auto simp: mux_setup_stream_def mux_choose_pid_def bind_eq_Some_conv Let_def split: if_splits)

lemma mux_setup_streams_pids:
  "mux_setup_streams f h v outs = Some (outs', ts, v') \<Longrightarrow> mo_passthrough (h_mux_opts h) = 0 \<Longrightarrow>
   map tss_pid ts = assigned_pids (mv_cur_pid v) (map (\<lambda>s. tso_pid (os_ts_opts s)) outs)
   \<and> map (\<lambda>s. tso_pid (os_ts_opts s)) outs' = map tss_pid ts"
proof (induction outs arbitrary: v outs' ts)
  case (Cons os outs)
  obtain os1 t v1 outs2 ts2 where s: "mux_setup_stream f h v os = Some (os1, t, v1)"
    "mux_setup_streams f h v1 outs = Some (outs2, ts2, v')" "outs' = os1 # outs2" "ts = t # ts2"
    using Cons.prems(1) by (auto simp: bind_eq_Some_conv)
  show ?case
    using mux_setup_stream_pid [OF s(1) Cons.prems(2)] Cons.IH [OF s(2) Cons.prems(2)] s(3,4) by auto
qed simp

lemma assigned_pids_spec:
  assumes "\<forall>w \<in> set ws. w \<noteq> 0 \<longrightarrow> w < lo \<or> hi \<le> w" "distinct (filter (\<lambda>w. w \<noteq> 0) ws)"
    and "lo \<le> cur" "cur + int (length ws) \<le> hi"
  shows "distinct (assigned_pids cur ws) \<and> set (assigned_pids cur ws) \<subseteq> {w \<in> set ws. w \<noteq> 0} \<union> {cur..<hi}
    \<and> length (assigned_pids cur ws) = length ws"
  using assms
proof (induction ws arbitrary: cur)
  case (Cons w ws)
  show ?case
  proof (cases "w = 0")
    case True
    have ih: "distinct (assigned_pids (cur + 1) ws)"
      "set (assigned_pids (cur + 1) ws) \<subseteq> {w \<in> set ws. w \<noteq> 0} \<union> {cur + 1..<hi}"
      "length (assigned_pids (cur + 1) ws) = length ws"
      using Cons.IH [of "cur + 1"] Cons.prems True by auto
    have "cur < hi"
      using Cons.prems(4) by simp
    moreover have "cur \<notin> {w \<in> set ws. w \<noteq> 0}"
      using Cons.prems(1,3) \<open>cur < hi\<close> by force
    ultimately show ?thesis
      using True ih by auto
  next
    case False
    have ih: "distinct (assigned_pids cur ws)"
      "set (assigned_pids cur ws) \<subseteq> {w \<in> set ws. w \<noteq> 0} \<union> {cur..<hi}"
      "length (assigned_pids cur ws) = length ws"
      using Cons.IH [of cur] Cons.prems False by auto
    have "w \<notin> {cur..<hi}" "w \<notin> set ws"
      using Cons.prems(1,2,3) False by auto
    then show ?thesis
      using False ih by auto
  qed
qed simp

text \<open>C22 The streams of a program get different PIDs, and those with a PID in their options keep it, as long
  as the PIDs of the options differ and none of them lies in the range, starting at the first free
  PID, from which the others are taken.\<close>

theorem mux_pids_distinct:
  assumes "mux_setup_streams f h v outs = Some (outs', ts, v')" "mo_passthrough (h_mux_opts h) = 0"
    and "distinct (filter (\<lambda>w. w \<noteq> 0) (map (\<lambda>s. tso_pid (os_ts_opts s)) outs))"
    and "\<forall>s \<in> set outs. let w = tso_pid (os_ts_opts s) in w \<noteq> 0 \<longrightarrow> w < mv_cur_pid v \<or> mv_cur_pid v + int (length outs) \<le> w"
  shows "distinct (map tss_pid ts) \<and> length ts = length outs
    \<and> map (\<lambda>s. tso_pid (os_ts_opts s)) outs' = map tss_pid ts
    \<and> (\<forall>(s, t) \<in> set (zip outs ts). tso_pid (os_ts_opts s) \<noteq> 0 \<longrightarrow> tss_pid t = tso_pid (os_ts_opts s))"
proof -
  define ws where "ws = map (\<lambda>s. tso_pid (os_ts_opts s)) outs"
  have p: "map tss_pid ts = assigned_pids (mv_cur_pid v) ws" "map (\<lambda>s. tso_pid (os_ts_opts s)) outs' = map tss_pid ts"
    using mux_setup_streams_pids [OF assms(1,2)] by (simp_all add: ws_def)
  have d: "distinct (assigned_pids (mv_cur_pid v) ws)" "length (assigned_pids (mv_cur_pid v) ws) = length ws"
    using assigned_pids_spec [of ws "mv_cur_pid v" "mv_cur_pid v + int (length outs)" "mv_cur_pid v"] assms(3,4)
    by (auto simp: ws_def Let_def)
  have l: "length ts = length outs"
    using arg_cong [OF p(1), of length] d(2) by (simp add: ws_def)
  have k: "ws ! i \<noteq> 0 \<Longrightarrow> i < length ws \<Longrightarrow> assigned_pids cur ws ! i = ws ! i" for i ws cur
    by (induction ws arbitrary: i cur) (auto simp: nth_Cons split: nat.split)
  have "tss_pid t = tso_pid (os_ts_opts s)" if st: "(s, t) \<in> set (zip outs ts)" "tso_pid (os_ts_opts s) \<noteq> 0" for s t
  proof -
    obtain i where i: "i < length outs" "s = outs ! i" "t = ts ! i"
      using st(1) l by (auto simp: set_zip)
    then have "map tss_pid ts ! i = ws ! i"
      unfolding p(1) using k [of ws i "mv_cur_pid v"] st(2) i by (simp add: ws_def)
    then show ?thesis
      using i l by (simp add: ws_def)
  qed
  then show ?thesis
    using p d(1) l by auto
qed

definition example_vars :: mux_vars where
  "example_vars = \<lparr>mv_cur_pid = MIN_PID + 1, mv_width = 0, mv_height = 0, mv_video_pid = 0\<rparr>"

theorem mux_pids_distinct_witness:
  "\<exists>outs' ts v'. mux_setup_streams False example_state example_vars [example_output 1 AUDIO_MP2, example_output 0 AUDIO_AC_3] = Some (outs', ts, v')
     \<and> distinct (map tss_pid ts) \<and> length ts = 2"
proof -
  obtain outs' ts v' where s: "mux_setup_streams False example_state example_vars
      [example_output 1 AUDIO_MP2, example_output 0 AUDIO_AC_3] = Some (outs', ts, v')"
    by (simp add: mux_setup_stream_def get_input_stream_def at_def example_defs mux_opts_zero_def mux_audio_frame_size_def
        mux_stream_format_def is_mux_video_def trunc_div_def mux_choose_pid_def Let_def)
  have "distinct (map tss_pid ts) \<and> length ts = length [example_output 1 AUDIO_MP2, example_output 0 AUDIO_AC_3]
      \<and> map (\<lambda>s. tso_pid (os_ts_opts s)) outs' = map tss_pid ts
      \<and> (\<forall>(s, t) \<in> set (zip [example_output 1 AUDIO_MP2, example_output 0 AUDIO_AC_3] ts).
           tso_pid (os_ts_opts s) \<noteq> 0 \<longrightarrow> tss_pid t = tso_pid (os_ts_opts s))"
    by (rule mux_pids_distinct [OF s]) (simp_all add: example_defs mux_opts_zero_def example_vars_def MIN_PID_def)
  then show ?thesis
    using s by simp
qed

text \<open>A PID of the options in that range is assigned twice.\<close>

lemma automatic_pid_collides: "assigned_pids (MIN_PID + 1) [0, 0x31] = [0x31, 0x31]"
  by (simp add: MIN_PID_def)

end
