(* ===== verification/Obe_Smoothing.thy ===== *)
theory Obe_Smoothing
  imports Obe_Core
begin

text \<open>
  The two smoothing threads, encoders/encoder_smoothing.c and mux/smoothing.c: the first lets coded
  frames through to the multiplexer at the pace of the input clock once it holds a decoder buffer of
  them, the second cuts the transport stream into the packet groups the outputs send and spaces them by
  their PCRs.  The byte fifos of libavutil are an argument with the laws their documentation states.
\<close>

unbundle bit_operations_syntax

section \<open>Smoothing behind the encoders\<close>

text \<open>
  The static variables of the thread, its queue, the frame it works on, and the mux queue it feeds.
  The queue is not locked while the thread waits for a clock tick, so a turn is two steps: \<open>es_look\<close>
  under the mutex, and \<open>es_send\<close> once the wait is over.  The two queue operations of \<open>es_send\<close> are one
  step: between them other threads add at the ends of the queues, and none removes from the thread's own.
\<close>

(* src: encoders/encoder_smoothing.c 26-30 encoder_start_smoothing *)
record enc_smoothing_state =
  es_last_clock :: int
  es_start_pts :: int
  es_start_dts :: int
  es_num_frames :: int
  es_buffer_frames :: int
  es_buffer_complete :: bool
  es_queue :: "coded_frame obe_queue"
  es_frame :: "coded_frame option"
  es_mux_queue :: "coded_frame obe_queue"
  es_last_exit_time :: int

definition es_init :: "int \<Rightarrow> enc_smoothing_state" where
  "es_init buffer_frames = \<lparr>es_last_clock = -1, es_start_pts = -1, es_start_dts = -1, es_num_frames = 0,
     es_buffer_frames = buffer_frames, es_buffer_complete = False, es_queue = zeroed_queue, es_frame = None,
     es_mux_queue = zeroed_queue, es_last_exit_time = 0\<rparr>"

text \<open>Waiting for a frame and for the buffer to fill leave no frame to send.\<close>

(* src: encoders/encoder_smoothing.c 94-121 encoder_start_smoothing *)
definition es_look :: "enc_smoothing_state \<Rightarrow> enc_smoothing_state option" where
  "es_look s =
     (if q_size (es_queue s) = es_num_frames s then Some s
      else
        let s = s\<lparr>es_num_frames := q_size (es_queue s)\<rparr>
        in if \<not> es_buffer_complete s \<and> es_num_frames s < es_buffer_frames s then Some s
           else do {
             frame \<leftarrow> at (q_buf (es_queue s)) 0;
             Some (s\<lparr>es_frame := Some frame, es_buffer_complete := True,
                     es_start_dts := (if es_buffer_complete s then es_start_dts s else -1)\<rparr>) })"

text \<open>
  The frame is sent at once when it is late, otherwise with the next tick of the input clock: \<open>clock\<close>
  is its value when the thread looks, \<open>tick\<close> the next one and \<open>now\<close> the time afterwards.
\<close>

(* src: encoders/encoder_smoothing.c 128-151 encoder_start_smoothing *)
definition es_waits :: "int \<Rightarrow> enc_smoothing_state \<Rightarrow> coded_frame \<Rightarrow> bool" where
  "es_waits clock s frame \<longleftrightarrow>
     es_start_dts s = -1 \<or> cf_real_dts frame - es_start_dts s > clock - es_start_pts s"

(* src: encoders/encoder_smoothing.c 132-165 encoder_start_smoothing *)
definition es_send :: "int \<Rightarrow> int \<Rightarrow> int \<Rightarrow> bool \<Rightarrow> bool \<Rightarrow> enc_smoothing_state \<Rightarrow> enc_smoothing_state option" where
  "es_send clock tick now ok1 ok2 s =
     do { frame \<leftarrow> es_frame s;
          let s = s\<lparr>es_last_clock := clock\<rparr>;
          let s = (if es_start_dts s = -1 then s\<lparr>es_start_dts := cf_real_dts frame, es_start_pts := tick\<rparr> else s);
          (_, mq) \<leftarrow> add_to_queue ok1 frame (es_mux_queue s);
          (_, q) \<leftarrow> remove_from_queue ok2 (es_queue s);
          Some (s\<lparr>es_mux_queue := mq, es_queue := q, es_num_frames := 0, es_frame := None, es_last_exit_time := now\<rparr>) }"

text \<open>
  The thread among the others: the encoder puts frames, and takes the completeness back when its source
  has dropped frames; the multiplexer is not part of the system, so its queue keeps what was sent.
\<close>

record es_sys =
  sys_es :: enc_smoothing_state
  sys_puts :: "coded_frame list"

inductive es_step :: "es_sys \<Rightarrow> es_sys \<Rightarrow> bool" where
  es_put: "add_to_queue True x (es_queue (sys_es s)) = Some (0, q) \<Longrightarrow>
    es_step s (s\<lparr>sys_es := (sys_es s)\<lparr>es_queue := q\<rparr>, sys_puts := sys_puts s @ [x]\<rparr>)"
| es_reset: "es_step s (s\<lparr>sys_es := (sys_es s)\<lparr>es_buffer_complete := False\<rparr>\<rparr>)"
| es_looks: "es_frame (sys_es s) = None \<Longrightarrow> es_look (sys_es s) = Some e \<Longrightarrow> es_step s (s\<lparr>sys_es := e\<rparr>)"
| es_sends: "es_send clock tick now True True (sys_es s) = Some e \<Longrightarrow> es_step s (s\<lparr>sys_es := e\<rparr>)"

inductive es_reach :: "int \<Rightarrow> es_sys \<Rightarrow> bool" for n where
  es_start: "es_reach n \<lparr>sys_es = es_init n, sys_puts = []\<rparr>"
| es_next: "es_reach n s \<Longrightarrow> es_step s s' \<Longrightarrow> es_reach n s'"

definition es_inv :: "int \<Rightarrow> es_sys \<Rightarrow> bool" where
  "es_inv n s \<longleftrightarrow> (let e = sys_es s in
     queue_ok (es_queue e) \<and> \<not> q_locked (es_queue e) \<and> queue_ok (es_mux_queue e) \<and> \<not> q_locked (es_mux_queue e)
     \<and> sys_puts s = queue_list (es_mux_queue e) @ queue_list (es_queue e) \<and> es_buffer_frames e = n
     \<and> (\<forall>f. es_frame e = Some f \<longrightarrow> (\<exists>fs. queue_list (es_queue e) = f # fs))
     \<and> 0 \<le> es_num_frames e \<and> es_num_frames e \<le> q_size (es_queue e)
     \<and> (es_buffer_complete e \<or> es_frame e \<noteq> None \<or> queue_list (es_mux_queue e) \<noteq> [] \<longrightarrow> n \<le> int (length (sys_puts s))))"

lemma zeroed_queue_size [simp]: "q_size zeroed_queue = 0"
  by (simp add: zeroed_queue_def)

lemma es_look_cases:
  assumes "es_look e = Some e'" "queue_ok (es_queue e)" "0 \<le> es_num_frames e" "es_num_frames e \<le> q_size (es_queue e)"
  shows "e' = e \<or> e' = e\<lparr>es_num_frames := q_size (es_queue e)\<rparr>
    \<or> (\<exists>f fs d. queue_list (es_queue e) = f # fs \<and> (es_buffer_complete e \<or> es_buffer_frames e \<le> q_size (es_queue e))
         \<and> e' = e\<lparr>es_num_frames := q_size (es_queue e), es_frame := Some f, es_buffer_complete := True, es_start_dts := d\<rparr>)"
proof (cases "q_size (es_queue e) = es_num_frames e \<or> \<not> es_buffer_complete e \<and> q_size (es_queue e) < es_buffer_frames e")
  case True
  then show ?thesis
    using assms(1) by (auto simp: es_look_def Let_def split: if_splits)
next
  case False
  then have "0 < q_size (es_queue e)"
    using assms(3,4) by linarith
  then obtain k where k: "nat (q_size (es_queue e)) = Suc k"
    by (metis gr0_implies_Suc zero_less_nat_eq)
  obtain f fs where l: "queue_list (es_queue e) = f # fs" "q_buf (es_queue e) ! 0 = f" "0 < length (q_buf (es_queue e))"
    using assms(2) by (cases "q_buf (es_queue e)") (auto simp: queue_list_def queue_ok_def k)
  then have "e' = e\<lparr>es_num_frames := q_size (es_queue e), es_frame := Some f, es_buffer_complete := True,
      es_start_dts := (if es_buffer_complete e then es_start_dts e else -1)\<rparr>"
    using False assms(1) l(2,3) by (cases "es_buffer_complete e") (auto simp: es_look_def Let_def)
  moreover have "es_buffer_complete e \<or> es_buffer_frames e \<le> q_size (es_queue e)"
    using False by linarith
  ultimately show ?thesis
    using l(1) by blast
qed

lemma es_send_spec:
  assumes "es_send clock tick now True True e = Some e'" "queue_ok (es_queue e)" "\<not> q_locked (es_queue e)"
    and "queue_ok (es_mux_queue e)" "\<not> q_locked (es_mux_queue e)" "\<forall>f. es_frame e = Some f \<longrightarrow> (\<exists>fs. queue_list (es_queue e) = f # fs)"
  shows "\<exists>f fs. es_frame e = Some f \<and> queue_list (es_queue e) = f # fs \<and> queue_list (es_queue e') = fs
    \<and> queue_list (es_mux_queue e') = queue_list (es_mux_queue e) @ [f] \<and> queue_ok (es_queue e') \<and> \<not> q_locked (es_queue e')
    \<and> queue_ok (es_mux_queue e') \<and> \<not> q_locked (es_mux_queue e') \<and> es_frame e' = None \<and> es_num_frames e' = 0
    \<and> es_buffer_frames e' = es_buffer_frames e \<and> es_buffer_complete e' = es_buffer_complete e"
proof -
  obtain f where f: "es_frame e = Some f"
    using assms(1) by (auto simp: es_send_def bind_eq_Some_conv)
  then obtain fs where fs: "queue_list (es_queue e) = f # fs"
    using assms(6) by blast
  obtain mq where mq: "add_to_queue True f (es_mux_queue e) = Some (0, mq)" "queue_ok mq" "\<not> q_locked mq"
    "queue_list mq = queue_list (es_mux_queue e) @ [f]"
    using add_ok [OF assms(4,5)] by blast
  obtain q where q: "remove_from_queue True (es_queue e) = Some (0, q)" "queue_ok q" "queue_list q = fs" "\<not> q_locked q"
    using remove_ok [OF assms(2) fs assms(3)] by blast
  show ?thesis
    using assms(1) f fs mq q by (cases "es_start_dts e = -1") (auto simp: es_send_def Let_def)
qed

lemma es_inv_step:
  assumes "es_step s s'" "es_inv n s"
  shows "es_inv n s'"
proof -
  define e where "e = sys_es s"
  have i: "queue_ok (es_queue e)" "\<not> q_locked (es_queue e)" "queue_ok (es_mux_queue e)" "\<not> q_locked (es_mux_queue e)"
    "sys_puts s = queue_list (es_mux_queue e) @ queue_list (es_queue e)" "es_buffer_frames e = n"
    "\<forall>f. es_frame e = Some f \<longrightarrow> (\<exists>fs. queue_list (es_queue e) = f # fs)" "0 \<le> es_num_frames e"
    "es_num_frames e \<le> q_size (es_queue e)"
    "es_buffer_complete e \<or> es_frame e \<noteq> None \<or> queue_list (es_mux_queue e) \<noteq> [] \<longrightarrow> n \<le> int (length (sys_puts s))"
    using assms(2) unfolding es_inv_def Let_def e_def by blast+
  have sz: "q_size (es_queue e) = int (length (queue_list (es_queue e)))"
    using i(1) by (simp add: queue_ok_def)
  from assms(1) show ?thesis
  proof (cases rule: es_step.cases)
    case (es_put x q)
    have q: "queue_ok q" "\<not> q_locked q" "queue_list q = queue_list (es_queue e) @ [x]"
      using add_any [OF i(1), of True x 0 q] es_put(2) by (simp_all add: e_def)
    have "q_size q = int (length (queue_list q))"
      using q(1) by (simp add: queue_ok_def)
    then show ?thesis
      using i q sz unfolding es_put(1) es_inv_def by (auto simp: Let_def e_def [symmetric] simp del: length_queue_list)
  next
    case es_reset
    then show ?thesis
      using i by (auto simp: es_inv_def Let_def e_def [symmetric] simp del: length_queue_list)
  next
    case (es_looks e')
    have "e' = e \<or> e' = e\<lparr>es_num_frames := q_size (es_queue e)\<rparr>
      \<or> (\<exists>f fs d. queue_list (es_queue e) = f # fs \<and> (es_buffer_complete e \<or> es_buffer_frames e \<le> q_size (es_queue e))
         \<and> e' = e\<lparr>es_num_frames := q_size (es_queue e), es_frame := Some f, es_buffer_complete := True, es_start_dts := d\<rparr>)"
      using es_look_cases es_looks(3) i(1,8,9) by (simp add: e_def)
    then show ?thesis
      using i sz unfolding es_looks(1) es_inv_def by (elim disjE exE conjE) (auto simp: Let_def simp del: length_queue_list)
  next
    case (es_sends clock tick now e')
    obtain f fs where s: "es_frame e = Some f" "queue_list (es_queue e) = f # fs" "queue_list (es_queue e') = fs"
      "queue_list (es_mux_queue e') = queue_list (es_mux_queue e) @ [f]" "queue_ok (es_queue e')" "\<not> q_locked (es_queue e')"
      "queue_ok (es_mux_queue e')" "\<not> q_locked (es_mux_queue e')" "es_frame e' = None" "es_num_frames e' = 0"
      "es_buffer_frames e' = es_buffer_frames e" "es_buffer_complete e' = es_buffer_complete e"
      using es_send_spec [of clock tick now e e'] es_sends(2) i(1-4,7) by (auto simp: e_def)
    have "0 \<le> q_size (es_queue e')"
      using s(5) by (simp add: queue_ok_def)
    then show ?thesis
      using i s unfolding es_sends(1) es_inv_def by (auto simp: Let_def simp del: length_queue_list)
  qed
qed

text \<open>C23 Whatever the order of the threads, the encoder smoothing thread passes the frames to the mux queue
  in the order in which the encoder put them, without losing or repeating one, and passes none before
  as many frames have been put as the buffer is to hold.\<close>

theorem enc_smoothing_keeps_order:
  assumes "es_reach n s"
  shows "sys_puts s = queue_list (es_mux_queue (sys_es s)) @ queue_list (es_queue (sys_es s))
    \<and> (queue_list (es_mux_queue (sys_es s)) \<noteq> [] \<longrightarrow> n \<le> int (length (sys_puts s)))"
proof -
  from assms have "es_inv n s"
  proof (induction rule: es_reach.induct)
    case es_start
    show ?case
      by (simp add: es_inv_def es_init_def)
  next
    case (es_next s s')
    then show ?case
      using es_inv_step by blast
  qed
  then show ?thesis
    by (auto simp: es_inv_def Let_def simp del: length_queue_list)
qed

text \<open>With a buffer of one frame, the frame passes with the next tick.\<close>

theorem enc_smoothing_keeps_order_witness:
  "\<exists>s. es_reach 1 s \<and> queue_list (es_mux_queue (sys_es s)) = [coded_frame_zero] \<and> sys_puts s = [coded_frame_zero]
     \<and> 1 \<le> int (length (sys_puts s))"
proof -
  define q1 where "q1 = \<lparr>q_name = [], q_buf = [coded_frame_zero], q_size = 1, q_locked = False, q_in = 1, q_out = 0\<rparr>"
  define s1 where "s1 = \<lparr>sys_es = (es_init 1)\<lparr>es_queue := q1\<rparr>, sys_puts = [coded_frame_zero]\<rparr>"
  define s2 where "s2 = s1\<lparr>sys_es := (sys_es s1)\<lparr>es_num_frames := 1, es_frame := Some coded_frame_zero,
      es_buffer_complete := True, es_start_dts := -1\<rparr>\<rparr>"
  have q: "add_to_queue True coded_frame_zero zeroed_queue = Some (0, q1)"
    by (simp add: add_to_queue_def realloc_cells_def zeroed_queue_def q1_def)
  have r1: "es_reach 1 s1"
    using es_next [OF es_start es_put, of coded_frame_zero 1 q1] q by (simp add: s1_def es_init_def)
  have "es_look (sys_es s1) = Some (sys_es s2)"
    by (simp add: es_look_def s2_def s1_def es_init_def q1_def)
  moreover have "es_frame (sys_es s1) = None"
    by (simp add: s1_def es_init_def)
  ultimately have r2: "es_reach 1 s2"
    using es_next [OF r1 es_looks] by (simp add: s2_def)
  have "\<exists>e. es_send 0 3 4 True True (sys_es s2) = Some e \<and> queue_list (es_mux_queue e) = [coded_frame_zero]"
    by (simp add: es_send_def s2_def s1_def es_init_def q1_def Let_def add_to_queue_def remove_from_queue_def
        remove_from_queue_without_lock_def realloc_cells_def zeroed_queue_def queue_list_def coded_frame_zero_def)
  then obtain e where e: "es_send 0 3 4 True True (sys_es s2) = Some e" "queue_list (es_mux_queue e) = [coded_frame_zero]"
    by blast
  have r3: "es_reach 1 (s2\<lparr>sys_es := e\<rparr>)"
    using es_next [OF r2 es_sends [OF e(1)]] .
  then show ?thesis
    using enc_smoothing_keeps_order [OF r3] e(2)
    by (intro exI [of _ "s2\<lparr>sys_es := e\<rparr>"]) (simp add: s2_def s1_def)
qed

section \<open>Smoothing behind the multiplexer\<close>

text \<open>
  libavutil's byte fifos are an argument: size, write, read and reset.  \<open>av_fifo_laws\<close> is what their
  documentation promises for the contents.
\<close>

record 'f av_fifo_ops =
  ff_size :: "'f \<Rightarrow> nat"
  ff_write :: "bytes \<Rightarrow> 'f \<Rightarrow> 'f"
  ff_read :: "nat \<Rightarrow> 'f \<Rightarrow> bytes \<times> 'f"
  ff_reset :: "'f \<Rightarrow> 'f"

definition av_fifo_laws :: "'f av_fifo_ops \<Rightarrow> ('f \<Rightarrow> bytes) \<Rightarrow> bool" where
  "av_fifo_laws ops contents \<longleftrightarrow>
     (\<forall>f. ff_size ops f = length (contents f) \<and> contents (ff_reset ops f) = []
        \<and> (\<forall>bs. contents (ff_write ops bs f) = contents f @ bs)
        \<and> (\<forall>n \<le> length (contents f). fst (ff_read ops n f) = take n (contents f)
             \<and> contents (snd (ff_read ops n f)) = drop n (contents f)))"

text \<open>A PCR in memory: 64 bits, little-endian.\<close>

definition le64 :: "int \<Rightarrow> bytes" where
  "le64 v = map (\<lambda>i. word_of_int (drop_bit (8 * i) v)) [0..<8]"

definition rd64 :: "bytes \<Rightarrow> int" where
  "rd64 bs = sint (word_of_int (horner_sum uint 256 bs) :: 64 word)"

text \<open>
  The thread's variables, its queue, and the queues of the outputs; \<open>ms_drop\<close> is the flag other threads
  set when the signal is lost.
\<close>

(* src: mux/smoothing.c 43-48 mux_start_smoothing *)
record 'f mux_smoothing_state =
  ms_num_muxed_data :: int
  ms_buffer_complete :: bool
  ms_start_clock :: int
  ms_start_pcr :: int
  ms_cur_pcr :: int
  ms_fifo_data :: 'f
  ms_fifo_pcr :: 'f
  ms_queue :: "muxed_data obe_queue"
  ms_drop :: bool
  ms_outputs :: "bytes obe_queue list"

text \<open>The size of a packet group: \<open>sm_payload\<close> bytes with the PCRs of \<open>sm_packets\<close> packets.\<close>

record mux_smoothing_params =
  sm_payload :: nat
  sm_packets :: nat
  sm_vbv_size :: int

(* src: mux/smoothing.c 155-163 mux_start_smoothing *)
fun trash_queue :: "nat \<Rightarrow> muxed_data obe_queue \<Rightarrow> muxed_data obe_queue" where
  "trash_queue 0 q = q"
| "trash_queue (Suc n) q = trash_queue n (snd (remove_from_queue_without_lock True q))"

text \<open>After a loss of the signal everything buffered is thrown away.\<close>

(* src: mux/smoothing.c 131-167 mux_start_smoothing *)
definition ms_refill :: "'f av_fifo_ops \<Rightarrow> 'f mux_smoothing_state \<Rightarrow> 'f mux_smoothing_state" where
  "ms_refill ops s = s\<lparr>ms_drop := False, ms_fifo_data := ff_reset ops (ms_fifo_data s),
     ms_fifo_pcr := ff_reset ops (ms_fifo_pcr s), ms_buffer_complete := False, ms_start_clock := -1,
     ms_queue := trash_queue (nat (ms_num_muxed_data s)) (ms_queue s), ms_num_muxed_data := 0\<rparr>"

text \<open>The buffer is complete once the queue spans the time of the decoder's buffer.\<close>

(* src: mux/smoothing.c 174-192 mux_start_smoothing *)
definition ms_fill :: "mux_smoothing_params \<Rightarrow> 'f mux_smoothing_state \<Rightarrow> ('f mux_smoothing_state) option" where
  "ms_fill p s =
     (if ms_buffer_complete s then Some s
      else do {
        start_data \<leftarrow> at (q_buf (ms_queue s)) 0;
        end_data \<leftarrow> at (q_buf (ms_queue s)) (nat (ms_num_muxed_data s - 1));
        start_pcr \<leftarrow> at (md_pcr_list start_data) 0;
        end_pcr \<leftarrow> (if length (md_data end_data) < 188 then None
                   else at (md_pcr_list end_data) (length (md_data end_data) div 188 - 1));
        let s = s\<lparr>ms_start_pcr := start_pcr\<rparr>;
        if end_pcr - start_pcr \<ge> sm_vbv_size p
        then Some (s\<lparr>ms_buffer_complete := True, ms_start_clock := -1\<rparr>) else Some s })"

text \<open>The queued data and the PCRs of its packets go to the fifos; the queue is unlocked meanwhile.\<close>

(* src: mux/smoothing.c 225-254 mux_start_smoothing *)
fun ms_copy :: "'f av_fifo_ops \<Rightarrow> muxed_data list \<Rightarrow> 'f mux_smoothing_state \<Rightarrow> ('f mux_smoothing_state) option" where
  "ms_copy ops [] s = Some s"
| "ms_copy ops (md # mds) s =
     do { pcrs \<leftarrow> mem_get 0 (length (md_data md) * 8 div 188) (concat (map le64 (md_pcr_list md)));
          (_, q) \<leftarrow> remove_from_queue True (ms_queue s);
          ms_copy ops mds (s\<lparr>ms_fifo_data := ff_write ops (md_data md) (ms_fifo_data s),
                            ms_fifo_pcr := ff_write ops pcrs (ms_fifo_pcr s), ms_queue := q\<rparr>) }"

fun add_to_all :: "'a \<Rightarrow> 'a obe_queue list \<Rightarrow> 'a obe_queue list option" where
  "add_to_all x [] = Some []"
| "add_to_all x (q # qs) = do { (_, q) \<leftarrow> add_to_queue True x q; qs \<leftarrow> add_to_all x qs; Some (q # qs) }"

text \<open>
  Groups of packets are sent while the fifo has enough: each after a sleep until its PCR, counted from
  the first.  \<open>dropped i\<close> tells whether another thread has raised the flag by turn \<open>i\<close>, \<open>clock\<close> is the
  input clock at that turn.  The result lists the sleeps and the groups; allocations succeed.  The fuel
  runs out only if a group is empty.
\<close>

(* src: mux/smoothing.c 262-322 mux_start_smoothing *)
fun ms_drain ::
    "'f av_fifo_ops \<Rightarrow> mux_smoothing_params \<Rightarrow> (nat \<Rightarrow> bool) \<Rightarrow> (nat \<Rightarrow> int) \<Rightarrow> nat \<Rightarrow> nat \<Rightarrow> 'f mux_smoothing_state
     \<Rightarrow> ('f mux_smoothing_state \<times> (int option \<times> bytes) list) option" where
  "ms_drain ops p dropped clock 0 i s = None"
| "ms_drain ops p dropped clock (Suc fuel) i s =
     (if ms_drop s \<or> dropped i then Some (s\<lparr>ms_drop := True\<rparr>, [])
      else if ff_size ops (ms_fifo_data s) < sm_payload p then Some (s, [])
      else if 10000000 < ff_size ops (ms_fifo_data s) then Some (s\<lparr>ms_drop := True\<rparr>, [])
      else if ff_size ops (ms_fifo_pcr s) < sm_packets p * 8 then None
      else
        let (pcrs, fp) = ff_read ops (sm_packets p * 8) (ms_fifo_pcr s);
            (data, fd) = ff_read ops (sm_payload p) (ms_fifo_data s);
            buf = pcrs @ data;
            cur_pcr = rd64 (take 8 buf);
            sleep = (if ms_start_clock s \<noteq> -1 then Some (cur_pcr - ms_start_pcr s + ms_start_clock s) else None);
            s = s\<lparr>ms_fifo_pcr := fp, ms_fifo_data := fd, ms_cur_pcr := cur_pcr\<rparr>;
            s = (if ms_start_clock s = -1 then s\<lparr>ms_start_clock := clock i, ms_start_pcr := cur_pcr\<rparr> else s)
        in do { outs \<leftarrow> add_to_all buf (ms_outputs s);
                (s, rest) \<leftarrow> ms_drain ops p dropped clock fuel (i + 1) (s\<lparr>ms_outputs := outs\<rparr>);
                Some (s, (sleep, buf) # rest) })"

text \<open>One turn of the loop; nothing happens while the queue has not changed.\<close>

(* src: mux/smoothing.c 99-323 mux_start_smoothing *)
definition ms_turn ::
    "'f av_fifo_ops \<Rightarrow> mux_smoothing_params \<Rightarrow> (nat \<Rightarrow> bool) \<Rightarrow> (nat \<Rightarrow> int) \<Rightarrow> 'f mux_smoothing_state
     \<Rightarrow> ('f mux_smoothing_state \<times> (int option \<times> bytes) list) option" where
  "ms_turn ops p dropped clock s =
     (if q_size (ms_queue s) = ms_num_muxed_data s then Some (s, [])
      else
        let s = s\<lparr>ms_num_muxed_data := q_size (ms_queue s)\<rparr>
        in if ms_drop s then Some (ms_refill ops s, [])
           else do {
             s \<leftarrow> ms_fill p s;
             if \<not> ms_buffer_complete s then Some (s, [])
             else do {
               s \<leftarrow> ms_copy ops (take (nat (ms_num_muxed_data s)) (q_buf (ms_queue s))) s;
               ms_drain ops p dropped clock (Suc (ff_size ops (ms_fifo_data s))) 0 (s\<lparr>ms_num_muxed_data := 0\<rparr>) } })"


text \<open>What the thread sends, put apart: the full chunks of a list, and a group of packets with their PCRs.\<close>

fun full_chunks :: "nat \<Rightarrow> 'a list \<Rightarrow> 'a list list" where
  "full_chunks 0 xs = []"
| "full_chunks (Suc k) xs = (if length xs < Suc k then [] else take (Suc k) xs # full_chunks (Suc k) (drop (Suc k) xs))"

definition pcr_bytes :: "int list \<Rightarrow> bytes" where
  "pcr_bytes ps = concat (map le64 ps)"

definition ms_groups :: "mux_smoothing_params \<Rightarrow> int list \<Rightarrow> bytes \<Rightarrow> (int list \<times> bytes) list" where
  "ms_groups p ps d = zip (full_chunks (sm_packets p) ps) (full_chunks (sm_payload p) d)"

definition sleeps_until :: "int \<Rightarrow> int \<Rightarrow> bool \<Rightarrow> (int list \<times> bytes) list \<Rightarrow> int option list" where
  "sleeps_until pcr0 clock0 first gs = (let ts = map (\<lambda>g. Some (hd (fst g) - pcr0 + clock0)) gs
     in if first \<and> ts \<noteq> [] then None # tl ts else ts)"

definition md_ok :: "muxed_data \<Rightarrow> bool" where
  "md_ok md \<longleftrightarrow> length (md_data md) = 188 * length (md_pcr_list md) \<and> md_pcr_list md \<noteq> []
     \<and> (\<forall>v \<in> set (md_pcr_list md). -(2 ^ 63) \<le> v \<and> v < 2 ^ 63)"

definition ms_ok :: "('f \<Rightarrow> bytes) \<Rightarrow> int list \<Rightarrow> 'f mux_smoothing_state \<Rightarrow> bool" where
  "ms_ok c ps s \<longleftrightarrow> c (ms_fifo_pcr s) = pcr_bytes ps \<and> length (c (ms_fifo_data s)) = 188 * length ps
     \<and> (\<forall>v \<in> set ps. -(2 ^ 63) \<le> v \<and> v < 2 ^ 63)
     \<and> queue_ok (ms_queue s) \<and> \<not> q_locked (ms_queue s) \<and> (\<forall>md \<in> set (queue_list (ms_queue s)). md_ok md)
     \<and> (\<forall>q \<in> set (ms_outputs s). queue_ok q \<and> \<not> q_locked q)"

lemma length_le64 [simp]: "length (le64 v) = 8"
  by (simp add: le64_def)

lemma pcr_bytes_Nil [simp]: "pcr_bytes [] = []"
  by (simp add: pcr_bytes_def)

lemma pcr_bytes_Cons [simp]: "pcr_bytes (v # vs) = le64 v @ pcr_bytes vs"
  by (simp add: pcr_bytes_def)

lemma pcr_bytes_append [simp]: "pcr_bytes (xs @ ys) = pcr_bytes xs @ pcr_bytes ys"
  by (simp add: pcr_bytes_def)

lemma length_pcr_bytes [simp]: "length (pcr_bytes ps) = 8 * length ps"
  by (induction ps) simp_all

lemma take_pcr_bytes: "take (8 * k) (pcr_bytes ps) = pcr_bytes (take k ps)"
proof (induction ps arbitrary: k)
  case (Cons v ps)
  then show ?case
    by (cases k) simp_all
qed simp

lemma drop_pcr_bytes: "drop (8 * k) (pcr_bytes ps) = pcr_bytes (drop k ps)"
proof (induction ps arbitrary: k)
  case (Cons v ps)
  then show ?case
    by (cases k) simp_all
qed simp

lemma horner_le:
  "horner_sum (uint :: u8 \<Rightarrow> int) 256 (map (\<lambda>i. word_of_int (drop_bit (8 * i) v)) [0..<n]) = take_bit (8 * n) v"
proof (induction n)
  case (Suc n)
  have "horner_sum (uint :: u8 \<Rightarrow> int) 256 (map (\<lambda>i. word_of_int (drop_bit (8 * i) v)) [0..<Suc n])
      = take_bit (8 * n) v + 2 ^ (8 * n) * take_bit 8 (drop_bit (8 * n) v)"
    using Suc by (simp add: horner_sum_append uint_word_of_int take_bit_eq_mod power_mult)
  also have "\<dots> = take_bit (8 * Suc n) v"
    using zmod_zmult2_eq [of "2 ^ 8 :: int" v "2 ^ (8 * n)"]
    by (simp add: take_bit_eq_mod drop_bit_eq_div power_add mult.commute)
  finally show ?case .
qed simp

lemma rd64_le64:
  assumes "-(2 ^ 63) \<le> v" "v < 2 ^ 63"
  shows "rd64 (le64 v) = v"
proof -
  have "rd64 (le64 v) = sint (word_of_int (take_bit 64 v) :: 64 word)"
    using horner_le [of v 8] by (simp add: rd64_def le64_def)
  also have "\<dots> = signed_take_bit 63 v"
    by (simp add: sint_sbintrunc' signed_take_bit_take_bit)
  also have "\<dots> = v"
    using assms by (simp add: signed_take_bit_int_eq_self)
  finally show ?thesis .
qed


text \<open>One lemma for the fifos, one for the queues of the outputs, one for the copy.\<close>

lemma av_fifo_read:
  assumes "av_fifo_laws ops c" "n \<le> length (c f)"
  obtains f' where "ff_read ops n f = (take n (c f), f')" "c f' = drop n (c f)"
proof -
  have "fst (ff_read ops n f) = take n (c f)" "c (snd (ff_read ops n f)) = drop n (c f)"
    using assms unfolding av_fifo_laws_def by blast+
  then show thesis
    by (intro that [of "snd (ff_read ops n f)"]) (simp_all add: prod_eq_iff)
qed

lemma av_fifo_write: "av_fifo_laws ops c \<Longrightarrow> c (ff_write ops bs f) = c f @ bs"
  by (simp add: av_fifo_laws_def)

lemma av_fifo_size: "av_fifo_laws ops c \<Longrightarrow> ff_size ops f = length (c f)"
  by (simp add: av_fifo_laws_def)

lemma add_to_all_ok:
  "\<forall>q \<in> set qs. queue_ok q \<and> \<not> q_locked q \<Longrightarrow>
    \<exists>qs'. add_to_all x qs = Some qs' \<and> (\<forall>q \<in> set qs'. queue_ok q \<and> \<not> q_locked q)
      \<and> map queue_list qs' = map (\<lambda>q. queue_list q @ [x]) qs"
proof (induction qs)
  case (Cons q qs)
  have q: "queue_ok q" "\<not> q_locked q" "\<forall>q \<in> set qs. queue_ok q \<and> \<not> q_locked q"
    using Cons.prems by simp_all
  obtain qs' where qs: "add_to_all x qs = Some qs'" "\<forall>q \<in> set qs'. queue_ok q \<and> \<not> q_locked q"
      "map queue_list qs' = map (\<lambda>q. queue_list q @ [x]) qs"
    using Cons.IH [OF q(3)] by blast
  obtain q' where q': "add_to_queue True x q = Some (0, q')" "queue_ok q'" "\<not> q_locked q'" "queue_list q' = queue_list q @ [x]"
    by (rule add_ok [OF q(1,2)])
  show ?case
    by (rule exI [of _ "q' # qs'"]) (use q' qs in simp)
qed simp

lemma ms_copy_spec:
  assumes "av_fifo_laws ops c"
  shows "ms_ok c ps s \<Longrightarrow> queue_list (ms_queue s) = mds \<Longrightarrow>
    \<exists>fd fp q. ms_copy ops mds s = Some (s\<lparr>ms_fifo_data := fd, ms_fifo_pcr := fp, ms_queue := q\<rparr>)
      \<and> ms_ok c (ps @ concat (map md_pcr_list mds)) (s\<lparr>ms_fifo_data := fd, ms_fifo_pcr := fp, ms_queue := q\<rparr>)
      \<and> c fd = c (ms_fifo_data s) @ concat (map md_data mds) \<and> queue_list q = []"
proof (induction mds arbitrary: ps s)
  case Nil
  have "s\<lparr>ms_fifo_data := ms_fifo_data s, ms_fifo_pcr := ms_fifo_pcr s, ms_queue := ms_queue s\<rparr> = s"
    by simp
  then show ?case
    using Nil by (metis append_Nil2 concat.simps(1) list.simps(8) ms_copy.simps(1))
next
  case (Cons md mds)
  have ok: "md_ok md" "queue_ok (ms_queue s)" "\<not> q_locked (ms_queue s)"
    using Cons.prems by (auto simp: ms_ok_def)
  have "length (md_data md) * 8 div 188 = length (pcr_bytes (md_pcr_list md))"
    using ok(1) by (simp add: md_ok_def)
  then have n: "mem_get 0 (length (md_data md) * 8 div 188) (concat (map le64 (md_pcr_list md))) = Some (pcr_bytes (md_pcr_list md))"
    using length_pcr_bytes [of "md_pcr_list md"] by (simp add: pcr_bytes_def)
  obtain q where q: "remove_from_queue True (ms_queue s) = Some (0, q)" "queue_ok q" "\<not> q_locked q" "queue_list q = mds"
    using remove_ok [OF ok(2) Cons.prems(2) ok(3)] by metis
  let ?s = "s\<lparr>ms_fifo_data := ff_write ops (md_data md) (ms_fifo_data s),
    ms_fifo_pcr := ff_write ops (pcr_bytes (md_pcr_list md)) (ms_fifo_pcr s), ms_queue := q\<rparr>"
  have k: "ms_ok c (ps @ md_pcr_list md) ?s"
    using Cons.prems q ok(1) by (auto simp: ms_ok_def md_ok_def av_fifo_write [OF assms])
  have l: "queue_list (ms_queue ?s) = mds"
    using q(4) by simp
  show ?case
    using Cons.IH [OF k l] q(1) n by (auto simp: av_fifo_write [OF assms])
qed


lemma full_chunks_step: "0 < k \<Longrightarrow> k \<le> length xs \<Longrightarrow> full_chunks k xs = take k xs # full_chunks k (drop k xs)"
  by (cases k) simp_all

lemma full_chunks_short: "length xs < k \<Longrightarrow> full_chunks k xs = []"
  by (cases k) simp_all

lemma ms_groups_eq:
  assumes "0 < sm_packets p" "sm_payload p = 188 * sm_packets p" "length d = 188 * length ps"
  shows "ms_groups p ps d = (if length d < sm_payload p then []
    else (take (sm_packets p) ps, take (sm_payload p) d) # ms_groups p (drop (sm_packets p) ps) (drop (sm_payload p) d))"
  using assms by (auto simp: ms_groups_def full_chunks_step full_chunks_short)

definition group_bytes :: "int list \<times> bytes \<Rightarrow> bytes" where
  "group_bytes g = pcr_bytes (fst g) @ snd g"

lemma sleeps_until_simps [simp]:
  "sleeps_until pcr0 clock0 first [] = []"
  "sleeps_until pcr0 clock0 first (g # gs) =
     (if first then None else Some (hd (fst g) - pcr0 + clock0)) # sleeps_until pcr0 clock0 False gs"
  by (simp_all add: sleeps_until_def)

lemma ms_drain_spec:
  assumes laws: "av_fifo_laws ops c" and p: "0 < sm_packets p" "sm_payload p = 188 * sm_packets p"
    and quiet: "\<forall>i. \<not> dropped i" "\<forall>i. 0 \<le> clock i"
  shows "ms_ok c ps s \<Longrightarrow> \<not> ms_drop s \<Longrightarrow> length (c (ms_fifo_data s)) \<le> 10000000 \<Longrightarrow>
    length (c (ms_fifo_data s)) < fuel \<Longrightarrow> gs = ms_groups p ps (c (ms_fifo_data s)) \<Longrightarrow>
    \<exists>s' r. ms_drain ops p dropped clock fuel i s = Some (s', r)
      \<and> map snd r = map group_bytes gs
      \<and> map fst r = sleeps_until (ms_start_pcr s') (ms_start_clock s') (ms_start_clock s = -1) gs
      \<and> (ms_start_clock s \<noteq> -1 \<longrightarrow> ms_start_clock s' = ms_start_clock s \<and> ms_start_pcr s' = ms_start_pcr s)
      \<and> ms_ok c (drop (sm_packets p * length gs) ps) s' \<and> ms_queue s' = ms_queue s
      \<and> c (ms_fifo_data s') = drop (sm_payload p * length gs) (c (ms_fifo_data s))
      \<and> length (c (ms_fifo_data s')) < sm_payload p
      \<and> map queue_list (ms_outputs s') = map (\<lambda>q. queue_list q @ map snd r) (ms_outputs s)
      \<and> \<not> ms_drop s' \<and> ms_num_muxed_data s' = ms_num_muxed_data s \<and> ms_buffer_complete s' = ms_buffer_complete s"
proof (induction fuel arbitrary: ps s gs i)
  case (Suc fuel)
  let ?d = "c (ms_fifo_data s)" and ?k = "sm_packets p" and ?n = "sm_payload p"
  have ok: "c (ms_fifo_pcr s) = pcr_bytes ps" "length ?d = 188 * length ps"
      "\<forall>q \<in> set (ms_outputs s). queue_ok q \<and> \<not> q_locked q" "\<forall>v \<in> set ps. -(2 ^ 63) \<le> v \<and> v < 2 ^ 63"
    using Suc.prems(1) by (simp_all add: ms_ok_def)
  show ?case
  proof (cases "length ?d < ?n")
    case True
    then have "gs = []"
      using ms_groups_eq [OF p ok(2)] Suc.prems(5) by simp
    then show ?thesis
      using True Suc.prems quiet by (simp add: av_fifo_size [OF laws])
  next
    case False
    then have len: "?n \<le> length ?d" "?k \<le> length ps" "8 * ?k \<le> length (c (ms_fifo_pcr s))"
      using p ok(1,2) by simp_all
    obtain fp where fp: "ff_read ops (8 * ?k) (ms_fifo_pcr s) = (pcr_bytes (take ?k ps), fp)" "c fp = pcr_bytes (drop ?k ps)"
      using av_fifo_read [OF laws len(3)] ok(1) by (metis take_pcr_bytes drop_pcr_bytes)
    obtain fd where fd: "ff_read ops ?n (ms_fifo_data s) = (take ?n ?d, fd)" "c fd = drop ?n ?d"
      using av_fifo_read [OF laws len(1)] .
    obtain v vs where v: "take ?k ps = v # vs" "v \<in> set ps"
      using len(2) p(1) by (cases ps; cases ?k) auto
    let ?buf = "pcr_bytes (take ?k ps) @ take ?n ?d"
    have cur: "rd64 (take 8 ?buf) = v"
      using v ok(4) rd64_le64 [of v] by simp
    let ?gs = "ms_groups p (drop ?k ps) (drop ?n ?d)"
    have gs: "gs = (take ?k ps, take ?n ?d) # ?gs"
      using ms_groups_eq [OF p ok(2)] False Suc.prems(5) by simp
    define s1 where "s1 = s\<lparr>ms_fifo_pcr := fp, ms_fifo_data := fd, ms_cur_pcr := v,
      ms_start_clock := (if ms_start_clock s = -1 then clock i else ms_start_clock s),
      ms_start_pcr := (if ms_start_clock s = -1 then v else ms_start_pcr s)\<rparr>"
    obtain outs where outs: "add_to_all ?buf (ms_outputs s) = Some outs" "\<forall>q \<in> set outs. queue_ok q \<and> \<not> q_locked q"
        "map queue_list outs = map (\<lambda>q. queue_list q @ [?buf]) (ms_outputs s)"
      using add_to_all_ok [OF ok(3)] by blast
    let ?s = "s1\<lparr>ms_outputs := outs\<rparr>"
    have ok1: "ms_ok c (drop ?k ps) ?s"
      using Suc.prems(1) outs(2) fp(2) fd(2) p len by (auto simp: ms_ok_def s1_def diff_mult_distrib2 dest: in_set_dropD)
    have pre: "\<not> ms_drop ?s" "length (c (ms_fifo_data ?s)) \<le> 10000000" "length (c (ms_fifo_data ?s)) < fuel"
        "?gs = ms_groups p (drop ?k ps) (c (ms_fifo_data ?s))"
      using Suc.prems len(1) p fd(2) by (auto simp: s1_def)
    obtain s' r where ih: "ms_drain ops p dropped clock fuel (i + 1) ?s = Some (s', r)"
        "map snd r = map group_bytes ?gs"
        "map fst r = sleeps_until (ms_start_pcr s') (ms_start_clock s') (ms_start_clock ?s = -1) ?gs"
        "ms_start_clock ?s \<noteq> -1 \<longrightarrow> ms_start_clock s' = ms_start_clock ?s \<and> ms_start_pcr s' = ms_start_pcr ?s"
        "ms_ok c (drop (?k * length ?gs) (drop ?k ps)) s'" "ms_queue s' = ms_queue ?s"
        "c (ms_fifo_data s') = drop (?n * length ?gs) (c (ms_fifo_data ?s))" "length (c (ms_fifo_data s')) < ?n"
        "map queue_list (ms_outputs s') = map (\<lambda>q. queue_list q @ map snd r) (ms_outputs ?s)"
        "\<not> ms_drop s'" "ms_num_muxed_data s' = ms_num_muxed_data ?s" "ms_buffer_complete s' = ms_buffer_complete ?s"
      using Suc.IH [OF ok1 pre] by blast
    have nz: "ms_start_clock ?s \<noteq> -1"
      using quiet(2) by (auto simp: s1_def) (metis neg_0_le_iff_le not_one_le_zero)
    define sleep where "sleep = (if ms_start_clock s \<noteq> -1 then Some (v - ms_start_pcr s + ms_start_clock s) else None)"
    have run: "ms_drain ops p dropped clock (Suc fuel) i s = Some (s', (sleep, ?buf) # r)"
      using Suc.prems quiet False len fp(1) fd(1) cur outs(1) ih(1)
      by (cases "ms_start_clock s = -1") (simp_all add: av_fifo_size [OF laws] Let_def mult.commute s1_def sleep_def)
    have o: "map queue_list (ms_outputs s') = map (\<lambda>q. queue_list q @ ?buf # map snd r) (ms_outputs s)"
    proof -
      have "map queue_list (ms_outputs s') = map (\<lambda>l. l @ map snd r) (map queue_list outs)"
        using ih(9) by simp
      then show ?thesis
        unfolding outs(3) by simp
    qed
    show ?thesis
      unfolding gs run using ih nz o v(1)
      by (auto simp: group_bytes_def s1_def sleep_def fd(2) add.commute)
  qed
qed simp


lemma ms_groups_data:
  assumes "0 < sm_packets p" "sm_payload p = 188 * sm_packets p"
  shows "length d = 188 * length ps \<Longrightarrow>
    concat (map snd (ms_groups p ps d)) @ drop (sm_payload p * length (ms_groups p ps d)) d = d"
proof (induction "length d" arbitrary: d ps rule: less_induct)
  case less
  note eq = ms_groups_eq [OF assms less.prems]
  show ?case
  proof (cases "length d < sm_payload p")
    case False
    let ?d = "drop (sm_payload p) d" and ?ps = "drop (sm_packets p) ps"
    have "concat (map snd (ms_groups p ?ps ?d)) @ drop (sm_payload p * length (ms_groups p ?ps ?d)) ?d = ?d"
      using False assms less.prems by (intro less.hyps) (auto simp: diff_mult_distrib2)
    then show ?thesis
      using False eq by (simp add: add.commute)
  qed (simp add: eq)
qed

definition ms_spans :: "mux_smoothing_params \<Rightarrow> muxed_data list \<Rightarrow> bool" where
  "ms_spans p mds \<longleftrightarrow> sm_vbv_size p \<le> last (md_pcr_list (last mds)) - hd (md_pcr_list (hd mds))"

lemma ms_fill_spec:
  assumes "ms_ok c ps s" "ms_num_muxed_data s = q_size (ms_queue s)" "0 < q_size (ms_queue s)"
    and "mds = queue_list (ms_queue s)"
  shows "ms_fill p s = Some (if ms_buffer_complete s then s
    else if ms_spans p mds
    then s\<lparr>ms_start_pcr := hd (md_pcr_list (hd mds)), ms_buffer_complete := True, ms_start_clock := -1\<rparr>
    else s\<lparr>ms_start_pcr := hd (md_pcr_list (hd mds))\<rparr>)"
proof (cases "ms_buffer_complete s")
  case False
  let ?n = "nat (q_size (ms_queue s))" and ?b = "q_buf (ms_queue s)"
  have n: "0 < ?n" "?n \<le> length ?b" "mds = take ?n ?b" "nat (q_size (ms_queue s) - 1) = ?n - 1"
    using assms by (auto simp: ms_ok_def queue_ok_def queue_list_def)
  then have ne: "mds \<noteq> []"
    by auto
  have e: "hd mds = ?b ! 0" "last mds = ?b ! (?n - 1)"
    using hd_conv_nth [OF ne] last_conv_nth [OF ne] n by simp_all
  have "md_ok (hd mds)" "md_ok (last mds)"
    using ne assms(1,4) by (simp_all add: ms_ok_def)
  then have "md_pcr_list (?b ! 0) \<noteq> []" "md_pcr_list (?b ! (?n - 1)) \<noteq> []"
      "length (md_data (?b ! (?n - 1))) = 188 * length (md_pcr_list (?b ! (?n - 1)))"
    by (simp_all add: md_ok_def e)
  then have ats: "at ?b 0 = Some (?b ! 0)" "at ?b (?n - 1) = Some (?b ! (?n - 1))"
      "at (md_pcr_list (?b ! 0)) 0 = Some (hd (md_pcr_list (?b ! 0)))"
      "\<not> length (md_data (?b ! (?n - 1))) < 188"
      "at (md_pcr_list (?b ! (?n - 1))) (length (md_data (?b ! (?n - 1))) div 188 - 1) = Some (last (md_pcr_list (?b ! (?n - 1))))"
    using n(1,2) by (auto simp: at_def hd_conv_nth last_conv_nth)
  show ?thesis
    using False e assms(2) ats by (simp add: ms_fill_def ms_spans_def Let_def n(4) del: at_Some One_nat_def)
qed (simp add: ms_fill_def)

text \<open>A turn that sends: the state after filling, with the queued data copied to the fifos.\<close>

definition ms_filled :: "mux_smoothing_params \<Rightarrow> 'f mux_smoothing_state \<Rightarrow> 'f mux_smoothing_state" where
  "ms_filled p s = (let mds = queue_list (ms_queue s); s = s\<lparr>ms_num_muxed_data := q_size (ms_queue s)\<rparr>
     in if ms_buffer_complete s then s
        else if ms_spans p mds then s\<lparr>ms_start_pcr := hd (md_pcr_list (hd mds)), ms_buffer_complete := True, ms_start_clock := -1\<rparr>
        else s\<lparr>ms_start_pcr := hd (md_pcr_list (hd mds))\<rparr>)"

lemma ms_filled_simps [simp]:
  "ms_queue (ms_filled p s) = ms_queue s" "ms_outputs (ms_filled p s) = ms_outputs s"
  "ms_fifo_data (ms_filled p s) = ms_fifo_data s" "ms_fifo_pcr (ms_filled p s) = ms_fifo_pcr s"
  "ms_drop (ms_filled p s) = ms_drop s" "ms_num_muxed_data (ms_filled p s) = q_size (ms_queue s)"
  "ms_buffer_complete (ms_filled p s) \<longleftrightarrow> ms_buffer_complete s \<or> ms_spans p (queue_list (ms_queue s))"
  "ms_start_clock (ms_filled p s) = (if \<not> ms_buffer_complete s \<and> ms_spans p (queue_list (ms_queue s)) then -1 else ms_start_clock s)"
  by (simp_all add: ms_filled_def Let_def)

lemma ms_ok_filled [simp]: "ms_ok c ps (ms_filled p s) = ms_ok c ps s"
  by (simp add: ms_ok_def)

lemma ms_turn_eq:
  assumes "ms_ok c ps s" "\<not> ms_drop s" "0 \<le> ms_num_muxed_data s" "ms_num_muxed_data s < q_size (ms_queue s)"
  shows "ms_turn ops p dropped clock s = (if \<not> ms_buffer_complete (ms_filled p s) then Some (ms_filled p s, [])
      else do { s \<leftarrow> ms_copy ops (queue_list (ms_queue s)) (ms_filled p s);
                ms_drain ops p dropped clock (Suc (ff_size ops (ms_fifo_data s))) 0 (s\<lparr>ms_num_muxed_data := 0\<rparr>) })"
proof -
  let ?s = "s\<lparr>ms_num_muxed_data := q_size (ms_queue s)\<rparr>"
  have "ms_ok c ps ?s"
    using assms(1) by (simp add: ms_ok_def)
  then have "ms_fill p ?s = Some (ms_filled p s)"
    using ms_fill_spec [of c ps ?s "queue_list (ms_queue s)" p] assms(3,4) by (simp add: ms_filled_def)
  then show ?thesis
    using assms(2-4) by (simp add: ms_turn_def queue_list_def)
qed

lemma ms_turn_sends:
  assumes laws: "av_fifo_laws ops c" and p: "0 < sm_packets p" "sm_payload p = 188 * sm_packets p"
    and quiet: "\<forall>i. \<not> dropped i" "\<forall>i. 0 \<le> clock i"
    and ok: "ms_ok c ps s" and nd: "\<not> ms_drop s" and new: "0 \<le> ms_num_muxed_data s" "ms_num_muxed_data s < q_size (ms_queue s)"
    and mds: "mds = queue_list (ms_queue s)" and full: "ms_buffer_complete s \<or> ms_spans p mds"
    and d: "d = c (ms_fifo_data s) @ concat (map md_data mds)" "length d \<le> 10000000"
    and gs: "gs = ms_groups p (ps @ concat (map md_pcr_list mds)) d"
  obtains s' r where "ms_turn ops p dropped clock s = Some (s', r)" "map snd r = map group_bytes gs"
    "map fst r = sleeps_until (ms_start_pcr s') (ms_start_clock s') (\<not> ms_buffer_complete s \<or> ms_start_clock s = -1) gs"
    "concat (map snd gs) @ c (ms_fifo_data s') = d" "length (c (ms_fifo_data s')) < sm_payload p"
    "map queue_list (ms_outputs s') = map (\<lambda>q. queue_list q @ map snd r) (ms_outputs s)"
    "ms_ok c (drop (sm_packets p * length gs) (ps @ concat (map md_pcr_list mds))) s'"
    "queue_list (ms_queue s') = []" "ms_num_muxed_data s' = 0" "ms_buffer_complete s'"
proof -
  have ok2: "ms_ok c ps (ms_filled p s)" "queue_list (ms_queue (ms_filled p s)) = mds"
    using ok mds by simp_all
  obtain fd fp q where cp: "ms_copy ops mds (ms_filled p s) = Some (ms_filled p s\<lparr>ms_fifo_data := fd, ms_fifo_pcr := fp, ms_queue := q\<rparr>)"
      "ms_ok c (ps @ concat (map md_pcr_list mds)) (ms_filled p s\<lparr>ms_fifo_data := fd, ms_fifo_pcr := fp, ms_queue := q\<rparr>)"
      "c fd = d" "queue_list q = []"
    using ms_copy_spec [OF laws ok2] d(1) by auto
  define s3 where "s3 = ms_filled p s\<lparr>ms_fifo_data := fd, ms_fifo_pcr := fp, ms_queue := q, ms_num_muxed_data := 0\<rparr>"
  have ok3: "ms_ok c (ps @ concat (map md_pcr_list mds)) s3" "\<not> ms_drop s3" "length (c (ms_fifo_data s3)) \<le> 10000000"
      "length (c (ms_fifo_data s3)) < Suc (ff_size ops fd)" "gs = ms_groups p (ps @ concat (map md_pcr_list mds)) (c (ms_fifo_data s3))"
    using cp d gs nd by (simp_all add: s3_def ms_ok_def av_fifo_size [OF laws])
  have len: "length d = 188 * length (ps @ concat (map md_pcr_list mds))"
    using cp(2,3) by (simp add: ms_ok_def)
  have turn: "ms_turn ops p dropped clock s = ms_drain ops p dropped clock (Suc (ff_size ops fd)) 0 s3"
    using ms_turn_eq [OF ok nd new, of ops p dropped clock] full mds cp(1) by (auto simp add: s3_def simp del: ms_drain.simps)
  have e3: "ms_fifo_data s3 = fd" "ms_outputs s3 = ms_outputs s" "ms_queue s3 = q" "ms_num_muxed_data s3 = 0"
      "ms_buffer_complete s3" "ms_start_clock s3 = -1 \<longleftrightarrow> \<not> ms_buffer_complete s \<or> ms_start_clock s = -1"
    using full mds by (auto simp: s3_def)
  have c3: "c (ms_fifo_data s3) = d"
    by (simp add: e3(1) cp(3))
  have dg: "concat (map snd gs) @ drop (sm_payload p * length gs) d = d"
    using ms_groups_data [OF p len] gs by simp
  from ms_drain_spec [OF laws p quiet ok3, of 0] turn
  show thesis
  proof (elim exE conjE)
    fix s' r
    assume "ms_drain ops p dropped clock (Suc (ff_size ops fd)) 0 s3 = Some (s', r)" "map snd r = map group_bytes gs"
      "map fst r = sleeps_until (ms_start_pcr s') (ms_start_clock s') (ms_start_clock s3 = -1) gs"
      "ms_ok c (drop (sm_packets p * length gs) (ps @ concat (map md_pcr_list mds))) s'"
      "ms_queue s' = ms_queue s3" "c (ms_fifo_data s') = drop (sm_payload p * length gs) (c (ms_fifo_data s3))"
      "length (c (ms_fifo_data s')) < sm_payload p"
      "map queue_list (ms_outputs s') = map (\<lambda>q. queue_list q @ map snd r) (ms_outputs s3)"
      "ms_num_muxed_data s' = ms_num_muxed_data s3" "ms_buffer_complete s' = ms_buffer_complete s3"
    then show thesis
      using turn dg cp(4) e3 c3 by (intro that [of s' r]) (simp_all del: ms_drain.simps)
  qed
qed

text \<open>C24 A turn of the multiplexer's smoothing keeps every transport packet with its PCR.  The queued
  data joins what the fifos hold; the groups put on every output are its consecutive chunks, each
  preceded by the PCRs of its packets, and less than a group stays behind; each group but the first
  after a start is sent when the input clock has advanced as far as its PCR.  Before the queue spans the
  decoder's buffer nothing is sent and nothing removed.  The loop returns and keeps the invariant.
\<close>

theorem mux_smoothing_keeps_packets:
  assumes laws: "av_fifo_laws ops c" and p: "0 < sm_packets p" "sm_payload p = 188 * sm_packets p"
    and quiet: "\<forall>i. \<not> dropped i" "\<forall>i. 0 \<le> clock i"
    and ok: "ms_ok c ps s" and nd: "\<not> ms_drop s" and new: "0 \<le> ms_num_muxed_data s" "ms_num_muxed_data s < q_size (ms_queue s)"
    and mds: "mds = queue_list (ms_queue s)"
    and d: "d = c (ms_fifo_data s) @ concat (map md_data mds)" "length d \<le> 10000000"
    and gs: "gs = ms_groups p (ps @ concat (map md_pcr_list mds)) d"
  shows "\<exists>s' r. ms_turn ops p dropped clock s = Some (s', r)
    \<and> (if ms_buffer_complete s \<or> ms_spans p mds
       then map snd r = map group_bytes gs
          \<and> map fst r = sleeps_until (ms_start_pcr s') (ms_start_clock s') (\<not> ms_buffer_complete s \<or> ms_start_clock s = -1) gs
          \<and> concat (map snd gs) @ c (ms_fifo_data s') = d \<and> length (c (ms_fifo_data s')) < sm_payload p
          \<and> map queue_list (ms_outputs s') = map (\<lambda>q. queue_list q @ map snd r) (ms_outputs s)
          \<and> ms_ok c (drop (sm_packets p * length gs) (ps @ concat (map md_pcr_list mds))) s'
          \<and> queue_list (ms_queue s') = [] \<and> ms_num_muxed_data s' = 0 \<and> ms_buffer_complete s'
       else r = [] \<and> ms_ok c ps s' \<and> ms_queue s' = ms_queue s \<and> ms_outputs s' = ms_outputs s
          \<and> ms_fifo_data s' = ms_fifo_data s \<and> \<not> ms_buffer_complete s')"
proof (cases "ms_buffer_complete s \<or> ms_spans p mds")
  case False
  then show ?thesis
    using ms_turn_eq [OF ok nd new, of ops p dropped clock] ok mds by simp
next
  case True
  show ?thesis
    unfolding if_P [OF True]
    by (rule ms_turn_sends [OF laws p quiet ok nd new mds True d gs]) blast
qed

definition list_fifo :: "bytes av_fifo_ops" where
  "list_fifo = \<lparr>ff_size = length, ff_write = (\<lambda>bs f. f @ bs), ff_read = (\<lambda>n f. (take n f, drop n f)), ff_reset = (\<lambda>_. [])\<rparr>"

definition example_muxed :: muxed_data where
  "example_muxed = \<lparr>md_data = replicate 376 7, md_pcr_list = [100, 110]\<rparr>"

definition example_smoothing :: "bytes mux_smoothing_state" where
  "example_smoothing = \<lparr>ms_num_muxed_data = 0, ms_buffer_complete = False, ms_start_clock = -1, ms_start_pcr = 0,
     ms_cur_pcr = 0, ms_fifo_data = [], ms_fifo_pcr = [], ms_queue = zeroed_queue\<lparr>q_buf := [example_muxed], q_size := 1\<rparr>,
     ms_drop = False, ms_outputs = [zeroed_queue]\<rparr>"

theorem mux_smoothing_keeps_packets_witness:
  "\<exists>s' r. ms_turn list_fifo \<lparr>sm_payload = 188, sm_packets = 1, sm_vbv_size = 5\<rparr> (\<lambda>_. False) (\<lambda>_. 7) example_smoothing = Some (s', r)
     \<and> map fst r ! 0 = None \<and> length r = 2 \<and> queue_list (ms_queue s') = []"
proof -
  let ?p = "\<lparr>sm_payload = 188, sm_packets = 1, sm_vbv_size = 5\<rparr>"
  have laws: "av_fifo_laws list_fifo id"
    by (simp add: av_fifo_laws_def list_fifo_def)
  have q: "queue_list (ms_queue example_smoothing) = [example_muxed]"
    by (simp add: queue_list_def example_smoothing_def)
  have ok: "ms_ok id [] example_smoothing"
    unfolding ms_ok_def q
    by (simp add: md_ok_def example_smoothing_def example_muxed_def queue_ok_def zeroed_queue_def)
  have sp: "ms_spans ?p [example_muxed]"
    by (simp add: ms_spans_def example_muxed_def)
  have gs: "ms_groups ?p [100, 110] (replicate 376 7) = [([100], replicate 188 7), ([110], replicate 188 7)]"
    by (simp add: ms_groups_def full_chunks_step full_chunks_short)
  have e: "\<not> ms_drop example_smoothing" "0 \<le> ms_num_muxed_data example_smoothing"
      "ms_num_muxed_data example_smoothing < q_size (ms_queue example_smoothing)" "\<not> ms_buffer_complete example_smoothing"
      "ms_fifo_data example_smoothing = []"
    by (simp_all add: example_smoothing_def)
  have d: "replicate 376 7 = id (ms_fifo_data example_smoothing) @ concat (map md_data [example_muxed])"
      "length (replicate 376 (7 :: u8)) \<le> 10000000"
    by (simp_all add: e example_muxed_def)
  have g: "[([100], replicate 188 7), ([110], replicate 188 7)]
      = ms_groups ?p ([] @ concat (map md_pcr_list [example_muxed])) (replicate 376 7)"
    using gs by (simp add: example_muxed_def)
  have p: "0 < sm_packets ?p" "sm_payload ?p = 188 * sm_packets ?p" "\<forall>i::nat. \<not> (\<lambda>_. False) i" "\<forall>i::nat. 0 \<le> (\<lambda>_. 7 :: int) i"
    by simp_all
  obtain s' r where t: "ms_turn list_fifo ?p (\<lambda>_. False) (\<lambda>_. 7) example_smoothing = Some (s', r)"
      "map fst r = sleeps_until (ms_start_pcr s') (ms_start_clock s') True [([100], replicate 188 7), ([110], replicate 188 7)]"
      "queue_list (ms_queue s') = []"
    using mux_smoothing_keeps_packets [OF laws p ok e(1-3) q [symmetric] d g] sp e(4) by auto
  have "length r = 2"
    using arg_cong [OF t(2), of length] by simp
  then show ?thesis
    using t by (intro exI [of _ s'] exI [of _ r]) simp
qed

lemma trash_queue_empties:
  "queue_ok q \<Longrightarrow> n = length (queue_list q) \<Longrightarrow> queue_ok (trash_queue n q) \<and> queue_list (trash_queue n q) = []"
proof (induction n arbitrary: q)
  case (Suc n)
  then obtain x xs where l: "queue_list q = x # xs"
    by (cases "queue_list q") auto
  obtain r q' where q: "remove_from_queue_without_lock True q = (r, q')"
    by fastforce
  show ?case
    using Suc.IH [of q'] remove_core [OF Suc.prems(1) l q] Suc.prems(2) l q by simp
qed (metis length_0_conv trash_queue.simps(1))

text \<open>After the flag has been raised a turn empties the queue and the fifos, sends nothing and starts over.\<close>

lemma ms_turn_drop:
  assumes "av_fifo_laws ops c" "ms_ok c ps s" "ms_drop s" "q_size (ms_queue s) \<noteq> ms_num_muxed_data s"
  obtains s' where "ms_turn ops p dropped clock s = Some (s', [])" "queue_list (ms_queue s') = []"
    "c (ms_fifo_data s') = []" "c (ms_fifo_pcr s') = []" "\<not> ms_drop s'" "\<not> ms_buffer_complete s'" "ms_start_clock s' = -1"
proof -
  have q: "queue_ok (ms_queue s)"
    using assms(2) by (simp add: ms_ok_def)
  have t: "queue_list (trash_queue (nat (q_size (ms_queue s))) (ms_queue s)) = []"
    using trash_queue_empties [OF q refl] by (simp add: q)
  have r: "c (ff_reset ops f) = []" for f
    using assms(1) by (simp add: av_fifo_laws_def)
  show thesis
    by (rule that [of "ms_refill ops (s\<lparr>ms_num_muxed_data := q_size (ms_queue s)\<rparr>)"])
      (use assms(3,4) in \<open>simp_all add: ms_turn_def ms_refill_def t r\<close>)
qed

end
