(* ===== verification/Obe_Output.thy ===== *)
theory Obe_Output
  imports Obe_Smoothing Obe_Bitstream Obe_Sei
begin

text \<open>
  The network output, output/ip/ip.c and common/network/udp/udp.c: opening a socket, the UDP and RTP
  datagrams made from the packet groups of the mux smoothing, the switches that damage packets on purpose,
  and one turn of the output thread.  The answers of the operating system are arguments.  Buffers are
  values here; in the code all outputs share the buffer of a group, so what the switches of one output
  change in place is also seen by the others.
\<close>

unbundle bit_operations_syntax

section \<open>Options and sockets\<close>

(* src: common/network/udp/udp.h 27-36 obe_udp_opts_t *)
record udp_opts =
  uo_hostname :: string
  uo_port :: int
  uo_local_port :: int
  uo_reuse_socket :: int
  uo_ttl :: int
  uo_buffer_size :: int
  uo_miface :: int

(* src: common/network/udp/udp.c 31-49 obe_udp_ctx *)
record udp_ctx =
  uc_hostname :: string
  uc_port :: int
  uc_ttl :: int
  uc_miface :: int
  uc_buffer_size :: int
  uc_reuse_socket :: int
  uc_is_connected :: bool
  uc_udp_fd :: int
  uc_is_multicast :: bool
  uc_local_port :: int

text \<open>
  What the operating system answers in one call of \<open>udp_open\<close>: the address the host name resolves to
  (its family and whether it is a multicast address), the results of \<open>socket\<close> for the local addresses,
  which socket options are accepted, and the outcome of \<open>bind\<close>, \<open>getnameinfo\<close> and \<open>connect\<close>.
\<close>

datatype ip_family = IPV4 | IPV6

datatype sockopt = REUSEADDR | MULTICAST_TTL | MULTICAST_IF | MULTICAST_HOPS6 | MULTICAST_IF6 | SNDBUF

record udp_env =
  ue_alloc :: bool
  ue_remote :: "string \<Rightarrow> int \<Rightarrow> (ip_family \<times> bool) option"
  ue_sockets :: "int \<Rightarrow> int list option"
  ue_setsockopt :: "sockopt \<Rightarrow> int \<Rightarrow> bool"
  ue_bind :: bool
  ue_local_port :: int
  ue_connect :: bool

(* src: common/network/udp/udp.c 53-97 udp_set_multicast_opts *)
definition udp_set_multicast_opts :: "udp_env \<Rightarrow> ip_family \<Rightarrow> udp_ctx \<Rightarrow> int" where
  "udp_set_multicast_opts e family s =
     (case family of
        IPV4 \<Rightarrow> if \<not> ue_setsockopt e MULTICAST_TTL (uc_ttl s) then -1
                else if \<not> ue_setsockopt e MULTICAST_IF (uc_miface s) then -1 else 0
      | IPV6 \<Rightarrow> if \<not> ue_setsockopt e MULTICAST_HOPS6 (uc_ttl s) then -1
                else if \<not> ue_setsockopt e MULTICAST_IF6 (uc_miface s) then -1 else 0)"

text \<open>
  The loop over the local addresses stops at the first descriptor above 0.  The result is the last
  descriptor, whether an address is left to copy, and the descriptors opened on the way.
\<close>

fun try_sockets :: "int \<Rightarrow> int list \<Rightarrow> int list \<Rightarrow> int \<times> bool \<times> int list" where
  "try_sockets udp_fd opened [] = (udp_fd, False, opened)"
| "try_sockets udp_fd opened (r # rs) =
     (let opened = (if 0 \<le> r then opened @ [r] else opened)
      in if 0 < r then (r, True, opened) else try_sockets r opened rs)"

text \<open>A descriptor 0 from the last address leads to a copy through the null pointer \<open>res\<close>.\<close>

(* src: common/network/udp/udp.c 142-177 udp_socket_create *)
definition udp_socket_create :: "udp_env \<Rightarrow> udp_ctx \<Rightarrow> (int \<times> int list) option" where
  "udp_socket_create e s =
     (case ue_sockets e (uc_local_port s) of
        None \<Rightarrow> Some (-1, [])
      | Some rs \<Rightarrow>
          (case try_sockets (-1) [] rs of (fd, found, opened) \<Rightarrow>
             if fd < 0 then Some (-1, opened)
             else if \<not> found then None else Some (fd, opened)))"

text \<open>The handle, if the call succeeds, and the descriptors open afterwards.\<close>

(* src: common/network/udp/udp.c 253-333 udp_open *)
definition udp_open :: "udp_env \<Rightarrow> udp_opts \<Rightarrow> (int \<times> udp_ctx option \<times> int list) option" where
  "udp_open e o' =
     (if \<not> ue_alloc e then Some (-1, None, [])
      else
        let s = \<lparr>uc_hostname = take 1024 (uo_hostname o'), uc_port = uo_port o', uc_ttl = uo_ttl o',
                 uc_miface = uo_miface o', uc_buffer_size = uo_buffer_size o', uc_reuse_socket = uo_reuse_socket o',
                 uc_is_connected = False, uc_udp_fd = 0, uc_is_multicast = False, uc_local_port = uo_local_port o'\<rparr>
        in case ue_remote e (uc_hostname s) (uc_port s) of
             None \<Rightarrow> Some (-1, None, [])
           | Some (family, multi) \<Rightarrow>
               do {
                 let s = s\<lparr>uc_is_multicast := multi\<rparr>;
                 (fd, opened) \<leftarrow> udp_socket_create e s;
                 let fail = Some (-1, None, removeAll fd opened);
                 if fd < 0 then Some (-1, None, opened)
                 else
                   let reuse = uc_reuse_socket s \<noteq> 0 \<or> uc_is_multicast s;
                       s = (if reuse then s\<lparr>uc_reuse_socket := 1\<rparr> else s)
                   in if reuse \<and> \<not> ue_setsockopt e REUSEADDR 1 then fail
                      else if \<not> ue_bind e then fail
                      else
                        let s = s\<lparr>uc_local_port := ue_local_port e\<rparr>
                        in if uc_is_multicast s \<and> udp_set_multicast_opts e family s < 0 then fail
                           else if \<not> ue_setsockopt e SNDBUF (uc_buffer_size s) then fail
                           else if uc_is_connected s \<and> \<not> ue_connect e then fail
                           else Some (0, Some (s\<lparr>uc_udp_fd := fd\<rparr>), opened) })"

(* src: common/network/udp/udp.c 397-404 udp_close *)
definition udp_close :: "udp_ctx \<Rightarrow> int list \<Rightarrow> int list" where
  "udp_close s fds = removeAll (uc_udp_fd s) fds"

section \<open>Writing a datagram\<close>

text \<open>
  \<open>sei\<close> is the global \<open>g_sei_timestamping\<close>, \<open>now\<close> the time of day and \<open>sent\<close> whether \<open>sendto\<close> succeeds.
  The result is the return value, the buffer and the datagrams sent.  The throughput statistics are left
  out.
\<close>

(* src: common/network/udp/udp.c 357-380 udp_write *)
definition udp_stamp :: "int \<Rightarrow> timeval \<Rightarrow> bytes \<Rightarrow> bytes option" where
  "udp_stamp sei now buf =
     (if 1 < sei \<and> length buf = 1316
      then let offset = ltn_uuid_find buf
           in if offset < 0 then Some buf
              else if offset mod 188 + int SEI_TIMESTAMP_PAYLOAD_LENGTH < 188
              then do {
                let rest = drop (nat offset) buf;
                (r, rest) \<leftarrow> sei_timestamp_field_set rest (int (length rest)) 8 (word_of_int (tv_sec now));
                (r', rest) \<leftarrow> (if 0 \<le> r then sei_timestamp_field_set rest (int (length rest)) 9 (word_of_int (tv_usec now))
                             else Some (r, rest));
                Some (take (nat offset) buf @ rest) }
              else Some buf
      else Some buf)"

(* src: common/network/udp/udp.c 337-395 udp_write *)
definition udp_write :: "int \<Rightarrow> timeval \<Rightarrow> bool \<Rightarrow> udp_ctx \<Rightarrow> bytes \<Rightarrow> (int \<times> bytes \<times> bytes list) option" where
  "udp_write sei now sent s buf =
     do { buf \<leftarrow> (if uc_is_connected s then Some buf else udp_stamp sei now buf);
          Some (if sent then (int (length buf), buf, [buf]) else (-1, buf, [])) }"

section \<open>RTP\<close>

(* src: output/ip/ip.c 49-56 obe_rtp_ctx *)
record rtp_ctx =
  rtp_udp_handle :: udp_ctx
  rtp_seq :: u16
  rtp_ssrc :: u32
  rtp_pkt_cnt :: u32
  rtp_octet_cnt :: u32

definition MAX_TS_PACKETS_SIZE :: nat where "MAX_TS_PACKETS_SIZE = 16 * 188"

text \<open>The context is not released when the socket cannot be opened; the second result counts that.\<close>

(* src: output/ip/ip.c 64-84 rtp_open *)
definition rtp_open :: "bool \<Rightarrow> u32 \<Rightarrow> udp_env \<Rightarrow> udp_opts \<Rightarrow> (int \<times> rtp_ctx option \<times> int list \<times> nat) option" where
  "rtp_open ok seed e o' =
     (if \<not> ok then Some (-1, None, [], 0)
      else do {
        (r, h, fds) \<leftarrow> udp_open e o';
        case h of
          Some u \<Rightarrow> if r < 0 then Some (-1, None, fds, 1)
                    else Some (0, Some \<lparr>rtp_udp_handle = u, rtp_seq = 0, rtp_ssrc = seed, rtp_pkt_cnt = 0, rtp_octet_cnt = 0\<rparr>, fds, 0)
        | None \<Rightarrow> Some (-1, None, fds, 1) })"

text \<open>
  The packet is built on the stack, in an array whose contents are \<open>stack\<close> and whose address is a
  multiple of 16, as for every array of that size.
\<close>

(* src: output/ip/ip.c 127-142 write_rtp_pkt *)
definition rtp_header :: "rtp_ctx \<Rightarrow> int \<Rightarrow> bytes \<Rightarrow> bytes option" where
  "rtp_header p_rtp timestamp stack =
     do { s \<leftarrow> bs_init stack 0 (12 + MAX_TS_PACKETS_SIZE);
          s \<leftarrow> bs_write s 2 2;
          s \<leftarrow> bs_write1 s 0;
          s \<leftarrow> bs_write1 s 0;
          s \<leftarrow> bs_write s 4 0;
          s \<leftarrow> bs_write1 s 0;
          s \<leftarrow> bs_write s 7 33;
          s \<leftarrow> bs_write s 16 (ucast (rtp_seq p_rtp));
          s \<leftarrow> bs_write32 s (word_of_int (timestamp sdiv 300));
          s \<leftarrow> bs_write32 s (rtp_ssrc p_rtp);
          s \<leftarrow> bs_flush s;
          Some (bs_mem s) }"

(* src: output/ip/ip.c 125-152 write_rtp_pkt *)
definition write_rtp_pkt ::
    "nat \<Rightarrow> int \<Rightarrow> timeval \<Rightarrow> bool \<Rightarrow> bytes \<Rightarrow> rtp_ctx \<Rightarrow> bytes \<Rightarrow> int \<Rightarrow> (int \<times> rtp_ctx \<times> bytes list) option" where
  "write_rtp_pkt payload sei now sent stack p_rtp data timestamp =
     do { pkt \<leftarrow> rtp_header p_rtp timestamp stack;
          let p_rtp = p_rtp\<lparr>rtp_seq := rtp_seq p_rtp + 1\<rparr>;
          pkt \<leftarrow> mem_put 12 data pkt;
          pkt \<leftarrow> mem_get 0 (12 + payload) pkt;
          (r, _, out) \<leftarrow> udp_write sei now sent (rtp_udp_handle p_rtp) pkt;
          Some (if r < 0 then (-1, p_rtp, out)
                else (0, p_rtp\<lparr>rtp_pkt_cnt := rtp_pkt_cnt p_rtp + 1,
                              rtp_octet_cnt := rtp_octet_cnt p_rtp + word_of_nat (length data)\<rparr>, out)) }"


section \<open>The test switches\<close>

text \<open>
  The global variables with which an operator damages outgoing packets.  They count the packets still
  to be damaged; a switch is on while it is not 0.
\<close>

(* src: output/ip/ip.c 183-191 open_output *)
record out_knobs =
  kn_drop_video :: int
  kn_drop_audio :: int
  kn_drop_pat :: int
  kn_drop_pmt :: int
  kn_drop_packet :: int
  kn_mangle_pmt :: int
  kn_scramble_video :: int
  kn_tei :: int
  kn_bad_sync :: int

definition all_off :: out_knobs where
  "all_off = \<lparr>kn_drop_video = 0, kn_drop_audio = 0, kn_drop_pat = 0, kn_drop_pmt = 0, kn_drop_packet = 0,
     kn_mangle_pmt = 0, kn_scramble_video = 0, kn_tei = 0, kn_bad_sync = 0\<rparr>"

text \<open>Seven packets from byte 56 on, whatever the size of the group.\<close>

definition packet_offsets :: "nat list" where
  "packet_offsets = map (\<lambda>j. 7 * 8 + j * 188) [0..<7]"

definition or_at :: "nat \<Rightarrow> u8 \<Rightarrow> bytes \<Rightarrow> bytes option" where
  "or_at i v d = do { x \<leftarrow> at d i; Some (d[i := x OR v]) }"

(* src: output/ip/ip.c 324-324 open_output *)
definition ts_pid :: "bytes \<Rightarrow> nat \<Rightarrow> int option" where
  "ts_pid d q = do { a \<leftarrow> at d (q + 1); b \<leftarrow> at d (q + 2); Some ((push_bit 8 (uint a) OR uint b) AND 0x1fff) }"

text \<open>
  The loops differ in the packets they choose, in what they do to them and in whether they stop when the
  count has reached 0.
\<close>

fun edit_loop ::
    "(bytes \<Rightarrow> nat \<Rightarrow> bool option) \<Rightarrow> (nat \<Rightarrow> bytes \<Rightarrow> bytes option) \<Rightarrow> bool \<Rightarrow> nat list \<Rightarrow> int \<Rightarrow> bytes
     \<Rightarrow> (int \<times> bytes) option" where
  "edit_loop sel edit stop [] n d = Some (n, d)"
| "edit_loop sel edit stop (q # qs) n d =
     do { b \<leftarrow> sel d q;
          if \<not> b then edit_loop sel edit stop qs n d
          else do { d \<leftarrow> edit q d;
                    if stop \<and> n - 1 \<le> 0 then Some (0, d) else edit_loop sel edit stop qs (n - 1) d } }"

definition has_pid :: "int \<Rightarrow> bytes \<Rightarrow> nat \<Rightarrow> bool option" where
  "has_pid pid d q = map_option (\<lambda>p. p = pid) (ts_pid d q)"

definition lose_pid :: "nat \<Rightarrow> bytes \<Rightarrow> bytes option" where
  "lose_pid q d = do { d \<leftarrow> or_at (q + 1) 0xc0 d; or_at (q + 2) 0x40 d }"

(* src: output/ip/ip.c 294-306 open_output *)
definition bad_sync_packets :: "int \<Rightarrow> bytes \<Rightarrow> (int \<times> bytes) option" where
  "bad_sync_packets n d = (if n = 0 then Some (n, d)
     else edit_loop (\<lambda>_ _. Some True) (\<lambda>q d. mem_put q [0x46] d) True packet_offsets n d)"

(* src: output/ip/ip.c 307-319 open_output *)
definition tei_packets :: "int \<Rightarrow> bytes \<Rightarrow> (int \<times> bytes) option" where
  "tei_packets n d = (if n = 0 then Some (n, d)
     else edit_loop (\<lambda>_ _. Some True) (\<lambda>q d. or_at (q + 1) 0x80 d) True packet_offsets n d)"

(* src: output/ip/ip.c 320-333 open_output *)
definition drop_pat_packets :: "int \<Rightarrow> bytes \<Rightarrow> (int \<times> bytes) option" where
  "drop_pat_packets n d = (if n = 0 then Some (n, d) else edit_loop (has_pid 0) lose_pid False packet_offsets n d)"

(* src: output/ip/ip.c 334-347 open_output *)
definition drop_pmt_packets :: "int \<Rightarrow> bytes \<Rightarrow> (int \<times> bytes) option" where
  "drop_pmt_packets n d = (if n = 0 then Some (n, d) else edit_loop (has_pid 0x30) lose_pid False packet_offsets n d)"

(* src: output/ip/ip.c 348-363 open_output *)
definition mangle_pmt_packets :: "int \<Rightarrow> bytes \<Rightarrow> (int \<times> bytes) option" where
  "mangle_pmt_packets n d = (if n = 0 then Some (n, d)
     else edit_loop (has_pid 0x30) (\<lambda>q d. mem_put (q + 9) [0xff] d) True packet_offsets n d)"

(* src: output/ip/ip.c 364-379 open_output *)
definition scramble_video_packets :: "int \<Rightarrow> bytes \<Rightarrow> (int \<times> bytes) option" where
  "scramble_video_packets n d = (if n = 0 then Some (n, d)
     else edit_loop (has_pid 0x31) (\<lambda>q d. or_at (q + 3) 0xc0 d) True packet_offsets n d)"

(* src: output/ip/ip.c 380-396 open_output *)
definition drop_video_packets :: "int \<Rightarrow> bytes \<Rightarrow> (int \<times> bytes) option" where
  "drop_video_packets n d = (if n = 0 then Some (n, d) else edit_loop (has_pid 0x31) lose_pid True packet_offsets n d)"

(* src: output/ip/ip.c 397-413 open_output *)
definition drop_audio_packets :: "int \<Rightarrow> bytes \<Rightarrow> (int \<times> bytes) option" where
  "drop_audio_packets n d = (if n = 0 then Some (n, d) else edit_loop (has_pid 0x32) lose_pid True packet_offsets n d)"

(* src: output/ip/ip.c 294-413 open_output *)
definition damage_group :: "out_knobs \<Rightarrow> bytes \<Rightarrow> (out_knobs \<times> bytes) option" where
  "damage_group k d =
     do { (a, d) \<leftarrow> bad_sync_packets (kn_bad_sync k) d;
          (b, d) \<leftarrow> tei_packets (kn_tei k) d;
          (c, d) \<leftarrow> drop_pat_packets (kn_drop_pat k) d;
          (e, d) \<leftarrow> drop_pmt_packets (kn_drop_pmt k) d;
          (f, d) \<leftarrow> mangle_pmt_packets (kn_mangle_pmt k) d;
          (g, d) \<leftarrow> scramble_video_packets (kn_scramble_video k) d;
          (i, d) \<leftarrow> drop_video_packets (kn_drop_video k) d;
          (j, d) \<leftarrow> drop_audio_packets (kn_drop_audio k) d;
          Some (k\<lparr>kn_bad_sync := a, kn_tei := b, kn_drop_pat := c, kn_drop_pmt := e, kn_mangle_pmt := f,
                  kn_scramble_video := g, kn_drop_video := i, kn_drop_audio := j\<rparr>, d) }"

section \<open>The output thread\<close>

datatype ip_handle = Udp_Handle udp_ctx | Rtp_Handle rtp_ctx

record out_state =
  ou_handle :: ip_handle
  ou_knobs :: out_knobs
  ou_queue :: "bytes obe_queue"

text \<open>The environment of one packet: \<open>oe_added\<close> is what the smoothing thread adds to the queue meanwhile.\<close>

record out_env =
  oe_sei :: int
  oe_now :: timeval
  oe_sent :: bool
  oe_stack :: bytes
  oe_added :: "bytes list"

text \<open>
  One group: the bytes behind its PCRs are sent.  A datagram that cannot be sent is only logged.
\<close>

(* src: output/ip/ip.c 273-417 open_output *)
definition output_group :: "nat \<Rightarrow> out_env \<Rightarrow> bytes \<Rightarrow> out_state \<Rightarrow> (out_state \<times> bytes list) option" where
  "output_group payload e buf s =
     (case ou_handle s of
        Rtp_Handle h \<Rightarrow>
          do { data \<leftarrow> mem_get (payload div 188 * 8) payload buf;
               ts \<leftarrow> mem_get 0 8 buf;
               (r, h, out) \<leftarrow> write_rtp_pkt payload (oe_sei e) (oe_now e) (oe_sent e) (oe_stack e) h data (rd64 ts);
               Some (s\<lparr>ou_handle := Rtp_Handle h\<rparr>, out) }
      | Udp_Handle h \<Rightarrow>
          if kn_drop_packet (ou_knobs s) \<noteq> 0
          then Some (s\<lparr>ou_knobs := (ou_knobs s)\<lparr>kn_drop_packet := kn_drop_packet (ou_knobs s) - 1\<rparr>\<rparr>, [])
          else do {
            (k, buf) \<leftarrow> damage_group (ou_knobs s) buf;
            data \<leftarrow> mem_get (payload div 188 * 8) payload buf;
            (r, _, out) \<leftarrow> udp_write (oe_sei e) (oe_now e) (oe_sent e) h data;
            Some (s\<lparr>ou_knobs := k\<rparr>, out) })"

fun queue_adds :: "'a list \<Rightarrow> 'a obe_queue \<Rightarrow> 'a obe_queue option" where
  "queue_adds [] q = Some q"
| "queue_adds (x # xs) q = do { (_, q) \<leftarrow> add_to_queue True x q; queue_adds xs q }"

(* src: output/ip/ip.c 259-421 open_output *)
fun output_groups :: "nat \<Rightarrow> (nat \<Rightarrow> out_env) \<Rightarrow> nat \<Rightarrow> bytes list \<Rightarrow> out_state \<Rightarrow> (out_state \<times> bytes list) option" where
  "output_groups payload env i [] s = Some (s, [])"
| "output_groups payload env i (buf # bufs) s =
     do { (s, out) \<leftarrow> output_group payload (env i) buf s;
          q \<leftarrow> queue_adds (oe_added (env i)) (ou_queue s);
          (_, q) \<leftarrow> remove_from_queue True q;
          (s, outs) \<leftarrow> output_groups payload env (i + 1) bufs (s\<lparr>ou_queue := q\<rparr>);
          Some (s, out @ outs) }"

text \<open>A turn of the thread: the groups in the queue when it looks, one after the other.\<close>

(* src: output/ip/ip.c 228-425 open_output *)
definition output_turn :: "nat \<Rightarrow> (nat \<Rightarrow> out_env) \<Rightarrow> out_state \<Rightarrow> (out_state \<times> bytes list) option" where
  "output_turn payload env s =
     (if q_locked (ou_queue s) then None
      else output_groups payload env 0 (take (nat (q_size (ou_queue s))) (q_buf (ou_queue s))) s)"


section \<open>RTP packets\<close>

definition rtp_header_bits :: "u16 \<Rightarrow> u32 \<Rightarrow> u32 \<Rightarrow> bool list" where
  "rtp_header_bits seq time ssrc = bits_be 2 (2 :: u32) @ bits_be 6 (0 :: u32) @ False # bits_be 7 (33 :: u32)
     @ bits_be 16 (ucast seq :: u32) @ bits_be 32 time @ bits_be 32 ssrc"

lemma writes_write32: "writes (\<lambda>s. bs_write32 s v) (bits_be 32 v)"
  unfolding writes_def using bs_write32_spec by (metis length_bits_be)

lemma rtp_header_spec:
  assumes "16 \<le> length stack"
  obtains pkt where "rtp_header h ts stack = Some pkt" "length pkt = length stack"
    "bytes_bits (take 12 pkt) = rtp_header_bits (rtp_seq h) (word_of_int (ts sdiv 300)) (rtp_ssrc h)"
proof -
  let ?w = "\<lambda>s. do { s \<leftarrow> bs_write s 2 2; s \<leftarrow> bs_write1 s 0; s \<leftarrow> bs_write1 s 0; s \<leftarrow> bs_write s 4 0; s \<leftarrow> bs_write1 s 0;
    s \<leftarrow> bs_write s 7 33; s \<leftarrow> bs_write s 16 (ucast (rtp_seq h)); s \<leftarrow> bs_write32 s (word_of_int (ts sdiv 300)); bs_write32 s (rtp_ssrc h) }"
  have u: "uint (ucast (rtp_seq h) :: u32) < 2 ^ 16"
    by (rule uint_lt_bitI) (auto simp: bit_simps dest: bit_imp_le_length)
  have "writes ?w (bits_be 2 (2 :: u32) @ [bit (0::u32) 0] @ [bit (0::u32) 0] @ bits_be 4 (0 :: u32) @ [bit (0::u32) 0] @ bits_be 7 (33 :: u32)
     @ bits_be 16 (ucast (rtp_seq h) :: u32) @ bits_be 32 (word_of_int (ts sdiv 300) :: u32) @ bits_be 32 (rtp_ssrc h))"
    using u by (intro writes_bind writes_write writes_write1 writes_write32) simp_all
  moreover have "bits_be 2 (2 :: u32) @ [bit (0::u32) 0] @ [bit (0::u32) 0] @ bits_be 4 (0 :: u32) @ [bit (0::u32) 0] @ bits_be 7 (33 :: u32)
      @ bits_be 16 (ucast (rtp_seq h) :: u32) @ bits_be 32 (word_of_int (ts sdiv 300) :: u32) @ bits_be 32 (rtp_ssrc h)
    = rtp_header_bits (rtp_seq h) (word_of_int (ts sdiv 300)) (rtp_ssrc h)"
    by (simp add: rtp_header_bits_def eval_nat_numeral)
  ultimately have w: "writes ?w (rtp_header_bits (rtp_seq h) (word_of_int (ts sdiv 300)) (rtp_ssrc h))"
    by (simp only:)
  have len: "length (rtp_header_bits (rtp_seq h) (word_of_int (ts sdiv 300)) (rtp_ssrc h)) = 96"
    by (simp add: rtp_header_bits_def)
  obtain s0 where s0: "bs_init stack 0 (12 + MAX_TS_PACKETS_SIZE) = Some s0" "bs_ok s0" "bs_bits s0 = []" "bs_mem s0 = stack"
    using bs_init_aligned [of stack "12 + MAX_TS_PACKETS_SIZE"] assms by auto
  have "bs_room s0 (length (rtp_header_bits (rtp_seq h) (word_of_int (ts sdiv 300)) (rtp_ssrc h)))"
    using assms s0 len by (simp add: bs_room_def)
  then obtain s1 where s1: "?w s0 = Some s1" "bs_ok s1"
      "bs_bits s1 = rtp_header_bits (rtp_seq h) (word_of_int (ts sdiv 300)) (rtp_ssrc h)" "length (bs_mem s1) = length stack"
    using writesD [OF w s0(2)] s0(3,4) by auto
  have "length (bs_bits s1) = 96"
    using s1(3) len by simp
  then have "8 * bs_p s1 \<le> 96"
    using s1(2) by (simp add: bs_bits_def bs_ok_def) arith
  then have "bs_p s1 + 4 \<le> length (bs_mem s1)"
    using assms s1(4) by simp
  then obtain s2 where s2: "bs_flush s1 = Some s2" "bytes_bits (take (bs_p s2) (bs_mem s2)) = bs_bits s1"
      "length (bs_mem s2) = length (bs_mem s1)" "bs_p s2 = length (bs_bits s1) div 8"
    using bs_flush_spec [OF s1(2)] s1(3) len by auto
  have "rtp_header h ts stack = Some (bs_mem s2)"
  proof -
    have "rtp_header h ts stack = do { s \<leftarrow> bs_init stack 0 (12 + MAX_TS_PACKETS_SIZE); s \<leftarrow> ?w s; s \<leftarrow> bs_flush s; Some (bs_mem s) }"
      by (simp only: rtp_header_def bind_assoc)
    then show ?thesis
      by (simp only: s0(1) s1(1) s2(1) Option.bind.simps)
  qed
  then show thesis
    using that [of "bs_mem s2"] s1 s2 len by simp
qed

lemma udp_stamp_off: "sei \<le> 1 \<or> length buf \<noteq> 1316 \<Longrightarrow> udp_stamp sei now buf = Some buf"
  by (auto simp: udp_stamp_def)

lemma udp_write_sent: "sei \<le> 1 \<or> length buf \<noteq> 1316 \<Longrightarrow> udp_write sei now True h buf = Some (int (length buf), buf, [buf])"
  by (simp add: udp_write_def udp_stamp_off)

text \<open>The packet of a group; sixteen transport packets fit behind the header.\<close>

definition is_rtp_packet :: "u16 \<Rightarrow> u32 \<Rightarrow> int \<Rightarrow> bytes \<Rightarrow> bytes \<Rightarrow> bool" where
  "is_rtp_packet seq ssrc pcr data pkt \<longleftrightarrow>
     bytes_bits (take 12 pkt) = rtp_header_bits seq (word_of_int (pcr sdiv 300)) ssrc \<and> drop 12 pkt = data"

lemma write_rtp_pkt_spec:
  assumes "length stack = 12 + MAX_TS_PACKETS_SIZE" "length data = payload" "payload \<le> MAX_TS_PACKETS_SIZE" "sei \<le> 1"
  obtains pkt where "write_rtp_pkt payload sei now True stack h data ts
      = Some (0, h\<lparr>rtp_seq := rtp_seq h + 1, rtp_pkt_cnt := rtp_pkt_cnt h + 1,
                   rtp_octet_cnt := rtp_octet_cnt h + word_of_nat payload\<rparr>, [pkt])"
    "is_rtp_packet (rtp_seq h) (rtp_ssrc h) ts data pkt"
proof -
  obtain p1 where p1: "rtp_header h ts stack = Some p1" "length p1 = length stack"
    "bytes_bits (take 12 p1) = rtp_header_bits (rtp_seq h) (word_of_int (ts sdiv 300)) (rtp_ssrc h)"
    using rtp_header_spec [of stack h ts] assms(1) by (auto simp: MAX_TS_PACKETS_SIZE_def)
  let ?pkt = "take (12 + payload) (splice 12 data p1)"
  have len: "length p1 = 12 + MAX_TS_PACKETS_SIZE" "12 + payload \<le> length p1"
    using assms p1(2) by simp_all
  have "is_rtp_packet (rtp_seq h) (rtp_ssrc h) ts data ?pkt"
    using p1(3) len assms(2,3) by (simp add: is_rtp_packet_def splice_def min_def)
  moreover have "write_rtp_pkt payload sei now True stack h data ts
      = Some (0, h\<lparr>rtp_seq := rtp_seq h + 1, rtp_pkt_cnt := rtp_pkt_cnt h + 1,
                   rtp_octet_cnt := rtp_octet_cnt h + word_of_nat payload\<rparr>, [?pkt])"
    using p1(1) len assms by (simp add: write_rtp_pkt_def Let_def udp_write_sent)
  ultimately show thesis
    using that by blast
qed

text \<open>A payload of more than sixteen packets is copied past the end of the array.\<close>

lemma rtp_payload_overruns:
  assumes "length stack = 12 + MAX_TS_PACKETS_SIZE" "MAX_TS_PACKETS_SIZE < length data"
  shows "write_rtp_pkt payload sei now sent stack h data ts = None"
proof -
  obtain p1 where "rtp_header h ts stack = Some p1" "length p1 = length stack"
    using rtp_header_spec [of stack h ts] assms(1) by (auto simp: MAX_TS_PACKETS_SIZE_def)
  then show ?thesis
    using assms by (simp add: write_rtp_pkt_def Let_def)
qed


section \<open>What a turn sends\<close>

definition sent_as :: "nat \<Rightarrow> ip_handle \<Rightarrow> nat \<Rightarrow> bytes \<Rightarrow> bytes \<Rightarrow> bool" where
  "sent_as k h i g pkt =
     (case h of Udp_Handle u \<Rightarrow> pkt = drop (8 * k) g
      | Rtp_Handle r \<Rightarrow> is_rtp_packet (rtp_seq r + word_of_nat i) (rtp_ssrc r) (rd64 (take 8 g)) (drop (8 * k) g) pkt)"

definition plain_env :: "out_env \<Rightarrow> bool" where
  "plain_env e \<longleftrightarrow> oe_sei e \<le> 1 \<and> oe_sent e \<and> length (oe_stack e) = 12 + MAX_TS_PACKETS_SIZE"

definition group_ok :: "nat \<Rightarrow> bytes \<Rightarrow> bool" where
  "group_ok k g \<longleftrightarrow> length g = 8 * k + 188 * k"

lemma damage_all_off: "damage_group all_off d = Some (all_off, d)"
  by (simp add: damage_group_def all_off_def bad_sync_packets_def tei_packets_def drop_pat_packets_def
      drop_pmt_packets_def mangle_pmt_packets_def scramble_video_packets_def drop_video_packets_def drop_audio_packets_def)

definition next_handle :: "nat \<Rightarrow> ip_handle \<Rightarrow> ip_handle" where
  "next_handle payload h = (case h of Udp_Handle u \<Rightarrow> h
     | Rtp_Handle r \<Rightarrow> Rtp_Handle (r\<lparr>rtp_seq := rtp_seq r + 1, rtp_pkt_cnt := rtp_pkt_cnt r + 1,
         rtp_octet_cnt := rtp_octet_cnt r + word_of_nat payload\<rparr>))"

lemma output_group_spec:
  assumes "group_ok k g" "0 < k" "k \<le> 16" "plain_env e" "ou_knobs s = all_off"
  obtains pkt where "output_group (188 * k) e g s = Some (s\<lparr>ou_handle := next_handle (188 * k) (ou_handle s)\<rparr>, [pkt])"
    "sent_as k (ou_handle s) 0 g pkt"
proof -
  have data: "mem_get (188 * k div 188 * 8) (188 * k) g = Some (drop (8 * k) g)"
    using assms(1) by (simp add: group_ok_def mult.commute)
  have ts: "mem_get 0 8 g = Some (take 8 g)"
    using assms(1,2) by (simp add: group_ok_def)
  have len: "length (drop (8 * k) g) = 188 * k" "188 * k \<le> MAX_TS_PACKETS_SIZE"
    using assms(1,3) by (simp_all add: group_ok_def MAX_TS_PACKETS_SIZE_def)
  show thesis
  proof (cases "ou_handle s")
    case (Udp_Handle u)
    have "output_group (188 * k) e g s = Some (s, [drop (8 * k) g])"
      using assms(4,5) data damage_all_off [of g]
      by (simp add: output_group_def Udp_Handle all_off_def plain_env_def udp_write_sent Let_def)
    then show thesis
      using that Udp_Handle by (simp add: next_handle_def sent_as_def)
  next
    case (Rtp_Handle r)
    obtain pkt where p: "write_rtp_pkt (188 * k) (oe_sei e) (oe_now e) True (oe_stack e) r (drop (8 * k) g) (rd64 (take 8 g))
        = Some (0, r\<lparr>rtp_seq := rtp_seq r + 1, rtp_pkt_cnt := rtp_pkt_cnt r + 1,
                   rtp_octet_cnt := rtp_octet_cnt r + word_of_nat (188 * k)\<rparr>, [pkt])"
      "is_rtp_packet (rtp_seq r) (rtp_ssrc r) (rd64 (take 8 g)) (drop (8 * k) g) pkt"
      using write_rtp_pkt_spec [OF _ len] assms(4) by (metis plain_env_def)
    have "output_group (188 * k) e g s = Some (s\<lparr>ou_handle := next_handle (188 * k) (ou_handle s)\<rparr>, [pkt])"
      using p(1) data ts assms(4) by (simp add: output_group_def Rtp_Handle next_handle_def plain_env_def)
    then show thesis
      using that p(2) Rtp_Handle by (simp add: sent_as_def)
  qed
qed

lemma sent_as_next: "sent_as k (next_handle n h) i g pkt \<longleftrightarrow> sent_as k h (Suc i) g pkt"
  by (cases h) (simp_all add: sent_as_def next_handle_def add.assoc)

lemma queue_adds_ok:
  "queue_ok q \<Longrightarrow> \<not> q_locked q \<Longrightarrow>
    \<exists>q'. queue_adds xs q = Some q' \<and> queue_ok q' \<and> \<not> q_locked q' \<and> queue_list q' = queue_list q @ xs"
proof (induction xs arbitrary: q)
  case (Cons x xs)
  obtain q1 where q1: "add_to_queue True x q = Some (0, q1)" "queue_ok q1" "\<not> q_locked q1" "queue_list q1 = queue_list q @ [x]"
    by (rule add_ok [OF Cons.prems])
  show ?case
    using Cons.IH [OF q1(2,3)] q1(1,4) by auto
qed simp

lemma output_groups_spec:
  assumes k: "0 < k" "k \<le> 16" and env: "\<forall>i. plain_env (env i)"
  shows "list_all (group_ok k) gs \<Longrightarrow> ou_knobs s = all_off \<Longrightarrow> queue_ok (ou_queue s) \<Longrightarrow> \<not> q_locked (ou_queue s) \<Longrightarrow>
    queue_list (ou_queue s) = gs @ rest \<Longrightarrow>
    \<exists>s' out. output_groups (188 * k) env i gs s = Some (s', out) \<and> list_all2 (\<lambda>(j, g). sent_as k (ou_handle s) j g) (enumerate 0 gs) out
      \<and> queue_ok (ou_queue s') \<and> \<not> q_locked (ou_queue s') \<and> ou_knobs s' = all_off
      \<and> queue_list (ou_queue s') = rest @ concat (map (oe_added \<circ> env) [i..<i + length gs])"
proof (induction gs arbitrary: s i rest)
  case (Cons g gs)
  obtain pkt where p: "output_group (188 * k) (env i) g s = Some (s\<lparr>ou_handle := next_handle (188 * k) (ou_handle s)\<rparr>, [pkt])"
      "sent_as k (ou_handle s) 0 g pkt"
    using output_group_spec [OF _ k, of g "env i" s] Cons.prems env by auto
  obtain q1 where q1: "queue_adds (oe_added (env i)) (ou_queue s) = Some q1" "queue_ok q1" "\<not> q_locked q1"
      "queue_list q1 = g # gs @ rest @ oe_added (env i)"
    using queue_adds_ok [OF Cons.prems(3,4), of "oe_added (env i)"] Cons.prems(5) by auto
  obtain q2 where q2: "remove_from_queue True q1 = Some (0, q2)" "queue_ok q2" "\<not> q_locked q2"
      "queue_list q2 = gs @ rest @ oe_added (env i)"
    using remove_ok [OF q1(2,4,3)] by metis
  let ?s = "s\<lparr>ou_handle := next_handle (188 * k) (ou_handle s), ou_queue := q2\<rparr>"
  obtain s' out where ih: "output_groups (188 * k) env (i + 1) gs ?s = Some (s', out)"
      "list_all2 (\<lambda>(j, g). sent_as k (ou_handle ?s) j g) (enumerate 0 gs) out"
      "queue_ok (ou_queue s')" "\<not> q_locked (ou_queue s')" "ou_knobs s' = all_off"
      "queue_list (ou_queue s') = (rest @ oe_added (env i)) @ concat (map (oe_added \<circ> env) [i + 1..<i + 1 + length gs])"
    using Cons.IH [of ?s "rest @ oe_added (env i)" "i + 1"] Cons.prems(1,2) q2 by (auto simp: o_def simp del: upt_Suc)
  have "list_all2 (\<lambda>(j, g). sent_as k (ou_handle s) j g) (enumerate 1 gs) out"
    using ih(2) by (auto simp: list_all2_conv_all_nth nth_enumerate_eq sent_as_next)
  then have "list_all2 (\<lambda>(j, g). sent_as k (ou_handle s) j g) (enumerate 0 (g # gs)) (pkt # out)"
    using p(2) by simp
  moreover have "[i..<i + length (g # gs)] = i # [i + 1..<i + 1 + length gs]"
    by (simp add: upt_rec del: upt_Suc)
  ultimately show ?case
    using p(1) q1(1) q2(1) ih
    by (intro exI [of _ s'] exI [of _ "pkt # out"]) (simp add: o_def del: upt_Suc enumerate_simps)
qed simp


text \<open>C26 A turn of an output sends every packet group that was in its queue once and in order, as a
  datagram with the transport packets of the group, or for RTP as a packet with version 2, payload type
  33, sequence numbers that count up modulo 65536 and the PCR of its first packet in 90 kHz as time stamp.
  What arrives meanwhile stays in the queue.\<close>

theorem output_sends_groups:
  assumes "0 < k" "k \<le> 16" "\<forall>i. plain_env (env i)" "ou_knobs s = all_off"
    and "queue_ok (ou_queue s)" "\<not> q_locked (ou_queue s)" "list_all (group_ok k) (queue_list (ou_queue s))"
  shows "\<exists>s' out. output_turn (188 * k) env s = Some (s', out)
    \<and> list_all2 (\<lambda>(i, g). sent_as k (ou_handle s) i g) (enumerate 0 (queue_list (ou_queue s))) out
    \<and> queue_ok (ou_queue s') \<and> \<not> q_locked (ou_queue s')
    \<and> queue_list (ou_queue s') = concat (map (oe_added \<circ> env) [0..<length (queue_list (ou_queue s))])"
proof -
  have turn: "output_turn (188 * k) env s = output_groups (188 * k) env 0 (queue_list (ou_queue s)) s"
    using assms(6) by (simp add: output_turn_def queue_list_def)
  have q: "queue_list (ou_queue s) = queue_list (ou_queue s) @ []"
    by simp
  obtain s' out where o: "output_groups (188 * k) env 0 (queue_list (ou_queue s)) s = Some (s', out)"
      "list_all2 (\<lambda>(j, g). sent_as k (ou_handle s) j g) (enumerate 0 (queue_list (ou_queue s))) out"
      "queue_ok (ou_queue s')" "\<not> q_locked (ou_queue s')"
      "queue_list (ou_queue s') = [] @ concat (map (oe_added \<circ> env) [0..<0 + length (queue_list (ou_queue s))])"
    using output_groups_spec [OF assms(1-3,7,4-6) q, of 0] by (elim exE conjE)
  show ?thesis
    unfolding turn by (rule exI [of _ s'], rule exI [of _ out]) (use o in simp)
qed

lemma full_chunks_length: "x \<in> set (full_chunks k xs) \<Longrightarrow> length x = k"
proof (induction k xs rule: full_chunks.induct)
  case (2 k xs)
  show ?case
  proof (cases "length xs < Suc k")
    case False
    then have "full_chunks (Suc k) xs = take (Suc k) xs # full_chunks (Suc k) (drop (Suc k) xs)"
      by (simp add: full_chunks_step)
    then show ?thesis
      using 2 False by (auto simp del: full_chunks.simps)
  qed (use 2 in \<open>simp add: full_chunks_short\<close>)
qed simp

text \<open>C25 Between the multiplexer and the network nothing is lost or reordered.  The datagrams an UDP output
  sends for a turn of the mux smoothing, joined, are the transport stream that was in the fifo and the
  queue, up to the last whole group; the rest stays in the fifo.\<close>

theorem smoothed_stream_reaches_network:
  assumes laws: "av_fifo_laws ops c" and p: "0 < sm_packets p" "sm_packets p \<le> 16" "sm_payload p = 188 * sm_packets p"
    and quiet: "\<forall>i. \<not> dropped i" "\<forall>i. 0 \<le> clock i"
    and ok: "ms_ok c ps m" and nd: "\<not> ms_drop m" and new: "0 \<le> ms_num_muxed_data m" "ms_num_muxed_data m < q_size (ms_queue m)"
    and span: "ms_buffer_complete m \<or> ms_spans p (queue_list (ms_queue m))"
    and d: "d = c (ms_fifo_data m) @ concat (map md_data (queue_list (ms_queue m)))" "length d \<le> 10000000"
    and out: "ms_outputs m = [q]" "queue_list q = []"
    and env: "\<forall>i. plain_env (env i)" "ou_handle s = Udp_Handle u" "ou_knobs s = all_off"
  shows "\<exists>m' r s' out. ms_turn ops p dropped clock m = Some (m', r)
    \<and> output_turn (sm_payload p) env (s\<lparr>ou_queue := hd (ms_outputs m')\<rparr>) = Some (s', out)
    \<and> concat out @ c (ms_fifo_data m') = d \<and> length (c (ms_fifo_data m')) < sm_payload p
    \<and> list_all (\<lambda>b. length b = sm_payload p) out"
proof -
  define gs where "gs = ms_groups p (ps @ concat (map md_pcr_list (queue_list (ms_queue m)))) d"
  define mds where "mds = queue_list (ms_queue m)"
  have full: "ms_buffer_complete m \<or> ms_spans p mds" and d': "d = c (ms_fifo_data m) @ concat (map md_data mds)"
    using span d(1) by (simp_all add: mds_def)
  define gs where "gs = ms_groups p (ps @ concat (map md_pcr_list mds)) d"
  obtain m' r where m: "ms_turn ops p dropped clock m = Some (m', r)" "map snd r = map group_bytes gs"
      "concat (map snd gs) @ c (ms_fifo_data m') = d" "length (c (ms_fifo_data m')) < sm_payload p"
      "map queue_list (ms_outputs m') = map (\<lambda>q. queue_list q @ map snd r) (ms_outputs m)"
      "ms_ok c (drop (sm_packets p * length gs) (ps @ concat (map md_pcr_list mds))) m'"
    by (rule ms_turn_sends [OF laws p(1,3) quiet ok nd new mds_def full d' d(2) gs_def])
  obtain q' where q': "ms_outputs m' = [q']" "queue_list q' = map group_bytes gs" "queue_ok q'" "\<not> q_locked q'"
    using m(2,5,6) out by (cases "ms_outputs m'") (auto simp: ms_ok_def)
  have len: "\<forall>g \<in> set gs. length (fst g) = sm_packets p \<and> length (snd g) = sm_payload p"
    unfolding gs_def ms_groups_def by (metis full_chunks_length in_set_zipE prod.collapse)
  have gok: "list_all (group_ok (sm_packets p)) (queue_list q')"
    using len p(3) by (auto simp: q'(2) list_all_iff group_ok_def group_bytes_def)
  obtain s' outs where o: "output_groups (188 * sm_packets p) env 0 (queue_list q') (s\<lparr>ou_queue := q'\<rparr>) = Some (s', outs)"
      "list_all2 (\<lambda>(j, g). sent_as (sm_packets p) (Udp_Handle u) j g) (enumerate 0 (queue_list q')) outs"
    using output_groups_spec [OF p(1,2) env(1) gok, of "s\<lparr>ou_queue := q'\<rparr>" "[]" 0] q' env(2,3) by auto
  have outs: "outs = map snd gs"
  proof (rule nth_equalityI)
    show "length outs = length (map snd gs)"
      using list_all2_lengthD [OF o(2)] by (simp add: q'(2))
    fix i assume i: "i < length outs"
    then have "i < length gs"
      using list_all2_lengthD [OF o(2)] by (simp add: q'(2))
    then show "outs ! i = map snd gs ! i"
      using list_all2_nthD2 [OF o(2) i] len by (simp add: q'(2) nth_enumerate_eq sent_as_def group_bytes_def)
  qed
  have "output_turn (sm_payload p) env (s\<lparr>ou_queue := hd (ms_outputs m')\<rparr>) = Some (s', outs)"
    using o(1) q' p(3) by (simp add: output_turn_def queue_list_def)
  then show ?thesis
    using m(1,3,4) len outs by (intro exI [of _ m'] exI [of _ r] exI [of _ s'] exI [of _ outs]) (auto simp: list_all_iff)
qed


definition example_udp :: udp_ctx where
  "example_udp = \<lparr>uc_hostname = ''239.0.0.1'', uc_port = 1234, uc_ttl = 16, uc_miface = 0, uc_buffer_size = 0,
     uc_reuse_socket = 1, uc_is_connected = False, uc_udp_fd = 5, uc_is_multicast = True, uc_local_port = 4000\<rparr>"

definition example_env :: "nat \<Rightarrow> out_env" where
  "example_env i = \<lparr>oe_sei = 0, oe_now = \<lparr>tv_sec = 0, tv_usec = 0\<rparr>, oe_sent = True, oe_stack = replicate 3020 0, oe_added = []\<rparr>"

lemma example_env_plain: "\<forall>i. plain_env (example_env i)"
  by (simp add: plain_env_def example_env_def MAX_TS_PACKETS_SIZE_def)

theorem output_sends_groups_witness:
  "let s = \<lparr>ou_handle = Rtp_Handle \<lparr>rtp_udp_handle = example_udp, rtp_seq = 65535, rtp_ssrc = 9, rtp_pkt_cnt = 0, rtp_octet_cnt = 0\<rparr>,
            ou_knobs = all_off, ou_queue = zeroed_queue\<lparr>q_buf := [replicate 196 1, replicate 196 2], q_size := 2\<rparr>\<rparr>
   in \<exists>s' out. output_turn 188 example_env s = Some (s', out) \<and> map (drop 12) out = [replicate 188 1, replicate 188 2]
        \<and> bytes_bits (take 12 (out ! 1)) = rtp_header_bits 0 (word_of_int (rd64 (replicate 8 2) sdiv 300)) 9"
proof -
  define h where "h = \<lparr>rtp_udp_handle = example_udp, rtp_seq = 65535, rtp_ssrc = 9, rtp_pkt_cnt = 0, rtp_octet_cnt = 0\<rparr>"
  define s where "s = \<lparr>ou_handle = Rtp_Handle h, ou_knobs = all_off,
    ou_queue = zeroed_queue\<lparr>q_buf := [replicate 196 1, replicate 196 2], q_size := 2\<rparr>\<rparr>"
  have q: "queue_list (ou_queue s) = [replicate 196 1, replicate 196 2]" "queue_ok (ou_queue s)" "\<not> q_locked (ou_queue s)"
    by (simp_all add: s_def queue_list_def queue_ok_def zeroed_queue_def)
  have g: "list_all (group_ok 1) (queue_list (ou_queue s))"
    by (simp add: q group_ok_def)
  obtain s' out where o: "output_turn (188 * 1) example_env s = Some (s', out)"
      "list_all2 (\<lambda>(i, g). sent_as 1 (ou_handle s) i g) (enumerate 0 (queue_list (ou_queue s))) out"
    using output_sends_groups [of 1 example_env s, OF _ _ example_env_plain _ q(2,3) g] by (auto simp: s_def)
  then obtain a b where out: "out = [a, b]" "sent_as 1 (Rtp_Handle h) 0 (replicate 196 1) a" "sent_as 1 (Rtp_Handle h) 1 (replicate 196 2) b"
    unfolding q by (auto simp: list_all2_Cons1 s_def)
  have wrap: "(65536 :: u16) = 0"
    by code_simp
  show ?thesis
    unfolding Let_def h_def [symmetric] s_def [symmetric]
    using o(1) out(2,3) by (intro exI [of _ s'] exI [of _ out]) (simp add: out(1) sent_as_def is_rtp_packet_def h_def wrap)
qed

theorem smoothed_stream_reaches_network_witness:
  "\<exists>m' r s' out. ms_turn list_fifo \<lparr>sm_payload = 188, sm_packets = 1, sm_vbv_size = 5\<rparr> (\<lambda>_. False) (\<lambda>_. 7) example_smoothing = Some (m', r)
     \<and> output_turn 188 example_env \<lparr>ou_handle = Udp_Handle example_udp, ou_knobs = all_off, ou_queue = hd (ms_outputs m')\<rparr> = Some (s', out)
     \<and> concat out @ ms_fifo_data m' = replicate 376 7"
proof -
  let ?p = "\<lparr>sm_payload = 188, sm_packets = 1, sm_vbv_size = 5\<rparr>"
  let ?s = "\<lparr>ou_handle = Udp_Handle example_udp, ou_knobs = all_off, ou_queue = zeroed_queue\<rparr>"
  have laws: "av_fifo_laws list_fifo id"
    by (simp add: av_fifo_laws_def list_fifo_def)
  have q: "queue_list (ms_queue example_smoothing) = [example_muxed]"
    by (simp add: queue_list_def example_smoothing_def)
  have ok: "ms_ok id [] example_smoothing"
    unfolding ms_ok_def q
    by (simp add: md_ok_def example_smoothing_def example_muxed_def queue_ok_def zeroed_queue_def)
  have p: "0 < sm_packets ?p" "sm_packets ?p \<le> 16" "sm_payload ?p = 188 * sm_packets ?p"
      "\<forall>i::nat. \<not> (\<lambda>_. False) i" "\<forall>i::nat. 0 \<le> (\<lambda>_. 7 :: int) i"
    by simp_all
  have e: "\<not> ms_drop example_smoothing" "0 \<le> ms_num_muxed_data example_smoothing"
      "ms_num_muxed_data example_smoothing < q_size (ms_queue example_smoothing)"
      "ms_buffer_complete example_smoothing \<or> ms_spans ?p (queue_list (ms_queue example_smoothing))"
    unfolding q by (simp_all add: example_smoothing_def ms_spans_def example_muxed_def)
  have d: "replicate 376 7 = id (ms_fifo_data example_smoothing) @ concat (map md_data (queue_list (ms_queue example_smoothing)))"
      "length (replicate 376 (7 :: u8)) \<le> 10000000"
    unfolding q by (simp_all add: example_smoothing_def example_muxed_def)
  have o: "ms_outputs example_smoothing = [zeroed_queue]" "queue_list zeroed_queue = []"
      "ou_handle ?s = Udp_Handle example_udp" "ou_knobs ?s = all_off"
    by (simp_all add: example_smoothing_def)
  show ?thesis
    using smoothed_stream_reaches_network [OF laws p ok e d o(1,2) example_env_plain o(3,4)] by auto
qed

section \<open>Sockets\<close>

lemma try_sockets_spec:
  "0 \<notin> set rs \<Longrightarrow> udp_fd < 0 \<Longrightarrow> try_sockets udp_fd [] rs =
     (case find (\<lambda>r. 0 < r) rs of None \<Rightarrow> (last (udp_fd # rs), False, []) | Some r \<Rightarrow> (r, True, [r]))"
proof (induction rs arbitrary: udp_fd)
  case (Cons r rs)
  then show ?case
    by (cases "0 < r") (auto split: option.split)
qed simp

lemma udp_socket_create_spec:
  assumes "\<forall>rs. ue_sockets e (uc_local_port s) = Some rs \<longrightarrow> 0 \<notin> set rs"
  shows "udp_socket_create e s = Some (-1, []) \<or> (\<exists>fd > 0. udp_socket_create e s = Some (fd, [fd]))"
proof (cases "ue_sockets e (uc_local_port s)")
  case (Some rs)
  then have nz: "0 \<notin> set rs"
    using assms by simp
  show ?thesis
  proof (cases "find (\<lambda>r. 0 < r) rs")
    case None
    then have "last (-1 # rs) < 0"
      using nz by (cases rs rule: rev_cases) (auto simp: find_None_iff order.order_iff_strict not_less)
    then show ?thesis
      using Some nz None by (simp add: udp_socket_create_def try_sockets_spec)
  next
    fix r assume "find (\<lambda>r. 0 < r) rs = Some r"
    moreover from this have "0 < r"
      by (auto simp: find_Some_iff)
    ultimately show ?thesis
      using Some nz by (simp add: udp_socket_create_def try_sockets_spec)
  qed
qed (simp add: udp_socket_create_def)

text \<open>C27 Opening an UDP output either gives a handle with its socket or reports an error and leaves no
  socket open, whichever of the calls to the operating system fails, as long as \<open>socket\<close> never returns
  the descriptor 0.\<close>

theorem udp_open_leaves_no_socket:
  assumes "\<forall>rs. ue_sockets e (uo_local_port o') = Some rs \<longrightarrow> 0 \<notin> set rs"
  shows "udp_open e o' = Some (-1, None, [])
    \<or> (\<exists>s fam. udp_open e o' = Some (0, Some s, [uc_udp_fd s]) \<and> 0 < uc_udp_fd s \<and> uc_local_port s = ue_local_port e
        \<and> ue_remote e (take 1024 (uo_hostname o')) (uo_port o') = Some (fam, uc_is_multicast s) \<and> ue_bind e)"
proof (cases "ue_alloc e \<and> ue_remote e (take 1024 (uo_hostname o')) (uo_port o') \<noteq> None")
  case True
  then obtain fam multi where r: "ue_alloc e" "ue_remote e (take 1024 (uo_hostname o')) (uo_port o') = Some (fam, multi)"
    by auto
  define s where "s = \<lparr>uc_hostname = take 1024 (uo_hostname o'), uc_port = uo_port o', uc_ttl = uo_ttl o',
     uc_miface = uo_miface o', uc_buffer_size = uo_buffer_size o', uc_reuse_socket = uo_reuse_socket o',
     uc_is_connected = False, uc_udp_fd = 0, uc_is_multicast = multi, uc_local_port = uo_local_port o'\<rparr>"
  consider "udp_socket_create e s = Some (-1, [])" | fd where "0 < fd" "udp_socket_create e s = Some (fd, [fd])"
    using udp_socket_create_spec [of e s] assms by (auto simp: s_def)
  then show ?thesis
  proof cases
    case 1
    then show ?thesis
      using r by (simp add: udp_open_def s_def)
  next
    case 2
    then show ?thesis
      using r by (auto simp: udp_open_def s_def Let_def)
  qed
qed (auto simp: udp_open_def split: option.split)

theorem udp_open_leaves_no_socket_witness:
  "let e = \<lparr>ue_alloc = True, ue_remote = (\<lambda>_ _. Some (IPV4, True)), ue_sockets = (\<lambda>_. Some [-1, 7]),
            ue_setsockopt = (\<lambda>k _. k \<noteq> MULTICAST_IF), ue_bind = True, ue_local_port = 9, ue_connect = True\<rparr>;
       opts = \<lparr>uo_hostname = ''239.0.0.1'', uo_port = 1234, uo_local_port = 0, uo_reuse_socket = 0, uo_ttl = 0,
               uo_buffer_size = 0, uo_miface = 3\<rparr>
   in udp_open e opts = Some (-1, None, [])"
proof -
  let ?e = "\<lparr>ue_alloc = True, ue_remote = (\<lambda>_ _. Some (IPV4, True)), ue_sockets = (\<lambda>_. Some [-1, 7]),
            ue_setsockopt = (\<lambda>k _. k \<noteq> MULTICAST_IF), ue_bind = True, ue_local_port = 9, ue_connect = True\<rparr>"
  let ?o = "\<lparr>uo_hostname = ''239.0.0.1'', uo_port = 1234, uo_local_port = 0, uo_reuse_socket = 0, uo_ttl = 0,
               uo_buffer_size = 0, uo_miface = 3\<rparr>"
  have "\<not> (\<exists>s. udp_open ?e ?o = Some (0, Some s, [uc_udp_fd s]))"
    by (simp add: udp_open_def udp_socket_create_def udp_set_multicast_opts_def)
  then show ?thesis
    using udp_open_leaves_no_socket [of ?e ?o] by auto
qed

text \<open>The switch for PAT packets: with more of them in a group than the count, it goes below 0 and stays on.\<close>

lemma edit_loop_decreases: "edit_loop sel edit False qs n d = Some (n', d') \<Longrightarrow> n' \<le> n"
proof (induction qs arbitrary: n d)
  case (Cons q qs)
  then show ?case
    by (fastforce simp: bind_eq_Some_conv split: if_splits)
qed simp

lemma pat_switch_stays_on:
  "map_option fst (drop_pat_packets 1 (replicate 1372 0)) = Some (-6)"
  "n < 0 \<Longrightarrow> drop_pat_packets n d = Some (n', d') \<Longrightarrow> n' < 0"
proof -
  show "map_option fst (drop_pat_packets 1 (replicate 1372 0)) = Some (-6)"
    by code_simp
  show "n < 0 \<Longrightarrow> drop_pat_packets n d = Some (n', d') \<Longrightarrow> n' < 0"
    using edit_loop_decreases [of "has_pid 0" lose_pid packet_offsets n d n' d']
    by (auto simp: drop_pat_packets_def split: if_splits)
qed

end
