(* ===== verification/Obe_Ac3.thy ===== *)
theory Obe_Ac3
  imports Obe_Core Obe_Ring Obe_Bitstream
begin

text \<open>
  The AC-3 bitstream encoder: the search for SMPTE 337M bursts in SDI audio, over blocks with timing
  (input/sdi/smpte337_detector2.c) and over the byte ring (input/sdi/smpte337_detector.c), and the thread
  of encoders/audio/ac3bitstream/ac3bitstream.c, which checks the checksums of the frames found and passes
  them to the multiplexer.  Both searches are compared with one scan of the whole stream, the table driven
  checksum with the polynomial behind it.
\<close>

unbundle bit_operations_syntax

section \<open>The checksum of AC-3 frames\<close>

(* src: encoders/audio/ac3bitstream/ac3bitstream.c 42-76 crc_tab *)
definition crc_tab :: "u16 list" where
  "crc_tab =
     [0x0000, 0x8005, 0x800F, 0x000A, 0x801B, 0x001E, 0x0014, 0x8011,
      0x8033, 0x0036, 0x003C, 0x8039, 0x0028, 0x802D, 0x8027, 0x0022,
      0x8063, 0x0066, 0x006C, 0x8069, 0x0078, 0x807D, 0x8077, 0x0072,
      0x0050, 0x8055, 0x805F, 0x005A, 0x804B, 0x004E, 0x0044, 0x8041,
      0x80C3, 0x00C6, 0x00CC, 0x80C9, 0x00D8, 0x80DD, 0x80D7, 0x00D2,
      0x00F0, 0x80F5, 0x80FF, 0x00FA, 0x80EB, 0x00EE, 0x00E4, 0x80E1,
      0x00A0, 0x80A5, 0x80AF, 0x00AA, 0x80BB, 0x00BE, 0x00B4, 0x80B1,
      0x8093, 0x0096, 0x009C, 0x8099, 0x0088, 0x808D, 0x8087, 0x0082,
      0x8183, 0x0186, 0x018C, 0x8189, 0x0198, 0x819D, 0x8197, 0x0192,
      0x01B0, 0x81B5, 0x81BF, 0x01BA, 0x81AB, 0x01AE, 0x01A4, 0x81A1,
      0x01E0, 0x81E5, 0x81EF, 0x01EA, 0x81FB, 0x01FE, 0x01F4, 0x81F1,
      0x81D3, 0x01D6, 0x01DC, 0x81D9, 0x01C8, 0x81CD, 0x81C7, 0x01C2,
      0x0140, 0x8145, 0x814F, 0x014A, 0x815B, 0x015E, 0x0154, 0x8151,
      0x8173, 0x0176, 0x017C, 0x8179, 0x0168, 0x816D, 0x8167, 0x0162,
      0x8123, 0x0126, 0x012C, 0x8129, 0x0138, 0x813D, 0x8137, 0x0132,
      0x0110, 0x8115, 0x811F, 0x011A, 0x810B, 0x010E, 0x0104, 0x8101,
      0x8303, 0x0306, 0x030C, 0x8309, 0x0318, 0x831D, 0x8317, 0x0312,
      0x0330, 0x8335, 0x833F, 0x033A, 0x832B, 0x032E, 0x0324, 0x8321,
      0x0360, 0x8365, 0x836F, 0x036A, 0x837B, 0x037E, 0x0374, 0x8371,
      0x8353, 0x0356, 0x035C, 0x8359, 0x0348, 0x834D, 0x8347, 0x0342,
      0x03C0, 0x83C5, 0x83CF, 0x03CA, 0x83DB, 0x03DE, 0x03D4, 0x83D1,
      0x83F3, 0x03F6, 0x03FC, 0x83F9, 0x03E8, 0x83ED, 0x83E7, 0x03E2,
      0x83A3, 0x03A6, 0x03AC, 0x83A9, 0x03B8, 0x83BD, 0x83B7, 0x03B2,
      0x0390, 0x8395, 0x839F, 0x039A, 0x838B, 0x038E, 0x0384, 0x8381,
      0x0280, 0x8285, 0x828F, 0x028A, 0x829B, 0x029E, 0x0294, 0x8291,
      0x82B3, 0x02B6, 0x02BC, 0x82B9, 0x02A8, 0x82AD, 0x82A7, 0x02A2,
      0x82E3, 0x02E6, 0x02EC, 0x82E9, 0x02F8, 0x82FD, 0x82F7, 0x02F2,
      0x02D0, 0x82D5, 0x82DF, 0x02DA, 0x82CB, 0x02CE, 0x02C4, 0x82C1,
      0x8243, 0x0246, 0x024C, 0x8249, 0x0258, 0x825D, 0x8257, 0x0252,
      0x0270, 0x8275, 0x827F, 0x027A, 0x826B, 0x026E, 0x0264, 0x8261,
      0x0220, 0x8225, 0x822F, 0x022A, 0x823B, 0x023E, 0x0234, 0x8231,
      0x8213, 0x0216, 0x021C, 0x8219, 0x0208, 0x820D, 0x8207, 0x0202]"


text \<open>Words are the 16-bit values as the machine reads them.\<close>

definition crc_byte :: "u16 \<Rightarrow> u8 \<Rightarrow> u16" where
  "crc_byte crc t = push_bit 8 crc XOR crc_tab ! unat (ucast (drop_bit 8 crc) XOR t)"

(* src: encoders/audio/ac3bitstream/ac3bitstream.c 78-89 crc_calc *)
fun crc_calc :: "u16 list \<Rightarrow> nat \<Rightarrow> u16 \<Rightarrow> u16 option" where
  "crc_calc words 0 crc = Some crc"
| "crc_calc [] (Suc n) crc = None"
| "crc_calc (w # words) (Suc n) crc =
     crc_calc words n (crc_byte (crc_byte crc (ucast (drop_bit 8 w))) (ucast w))"

(* src: encoders/audio/ac3bitstream/ac3bitstream.c 92-100 swap_buffer_16b *)
fun swap_buffer_16b :: "bytes \<Rightarrow> nat \<Rightarrow> bytes option" where
  "swap_buffer_16b buf 0 = Some buf"
| "swap_buffer_16b (a # b # buf) (Suc n) = map_option (\<lambda>r. b # a # r) (swap_buffer_16b buf n)"
| "swap_buffer_16b _ (Suc n) = None"

fun words_le :: "bytes \<Rightarrow> u16 list" where
  "words_le (a # b # bs) = (ucast a OR push_bit 8 (ucast b)) # words_le bs"
| "words_le _ = []"

text \<open>The counts are 32-bit; the first word, the synchronisation word, is not part of the checksums.\<close>

(* src: encoders/audio/ac3bitstream/ac3bitstream.c 103-130 validateCRC *)
definition validateCRC :: "bytes \<Rightarrow> nat \<Rightarrow> bool option" where
  "validateCRC buf buflen =
     (let framesize = buflen div 2;
          framesize58 = framesize div 2 + framesize div 8;
          words = drop 1 (words_le buf)
      in do { crc \<leftarrow> crc_calc words (nat ((int framesize58 - 1) mod 2 ^ 32)) 0;
              crc2 \<leftarrow> crc_calc words (nat ((int framesize - 1) mod 2 ^ 32)) 0;
              Some (crc = 0 \<and> crc2 = 0) })"

text \<open>The polynomial behind the table: sixteen bits, generator 0x8005.\<close>

definition crc_shift :: "u16 \<Rightarrow> u16" where
  "crc_shift c = push_bit 1 c XOR (if bit c 15 then 0x8005 else 0)"

fun crc_tab_rows :: "u16 list \<Rightarrow> u16 list \<Rightarrow> bool" where
  "crc_tab_rows (t # ts) (a # b # r) \<longleftrightarrow> a = crc_shift t \<and> b = a XOR 0x8005 \<and> crc_tab_rows ts r"
| "crc_tab_rows _ [] \<longleftrightarrow> True"
| "crc_tab_rows _ _ \<longleftrightarrow> False"

lemma crc_tab_rows: "crc_tab_rows crc_tab crc_tab"
  by (simp add: crc_tab_def crc_shift_def)


lemma crc_tab_rowsD:
  "crc_tab_rows ts r \<Longrightarrow> 2 * i + 1 < length r \<Longrightarrow> r ! (2 * i) = crc_shift (ts ! i) \<and> r ! (2 * i + 1) = r ! (2 * i) XOR 0x8005"
proof (induction ts r arbitrary: i rule: crc_tab_rows.induct)
  case (1 t ts a b r)
  then show ?case
    by (cases i) auto
qed auto

lemma crc_shift_xor: "crc_shift (a XOR b) = crc_shift a XOR crc_shift b"
  by (rule bit_word_eqI) (auto simp: crc_shift_def bit_simps)

lemma xor_cancel: "(a :: u16) XOR b = a XOR c \<Longrightarrow> b = c"
proof -
  assume "a XOR b = a XOR c"
  then have "a XOR (a XOR b) = a XOR (a XOR c)"
    by simp
  then show "b = c"
    by (simp only: xor.assoc [symmetric] xor_self_eq xor.left_neutral)
qed

definition crc8 :: "u16 \<Rightarrow> u16" where
  "crc8 c = (crc_shift ^^ 8) c"

lemma funpow_crc_xor: "(crc_shift ^^ n) (a XOR b) = (crc_shift ^^ n) a XOR (crc_shift ^^ n) b"
  by (induction n) (simp_all add: crc_shift_xor)

lemma crc8_xor: "crc8 (a XOR b) = crc8 a XOR crc8 b"
  by (simp add: crc8_def funpow_crc_xor)

lemma crc_shift_small: "\<not> bit c 15 \<Longrightarrow> crc_shift c = push_bit 1 c"
  by (simp add: crc_shift_def)

lemma funpow_crc_small: "(\<And>i. i < n \<Longrightarrow> \<not> bit c (15 - i)) \<Longrightarrow> n \<le> 16 \<Longrightarrow> (crc_shift ^^ n) c = push_bit n c"
proof (induction n)
  case (Suc n)
  have "(crc_shift ^^ n) c = push_bit n c"
    using Suc by simp
  moreover have "\<not> bit (push_bit n c) 15"
    using Suc.prems(1) [of n] Suc.prems(2) by (simp add: bit_simps)
  ultimately show ?case
    by (simp add: crc_shift_small)
qed simp

lemma funpow_8: "(f ^^ 8) x = f (f (f (f (f (f (f (f x)))))))"
  by (simp add: numeral_eq_Suc)

lemma crc_tab_poly: "n < 256 \<Longrightarrow> crc_tab ! n = crc8 (push_bit 8 (word_of_nat n))"
proof (induction n rule: less_induct)
  case (less n)
  have len: "length crc_tab = 256"
    by (simp add: crc_tab_def)
  show ?case
  proof (cases "n = 0")
    case True
    then show ?thesis
      by (simp add: crc_tab_def crc8_def crc_shift_def numeral_eq_Suc)
  next
    case False
    let ?i = "n div 2"
    let ?c = "push_bit 8 (word_of_nat ?i) :: u16"
    have i: "?i < n" "?i < 128"
      using False less.prems by auto
    have i3: "2 * ?i + 1 < length crc_tab"
      unfolding len using less.prems by presburger
    have row: "crc_tab ! (2 * ?i) = crc_shift (crc8 ?c)" "crc_tab ! (2 * ?i + 1) = crc_shift (crc8 ?c) XOR 0x8005"
      using crc_tab_rowsD [OF crc_tab_rows i3] less.IH [OF i(1)] i(2) by simp_all
    have "\<not> bit ?c 15"
      using uint_lt_bit [OF uint_of_nat_lt [of ?i 7], of 7] i(2) by (auto simp: bit_push_bit_iff)
    then have "crc_shift (crc8 ?c) = crc8 (push_bit 1 ?c)"
      using crc_shift_small [of ?c] by (simp add: crc8_def funpow_swap1)
    also have "push_bit 1 ?c = push_bit 8 (word_of_nat (2 * ?i))"
      by (simp add: push_bit_eq_mult)
    finally have e: "crc_shift (crc8 ?c) = crc8 (push_bit 8 (word_of_nat (2 * ?i)))" .
    show ?thesis
    proof (cases "even n")
      case True
      then show ?thesis
        using row(1) e by simp
    next
      case False
      have "push_bit 8 (word_of_nat (2 * ?i + 1) :: u16) = push_bit 8 (word_of_nat (2 * ?i)) XOR 0x100"
      proof -
        have "word_of_nat (2 * ?i + 1) = (word_of_nat (2 * ?i) XOR 1 :: u16)"
          by (simp add: xor_one_eq)
        then show ?thesis
          by (simp add: push_bit_xor)
      qed
      moreover have "crc8 0x100 = 0x8005"
        by (simp only: crc8_def funpow_8) (simp add: crc_shift_def)
      moreover have "n = 2 * ?i + 1"
        using False by presburger
      ultimately show ?thesis
        using row(2) e crc8_xor [of "push_bit 8 (word_of_nat (2 * ?i))" "0x100"] by metis
    qed
  qed
qed


lemma crc_byte_poly: "crc_byte c t = crc8 (c XOR push_bit 8 (ucast t))"
proof -
  let ?h = "ucast (drop_bit 8 c) XOR t :: u8"
  have "word_of_nat (unat ?h) = (ucast ?h :: u16)"
    by transfer simp
  moreover have "unat ?h < 256"
    using unsigned_less [of ?h] by simp
  ultimately have "crc_byte c t = push_bit 8 c XOR crc8 (push_bit 8 (ucast ?h))"
    by (simp add: crc_byte_def crc_tab_poly)
  also have "push_bit 8 c = crc8 (take_bit 8 c)"
  proof -
    have "crc8 (take_bit 8 c) = push_bit 8 (take_bit 8 c)"
      unfolding crc8_def by (rule funpow_crc_small) (auto simp: bit_simps)
    also have "\<dots> = push_bit 8 c"
      by (rule bit_word_eqI) (auto simp: bit_simps)
    finally show ?thesis ..
  qed
  also have "crc8 (take_bit 8 c) XOR crc8 (push_bit 8 (ucast ?h)) = crc8 (take_bit 8 c XOR push_bit 8 (ucast ?h))"
    by (simp add: crc8_xor)
  also have "take_bit 8 c XOR push_bit 8 (ucast ?h) = c XOR push_bit 8 (ucast t)"
    by (rule bit_word_eqI) (auto simp: bit_simps)
  finally show ?thesis .
qed

definition crc16 :: "u16 \<Rightarrow> u16" where
  "crc16 c = crc8 (crc8 c)"

lemma crc_word_poly: "crc_byte (crc_byte c (ucast (drop_bit 8 w))) (ucast w) = crc16 (c XOR w)"
proof -
  have "push_bit 8 (ucast (ucast w :: u8)) = (crc8 (ucast (ucast w :: u8)) :: u16)"
    unfolding crc8_def by (rule funpow_crc_small [symmetric]) (auto simp: bit_simps)
  then have "crc_byte (crc_byte c (ucast (drop_bit 8 w))) (ucast w)
      = crc8 (crc8 (c XOR push_bit 8 (ucast (ucast (drop_bit 8 w) :: u8)) XOR ucast (ucast w :: u8)))"
    by (simp add: crc_byte_poly crc8_xor xor.assoc)
  also have "c XOR push_bit 8 (ucast (ucast (drop_bit 8 w) :: u8)) XOR ucast (ucast w :: u8) = c XOR w"
    by (rule bit_word_eqI) (auto simp: bit_simps)
  finally show ?thesis
    by (simp add: crc16_def)
qed

text \<open>The remainder of a sequence of words, and its properties.\<close>

fun crc_poly :: "u16 list \<Rightarrow> u16 \<Rightarrow> u16" where
  "crc_poly [] c = c"
| "crc_poly (w # ws) c = crc_poly ws (crc16 (c XOR w))"

lemma crc_calc_poly: "n \<le> length ws \<Longrightarrow> crc_calc ws n c = Some (crc_poly (take n ws) c)"
  by (induction ws n c rule: crc_calc.induct) (simp_all add: crc_word_poly)

lemma crc_calc_overrun: "length ws < n \<Longrightarrow> crc_calc ws n c = None"
  by (induction ws n c rule: crc_calc.induct) simp_all

lemma crc_shift_zero: "crc_shift c = 0 \<Longrightarrow> c = 0"
proof -
  assume z: "crc_shift c = 0"
  have "\<not> bit (push_bit 1 c) 0"
    by (simp only: bit_push_bit_iff) simp
  then have h: "\<not> bit c 15"
    using z bit_xor_iff [of "push_bit 1 c" "0x8005" 0] by (auto simp: crc_shift_def simp del: push_bit_of_1)
  then have "push_bit 1 c = 0"
    using z crc_shift_small by simp
  then have "\<not> bit (push_bit 1 c) (Suc n)" for n
    by simp
  then have "\<not> bit c n" if "n < 15" for n
    using that unfolding bit_push_bit_iff by auto
  then have "\<not> bit c n" if "n < 16" for n
    using that h by (cases "n = 15") auto
  then show "c = 0"
    by (intro bit_word_eqI) simp
qed

lemma crc_shift_inj: "crc_shift a = crc_shift b \<Longrightarrow> a = b"
  using crc_shift_zero [of "a XOR b"] xor_cancel [of a b a] by (simp add: crc_shift_xor)

lemma crc16_inj: "crc16 a = crc16 b \<Longrightarrow> a = b"
proof -
  have "(crc_shift ^^ n) a = (crc_shift ^^ n) b \<Longrightarrow> a = b" for n a b
    by (induction n) (auto dest!: crc_shift_inj)
  then show "crc16 a = crc16 b \<Longrightarrow> a = b"
    unfolding crc16_def crc8_def by (metis)
qed

lemma crc_poly_inj: "crc_poly ws c = crc_poly ws c' \<Longrightarrow> c = c'"
proof (induction ws arbitrary: c c')
  case (Cons w ws)
  have "crc16 (c XOR w) = crc16 (c' XOR w)"
    by (rule Cons.IH) (use Cons.prems in simp)
  then have "w XOR c = w XOR c'"
    using crc16_inj by (simp add: xor.commute)
  then show ?case
    by (rule xor_cancel)
qed simp

lemma crc_poly_append: "crc_poly (xs @ ys) c = crc_poly ys (crc_poly xs c)"
  by (induction xs arbitrary: c) simp_all

text \<open>Replacing one word changes the remainder.\<close>

lemma crc_poly_update:
  assumes "k < length ws" "v \<noteq> ws ! k"
  shows "crc_poly (ws[k := v]) c \<noteq> crc_poly ws c"
proof
  assume e: "crc_poly (ws[k := v]) c = crc_poly ws c"
  let ?c = "crc_poly (take k ws) c"
  have "ws[k := v] = take k ws @ v # drop (Suc k) ws" "ws = take k ws @ ws ! k # drop (Suc k) ws"
    using assms(1) by (simp_all add: list_update_take id_take_nth_drop)
  then have "crc_poly (drop (Suc k) ws) (crc16 (?c XOR v)) = crc_poly (drop (Suc k) ws) (crc16 (?c XOR ws ! k))"
    using e by (metis crc_poly.simps(2) crc_poly_append)
  then have "?c XOR v = ?c XOR ws ! k"
    using crc_poly_inj crc16_inj by blast
  then show False
    using assms(2) xor_cancel by blast
qed


section \<open>Looking for bursts\<close>

text \<open>
  The detector of the encoder keeps the audio it was given as a list of blocks, each with its timing and
  the position up to which it has been read.
\<close>

(* src: input/sdi/smpte337_detector2.c 36-45 smpte337_detector2_item_s *)
record sm_item =
  it_avfm :: avfm
  it_data :: bytes
  it_readpos :: nat

(* src: input/sdi/smpte337_detector2.h 50-58 smpte337_detector2_s *)
record detector2 =
  d2_items :: "sm_item list"
  d2_total :: int

(* src: input/sdi/smpte337_detector2.c 185-198 smpte337_detector2_alloc *)
definition smpte337_detector2_alloc :: "bool \<Rightarrow> detector2 option" where
  "smpte337_detector2_alloc ok = (if ok then Some \<lparr>d2_items = [], d2_total = 0\<rparr> else None)"

text \<open>Freeing the list leaves the byte count as it is.\<close>

(* src: input/sdi/smpte337_detector2.c 80-91 _list_empty *)
definition list_empty :: "detector2 \<Rightarrow> detector2" where
  "list_empty ctx = ctx\<lparr>d2_items := []\<rparr>"

text \<open>The bytes read, the timing of the first block, and the blocks and the bytes to subtract afterwards.\<close>

(* src: input/sdi/smpte337_detector2.c 104-156 _list_peek *)
fun peek_items :: "nat \<Rightarrow> bool \<Rightarrow> sm_item list \<Rightarrow> bytes \<times> (avfm \<times> nat) option \<times> sm_item list \<times> nat" where
  "peek_items n upd [] = ([], None, [], 0)"
| "peek_items n upd (e # es) =
     (let rem = length (it_data e) - it_readpos e;
          timing = Some (it_avfm e, it_readpos e)
      in if n \<le> rem
         then (take n (drop (it_readpos e) (it_data e)), timing,
               if \<not> upd then e # es
               else if it_readpos e + n = length (it_data e) then es
               else e\<lparr>it_readpos := it_readpos e + n\<rparr> # es, n)
         else (case peek_items (n - rem) upd es of
                 (bs, _, es', d) \<Rightarrow>
                   (drop (it_readpos e) (it_data e) @ bs, timing, if upd then es' else e # es', rem + d)))"

(* src: input/sdi/smpte337_detector2.c 93-160 _list_peek *)
definition list_peek :: "detector2 \<Rightarrow> nat \<Rightarrow> bool \<Rightarrow> (bytes \<times> (avfm \<times> nat) option \<times> detector2) option" where
  "list_peek ctx byteCount upd =
     (case peek_items byteCount upd (d2_items ctx) of
        (bs, timing, es, d) \<Rightarrow>
          if \<not> upd then Some (bs, timing, ctx)
          else if d2_total ctx - int d < 0 then None
          else Some (bs, timing, ctx\<lparr>d2_items := es, d2_total := d2_total ctx - int d\<rparr>))"

(* src: input/sdi/smpte337_detector2.c 162-172 _list_read_alloc *)
definition list_read_alloc :: "bool \<Rightarrow> detector2 \<Rightarrow> nat \<Rightarrow> (bytes \<times> (avfm \<times> nat) option \<times> detector2) option" where
  "list_read_alloc ok ctx byteCount = (if ok then list_peek ctx byteCount True else Some ([], None, ctx))"

(* src: input/sdi/smpte337_detector2.c 175-183 _list_discard *)
definition list_discard :: "detector2 \<Rightarrow> nat \<Rightarrow> detector2 option" where
  "list_discard ctx byteCount =
     (if 128 < byteCount then None else map_option (\<lambda>(_, _, ctx). ctx) (list_peek ctx byteCount True))"

text \<open>What the callback gets.\<close>

record burst =
  bu_datamode :: u8
  bu_datatype :: u8
  bu_bits :: nat
  bu_payload :: bytes

definition is_sync :: "bytes \<Rightarrow> bool" where
  "is_sync dat \<longleftrightarrow> dat ! 0 = 0xF8 \<and> dat ! 1 = 0x72 \<and> dat ! 2 = 0x4e \<and> dat ! 3 = 0x1f"

definition is_ac3 :: "bytes \<Rightarrow> bool" where
  "is_ac3 dat \<longleftrightarrow> dat ! 5 AND 0x1f = 0x01"

definition burst_bits :: "bytes \<Rightarrow> nat" where
  "burst_bits dat = unat (dat ! 6) * 256 + unat (dat ! 7)"

definition make_burst :: "bytes \<Rightarrow> bytes \<Rightarrow> burst" where
  "make_burst dat payload = \<lparr>bu_datamode = drop_bit 5 (dat ! 5) AND 0x03, bu_datatype = dat ! 5 AND 0x1f,
     bu_bits = burst_bits dat, bu_payload = payload\<rparr>"

text \<open>
  One pass of the loop: it stops, or goes on with a burst or without.  \<open>rescale\<close> is libavutil's
  conversion from samples to the 27 MHz clock.
\<close>

datatype 's det_step = Det_Stop | Det_Next 's "(burst \<times> avfm) option"

(* src: input/sdi/smpte337_detector2.c 281-350 run_detector *)
definition detector2_step :: "(int \<Rightarrow> int) \<Rightarrow> bool \<Rightarrow> detector2 \<Rightarrow> detector2 det_step option" where
  "detector2_step rescale ok ctx =
     (if d2_total ctx < 16 then Some Det_Stop
      else do {
        (dat, _, _) \<leftarrow> list_peek ctx 16 False;
        if length dat < 16 then Some Det_Stop
        else if is_sync dat \<and> is_ac3 dat
        then
          let n = burst_bits dat div 8
          in if int (8 + n) \<le> d2_total ctx
             then do {
               (payload, timing, ctx) \<leftarrow> list_read_alloc ok ctx (8 + n);
               if length payload \<noteq> 8 + n then Some (Det_Next (list_empty ctx) None)
               else do {
                 (avfm, readpos) \<leftarrow> timing;
                 let pts = rescale (int readpos div 4);
                 let avfm = avfm_set_pts_audio_corrected avfm (av_audio_pts avfm + pts);
                 Some (Det_Next ctx (Some (make_burst dat (drop 8 payload), avfm))) } }
             else Some Det_Stop
        else map_option (\<lambda>ctx. Det_Next ctx None) (list_discard ctx 1) })"

text \<open>The bytes the blocks still hold; every pass that goes on takes at least one of them.\<close>

definition item_bytes :: "sm_item \<Rightarrow> bytes" where
  "item_bytes e = drop (it_readpos e) (it_data e)"

definition det2_bytes :: "detector2 \<Rightarrow> bytes" where
  "det2_bytes ctx = concat (map item_bytes (d2_items ctx))"

lemma peek_items_over:
  assumes "length (item_bytes e) < n" "peek_items (n - length (item_bytes e)) upd es = (bs, t, es', d)"
  shows "peek_items n upd (e # es) = (item_bytes e @ bs, Some (it_avfm e, it_readpos e),
    if upd then es' else e # es', length (item_bytes e) + d)"
  using assms by (simp add: item_bytes_def)

lemma peek_items_inside:
  assumes "n \<le> length (item_bytes e)"
  shows "peek_items n upd (e # es) = (take n (item_bytes e), Some (it_avfm e, it_readpos e),
    if \<not> upd then e # es else if it_readpos e + n = length (it_data e) then es
    else e\<lparr>it_readpos := it_readpos e + n\<rparr> # es, n)"
  using assms by (simp add: item_bytes_def)

lemma peek_items_spec:
  "peek_items n upd es = (bs, t, es', d) \<Longrightarrow>
    bs = take n (concat (map item_bytes es)) \<and> d = length bs \<and> (t = None \<longleftrightarrow> es = [])
    \<and> (upd \<longrightarrow> concat (map item_bytes es') = drop n (concat (map item_bytes es)))"
proof (induction es arbitrary: n bs t es' d)
  case (Cons e es)
  show ?case
  proof (cases "n \<le> length (item_bytes e)")
    case True
    have "item_bytes (e\<lparr>it_readpos := it_readpos e + n\<rparr>) = drop n (item_bytes e)"
      by (simp add: item_bytes_def add.commute)
    moreover have "it_readpos e + n = length (it_data e) \<Longrightarrow> drop n (item_bytes e) = []"
      by (simp add: item_bytes_def)
    ultimately show ?thesis
      using Cons.prems True unfolding peek_items_inside [OF True] by (auto split: if_splits)
  next
    case False
    obtain b1 t1 e1 d1 where r: "peek_items (n - length (item_bytes e)) upd es = (b1, t1, e1, d1)"
      by (metis prod_cases4)
    have "length (item_bytes e) < n"
      using False by simp
    note eq = peek_items_over [OF this r]
    show ?thesis
      using Cons.prems Cons.IH [OF r] False unfolding eq by (auto split: if_splits)
  qed
qed auto

lemma list_peek_keep:
  obtains t where "list_peek ctx n False = Some (take n (det2_bytes ctx), t, ctx)" "t = None \<longleftrightarrow> d2_items ctx = []"
proof -
  obtain bs t es d where r: "peek_items n False (d2_items ctx) = (bs, t, es, d)"
    by (metis prod_cases4)
  then show thesis
    using that [of t] peek_items_spec [OF r] by (simp add: list_peek_def det2_bytes_def)
qed

lemma list_peek_take:
  assumes "list_peek ctx n True = Some (bs, t, ctx')"
  shows "bs = take n (det2_bytes ctx)" "det2_bytes ctx' = drop n (det2_bytes ctx)"
    "d2_total ctx' = d2_total ctx - int (length bs)" "t = None \<longleftrightarrow> d2_items ctx = []"
proof -
  obtain b u es d where r: "peek_items n True (d2_items ctx) = (b, u, es, d)"
    by (metis prod_cases4)
  show "bs = take n (det2_bytes ctx)" "det2_bytes ctx' = drop n (det2_bytes ctx)"
    "d2_total ctx' = d2_total ctx - int (length bs)" "t = None \<longleftrightarrow> d2_items ctx = []"
    using assms peek_items_spec [OF r] r by (auto simp: list_peek_def det2_bytes_def split: if_splits)
qed

lemma list_peek_total:
  assumes "d2_total ctx = int (length (det2_bytes ctx))"
  obtains t ctx' where "list_peek ctx n True = Some (take n (det2_bytes ctx), t, ctx')"
    "det2_bytes ctx' = drop n (det2_bytes ctx)" "d2_total ctx' = int (length (det2_bytes ctx'))" "t = None \<longleftrightarrow> d2_items ctx = []"
proof -
  obtain b u es d where r: "peek_items n True (d2_items ctx) = (b, u, es, d)"
    by (metis prod_cases4)
  show thesis
    by (rule that [of u "ctx\<lparr>d2_items := es, d2_total := d2_total ctx - int d\<rparr>"])
      (use assms peek_items_spec [OF r] r in \<open>auto simp: list_peek_def det2_bytes_def\<close>)
qed

lemma detector2_step_left:
  assumes "detector2_step rescale ok ctx = Some (Det_Next ctx' b)"
  shows "length (det2_bytes ctx') < length (det2_bytes ctx)"
proof -
  let ?dat = "take 16 (det2_bytes ctx)"
  obtain t where p: "list_peek ctx 16 False = Some (?dat, t, ctx)"
    using list_peek_keep by blast
  have len: "16 \<le> length (det2_bytes ctx)"
    using assms p by (auto simp: detector2_step_def split: if_splits)
  show ?thesis
  proof (cases "is_sync ?dat \<and> is_ac3 ?dat")
    case False
    then obtain bs t where "list_peek ctx 1 True = Some (bs, t, ctx')"
      using assms p len by (auto simp: detector2_step_def list_discard_def split: if_splits)
    then show ?thesis
      using list_peek_take(2) [of ctx 1 bs t ctx'] len by simp
  next
    case True
    let ?n = "8 + burst_bits ?dat div 8"
    obtain payload t1 c1 where r: "list_read_alloc ok ctx ?n = Some (payload, t1, c1)"
        "ctx' = list_empty c1 \<or> ctx' = c1 \<and> length payload = ?n"
      using assms p len True by (auto simp: detector2_step_def Let_def split: if_splits Option.bind_splits)
    show ?thesis
    proof (cases "ctx' = list_empty c1")
      case True
      then have "det2_bytes ctx' = []"
        by (simp add: list_empty_def det2_bytes_def)
      then show ?thesis
        using len by (metis gr_zeroI list.size(3) not_numeral_le_zero)
    next
      case False
      then have "ok" "length payload = ?n" "ctx' = c1" "list_peek ctx ?n True = Some (payload, t1, c1)"
        using r by (auto simp: list_read_alloc_def split: if_splits)
      then show ?thesis
        using list_peek_take(2) [of ctx ?n payload t1 c1] len by simp
    qed
  qed
qed

text \<open>The loop ends, whatever the state of the counters.\<close>

(* src: input/sdi/smpte337_detector2.c 270-353 run_detector *)
function run_detector2 :: "(int \<Rightarrow> int) \<Rightarrow> bool \<Rightarrow> detector2 \<Rightarrow> (detector2 \<times> (burst \<times> avfm) list) option" where
  "run_detector2 rescale ok ctx =
     (case detector2_step rescale ok ctx of
        None \<Rightarrow> None
      | Some Det_Stop \<Rightarrow> Some (ctx, [])
      | Some (Det_Next ctx' b) \<Rightarrow>
          map_option (\<lambda>(ctx', bs). (ctx', (case b of None \<Rightarrow> bs | Some x \<Rightarrow> x # bs))) (run_detector2 rescale ok ctx'))"
  by pat_completeness auto
termination
  by (relation "measure (\<lambda>(_, _, ctx). length (det2_bytes ctx))") (auto dest: detector2_step_left)


text \<open>The audio samples: the two upper bytes of each 32-bit word of the channels looked at, highest first.\<close>

(* src: input/sdi/smpte337_detector2.c 242-266 smpte337_detector2_write_32b *)
definition upper_bytes :: "bytes \<Rightarrow> nat \<Rightarrow> nat \<Rightarrow> nat \<Rightarrow> bytes option" where
  "upper_bytes buf audioFrames frameStrideBytes spanCount =
     map_option concat (those (map (\<lambda>x. do { a \<leftarrow> at buf (x + 3); b \<leftarrow> at buf (x + 2); Some [a, b] })
       (concat (map (\<lambda>i. map (\<lambda>k. i * (frameStrideBytes div 4 * 4) + k * 4) [0..<spanCount]) [0..<audioFrames]))))"

(* src: input/sdi/smpte337_detector2.c 233-268 smpte337_detector2_write_32b *)
definition smpte337_detector2_write_32b ::
    "sm_item \<Rightarrow> bytes \<Rightarrow> nat \<Rightarrow> nat \<Rightarrow> nat \<Rightarrow> (nat \<times> sm_item) option" where
  "smpte337_detector2_write_32b item buf audioFrames frameStrideBytes spanCount =
     do { bs \<leftarrow> upper_bytes buf audioFrames frameStrideBytes spanCount;
          if 16384 < length (it_data item) + length bs then None
          else Some (length bs, item\<lparr>it_data := it_data item @ bs\<rparr>) }"

text \<open>A block that cannot be allocated is written to all the same.  Samples of 16 bits add an empty block.\<close>

(* src: input/sdi/smpte337_detector2.c 355-394 smpte337_detector2_write *)
definition smpte337_detector2_write ::
    "(int \<Rightarrow> int) \<Rightarrow> bool \<Rightarrow> bool \<Rightarrow> detector2 \<Rightarrow> bytes option \<Rightarrow> nat \<Rightarrow> nat \<Rightarrow> nat \<Rightarrow> nat \<Rightarrow> nat \<Rightarrow> avfm
     \<Rightarrow> (nat \<times> detector2 \<times> (burst \<times> avfm) list) option" where
  "smpte337_detector2_write rescale ok1 ok2 ctx buf audioFrames sampleDepth channelsPerFrame frameStrideBytes spanCount avfm =
     (case buf of
        None \<Rightarrow> Some (0, ctx, [])
      | Some mem \<Rightarrow>
          if audioFrames = 0 \<or> channelsPerFrame = 0 \<or> frameStrideBytes = 0 \<or> sampleDepth \<noteq> 16 \<and> sampleDepth \<noteq> 32
             \<or> spanCount = 0 \<or> channelsPerFrame < spanCount
          then Some (0, ctx, [])
          else if \<not> ok1 then None
          else do {
            let item = \<lparr>it_avfm = avfm, it_data = [], it_readpos = 0\<rparr>;
            (r, item) \<leftarrow> (if sampleDepth = 32 then smpte337_detector2_write_32b item mem audioFrames frameStrideBytes spanCount
                          else Some (0, item));
            let ctx = ctx\<lparr>d2_items := d2_items ctx @ [item], d2_total := d2_total ctx + int (length (it_data item))\<rparr>;
            (ctx, bs) \<leftarrow> run_detector2 rescale ok2 ctx;
            Some (r, ctx, bs) })"

section \<open>The bursts of a stream\<close>

text \<open>The reference: a scan of the whole stream, which also gives the bytes left over.\<close>

function scan_bursts :: "bytes \<Rightarrow> burst list \<times> bytes" where
  "scan_bursts bs =
     (if length bs < 16 then ([], bs)
      else if is_sync bs \<and> is_ac3 bs
      then let n = burst_bits bs div 8
           in if 8 + n \<le> length bs
              then (case scan_bursts (drop (8 + n) bs) of
                      (r, rest) \<Rightarrow> (make_burst bs (take n (drop 8 bs)) # r, rest))
              else ([], bs)
      else scan_bursts (drop 1 bs))"
  by pat_completeness auto
termination
  by (relation "measure length") auto

declare scan_bursts.simps [simp del] run_detector2.simps [simp del]

lemma scan_bursts_short: "length bs < 16 \<Longrightarrow> scan_bursts bs = ([], bs)"
  by (simp add: scan_bursts.simps)

lemma scan_bursts_skip:
  "16 \<le> length bs \<Longrightarrow> \<not> (is_sync bs \<and> is_ac3 bs) \<Longrightarrow> scan_bursts bs = scan_bursts (drop 1 bs)"
  by (subst scan_bursts.simps) auto

lemma scan_bursts_burst:
  "16 \<le> length bs \<Longrightarrow> is_sync bs \<and> is_ac3 bs \<Longrightarrow> n = burst_bits bs div 8 \<Longrightarrow> 8 + n \<le> length bs \<Longrightarrow>
    scan_bursts bs = (make_burst bs (take n (drop 8 bs)) # fst (scan_bursts (drop (8 + n) bs)), snd (scan_bursts (drop (8 + n) bs)))"
  by (subst scan_bursts.simps) (simp add: Let_def split: prod.split)

lemma scan_bursts_wait:
  "16 \<le> length bs \<Longrightarrow> is_sync bs \<and> is_ac3 bs \<Longrightarrow> length bs < 8 + burst_bits bs div 8 \<Longrightarrow> scan_bursts bs = ([], bs)"
  by (subst scan_bursts.simps) (simp add: Let_def)

lemma take16_header [simp]:
  "16 \<le> length bs \<Longrightarrow> is_sync (take 16 bs) = is_sync bs" "16 \<le> length bs \<Longrightarrow> is_ac3 (take 16 bs) = is_ac3 bs"
  "16 \<le> length bs \<Longrightarrow> burst_bits (take 16 bs) = burst_bits bs"
  "16 \<le> length bs \<Longrightarrow> make_burst (take 16 bs) p = make_burst bs p"
  by (simp_all add: is_sync_def is_ac3_def burst_bits_def make_burst_def)

definition det2_ok :: "detector2 \<Rightarrow> bool" where
  "det2_ok ctx \<longleftrightarrow> d2_total ctx = int (length (det2_bytes ctx))"

lemma detector2_step_spec:
  assumes "det2_ok ctx"
  shows "length (det2_bytes ctx) < 16 \<Longrightarrow> detector2_step rescale True ctx = Some Det_Stop"
    "16 \<le> length (det2_bytes ctx) \<Longrightarrow> \<not> (is_sync (det2_bytes ctx) \<and> is_ac3 (det2_bytes ctx)) \<Longrightarrow>
      \<exists>ctx'. detector2_step rescale True ctx = Some (Det_Next ctx' None) \<and> det2_ok ctx' \<and> det2_bytes ctx' = drop 1 (det2_bytes ctx)"
    "16 \<le> length (det2_bytes ctx) \<Longrightarrow> is_sync (det2_bytes ctx) \<and> is_ac3 (det2_bytes ctx) \<Longrightarrow>
      n = burst_bits (det2_bytes ctx) div 8 \<Longrightarrow>
      (if 8 + n \<le> length (det2_bytes ctx)
       then \<exists>ctx' avfm. detector2_step rescale True ctx
                = Some (Det_Next ctx' (Some (make_burst (det2_bytes ctx) (take n (drop 8 (det2_bytes ctx))), avfm)))
              \<and> det2_ok ctx' \<and> det2_bytes ctx' = drop (8 + n) (det2_bytes ctx)
       else detector2_step rescale True ctx = Some Det_Stop)"
proof -
  let ?bs = "det2_bytes ctx"
  have tot: "d2_total ctx = int (length ?bs)"
    using assms by (simp add: det2_ok_def)
  obtain t where p: "list_peek ctx 16 False = Some (take 16 ?bs, t, ctx)"
    using list_peek_keep by blast
  show "length ?bs < 16 \<Longrightarrow> detector2_step rescale True ctx = Some Det_Stop"
    using tot by (simp add: detector2_step_def)
  obtain t1 c1 where d1: "list_peek ctx 1 True = Some (take 1 ?bs, t1, c1)" "det2_bytes c1 = drop 1 ?bs" "det2_ok c1"
    using list_peek_total [OF tot, of 1] unfolding det2_ok_def by metis
  show "\<exists>ctx'. detector2_step rescale True ctx = Some (Det_Next ctx' None) \<and> det2_ok ctx' \<and> det2_bytes ctx' = drop 1 ?bs"
    if "16 \<le> length ?bs" "\<not> (is_sync ?bs \<and> is_ac3 ?bs)"
    by (cases "is_sync ?bs"; rule exI [of _ c1]) (use that tot p d1 in \<open>simp_all add: detector2_step_def list_discard_def\<close>)
  assume h: "16 \<le> length ?bs" "is_sync ?bs \<and> is_ac3 ?bs" "n = burst_bits ?bs div 8"
  obtain t2 c2 where d2: "list_peek ctx (8 + n) True = Some (take (8 + n) ?bs, t2, c2)" "det2_bytes c2 = drop (8 + n) ?bs"
      "det2_ok c2" "t2 = None \<longleftrightarrow> d2_items ctx = []"
    using list_peek_total [OF tot, of "8 + n"] unfolding det2_ok_def by metis
  have "d2_items ctx \<noteq> []"
    using h(1) by (auto simp: det2_bytes_def)
  then obtain avfm readpos where t2: "t2 = Some (avfm, readpos)"
    using d2(4) by (cases t2) auto
  show "if 8 + n \<le> length ?bs
       then \<exists>ctx' avfm. detector2_step rescale True ctx = Some (Det_Next ctx' (Some (make_burst ?bs (take n (drop 8 ?bs)), avfm)))
              \<and> det2_ok ctx' \<and> det2_bytes ctx' = drop (8 + n) ?bs
       else detector2_step rescale True ctx = Some Det_Stop"
  proof (cases "8 + n \<le> length ?bs")
    case True
    have "detector2_step rescale True ctx = Some (Det_Next c2 (Some (make_burst ?bs (take n (drop 8 ?bs)),
        avfm_set_pts_audio_corrected avfm (av_audio_pts avfm + rescale (int readpos div 4)))))"
      using True h tot p d2(1) t2 by (simp add: detector2_step_def list_read_alloc_def Let_def drop_take)
    then show ?thesis
      using True d2(2,3) by auto
  next
    case False
    then show ?thesis
      using h tot p by (simp add: detector2_step_def Let_def)
  qed
qed

lemma run_detector2_scan:
  "det2_ok ctx \<Longrightarrow> \<exists>ctx' bs. run_detector2 rescale True ctx = Some (ctx', bs) \<and> det2_ok ctx'
     \<and> map fst bs = fst (scan_bursts (det2_bytes ctx)) \<and> det2_bytes ctx' = snd (scan_bursts (det2_bytes ctx))"
proof (induction "length (det2_bytes ctx)" arbitrary: ctx rule: less_induct)
  case less
  let ?bs = "det2_bytes ctx"
  note step = detector2_step_spec [OF less.prems, where rescale = rescale]
  show ?case
  proof (cases "length ?bs < 16")
    case True
    then show ?thesis
      using step(1) less.prems by (simp add: run_detector2.simps scan_bursts.simps)
  next
    case long: False
    show ?thesis
    proof (cases "is_sync ?bs \<and> is_ac3 ?bs")
      case False
      obtain c where c: "detector2_step rescale True ctx = Some (Det_Next c None)" "det2_ok c" "det2_bytes c = drop 1 ?bs"
        using step(2) long False by auto
      have lt: "length (det2_bytes c) < length ?bs"
        unfolding c(3) length_drop using long by linarith
      obtain c' bs where ih: "run_detector2 rescale True c = Some (c', bs)" "det2_ok c'"
          "map fst bs = fst (scan_bursts (drop 1 ?bs))" "det2_bytes c' = snd (scan_bursts (drop 1 ?bs))"
        using less.hyps [OF lt c(2)] unfolding c(3) by blast
      then show ?thesis
        using c(1) long scan_bursts_skip [OF _ False] by (simp add: run_detector2.simps [of _ _ ctx])
    next
      case True
      define n where "n = burst_bits ?bs div 8"
      show ?thesis
      proof (cases "8 + n \<le> length ?bs")
        case False
        then show ?thesis
          using step(3) [OF _ True n_def] long less.prems True
          by (simp add: run_detector2.simps [of _ _ ctx] scan_bursts_wait n_def)
      next
        case fit: True
        obtain c avfm where c: "detector2_step rescale True ctx
              = Some (Det_Next c (Some (make_burst ?bs (take n (drop 8 ?bs)), avfm)))" "det2_ok c" "det2_bytes c = drop (8 + n) ?bs"
          using step(3) [OF _ True n_def] long fit by auto
        have lt: "length (det2_bytes c) < length ?bs"
          using c(3) long by simp
        obtain c' bs where ih: "run_detector2 rescale True c = Some (c', bs)" "det2_ok c'"
            "map fst bs = fst (scan_bursts (drop (8 + n) ?bs))" "det2_bytes c' = snd (scan_bursts (drop (8 + n) ?bs))"
          using less.hyps [OF lt c(2)] unfolding c(3) by blast
        then show ?thesis
          using c(1) long scan_bursts_burst [OF _ True n_def fit]
          by (simp add: run_detector2.simps [of _ _ ctx])
      qed
    qed
  qed
qed


text \<open>Scanning in pieces, with the rest of one piece in front of the next, finds the same bursts.\<close>

lemma header_append [simp]:
  "16 \<le> length bs \<Longrightarrow> is_sync (bs @ cs) = is_sync bs" "16 \<le> length bs \<Longrightarrow> is_ac3 (bs @ cs) = is_ac3 bs"
  "16 \<le> length bs \<Longrightarrow> burst_bits (bs @ cs) = burst_bits bs" "16 \<le> length bs \<Longrightarrow> make_burst (bs @ cs) p = make_burst bs p"
  by (auto simp: is_sync_def is_ac3_def burst_bits_def make_burst_def nth_append)

lemma scan_bursts_pieces:
  "scan_bursts (bs @ cs) = (fst (scan_bursts bs) @ fst (scan_bursts (snd (scan_bursts bs) @ cs)),
     snd (scan_bursts (snd (scan_bursts bs) @ cs)))"
proof (induction "length bs" arbitrary: bs rule: less_induct)
  case less
  show ?case
  proof (cases "length bs < 16")
    case True
    then show ?thesis
      by (simp add: scan_bursts_short [of bs])
  next
    case long: False
    then have l: "16 \<le> length bs"
      by simp
    show ?thesis
    proof (cases "is_sync bs \<and> is_ac3 bs")
      case False
      have "drop 1 (bs @ cs) = drop 1 bs @ cs"
        using l by simp
      moreover have "length (drop 1 bs) < length bs"
        unfolding length_drop using l by linarith
      ultimately show ?thesis
        using less.hyps [of "drop 1 bs"] scan_bursts_skip [OF l False] scan_bursts_skip [of "bs @ cs"] l False by simp
    next
      case True
      define n where "n = burst_bits bs div 8"
      show ?thesis
      proof (cases "8 + n \<le> length bs")
        case False
        then show ?thesis
          using scan_bursts_wait [OF l True] by (simp add: n_def)
      next
        case fit: True
        have "length (drop (8 + n) bs) < length bs"
          using l by simp
        note ih = less.hyps [OF this]
        have "scan_bursts (bs @ cs) = (make_burst bs (take n (drop 8 bs)) # fst (scan_bursts (drop (8 + n) bs @ cs)),
            snd (scan_bursts (drop (8 + n) bs @ cs)))"
          using scan_bursts_burst [of "bs @ cs" n] l True fit by (simp add: n_def)
        then show ?thesis
          using ih scan_bursts_burst [OF l True n_def fit] by simp
      qed
    qed
  qed
qed

lemma burst_bits_le: "burst_bits bs div 8 \<le> 8191"
proof -
  have "burst_bits bs < 65536"
    using unsigned_less [of "bs ! 6", where 'a = nat] unsigned_less [of "bs ! 7", where 'a = nat] by (simp add: burst_bits_def)
  then show ?thesis
    by simp
qed

lemma scan_bursts_rest: "length (snd (scan_bursts bs)) \<le> 8198"
proof (induction "length bs" arbitrary: bs rule: less_induct)
  case less
  show ?case
  proof (cases "length bs < 16")
    case False
    then have l: "16 \<le> length bs"
      by simp
    show ?thesis
    proof (cases "is_sync bs \<and> is_ac3 bs")
      case False
      have "length (drop 1 bs) < length bs"
        unfolding length_drop using l by linarith
      then show ?thesis
        using less.hyps [of "drop 1 bs"] scan_bursts_skip [OF l False] by simp
    next
      case True
      define n where "n = burst_bits bs div 8"
      show ?thesis
      proof (cases "8 + n \<le> length bs")
        case False
        then show ?thesis
          using scan_bursts_wait [OF l True] burst_bits_le [of bs] by (simp add: n_def)
      next
        case fit: True
        have "length (drop (8 + n) bs) < length bs"
          using l by simp
        then show ?thesis
          using less.hyps [of "drop (8 + n) bs"] scan_bursts_burst [OF l True n_def fit] by simp
      qed
    qed
  qed (simp add: scan_bursts_short)
qed


section \<open>When the bursts began\<close>

text \<open>
  Where the bytes of the list come from: for each the timing of the block it arrived with and its
  position in the block.
\<close>

definition item_origins :: "sm_item \<Rightarrow> (avfm \<times> nat) list" where
  "item_origins e = map (\<lambda>i. (it_avfm e, i)) [it_readpos e..<length (it_data e)]"

definition det2_origins :: "detector2 \<Rightarrow> (avfm \<times> nat) list" where
  "det2_origins ctx = concat (map item_origins (d2_items ctx))"

text \<open>Blocks that have been read to their end are not kept.\<close>

definition unread :: "sm_item list \<Rightarrow> bool" where
  "unread es \<longleftrightarrow> (\<forall>e \<in> set es. it_readpos e < length (it_data e))"

text \<open>The origins of the first bytes of the bursts of a stream.\<close>

function burst_origins :: "bytes \<Rightarrow> 'o list \<Rightarrow> 'o list" where
  "burst_origins bs os =
     (if length bs < 16 then []
      else if is_sync bs \<and> is_ac3 bs
      then let n = 8 + burst_bits bs div 8
           in if n \<le> length bs then hd os # burst_origins (drop n bs) (drop n os) else []
      else burst_origins (drop 1 bs) (drop 1 os))"
  by pat_completeness auto
termination
  by (relation "measure (length \<circ> fst)") auto

declare burst_origins.simps [simp del]

text \<open>The time stamp of a sample: that of its block, and the duration of the four byte sample pairs before it.\<close>

definition sample_time :: "(int \<Rightarrow> int) \<Rightarrow> avfm \<times> nat \<Rightarrow> int" where
  "sample_time rescale = (\<lambda>(avfm, pos). av_audio_pts avfm + rescale (int (pos div 4)))"

definition burst_timing :: "(int \<Rightarrow> int) \<Rightarrow> avfm \<times> nat \<Rightarrow> avfm" where
  "burst_timing rescale x = (fst x)\<lparr>av_audio_pts_corrected := sample_time rescale x\<rparr>"

lemma length_item_origins [simp]: "length (item_origins e) = length (item_bytes e)"
  by (simp add: item_origins_def item_bytes_def)

lemma length_det2_origins [simp]: "length (det2_origins ctx) = length (det2_bytes ctx)"
  by (simp add: det2_origins_def det2_bytes_def length_concat comp_def)

lemma peek_items_origins:
  "unread es \<Longrightarrow> peek_items n True es = (bs, t, es', d) \<Longrightarrow>
    unread es' \<and> concat (map item_origins es') = drop n (concat (map item_origins es))
    \<and> (es \<noteq> [] \<longrightarrow> t = Some (hd (concat (map item_origins es))))"
proof (induction es arbitrary: n bs t es' d)
  case (Cons e es)
  have e: "it_readpos e < length (it_data e)" "unread es"
    using Cons.prems(1) by (simp_all add: unread_def)
  have h: "hd (concat (map item_origins (e # es))) = (it_avfm e, it_readpos e)"
    using e(1) by (simp add: item_origins_def upt_conv_Cons)
  show ?case
  proof (cases "n \<le> length (item_bytes e)")
    case True
    have "item_origins (e\<lparr>it_readpos := it_readpos e + n\<rparr>) = drop n (item_origins e)"
      by (simp add: item_origins_def drop_map drop_upt)
    moreover have "it_readpos e + n \<le> length (it_data e)"
      using True e(1) by (simp add: item_bytes_def)
    moreover have "it_readpos e + n = length (it_data e) \<Longrightarrow> drop n (item_origins e) = []"
      by (simp add: item_origins_def drop_map drop_upt)
    ultimately show ?thesis
      using Cons.prems True e h unfolding peek_items_inside [OF True] by (auto simp: unread_def split: if_splits)
  next
    case False
    obtain b1 t1 e1 d1 where r: "peek_items (n - length (item_bytes e)) True es = (b1, t1, e1, d1)"
      by (metis prod_cases4)
    have "length (item_bytes e) < n"
      using False by simp
    note eq = peek_items_over [OF this r]
    show ?thesis
      using Cons.prems(2) Cons.IH [OF e(2) r] False h unfolding eq by auto
  qed
qed simp

lemma list_peek_origins:
  assumes "unread (d2_items ctx)" "list_peek ctx n True = Some (bs, t, ctx')"
  shows "unread (d2_items ctx')" "det2_origins ctx' = drop n (det2_origins ctx)"
    "d2_items ctx \<noteq> [] \<Longrightarrow> t = Some (hd (det2_origins ctx))"
proof -
  obtain b u es d where r: "peek_items n True (d2_items ctx) = (b, u, es, d)"
    by (metis prod_cases4)
  show "unread (d2_items ctx')" "det2_origins ctx' = drop n (det2_origins ctx)"
    "d2_items ctx \<noteq> [] \<Longrightarrow> t = Some (hd (det2_origins ctx))"
    using assms(2) peek_items_origins [OF assms(1) r] r
    by (auto simp: list_peek_def det2_origins_def split: if_splits)
qed

lemma detector2_step_timing:
  assumes "det2_ok ctx" "unread (d2_items ctx)" "detector2_step rescale True ctx = Some (Det_Next ctx' b)"
  shows "unread (d2_items ctx')"
    "det2_origins ctx' = drop (length (det2_bytes ctx) - length (det2_bytes ctx')) (det2_origins ctx)"
    "b = Some (x, avfm) \<Longrightarrow> avfm = burst_timing rescale (hd (det2_origins ctx))"
proof -
  let ?bs = "det2_bytes ctx" and ?dat = "take 16 (det2_bytes ctx)"
  have tot: "d2_total ctx = int (length ?bs)"
    using assms(1) by (simp add: det2_ok_def)
  obtain t where p: "list_peek ctx 16 False = Some (?dat, t, ctx)"
    using list_peek_keep by blast
  have len: "16 \<le> length ?bs"
    using assms(3) p by (auto simp: detector2_step_def split: if_splits)
  then have items: "d2_items ctx \<noteq> []"
    by (auto simp: det2_bytes_def)
  have "\<exists>n pl t. n \<le> length ?bs \<and> list_peek ctx n True = Some (pl, t, ctx')
    \<and> (\<forall>x avfm. b = Some (x, avfm) \<longrightarrow> (\<exists>a r. t = Some (a, r)
        \<and> avfm = avfm_set_pts_audio_corrected a (av_audio_pts a + rescale (int r div 4))))"
  proof (cases "is_sync ?dat \<and> is_ac3 ?dat")
    case False
    then obtain pl t where "list_peek ctx 1 True = Some (pl, t, ctx')" "b = None"
      using assms(3) p len by (auto simp: detector2_step_def list_discard_def split: if_splits)
    then show ?thesis
      using len by (intro exI [of _ 1]) auto
  next
    case True
    let ?n = "8 + burst_bits ?dat div 8"
    have fit: "?n \<le> length ?bs"
      using assms(3) p len True tot by (auto simp: detector2_step_def Let_def split: if_splits)
    obtain t2 c2 where d: "list_peek ctx ?n True = Some (take ?n ?bs, t2, c2)"
      using list_peek_total [OF tot, of ?n] by blast
    have "c2 = ctx' \<and> (\<forall>x avfm. b = Some (x, avfm) \<longrightarrow> (\<exists>a r. t2 = Some (a, r)
        \<and> avfm = avfm_set_pts_audio_corrected a (av_audio_pts a + rescale (int r div 4))))"
      using assms(3) p len True tot d fit
      by (auto simp: detector2_step_def Let_def list_read_alloc_def split: if_splits Option.bind_splits)
    then show ?thesis
      using d fit by (intro exI [of _ ?n] exI [of _ "take ?n ?bs"] exI [of _ t2]) simp
  qed
  then obtain n pl t where n: "n \<le> length ?bs" "list_peek ctx n True = Some (pl, t, ctx')"
    and b: "\<forall>x avfm. b = Some (x, avfm) \<longrightarrow> (\<exists>a r. t = Some (a, r)
        \<and> avfm = avfm_set_pts_audio_corrected a (av_audio_pts a + rescale (int r div 4)))"
    by (elim exE conjE) (rule that)
  note o = list_peek_origins [OF assms(2) n(2)]
  show "unread (d2_items ctx')"
    by (rule o(1))
  show "det2_origins ctx' = drop (length ?bs - length (det2_bytes ctx')) (det2_origins ctx)"
    using o(2) n(1) list_peek_take(2) [OF n(2)] by simp
  show "avfm = burst_timing rescale (hd (det2_origins ctx))" if "b = Some (x, avfm)"
    using b that o(3) [OF items]
    by (auto simp: burst_timing_def sample_time_def avfm_set_pts_audio_corrected_def zdiv_int split: prod.split)
qed

lemma burst_origins_skip:
  "16 \<le> length bs \<Longrightarrow> \<not> (is_sync bs \<and> is_ac3 bs) \<Longrightarrow> burst_origins bs os = burst_origins (drop 1 bs) (drop 1 os)"
  by (subst burst_origins.simps) auto

lemma burst_origins_burst:
  "16 \<le> length bs \<Longrightarrow> is_sync bs \<and> is_ac3 bs \<Longrightarrow> n = burst_bits bs div 8 \<Longrightarrow> 8 + n \<le> length bs \<Longrightarrow>
    burst_origins bs os = hd os # burst_origins (drop (8 + n) bs) (drop (8 + n) os)"
  by (subst burst_origins.simps) (simp add: Let_def)

lemma burst_origins_wait:
  "16 \<le> length bs \<Longrightarrow> is_sync bs \<and> is_ac3 bs \<Longrightarrow> length bs < 8 + burst_bits bs div 8 \<Longrightarrow> burst_origins bs os = []"
  by (subst burst_origins.simps) (simp add: Let_def)

lemma scan_bursts_left: "length (snd (scan_bursts bs)) \<le> length bs"
proof (induction bs rule: scan_bursts.induct)
  case (1 bs)
  then show ?case
    by (subst scan_bursts.simps) (auto simp: Let_def split: prod.split)
qed

lemma run_detector2_timing:
  "det2_ok ctx \<Longrightarrow> unread (d2_items ctx) \<Longrightarrow> \<exists>ctx'. run_detector2 rescale True ctx
      = Some (ctx', zip (fst (scan_bursts (det2_bytes ctx)))
                      (map (burst_timing rescale) (burst_origins (det2_bytes ctx) (det2_origins ctx))))
     \<and> length (burst_origins (det2_bytes ctx) (det2_origins ctx)) = length (fst (scan_bursts (det2_bytes ctx)))
     \<and> det2_ok ctx' \<and> unread (d2_items ctx') \<and> det2_bytes ctx' = snd (scan_bursts (det2_bytes ctx))
     \<and> det2_origins ctx' = drop (length (det2_bytes ctx) - length (det2_bytes ctx')) (det2_origins ctx)"
proof (induction "length (det2_bytes ctx)" arbitrary: ctx rule: less_induct)
  case less
  let ?bs = "det2_bytes ctx" and ?os = "det2_origins ctx"
  note step = detector2_step_spec [OF less.prems(1), where rescale = rescale]
  note timing = detector2_step_timing [OF less.prems]
  show ?case
  proof (cases "length ?bs < 16")
    case True
    then show ?thesis
      using step(1) less.prems by (simp add: run_detector2.simps scan_bursts.simps burst_origins.simps)
  next
    case long: False
    then have l: "16 \<le> length ?bs"
      by simp
    show ?thesis
    proof (cases "is_sync ?bs \<and> is_ac3 ?bs")
      case False
      obtain c where c: "detector2_step rescale True ctx = Some (Det_Next c None)" "det2_ok c" "det2_bytes c = drop 1 ?bs"
        using step(2) l False by auto
      have lt: "length (det2_bytes c) < length ?bs"
        unfolding c(3) length_drop using l by linarith
      have o: "unread (d2_items c)" "det2_origins c = drop 1 ?os"
        using timing(1,2) [OF c(1)] c(3) l by simp_all
      obtain c' where ih: "run_detector2 rescale True c = Some (c', zip (fst (scan_bursts (drop 1 ?bs)))
            (map (burst_timing rescale) (burst_origins (drop 1 ?bs) (drop 1 ?os))))"
          "length (burst_origins (drop 1 ?bs) (drop 1 ?os)) = length (fst (scan_bursts (drop 1 ?bs)))"
          "det2_ok c'" "unread (d2_items c')" "det2_bytes c' = snd (scan_bursts (drop 1 ?bs))"
          "det2_origins c' = drop (length (drop 1 ?bs) - length (det2_bytes c')) (drop 1 ?os)"
        using less.hyps [OF lt c(2) o(1)] unfolding c(3) o(2) by blast
      have "length (det2_bytes c') \<le> length (drop 1 ?bs)"
        unfolding ih(5) by (rule scan_bursts_left)
      then have "det2_origins c' = drop (length ?bs - length (det2_bytes c')) ?os"
        using ih(6) l by (simp add: Suc_diff_Suc)
      then show ?thesis
        using c(1) ih(1-5) scan_bursts_skip [OF l False] burst_origins_skip [OF l False, of ?os]
        by (intro exI [of _ c']) (simp add: run_detector2.simps [of _ _ ctx])
    next
      case True
      define n where "n = burst_bits ?bs div 8"
      show ?thesis
      proof (cases "8 + n \<le> length ?bs")
        case False
        then show ?thesis
          using step(3) [OF l True n_def] less.prems
          by (simp add: run_detector2.simps [of _ _ ctx] scan_bursts_wait [OF l True] burst_origins_wait [OF l True] n_def)
      next
        case fit: True
        obtain c avfm where c: "detector2_step rescale True ctx
              = Some (Det_Next c (Some (make_burst ?bs (take n (drop 8 ?bs)), avfm)))" "det2_ok c" "det2_bytes c = drop (8 + n) ?bs"
          using step(3) [OF l True n_def] fit by auto
        have lt: "length (det2_bytes c) < length ?bs"
          using c(3) l by simp
        have o: "unread (d2_items c)" "det2_origins c = drop (8 + n) ?os" "avfm = burst_timing rescale (hd ?os)"
          using timing(1,2) [OF c(1)] timing(3) [OF c(1) refl] c(3) fit by simp_all
        obtain c' where ih: "run_detector2 rescale True c = Some (c', zip (fst (scan_bursts (drop (8 + n) ?bs)))
            (map (burst_timing rescale) (burst_origins (drop (8 + n) ?bs) (drop (8 + n) ?os))))"
          "length (burst_origins (drop (8 + n) ?bs) (drop (8 + n) ?os)) = length (fst (scan_bursts (drop (8 + n) ?bs)))"
          "det2_ok c'" "unread (d2_items c')" "det2_bytes c' = snd (scan_bursts (drop (8 + n) ?bs))"
          "det2_origins c' = drop (length (drop (8 + n) ?bs) - length (det2_bytes c')) (drop (8 + n) ?os)"
          using less.hyps [OF lt c(2) o(1)] unfolding c(3) o(2) by blast
        have "length (det2_bytes c') \<le> length (drop (8 + n) ?bs)"
          unfolding ih(5) by (rule scan_bursts_left)
        then have "det2_origins c' = drop (length ?bs - length (det2_bytes c')) ?os"
          using ih(6) fit by simp
        then show ?thesis
          using c(1) o(3) ih(1-5) scan_bursts_burst [OF l True n_def fit] burst_origins_burst [OF l True n_def fit, of ?os]
          by (intro exI [of _ c']) (simp add: run_detector2.simps [of _ _ ctx])
      qed
    qed
  qed
qed

section \<open>The detector on a ring buffer\<close>

text \<open>The probe of the capture card uses an older detector with the same search over a byte ring.\<close>

fun ring_put_bytes :: "bytes \<Rightarrow> u8 ring \<Rightarrow> u8 ring option" where
  "ring_put_bytes [] rb = Some rb"
| "ring_put_bytes (b # bs) rb = do { (_, _, rb) \<leftarrow> rb_write_with_state [b] rb; ring_put_bytes bs rb }"

(* src: input/sdi/smpte337_detector.c 58-90 smpte337_detector_write_16b *)
definition smpte337_detector_write_16b :: "u8 ring \<Rightarrow> bytes \<Rightarrow> nat \<Rightarrow> nat \<Rightarrow> nat \<Rightarrow> (nat \<times> u8 ring) option" where
  "smpte337_detector_write_16b rb buf audioFrames frameStrideBytes spanCount =
     do { bss \<leftarrow> those (map (\<lambda>x. do { a \<leftarrow> at buf (x + 1); b \<leftarrow> at buf x; Some [a, b] })
            (concat (map (\<lambda>i. map (\<lambda>k. i * (frameStrideBytes div 2 * 2) + k * 2) [0..<spanCount]) [0..<audioFrames])));
          rb \<leftarrow> ring_put_bytes (concat bss) rb;
          Some (length (concat bss), rb) }"

(* src: input/sdi/smpte337_detector.c 92-124 smpte337_detector_write_32b *)
definition smpte337_detector_write_32b :: "u8 ring \<Rightarrow> bytes \<Rightarrow> nat \<Rightarrow> nat \<Rightarrow> nat \<Rightarrow> (nat \<times> u8 ring) option" where
  "smpte337_detector_write_32b rb buf audioFrames frameStrideBytes spanCount =
     do { bs \<leftarrow> upper_bytes buf audioFrames frameStrideBytes spanCount;
          rb \<leftarrow> ring_put_bytes bs rb;
          Some (length bs, rb) }"

text \<open>Reading a cell of the ring that nothing has written is an error.\<close>

(* src: input/sdi/smpte337_detector.c 132-180 run_detector *)
definition detector1_step :: "bool \<Rightarrow> u8 ring \<Rightarrow> (u8 ring \<times> burst option) option option" where
  "detector1_step ok rb =
     (if rb_used rb < 16 then Some None
      else do {
        (cells, rb) \<leftarrow> rb_peek 16 rb;
        if length cells < 16 then Some None
        else do {
          dat \<leftarrow> those cells;
          if is_sync dat \<and> is_ac3 dat
          then
            let n = burst_bits dat div 8
            in if 8 + n \<le> rb_used rb
               then do {
                 (cells, rb) \<leftarrow> rb_read_alloc ok (8 + n) rb;
                 if length cells \<noteq> 8 + n then Some (Some (rb_empty rb, None))
                 else do { payload \<leftarrow> those cells; Some (Some (rb, Some (make_burst dat (drop 8 payload)))) } }
               else Some None
          else map_option (\<lambda>rb. Some (rb, None)) (rb_discard False 1 rb) } })"

text \<open>Every pass that goes on leaves fewer bytes, so as much fuel as there are bytes is enough.\<close>

(* src: input/sdi/smpte337_detector.c 126-184 run_detector *)
fun run_detector1 :: "nat \<Rightarrow> bool \<Rightarrow> u8 ring \<Rightarrow> (u8 ring \<times> burst list) option" where
  "run_detector1 0 ok rb = None"
| "run_detector1 (Suc fuel) ok rb =
     do { r \<leftarrow> detector1_step ok rb;
          case r of
            None \<Rightarrow> Some (rb, [])
          | Some (rb, b) \<Rightarrow>
              map_option (\<lambda>(rb, bs). (rb, (case b of None \<Rightarrow> bs | Some x \<Rightarrow> x # bs))) (run_detector1 fuel ok rb) }"

(* src: input/sdi/smpte337_detector.c 186-210 smpte337_detector_write *)
definition smpte337_detector_write ::
    "bool \<Rightarrow> u8 ring \<Rightarrow> bytes option \<Rightarrow> nat \<Rightarrow> nat \<Rightarrow> nat \<Rightarrow> nat \<Rightarrow> nat \<Rightarrow> (nat \<times> u8 ring \<times> burst list) option" where
  "smpte337_detector_write ok rb buf audioFrames sampleDepth channelsPerFrame frameStrideBytes spanCount =
     (case buf of
        None \<Rightarrow> Some (0, rb, [])
      | Some mem \<Rightarrow>
          if audioFrames = 0 \<or> channelsPerFrame = 0 \<or> frameStrideBytes = 0 \<or> sampleDepth \<noteq> 16 \<and> sampleDepth \<noteq> 32
             \<or> spanCount = 0 \<or> channelsPerFrame < spanCount
          then Some (0, rb, [])
          else do {
            (r, rb) \<leftarrow> (if sampleDepth = 16 then smpte337_detector_write_16b rb mem audioFrames frameStrideBytes spanCount
                        else smpte337_detector_write_32b rb mem audioFrames frameStrideBytes spanCount);
            (rb, bs) \<leftarrow> run_detector1 (Suc (rb_used rb)) ok rb;
            Some (r, rb, bs) })"

(* src: input/sdi/smpte337_detector.c 28-43 smpte337_detector_alloc *)
definition smpte337_detector_alloc :: "bool \<Rightarrow> bool \<Rightarrow> u8 ring option" where
  "smpte337_detector_alloc ok1 ok2 = (if ok1 then rb_new_threadsafe ok2 (32 * 1024) (256 * 1024) else None)"

definition det1_ok :: "bytes \<Rightarrow> u8 ring \<Rightarrow> bool" where
  "det1_ok bs rb \<longleftrightarrow> rb_ok rb \<and> rb_size_initial rb = 32768 \<and> rb_bytes rb = map Some bs"

lemma det1_fill: "det1_ok bs rb \<Longrightarrow> rb_fill rb = length bs"
  using length_rb_bytes [of rb] by (simp add: det1_ok_def)

lemma rb_copy_in_initial:
  assumes "rb_copy_in from rb = Some rb'"
  shows "rb_size_initial rb' = rb_size_initial rb"
proof -
  have adv: "rb_size_initial (advance_tail n (rb\<lparr>rb_data := d\<rparr>)) = rb_size_initial rb" for n d
    by (simp add: advance_tail_def)
  show ?thesis
    using assms unfolding rb_copy_in_def Let_def
    by (auto simp only: bind_eq_Some_conv adv option.inject option.distinct split: if_split_asm)
qed

lemma rb_reader_initial: "rb_reader n adv rb = Some (out, rb') \<Longrightarrow> rb_size_initial rb' = rb_size_initial rb"
  by (auto simp: rb_reader_def advance_head_def rb_shrink_reset_def Let_def split: if_splits Option.bind_splits)

lemma det1_put:
  assumes "det1_ok bs rb" "length bs < 32768"
  obtains rb' where "rb_write_with_state [b] rb = Some (1, False, rb')" "det1_ok (bs @ [b]) rb'"
proof -
  have ok: "rb_ok rb" "rb_fill rb + length [b] \<le> rb_size rb" "length [b] = rb_size rb \<Longrightarrow> rb_head rb = 0"
    using assms det1_fill [OF assms(1)] by (auto simp: det1_ok_def rb_ok_def)
  obtain rb' where r: "rb_write_with_state [b] rb = Some (length [b], False, rb')" "rb_ok rb'"
      "rb_bytes rb' = rb_bytes rb @ map Some [b]"
    using rb_write_fits [OF ok] by blast
  have "rb_size_initial rb' = rb_size_initial rb"
    using r(1) rb_make_room_fits [OF ok(1,2)] rb_copy_in_initial [of "[b]" rb rb']
    by (auto simp: rb_write_with_state_def split: Option.bind_splits)
  then show thesis
    using that [of rb'] r assms(1) by (simp add: det1_ok_def)
qed

lemma det1_puts:
  "det1_ok bs rb \<Longrightarrow> length bs + length cs \<le> 32768 \<Longrightarrow> \<exists>rb'. ring_put_bytes cs rb = Some rb' \<and> det1_ok (bs @ cs) rb'"
proof (induction cs arbitrary: bs rb)
  case (Cons c cs)
  obtain rb1 where r: "rb_write_with_state [c] rb = Some (1, False, rb1)" "det1_ok (bs @ [c]) rb1"
    using det1_put [OF Cons.prems(1), of c] Cons.prems(2) by auto
  show ?case
    using Cons.IH [OF r(2)] Cons.prems(2) r(1) by auto
qed simp

lemma det1_read:
  assumes "det1_ok bs rb"
  obtains rb' where "rb_reader n adv rb = Some (map Some (take n bs), rb')" "det1_ok (if adv then drop n bs else bs) rb'"
proof -
  have "rb_ok rb"
    using assms by (simp add: det1_ok_def)
  then obtain rb' where r: "rb_reader n adv rb = Some (take n (rb_bytes rb), rb')" "rb_ok rb'"
      "rb_bytes rb' = (if adv then drop n (rb_bytes rb) else rb_bytes rb)"
    by (rule rb_reader_spec)
  then show thesis
    using that [of rb'] assms rb_reader_initial [OF r(1)] by (auto simp: det1_ok_def take_map drop_map)
qed

lemma detector1_step_spec:
  assumes "det1_ok bs rb"
  shows "length bs < 16 \<Longrightarrow> detector1_step True rb = Some None"
    "16 \<le> length bs \<Longrightarrow> \<not> (is_sync bs \<and> is_ac3 bs) \<Longrightarrow>
      \<exists>rb'. detector1_step True rb = Some (Some (rb', None)) \<and> det1_ok (drop 1 bs) rb'"
    "16 \<le> length bs \<Longrightarrow> is_sync bs \<and> is_ac3 bs \<Longrightarrow> n = burst_bits bs div 8 \<Longrightarrow>
      (if 8 + n \<le> length bs
       then \<exists>rb'. detector1_step True rb = Some (Some (rb', Some (make_burst bs (take n (drop 8 bs))))) \<and> det1_ok (drop (8 + n) bs) rb'
       else detector1_step True rb = Some None)"
proof -
  note fill = det1_fill [OF assms]
  show "length bs < 16 \<Longrightarrow> detector1_step True rb = Some None"
    using fill by (simp add: detector1_step_def rb_used_def)
  obtain rb1 where p: "rb_peek 16 rb = Some (map Some (take 16 bs), rb1)" "det1_ok bs rb1"
    using det1_read [OF assms, of 16 False] by (auto simp: rb_peek_def)
  have fill1: "rb_fill rb1 = length bs"
    by (rule det1_fill [OF p(2)])
  show "\<exists>rb'. detector1_step True rb = Some (Some (rb', None)) \<and> det1_ok (drop 1 bs) rb'"
    if "16 \<le> length bs" "\<not> (is_sync bs \<and> is_ac3 bs)"
  proof -
    have "det1_ok (drop 1 bs) (advance_head 1 rb1)"
      using p(2) fill1 that(1) rb_advance_head [of rb1 1] by (simp add: det1_ok_def drop_map)
    then show ?thesis
      using that fill p(1) by (cases "is_sync bs") (auto simp: detector1_step_def rb_used_def rb_discard_def)
  qed
  assume h: "16 \<le> length bs" "is_sync bs \<and> is_ac3 bs" "n = burst_bits bs div 8"
  obtain rb2 where r: "rb_read_alloc True (8 + n) rb1 = Some (map Some (take (8 + n) bs), rb2)" "det1_ok (drop (8 + n) bs) rb2"
    using det1_read [OF p(2), of "8 + n" True] by (auto simp: rb_read_alloc_def)
  show "if 8 + n \<le> length bs
       then \<exists>rb'. detector1_step True rb = Some (Some (rb', Some (make_burst bs (take n (drop 8 bs))))) \<and> det1_ok (drop (8 + n) bs) rb'
       else detector1_step True rb = Some None"
    using h p(1) fill fill1 r by (auto simp: detector1_step_def rb_used_def Let_def drop_take)
qed


lemma run_detector1_scan:
  "det1_ok bs rb \<Longrightarrow> length bs < fuel \<Longrightarrow>
    \<exists>rb'. run_detector1 fuel True rb = Some (rb', fst (scan_bursts bs)) \<and> det1_ok (snd (scan_bursts bs)) rb'"
proof (induction fuel arbitrary: bs rb)
  case (Suc fuel)
  note step = detector1_step_spec [OF Suc.prems(1)]
  show ?case
  proof (cases "length bs < 16")
    case True
    then show ?thesis
      using step(1) Suc.prems by (simp add: scan_bursts_short)
  next
    case long: False
    then have l: "16 \<le> length bs"
      by simp
    show ?thesis
    proof (cases "is_sync bs \<and> is_ac3 bs")
      case False
      obtain rb1 where r: "detector1_step True rb = Some (Some (rb1, None))" "det1_ok (drop 1 bs) rb1"
        using step(2) [OF l False] by blast
      have "length (drop 1 bs) < fuel"
        unfolding length_drop using l Suc.prems(2) by linarith
      then show ?thesis
        using Suc.IH [OF r(2)] r(1) scan_bursts_skip [OF l False] by auto
    next
      case True
      define n where "n = burst_bits bs div 8"
      show ?thesis
      proof (cases "8 + n \<le> length bs")
        case False
        then show ?thesis
          using step(3) [OF l True n_def] scan_bursts_wait [OF l True] Suc.prems(1) by (simp add: n_def)
      next
        case fit: True
        obtain rb1 where r: "detector1_step True rb = Some (Some (rb1, Some (make_burst bs (take n (drop 8 bs)))))"
            "det1_ok (drop (8 + n) bs) rb1"
          using step(3) [OF l True n_def] fit by auto
        have "length (drop (8 + n) bs) < fuel"
          unfolding length_drop using l Suc.prems(2) by linarith
        then show ?thesis
          using Suc.IH [OF r(2)] r(1) scan_bursts_burst [OF l True n_def fit] by auto
      qed
    qed
  qed
qed simp

lemma those_Some: "\<forall>x \<in> set xs. \<exists>y. f x = Some y \<Longrightarrow> those (map f xs) = Some (map (the \<circ> f) xs)"
  by (induction xs) auto

lemma upper_bytes_some:
  assumes "4 * span \<le> stride" "stride mod 4 = 0" "frames * stride \<le> length buf"
  obtains bs where "upper_bytes buf frames stride span = Some bs" "length bs = 2 * frames * span"
proof -
  let ?f = "\<lambda>x. do { a \<leftarrow> at buf (x + 3); b \<leftarrow> at buf (x + 2); Some [a, b] }"
  let ?xs = "concat (map (\<lambda>i. map (\<lambda>k. i * (stride div 4 * 4) + k * 4) [0..<span]) [0..<frames])"
  have f: "?f x = Some [buf ! (x + 3), buf ! (x + 2)]" if xs: "x \<in> set ?xs" for x
  proof -
    have "stride div 4 * 4 = stride"
      using assms(2) by presburger
    then obtain i k where "i < frames" "k < span" and x: "x = i * stride + k * 4"
      using xs by auto
    have "k * 4 + 3 < stride"
      using \<open>k < span\<close> assms(1) by linarith
    moreover have "i * stride + stride \<le> frames * stride"
      using \<open>i < frames\<close> by (metis Suc_leI add.commute mult_Suc mult_le_mono1)
    ultimately have "x + 3 < length buf"
      using x assms(3) by linarith
    then show ?thesis
      by simp
  qed
  then have "those (map ?f ?xs) = Some (map (the \<circ> ?f) ?xs)"
    by (intro those_Some) auto
  moreover have "length (concat (map (the \<circ> ?f) ?xs)) = 2 * length ?xs"
  proof -
    have "length (concat (map (the \<circ> ?f) xs)) = 2 * length xs" if "set xs \<subseteq> set ?xs" for xs
      using that f by (induction xs) auto
    then show ?thesis
      by blast
  qed
  moreover have "length ?xs = frames * span"
    by (simp add: length_concat comp_def sum_list_triv)
  ultimately show thesis
    using that [of "concat (map (the \<circ> ?f) ?xs)"] by (simp add: upper_bytes_def)
qed

text \<open>Feeding audio buffers, each with its number of frames, sixteen channels of 32 bits.\<close>

fun det1_feed :: "nat \<Rightarrow> u8 ring \<Rightarrow> (bytes \<times> nat) list \<Rightarrow> (u8 ring \<times> burst list) option" where
  "det1_feed span rb [] = Some (rb, [])"
| "det1_feed span rb ((buf, n) # rest) =
     do { (_, rb, bs) \<leftarrow> smpte337_detector_write True rb (Some buf) n 32 16 64 span;
          (rb, cs) \<leftarrow> det1_feed span rb rest;
          Some (rb, bs @ cs) }"

fun det2_feed :: "(int \<Rightarrow> int) \<Rightarrow> nat \<Rightarrow> detector2 \<Rightarrow> (bytes \<times> nat \<times> avfm) list \<Rightarrow> (detector2 \<times> (burst \<times> avfm) list) option" where
  "det2_feed rescale span ctx [] = Some (ctx, [])"
| "det2_feed rescale span ctx ((buf, n, avfm) # rest) =
     do { (_, ctx, bs) \<leftarrow> smpte337_detector2_write rescale True True ctx (Some buf) n 32 16 64 span avfm;
          (ctx, cs) \<leftarrow> det2_feed rescale span ctx rest;
          Some (ctx, bs @ cs) }"

definition feed_bytes :: "nat \<Rightarrow> (bytes \<times> nat) list \<Rightarrow> bytes" where
  "feed_bytes span bufs = concat (map (\<lambda>(buf, n). the (upper_bytes buf n 64 span)) bufs)"

definition feed_ok :: "nat \<Rightarrow> bytes \<times> nat \<Rightarrow> bool" where
  "feed_ok span b \<longleftrightarrow> 0 < snd b \<and> snd b * 64 \<le> length (fst b) \<and> 2 * snd b * span \<le> 16384"

lemma det2_write_spec:
  assumes "det2_ok ctx" "0 < span" "span \<le> 16" "feed_ok span (buf, n)"
  obtains ctx' bs where
    "smpte337_detector2_write rescale True True ctx (Some buf) n 32 16 64 span avfm = Some (2 * n * span, ctx', bs)"
    "det2_ok ctx'" "map fst bs = fst (scan_bursts (det2_bytes ctx @ the (upper_bytes buf n 64 span)))"
    "det2_bytes ctx' = snd (scan_bursts (det2_bytes ctx @ the (upper_bytes buf n 64 span)))"
proof -
  obtain ch where ch: "upper_bytes buf n 64 span = Some ch" "length ch = 2 * n * span"
    using upper_bytes_some [of span 64 n buf] assms(3,4) by (auto simp: feed_ok_def)
  define c where "c = ctx\<lparr>d2_items := d2_items ctx @ [\<lparr>it_avfm = avfm, it_data = ch, it_readpos = 0\<rparr>],
      d2_total := d2_total ctx + int (length ch)\<rparr>"
  have c: "det2_ok c" "det2_bytes c = det2_bytes ctx @ ch"
    using assms(1) by (simp_all add: c_def det2_ok_def det2_bytes_def item_bytes_def)
  obtain ctx' bs where r: "run_detector2 rescale True c = Some (ctx', bs)" "det2_ok ctx'"
      "map fst bs = fst (scan_bursts (det2_bytes c))" "det2_bytes ctx' = snd (scan_bursts (det2_bytes c))"
    using run_detector2_scan [OF c(1)] by blast
  have "smpte337_detector2_write rescale True True ctx (Some buf) n 32 16 64 span avfm = Some (2 * n * span, ctx', bs)"
    using assms ch r(1) by (simp add: smpte337_detector2_write_def smpte337_detector2_write_32b_def feed_ok_def c_def)
  then show thesis
    using that r c ch by simp
qed

definition chunk_origins :: "avfm \<Rightarrow> bytes \<Rightarrow> (avfm \<times> nat) list" where
  "chunk_origins avfm ch = map (\<lambda>i. (avfm, i)) [0..<length ch]"

lemma det2_write_timing:
  assumes "det2_ok ctx" "unread (d2_items ctx)" "0 < span" "span \<le> 16" "feed_ok span (buf, n)"
    and "upper_bytes buf n 64 span = Some ch"
    and "st = det2_bytes ctx @ ch" "os = det2_origins ctx @ chunk_origins avfm ch"
  obtains ctx' where "smpte337_detector2_write rescale True True ctx (Some buf) n 32 16 64 span avfm
      = Some (2 * n * span, ctx', zip (fst (scan_bursts st)) (map (burst_timing rescale) (burst_origins st os)))"
    "length (burst_origins st os) = length (fst (scan_bursts st))" "det2_ok ctx'" "unread (d2_items ctx')"
    "det2_bytes ctx' = snd (scan_bursts st)" "det2_origins ctx' = drop (length st - length (det2_bytes ctx')) os"
proof -
  have len: "length ch = 2 * n * span"
    using upper_bytes_some [of span 64 n buf] assms(4-6) by (auto simp: feed_ok_def)
  define c where "c = ctx\<lparr>d2_items := d2_items ctx @ [\<lparr>it_avfm = avfm, it_data = ch, it_readpos = 0\<rparr>],
      d2_total := d2_total ctx + int (length ch)\<rparr>"
  have c: "det2_ok c" "det2_bytes c = st" "det2_origins c = os" "unread (d2_items c)"
    using assms(1-3,5,7,8) len
    by (simp_all add: c_def det2_ok_def det2_bytes_def item_bytes_def det2_origins_def item_origins_def chunk_origins_def
        unread_def feed_ok_def)
  obtain ctx' where r: "run_detector2 rescale True c
      = Some (ctx', zip (fst (scan_bursts st)) (map (burst_timing rescale) (burst_origins st os)))"
    "length (burst_origins st os) = length (fst (scan_bursts st))" "det2_ok ctx'" "unread (d2_items ctx')"
    "det2_bytes ctx' = snd (scan_bursts st)" "det2_origins ctx' = drop (length st - length (det2_bytes ctx')) os"
    using run_detector2_timing [OF c(1,4), of rescale] unfolding c(2,3) by blast
  have "smpte337_detector2_write rescale True True ctx (Some buf) n 32 16 64 span avfm
      = Some (2 * n * span, ctx', zip (fst (scan_bursts st)) (map (burst_timing rescale) (burst_origins st os)))"
    using assms(3-6) len r(1) by (simp add: smpte337_detector2_write_def smpte337_detector2_write_32b_def feed_ok_def c_def)
  then show thesis
    using that r(2-6) by blast
qed

lemma det1_write_spec:
  assumes "det1_ok left rb" "length left \<le> 8198" "0 < span" "span \<le> 16" "feed_ok span (buf, n)"
  obtains rb' where
    "smpte337_detector_write True rb (Some buf) n 32 16 64 span
       = Some (2 * n * span, rb', fst (scan_bursts (left @ the (upper_bytes buf n 64 span))))"
    "det1_ok (snd (scan_bursts (left @ the (upper_bytes buf n 64 span)))) rb'"
proof -
  obtain ch where ch: "upper_bytes buf n 64 span = Some ch" "length ch = 2 * n * span"
    using upper_bytes_some [of span 64 n buf] assms(4,5) by (auto simp: feed_ok_def)
  obtain rb1 where rb1: "ring_put_bytes ch rb = Some rb1" "det1_ok (left @ ch) rb1"
    using det1_puts [OF assms(1), of ch] ch(2) assms(2,5) by (auto simp: feed_ok_def)
  obtain rb2 where "run_detector1 (Suc (rb_used rb1)) True rb1 = Some (rb2, fst (scan_bursts (left @ ch)))"
      "det1_ok (snd (scan_bursts (left @ ch))) rb2"
    using run_detector1_scan [OF rb1(2), of "Suc (rb_used rb1)"] det1_fill [OF rb1(2)] by (auto simp: rb_used_def simp del: run_detector1.simps)
  then show thesis
    using that [of rb2] assms ch rb1(1)
    by (simp add: smpte337_detector_write_def smpte337_detector_write_32b_def feed_ok_def del: run_detector1.simps)
qed


lemma det1_feed_spec:
  "det1_ok left rb \<Longrightarrow> left = snd (scan_bursts before) \<Longrightarrow> 0 < span \<Longrightarrow> span \<le> 16 \<Longrightarrow> list_all (feed_ok span) bufs \<Longrightarrow>
    \<exists>rb' bs. det1_feed span rb bufs = Some (rb', bs)
      \<and> fst (scan_bursts (before @ feed_bytes span bufs)) = fst (scan_bursts before) @ bs"
proof (induction bufs arbitrary: left rb before)
  case Nil
  then show ?case
    by (simp add: feed_bytes_def)
next
  case (Cons b bufs)
  obtain buf n where b: "b = (buf, n)"
    by fastforce
  let ?ch = "the (upper_bytes buf n 64 span)"
  have "length left \<le> 8198" "feed_ok span (buf, n)"
    using Cons.prems(2,5) scan_bursts_rest b by auto
  then obtain rb1 where w: "smpte337_detector_write True rb (Some buf) n 32 16 64 span
        = Some (2 * n * span, rb1, fst (scan_bursts (left @ ?ch)))" "det1_ok (snd (scan_bursts (left @ ?ch))) rb1"
    using det1_write_spec [OF Cons.prems(1) _ Cons.prems(3,4)] by blast
  note pieces = scan_bursts_pieces [of before ?ch]
  have "snd (scan_bursts (left @ ?ch)) = snd (scan_bursts (before @ ?ch))"
    using pieces Cons.prems(2) by simp
  then obtain rb2 bs where ih: "det1_feed span rb1 bufs = Some (rb2, bs)"
      "fst (scan_bursts ((before @ ?ch) @ feed_bytes span bufs)) = fst (scan_bursts (before @ ?ch)) @ bs"
    using Cons.IH [OF w(2), of "before @ ?ch"] Cons.prems(3-5) by auto
  have "feed_bytes span (b # bufs) = ?ch @ feed_bytes span bufs"
    by (simp add: feed_bytes_def b)
  then show ?case
    using w(1) ih pieces Cons.prems(2) b by simp
qed

lemma det2_feed_spec:
  "det2_ok ctx \<Longrightarrow> det2_bytes ctx = snd (scan_bursts before) \<Longrightarrow> 0 < span \<Longrightarrow> span \<le> 16 \<Longrightarrow>
    list_all (\<lambda>(buf, n, _). feed_ok span (buf, n)) bufs \<Longrightarrow>
    \<exists>ctx' bs. det2_feed rescale span ctx bufs = Some (ctx', bs)
      \<and> fst (scan_bursts (before @ feed_bytes span (map (\<lambda>(buf, n, _). (buf, n)) bufs))) = fst (scan_bursts before) @ map fst bs"
proof (induction bufs arbitrary: ctx before)
  case Nil
  then show ?case
    by (simp add: feed_bytes_def)
next
  case (Cons b bufs)
  obtain buf n avfm where b: "b = (buf, n, avfm)"
    by (metis prod_cases3)
  let ?ch = "the (upper_bytes buf n 64 span)"
  have "feed_ok span (buf, n)"
    using Cons.prems(5) b by auto
  then obtain c1 bs1 where w: "smpte337_detector2_write rescale True True ctx (Some buf) n 32 16 64 span avfm = Some (2 * n * span, c1, bs1)"
      "det2_ok c1" "map fst bs1 = fst (scan_bursts (det2_bytes ctx @ ?ch))" "det2_bytes c1 = snd (scan_bursts (det2_bytes ctx @ ?ch))"
    using det2_write_spec [OF Cons.prems(1,3,4)] by metis
  note pieces = scan_bursts_pieces [of before ?ch]
  have "det2_bytes c1 = snd (scan_bursts (before @ ?ch))"
    using pieces Cons.prems(2) w(4) by simp
  then obtain c2 bs where ih: "det2_feed rescale span c1 bufs = Some (c2, bs)"
      "fst (scan_bursts ((before @ ?ch) @ feed_bytes span (map (\<lambda>(buf, n, _). (buf, n)) bufs)))
         = fst (scan_bursts (before @ ?ch)) @ map fst bs"
    using Cons.IH [OF w(2), of "before @ ?ch"] Cons.prems(3-5) by auto
  have "feed_bytes span (map (\<lambda>(buf, n, _). (buf, n)) (b # bufs)) = ?ch @ feed_bytes span (map (\<lambda>(buf, n, _). (buf, n)) bufs)"
    by (simp add: feed_bytes_def b)
  then show ?case
    using w(1,3) ih pieces Cons.prems(2) b by simp
qed

text \<open>C29 Both detectors find the bursts of the stream, wherever the audio buffers cut it.  Fed with any
  sequence of buffers, of a length the block detector accepts, they never fail and report in order exactly
  the bursts that one scan of the whole stream finds; the ring never has to grow.\<close>

theorem detectors_find_same_bursts:
  assumes "0 < span" "span \<le> 16" "list_all (\<lambda>(buf, n, _). feed_ok span (buf, n)) bufs"
    and "smpte337_detector_alloc True True = Some rb" "smpte337_detector2_alloc True = Some ctx"
  shows "\<exists>rb' ctx' bs bs2. det1_feed span rb (map (\<lambda>(buf, n, _). (buf, n)) bufs) = Some (rb', bs)
    \<and> det2_feed rescale span ctx bufs = Some (ctx', bs2) \<and> map fst bs2 = bs
    \<and> bs = fst (scan_bursts (feed_bytes span (map (\<lambda>(buf, n, _). (buf, n)) bufs)))"
proof -
  have s: "scan_bursts [] = ([], [])"
    by (simp add: scan_bursts_short)
  have "det1_ok (snd (scan_bursts [])) rb"
    using assms(4) s by (auto simp: smpte337_detector_alloc_def rb_new_threadsafe_def rb_new_def det1_ok_def rb_ok_def rb_bytes_def)
  moreover have "list_all (feed_ok span) (map (\<lambda>(buf, n, _). (buf, n)) bufs)"
    using assms(3) by (auto simp: list_all_iff)
  ultimately obtain rb' bs where d1: "det1_feed span rb (map (\<lambda>(buf, n, _). (buf, n)) bufs) = Some (rb', bs)"
      "fst (scan_bursts ([] @ feed_bytes span (map (\<lambda>(buf, n, _). (buf, n)) bufs))) = fst (scan_bursts []) @ bs"
    using det1_feed_spec [of _ rb "[]" span] assms(1,2) by blast
  have "det2_ok ctx" "det2_bytes ctx = snd (scan_bursts [])"
    using assms(5) s by (auto simp: smpte337_detector2_alloc_def det2_ok_def det2_bytes_def)
  then obtain ctx' bs2 where d2: "det2_feed rescale span ctx bufs = Some (ctx', bs2)"
      "fst (scan_bursts ([] @ feed_bytes span (map (\<lambda>(buf, n, _). (buf, n)) bufs))) = fst (scan_bursts []) @ map fst bs2"
    using det2_feed_spec [of ctx "[]" span bufs rescale] assms(1-3) by blast
  show ?thesis
    using d1 d2 s by auto
qed

text \<open>C30 The search of the detector ends: with a correct byte count the loop returns and keeps at most
  one incomplete burst, and also with a wrong count every pass of the loop that goes on leaves fewer bytes
  in the blocks.\<close>

theorem detector_loop_ends:
  assumes "d2_total ctx = int (length (det2_bytes ctx))"
    and "detector2_step rescale ok lost = Some (Det_Next lost' b)"
  shows "(\<exists>ctx' bs. run_detector2 rescale True ctx = Some (ctx', bs) \<and> length (det2_bytes ctx') \<le> 8198)
    \<and> length (det2_bytes lost') < length (det2_bytes lost)"
  using detector2_step_left [OF assms(2)] run_detector2_scan [of ctx rescale] assms(1) scan_bursts_rest
  unfolding det2_ok_def by metis

definition example_timing :: avfm where
  "example_timing = \<lparr>av_frame_type = AVFM_AUDIO_A52, av_audio_pts = 27000, av_audio_pts_corrected = 0, av_video_pts = 0,
     av_video_dts = 0, av_hw_received = \<lparr>tv_sec = 0, tv_usec = 0\<rparr>, av_drift = 0, av_video_interval_clk = 0, av_hw_status = 0\<rparr>"

definition example_block :: detector2 where
  "example_block = \<lparr>d2_items = [\<lparr>it_avfm = example_timing,
     it_data = [0xf8, 0x72, 0x4e, 0x1f, 0, 1, 0, 64, 1, 2, 3, 4, 5, 6, 7, 8, 9], it_readpos = 0\<rparr>], d2_total = 17\<rparr>"

theorem detector_loop_ends_witness:
  "(\<exists>ctx' bs. run_detector2 (\<lambda>x. x) True example_block = Some (ctx', bs) \<and> length (det2_bytes ctx') \<le> 8198)
    \<and> length (det2_bytes (list_empty example_block)) < length (det2_bytes (example_block\<lparr>d2_total := 99\<rparr>))"
proof -
  have "d2_total example_block = int (length (det2_bytes example_block))"
    by (simp add: example_block_def det2_bytes_def item_bytes_def)
  moreover have "detector2_step (\<lambda>x. x) False (example_block\<lparr>d2_total := 99\<rparr>)
      = Some (Det_Next (list_empty (example_block\<lparr>d2_total := 99\<rparr>)) None)"
    by (simp add: example_block_def detector2_step_def list_peek_def list_read_alloc_def is_sync_def is_ac3_def
        burst_bits_def list_empty_def)
  ultimately show ?thesis
    using detector_loop_ends [of example_block "\<lambda>x. x" False "example_block\<lparr>d2_total := 99\<rparr>"]
    by (simp add: list_empty_def det2_bytes_def)
qed

theorem detectors_find_same_bursts_witness:
  "\<exists>rb rb' ctx' bs bs2. smpte337_detector_alloc True True = Some rb
    \<and> det1_feed 2 rb [(replicate 640 0, 10), (replicate 64 1, 1)] = Some (rb', bs)
    \<and> det2_feed (\<lambda>x. x) 2 \<lparr>d2_items = [], d2_total = 0\<rparr> [(replicate 640 0, 10, example_timing), (replicate 64 1, 1, example_timing)] = Some (ctx', bs2)
    \<and> map fst bs2 = bs"
proof -
  obtain rb where rb: "smpte337_detector_alloc True True = Some rb"
    by (simp add: smpte337_detector_alloc_def rb_new_threadsafe_def rb_new_def)
  have a: "smpte337_detector2_alloc True = Some \<lparr>d2_items = [], d2_total = 0\<rparr>"
    by (simp add: smpte337_detector2_alloc_def)
  have m: "map (\<lambda>(buf, n, _). (buf, n)) [(replicate 640 0, 10, example_timing), (replicate 64 1, 1, example_timing)]
      = [(replicate 640 0, 10), (replicate 64 1, 1)]"
    by simp
  have l: "list_all (\<lambda>(buf, n, _). feed_ok 2 (buf, n)) [(replicate 640 0, 10, example_timing), (replicate 64 1, 1, example_timing)]"
    by (simp add: feed_ok_def)
  have g: "0 < (2 :: nat)" "(2 :: nat) \<le> 16"
    by simp_all
  show ?thesis
    using detectors_find_same_bursts [OF g l rb a, of "\<lambda>x. x"] rb unfolding m by blast
qed

section \<open>The AC-3 encoder\<close>

text \<open>
  The parts of the handle the callback uses: the drop flag, the output streams and the mux queue; and its
  two static variables.  \<open>mem\<close> tells whether the coded frame can be allocated.
\<close>

record ac3_state =
  a3_audio_encoder_drop :: bool
  a3_output_streams :: "output_stream list"
  a3_mux_queue :: "coded_frame obe_queue"
  a3_cur_pts :: int

(* src: encoders/audio/ac3bitstream/ac3bitstream.c 132-209 detector_callback *)
definition detector_callback :: "bool \<Rightarrow> int \<Rightarrow> int \<Rightarrow> burst \<Rightarrow> avfm \<Rightarrow> ac3_state \<Rightarrow> ac3_state option" where
  "detector_callback ok ac3_offset_ms output_stream_id b avfm h =
     (let output_stream = get_output_stream_by_id (a3_output_streams h) output_stream_id;
          n = bu_bits b div 8;
          h = h\<lparr>a3_audio_encoder_drop := False\<rparr>
      in if bu_datatype b \<noteq> 1 then Some h
         else if n = 0 then Some h
         else do {
           payload \<leftarrow> swap_buffer_16b (bu_payload b) (n div 2);
           valid \<leftarrow> validateCRC payload n;
           if \<not> valid then Some h
           else do {
             payload \<leftarrow> swap_buffer_16b payload (n div 2);
             case new_coded_frame ok ok output_stream_id n of
               None \<Rightarrow> Some h
             | Some cf \<Rightarrow>
                 do { os \<leftarrow> output_stream;
                      let cur_pts = av_audio_pts_corrected avfm;
                      data \<leftarrow> mem_get 0 n payload;
                      let cf = cf\<lparr>cf_pts := cur_pts + ac3_offset_ms * 27000 + os_audio_offset_ms os * 27000,
                                 cf_type := CF_AUDIO, cf_random_access := 1, cf_data := data, cf_avfm := avfm\<rparr>;
                      (_, q) \<leftarrow> add_to_queue True cf (a3_mux_queue h);
                      Some (h\<lparr>a3_cur_pts := cur_pts, a3_mux_queue := q\<rparr>) } } })"

fun callbacks :: "bool \<Rightarrow> int \<Rightarrow> int \<Rightarrow> (burst \<times> avfm) list \<Rightarrow> ac3_state \<Rightarrow> ac3_state option" where
  "callbacks ok off sid [] h = Some h"
| "callbacks ok off sid ((b, avfm) # bs) h = do { h \<leftarrow> detector_callback ok off sid b avfm h; callbacks ok off sid bs h }"

text \<open>A turn of the encoder thread: the frame is taken from the queue when its audio has been searched.\<close>

record ac3_encoder =
  ae_output_stream_id :: int
  ae_queue :: "raw_frame obe_queue"
  ae_detector :: detector2

(* src: encoders/audio/ac3bitstream/ac3bitstream.c 238-290 start_encoder_ac3bitstream *)
definition ac3_turn ::
    "(int \<Rightarrow> int) \<Rightarrow> int \<Rightarrow> ac3_encoder \<Rightarrow> ac3_state \<Rightarrow> (ac3_encoder \<times> ac3_state) option" where
  "ac3_turn rescale off e h =
     (if q_size (ae_queue e) = 0 then Some (e, h)
      else do {
        frm \<leftarrow> at (q_buf (ae_queue e)) 0;
        data \<leftarrow> at (af_data (rf_audio_frame frm)) 0;
        (l, det, bs) \<leftarrow> smpte337_detector2_write rescale True True (ae_detector e) (Some data)
                          (nat (af_num_samples (rf_audio_frame frm))) 32 16 (16 * (32 div 8)) 2 (rf_avfm frm);
        h \<leftarrow> callbacks True off (ae_output_stream_id e) bs h;
        (_, q) \<leftarrow> remove_from_queue True (ae_queue e);
        Some (e\<lparr>ae_detector := det, ae_queue := q\<rparr>, h) })"


text \<open>What the checksums say of a payload: its 16-bit words as they were sent, without the first.\<close>

fun words_be :: "bytes \<Rightarrow> u16 list" where
  "words_be (a # b # bs) = (push_bit 8 (ucast a) OR ucast b) # words_be bs"
| "words_be _ = []"

definition ac3_valid :: "bytes \<Rightarrow> bool" where
  "ac3_valid p \<longleftrightarrow> (let ws = drop 1 (words_be p); n = length p div 2
     in crc_poly (take (n div 2 + n div 8 - 1) ws) 0 = 0 \<and> crc_poly (take (n - 1) ws) 0 = 0)"

lemma swap_buffer_spec:
  "k = length p div 2 \<Longrightarrow> \<exists>p'. swap_buffer_16b p k = Some p' \<and> words_le p' = words_be p \<and> length p' = length p
     \<and> swap_buffer_16b p' k = Some p"
proof (induction p arbitrary: k rule: words_be.induct)
  case (1 a b bs)
  obtain p' where p': "swap_buffer_16b bs (length bs div 2) = Some p'" "words_le p' = words_be bs" "length p' = length bs"
      "swap_buffer_16b p' (length bs div 2) = Some bs"
    using "1.IH" by blast
  show ?case
    using p' "1.prems" by (simp add: or.commute)
qed auto

lemma length_words_le: "length (words_le p) = length p div 2"
  by (induction p rule: words_le.induct) simp_all

lemma length_words_be: "length (words_be p) = length p div 2"
  by (induction p rule: words_be.induct) simp_all

lemma validateCRC_spec:
  assumes "4 \<le> length p" "length p < 2 ^ 32" "words_le p' = words_be p" "length p' = length p"
  shows "validateCRC p' (length p) = Some (ac3_valid p)"
proof -
  let ?n = "length p div 2"
  let ?m = "?n div 2 + ?n div 8"
  have b: "2 \<le> ?n" "1 \<le> ?m" "?m \<le> ?n"
    using assms(1) by auto
  have wrap: "nat ((int k - 1) mod 2 ^ 32) = k - 1" if "1 \<le> k" "k < 2 ^ 32" for k :: nat
    using that by (subst mod_pos_pos_trivial) auto
  have "?n < 2 ^ 32" "?m < 2 ^ 32" "1 \<le> ?n"
    using b assms(2) by linarith+
  note w = wrap [OF b(2) this(2)] wrap [OF this(3,1)]
  have c: "?m - 1 \<le> length (drop 1 (words_be p))" "?n - 1 \<le> length (drop 1 (words_be p))"
    unfolding length_drop length_words_be using b(3) by (rule diff_le_mono) simp
  show ?thesis
    unfolding validateCRC_def ac3_valid_def Let_def assms(3) w crc_calc_poly [OF c(1)] crc_calc_poly [OF c(2)] by simp
qed

definition ac3_frame :: "int \<Rightarrow> int \<Rightarrow> output_stream \<Rightarrow> burst \<times> avfm \<Rightarrow> coded_frame" where
  "ac3_frame off sid os x = coded_frame_zero\<lparr>cf_output_stream_id := sid, cf_type := CF_AUDIO, cf_random_access := 1,
     cf_data := bu_payload (fst x), cf_avfm := snd x,
     cf_pts := av_audio_pts_corrected (snd x) + off * 27000 + os_audio_offset_ms os * 27000\<rparr>"

definition ac3_good :: "burst \<times> avfm \<Rightarrow> bool" where
  "ac3_good x \<longleftrightarrow> bu_payload (fst x) \<noteq> [] \<and> ac3_valid (bu_payload (fst x))"

definition burst_ok :: "burst \<Rightarrow> bool" where
  "burst_ok b \<longleftrightarrow> bu_datatype b = 1 \<and> length (bu_payload b) = bu_bits b div 8 \<and> length (bu_payload b) < 2 ^ 32
     \<and> length (bu_payload b) \<notin> {1, 2, 3}"

lemma detector_callback_spec:
  assumes "burst_ok b" "get_output_stream_by_id (a3_output_streams h) sid = Some os"
    and "queue_ok (a3_mux_queue h)" "\<not> q_locked (a3_mux_queue h)"
  obtains h' where "detector_callback True off sid b avfm h = Some h'" "a3_output_streams h' = a3_output_streams h"
    "queue_ok (a3_mux_queue h')" "\<not> q_locked (a3_mux_queue h')" "\<not> a3_audio_encoder_drop h'"
    "queue_list (a3_mux_queue h') = queue_list (a3_mux_queue h) @ map (ac3_frame off sid os) (filter ac3_good [(b, avfm)])"
proof (cases "bu_payload b = []")
  case True
  then have "bu_bits b div 8 = 0"
    using assms(1) by (simp add: burst_ok_def)
  then show thesis
    using that [of "h\<lparr>a3_audio_encoder_drop := False\<rparr>"] assms True by (simp add: detector_callback_def Let_def ac3_good_def)
next
  case False
  let ?p = "bu_payload b"
  have n0: "bu_bits b div 8 = length ?p" "length ?p < 2 ^ 32" "bu_datatype b = 1" "length ?p \<notin> {1, 2, 3}"
    using assms(1) unfolding burst_ok_def by metis+
  have "0 < length ?p"
    using False by simp
  with n0(4) have "4 \<le> length ?p"
    by (simp only: insert_iff empty_iff) linarith
  note n = n0(1) \<open>0 < length ?p\<close> this n0(2,3)
  obtain p' where p': "swap_buffer_16b ?p (length ?p div 2) = Some p'" "words_le p' = words_be ?p" "length p' = length ?p"
      "swap_buffer_16b p' (length ?p div 2) = Some ?p"
    using swap_buffer_spec by blast
  note crc = validateCRC_spec [OF n(3,4) p'(2,3)]
  show thesis
  proof (cases "ac3_valid ?p")
    case invalid: False
    then show thesis
      using that [of "h\<lparr>a3_audio_encoder_drop := False\<rparr>"] assms n p'(1) crc False
      by (simp add: detector_callback_def Let_def ac3_good_def)
  next
    case True
    let ?cf = "ac3_frame off sid os (b, avfm)"
    obtain q where q: "add_to_queue True ?cf (a3_mux_queue h) = Some (0, q)" "queue_ok q" "\<not> q_locked q"
        "queue_list q = queue_list (a3_mux_queue h) @ [?cf]"
      using add_ok [OF assms(3,4)] by metis
    have "detector_callback True off sid b avfm h
        = Some (h\<lparr>a3_audio_encoder_drop := False, a3_cur_pts := av_audio_pts_corrected avfm, a3_mux_queue := q\<rparr>)"
      using n p'(1,4) crc True assms(2) q(1)
      by (simp add: detector_callback_def Let_def new_coded_frame_def ac3_frame_def coded_frame_zero_def)
    then show thesis
      using that q(2-4) True False by (simp add: ac3_good_def)
  qed
qed

lemma callbacks_spec:
  "list_all (burst_ok \<circ> fst) bs \<Longrightarrow> get_output_stream_by_id (a3_output_streams h) sid = Some os \<Longrightarrow>
    queue_ok (a3_mux_queue h) \<Longrightarrow> \<not> q_locked (a3_mux_queue h) \<Longrightarrow>
    \<exists>h'. callbacks True off sid bs h = Some h' \<and> a3_output_streams h' = a3_output_streams h
      \<and> queue_ok (a3_mux_queue h') \<and> \<not> q_locked (a3_mux_queue h')
      \<and> queue_list (a3_mux_queue h') = queue_list (a3_mux_queue h) @ map (ac3_frame off sid os) (filter ac3_good bs)"
proof (induction bs arbitrary: h)
  case (Cons x bs)
  obtain b avfm where x: "x = (b, avfm)"
    by fastforce
  obtain h1 where h1: "detector_callback True off sid b avfm h = Some h1" "a3_output_streams h1 = a3_output_streams h"
      "queue_ok (a3_mux_queue h1)" "\<not> q_locked (a3_mux_queue h1)"
      "queue_list (a3_mux_queue h1) = queue_list (a3_mux_queue h) @ map (ac3_frame off sid os) (filter ac3_good [(b, avfm)])"
  proof (rule detector_callback_spec)
    show "burst_ok b"
      using Cons.prems(1) x by simp
  qed (use Cons.prems(2-4) in simp_all)
  then obtain h2 where "callbacks True off sid bs h1 = Some h2" "a3_output_streams h2 = a3_output_streams h1"
      "queue_ok (a3_mux_queue h2)" "\<not> q_locked (a3_mux_queue h2)"
      "queue_list (a3_mux_queue h2) = queue_list (a3_mux_queue h1) @ map (ac3_frame off sid os) (filter ac3_good bs)"
    using Cons.IH [of h1] Cons.prems by auto
  then show ?case
    using h1 x by (intro exI [of _ h2]) simp
qed simp


lemma scan_bursts_facts:
  "b \<in> set (fst (scan_bursts bs)) \<Longrightarrow> bu_datatype b = 1 \<and> length (bu_payload b) = bu_bits b div 8 \<and> length (bu_payload b) < 2 ^ 32"
proof (induction "length bs" arbitrary: bs rule: less_induct)
  case less
  show ?case
  proof (cases "length bs < 16")
    case False
    then have l: "16 \<le> length bs"
      by simp
    show ?thesis
    proof (cases "is_sync bs \<and> is_ac3 bs")
      case False
      have "length (drop 1 bs) < length bs"
        unfolding length_drop using l by linarith
      then show ?thesis
        using less.hyps [of "drop 1 bs"] less.prems scan_bursts_skip [OF l False] by simp
    next
      case True
      define n where "n = burst_bits bs div 8"
      show ?thesis
      proof (cases "8 + n \<le> length bs")
        case False
        then show ?thesis
          using scan_bursts_wait [OF l True] less.prems by (simp add: n_def)
      next
        case fit: True
        have "length (drop (8 + n) bs) < length bs"
          using l by simp
        then show ?thesis
          using less.hyps [of "drop (8 + n) bs"] less.prems scan_bursts_burst [OF l True n_def fit] fit True burst_bits_le [of bs]
          by (auto simp: make_burst_def n_def is_ac3_def)
      qed
    qed
  qed (use less.prems in \<open>simp add: scan_bursts_short\<close>)
qed

text \<open>The coded frame of a burst: its payload, and the time of its first sample with both audio offsets.\<close>

definition ac3_coded :: "(int \<Rightarrow> int) \<Rightarrow> int \<Rightarrow> int \<Rightarrow> output_stream \<Rightarrow> burst \<times> avfm \<times> nat \<Rightarrow> coded_frame" where
  "ac3_coded rescale off sid os = (\<lambda>(b, x). coded_frame_zero\<lparr>cf_output_stream_id := sid, cf_type := CF_AUDIO,
     cf_random_access := 1, cf_data := bu_payload b, cf_avfm := (fst x)\<lparr>av_audio_pts_corrected := sample_time rescale x\<rparr>,
     cf_pts := sample_time rescale x + off * 27000 + os_audio_offset_ms os * 27000\<rparr>)"

definition intact :: "burst \<times> 'o \<Rightarrow> bool" where
  "intact = (\<lambda>(b, x). bu_payload b \<noteq> [] \<and> ac3_valid (bu_payload b))"

lemma ac3_frames_coded:
  "map (ac3_frame off sid os) (filter ac3_good (zip bs (map (burst_timing rescale) xs)))
    = map (ac3_coded rescale off sid os) (filter intact (zip bs xs))"
proof (induction bs arbitrary: xs)
  case (Cons b bs)
  then show ?case
    by (cases xs) (simp_all add: ac3_frame_def ac3_coded_def ac3_good_def intact_def burst_timing_def)
qed simp

text \<open>C28 The AC-3 encoder passes on exactly the intact frames of the bitstream, with the right time stamps.  A
  turn takes the next raw frame from the queue and searches its audio behind the audio left from earlier ones.
  The coded frames it adds to the mux queue are, in order, the payloads of the bursts that are complete
  and whose checksums hold.  The time stamp of each is that of the audio frame in which its burst began, plus the
  duration of the samples before the burst in that frame, plus the two audio offsets, also when the burst
  runs over several audio frames.  The audio left over keeps its timing for the next turn.  Payloads of fewer
  than four bytes are left out by the hypothesis.\<close>

theorem ac3_turn_delivers_valid_frames:
  assumes queue: "queue_ok (ae_queue e)" "\<not> q_locked (ae_queue e)" "queue_list (ae_queue e) = frm # rest"
    and audio: "af_data (rf_audio_frame frm) = d # ds" "feed_ok 2 (d, nat (af_num_samples (rf_audio_frame frm)))"
      "upper_bytes d (nat (af_num_samples (rf_audio_frame frm))) 64 2 = Some new"
    and det: "det2_ok (ae_detector e)" "unread (d2_items (ae_detector e))"
    and mux: "queue_ok (a3_mux_queue h)" "\<not> q_locked (a3_mux_queue h)"
      "get_output_stream_by_id (a3_output_streams h) (ae_output_stream_id e) = Some os"
    and stream: "st = det2_bytes (ae_detector e) @ new" "ori = det2_origins (ae_detector e) @ chunk_origins (rf_avfm frm) new"
    and bursts: "found = fst (scan_bursts st)" "\<forall>b \<in> set found. length (bu_payload b) \<notin> {1, 2, 3}"
  shows "\<exists>e' h'. ac3_turn rescale off e h = Some (e', h') \<and> queue_list (ae_queue e') = rest
    \<and> det2_ok (ae_detector e') \<and> unread (d2_items (ae_detector e')) \<and> det2_bytes (ae_detector e') = snd (scan_bursts st)
    \<and> det2_origins (ae_detector e') = drop (length st - length (det2_bytes (ae_detector e'))) ori
    \<and> length (burst_origins st ori) = length found
    \<and> queue_list (a3_mux_queue h') = queue_list (a3_mux_queue h)
        @ map (ac3_coded rescale off (ae_output_stream_id e) os) (filter intact (zip found (burst_origins st ori)))"
proof -
  have sp: "0 < (2 :: nat)" "(2 :: nat) \<le> 16"
    by simp_all
  let ?n = "nat (af_num_samples (rf_audio_frame frm))"
  let ?bs = "zip found (map (burst_timing rescale) (burst_origins st ori))"
  obtain det' where w: "smpte337_detector2_write rescale True True (ae_detector e) (Some d) ?n 32 16 64 2 (rf_avfm frm)
      = Some (2 * ?n * 2, det', ?bs)"
    and o: "length (burst_origins st ori) = length found" "det2_ok det'" "unread (d2_items det')"
      "det2_bytes det' = snd (scan_bursts st)" "det2_origins det' = drop (length st - length (det2_bytes det')) ori"
    using det2_write_timing [OF det sp audio(2,3) stream, of rescale] unfolding bursts(1) by blast
  have "list_all (burst_ok \<circ> fst) ?bs"
  proof -
    have "burst_ok b" if "b \<in> set found" for b
      unfolding burst_ok_def using that scan_bursts_facts [of b] bursts by blast
    then show ?thesis
      by (auto simp: list_all_iff dest: set_zip_leftD)
  qed
  from callbacks_spec [OF this mux(3,1,2)] obtain h' where h': "callbacks True off (ae_output_stream_id e) ?bs h = Some h'"
      "queue_list (a3_mux_queue h') = queue_list (a3_mux_queue h) @ map (ac3_frame off (ae_output_stream_id e) os) (filter ac3_good ?bs)"
    by blast
  obtain q where q: "remove_from_queue True (ae_queue e) = Some (0, q)" "queue_list q = rest"
    by (rule remove_ok [OF queue(1,3,2)])
  have sz: "q_size (ae_queue e) \<noteq> 0" "at (q_buf (ae_queue e)) 0 = Some frm"
    using queue(1,3) by (cases "q_buf (ae_queue e)"; cases "nat (q_size (ae_queue e))"; auto simp: queue_list_def queue_ok_def)+
  have "ac3_turn rescale off e h = Some (e\<lparr>ae_detector := det', ae_queue := q\<rparr>, h')"
    using sz audio(1) w h'(1) q(1) by (simp add: ac3_turn_def)
  then show ?thesis
    using o h'(2) q(2) unfolding ac3_frames_coded
    by (intro exI [of _ "e\<lparr>ae_detector := det', ae_queue := q\<rparr>"] exI [of _ h']) simp
qed
lemma words_be_update:
  "k < length p div 2 \<Longrightarrow> words_be (p[2 * k := x, 2 * k + 1 := y]) = (words_be p)[k := push_bit 8 (ucast x) OR ucast y]"
proof (induction p arbitrary: k rule: words_be.induct)
  case (1 a b bs)
  then show ?case
    by (cases k) auto
qed auto

lemma words_be_nth: "k < length p div 2 \<Longrightarrow> words_be p ! k = push_bit 8 (ucast (p ! (2 * k))) OR ucast (p ! (2 * k + 1))"
proof (induction p arbitrary: k rule: words_be.induct)
  case (1 a b bs)
  then show ?case
    by (cases k) auto
qed auto

lemma join_bytes_inj:
  assumes "(push_bit 8 (ucast a) OR ucast b :: u16) = push_bit 8 (ucast c) OR ucast d"
  shows "(a :: u8) = c \<and> (b :: u8) = d"
proof -
  have "bit a n = bit c n" "bit b n = bit d n" if "n < 8" for n
  proof -
    have "bit (push_bit 8 (ucast a) OR ucast b :: u16) (n + 8) = bit (push_bit 8 (ucast c) OR ucast d :: u16) (n + 8)"
         "bit (push_bit 8 (ucast a) OR ucast b :: u16) n = bit (push_bit 8 (ucast c) OR ucast d :: u16) n"
      using assms by simp_all
    then show "bit a n = bit c n" "bit b n = bit d n"
      using that bit_imp_le_length [of b "n + 8"] bit_imp_le_length [of d "n + 8"] by (auto simp: bit_simps)
  qed
  then show ?thesis
    by (auto intro: bit_word_eqI)
qed

text \<open>A frame in which any one 16-bit word behind the synchronisation word is damaged fails the
  checksum and is not passed on.\<close>

theorem damaged_ac3_word_dropped:
  assumes "ac3_valid p" "1 \<le> k" "k < length p div 2" "p' = p[2 * k := x, 2 * k + 1 := y]" "p' \<noteq> p"
    and "burst_ok b" "bu_payload b = p'" "get_output_stream_by_id (a3_output_streams h) sid = Some os"
    and "queue_ok (a3_mux_queue h)" "\<not> q_locked (a3_mux_queue h)"
  shows "\<not> ac3_valid p' \<and> (\<exists>h'. detector_callback True off sid b avfm h = Some h'
    \<and> queue_list (a3_mux_queue h') = queue_list (a3_mux_queue h))"
proof -
  let ?w = "push_bit 8 (ucast x) OR ucast y :: u16"
  let ?ws = "drop 1 (words_be p)"
  have ne: "?w \<noteq> words_be p ! k"
  proof
    assume "?w = words_be p ! k"
    then have "x = p ! (2 * k) \<and> y = p ! (2 * k + 1)"
      unfolding words_be_nth [OF assms(3)] by (rule join_bytes_inj)
    then show False
      using assms(4,5) by simp
  qed
  have len: "length ?ws = length p div 2 - 1"
    unfolding length_drop length_words_be ..
  have "drop 1 (words_be p') = ?ws[k - 1 := ?w]"
    unfolding assms(4) words_be_update [OF assms(3)] using assms(2) by (simp add: drop_update_swap)
  moreover have "k - 1 < length ?ws" "?w \<noteq> ?ws ! (k - 1)"
    using assms(2,3) ne len by auto
  then have "crc_poly (?ws[k - 1 := ?w]) 0 \<noteq> crc_poly ?ws 0"
    by (rule crc_poly_update)
  moreover have "crc_poly ?ws 0 = 0"
    using assms(1) len by (simp add: ac3_valid_def Let_def)
  moreover have "length p' = length p"
    by (simp add: assms(4))
  ultimately have bad: "\<not> ac3_valid p'"
    using len by (simp add: ac3_valid_def Let_def)
  then have "\<not> ac3_good (b, avfm)"
    using assms(7) by (simp add: ac3_good_def)
  then show ?thesis
    using detector_callback_spec [OF assms(6,8,9,10), of off avfm] bad by auto
qed

text \<open>A payload of two or three bytes makes the checksum read words behind it: the count wraps.\<close>

lemma short_payload_overruns:
  assumes "length p \<in> {2, 3}" "bu_payload b = p" "bu_bits b div 8 = length p" "bu_datatype b = 1"
  shows "detector_callback ok off sid b avfm h = None"
proof -
  obtain p' where p': "swap_buffer_16b p (length p div 2) = Some p'" "words_le p' = words_be p"
    using swap_buffer_spec by blast
  have n: "length p div 2 = 1"
    using assms(1) by auto
  have "drop 1 (words_le p') = []"
    using p'(2) length_words_be [of p] n by (simp add: drop_all)
  then have "validateCRC p' (length p) = None"
    using n crc_calc_overrun [of "[]" "nat ((- 1) mod 2 ^ 32)" 0] by (simp add: validateCRC_def Let_def)
  then show ?thesis
    using assms p'(1) by (auto simp: detector_callback_def Let_def)
qed


definition example_ac3 :: ac3_state where
  "example_ac3 = \<lparr>a3_audio_encoder_drop = True, a3_output_streams = [example_output 7 AUDIO_AC_3_BITSTREAM],
     a3_mux_queue = zeroed_queue, a3_cur_pts = -1\<rparr>"

definition example_left :: detector2 where
  "example_left = \<lparr>d2_items = [\<lparr>it_avfm = example_timing,
     it_data = [0, 0, 0, 0, 0xf8, 0x72, 0x4e, 0x1f, 0, 1, 0, 32, 0x0b, 0x77, 0, 0], it_readpos = 4\<rparr>], d2_total = 12\<rparr>"

definition example_raw :: raw_frame where
  "example_raw = (the (new_raw_frame True))\<lparr>rf_audio_frame := \<lparr>af_num_samples = 1, af_num_channels = 16, af_linesize = 0,
     af_sample_fmt = 0, af_data = [replicate 64 0]\<rparr>\<rparr>"

lemma example_new:
  "upper_bytes (replicate 64 0) (nat (af_num_samples (rf_audio_frame example_raw))) 64 2 = Some [0, 0, 0, 0]"
  by (simp add: example_raw_def new_raw_frame_def upper_bytes_def at_def upt_conv_Cons)

lemma example_found:
  assumes "st = det2_bytes example_left @ [0, 0, 0, 0]"
  shows "fst (scan_bursts st) = [\<lparr>bu_datamode = 0, bu_datatype = 1, bu_bits = 32, bu_payload = [0x0b, 0x77, 0, 0]\<rparr>]"
    "burst_origins st os = [hd os]"
proof -
  let ?bs = "[0xf8, 0x72, 0x4e, 0x1f, 0, 1, 0, 32, 0x0b, 0x77, 0, 0, 0, 0, 0, 0] :: bytes"
  have st: "st = ?bs"
    by (simp add: assms det2_bytes_def item_bytes_def example_left_def)
  have h: "is_sync ?bs \<and> is_ac3 ?bs" "4 = burst_bits ?bs div 8"
    by (simp_all add: burst_bits_def is_sync_def is_ac3_def)
  have "scan_bursts ?bs = (make_burst ?bs (take 4 (drop 8 ?bs)) # fst (scan_bursts (drop (8 + 4) ?bs)), snd (scan_bursts (drop (8 + 4) ?bs)))"
    by (rule scan_bursts_burst [OF _ h]) simp_all
  then have "fst (scan_bursts ?bs) = make_burst ?bs [0x0b, 0x77, 0, 0] # fst (scan_bursts [0, 0, 0, 0])"
    by simp
  then show "fst (scan_bursts st) = [\<lparr>bu_datamode = 0, bu_datatype = 1, bu_bits = 32, bu_payload = [0x0b, 0x77, 0, 0]\<rparr>]"
    unfolding st by (simp add: scan_bursts_short make_burst_def burst_bits_def)
  have "burst_origins ?bs os = hd os # burst_origins (drop (8 + 4) ?bs) (drop (8 + 4) os)"
    by (rule burst_origins_burst [OF _ h]) simp_all
  then show "burst_origins st os = [hd os]"
    unfolding st by (simp add: burst_origins.simps)
qed

lemma example_valid: "ac3_valid [0x0b, 0x77, 0, 0]"
  by (simp add: ac3_valid_def crc16_def crc8_def funpow_8 crc_shift_def)

lemma example_ac3_output: "get_output_stream_by_id (a3_output_streams example_ac3) 7 = Some (example_output 7 AUDIO_AC_3_BITSTREAM)"
  by (simp add: get_output_stream_by_id_def example_ac3_def example_output_def)

text \<open>A burst that began four bytes, one sample pair, into an earlier frame with the time 27000.\<close>

theorem ac3_turn_delivers_valid_frames_witness:
  "\<exists>e' h' cf. ac3_turn (\<lambda>x. 562 * x) 0 \<lparr>ae_output_stream_id = 7, ae_queue = zeroed_queue\<lparr>q_buf := [example_raw], q_size := 1\<rparr>,
       ae_detector = example_left\<rparr> example_ac3 = Some (e', h')
     \<and> queue_list (a3_mux_queue h') = [cf] \<and> cf_data cf = [0x0b, 0x77, 0, 0] \<and> cf_pts cf = 27562 \<and> queue_list (ae_queue e') = []"
proof -
  let ?e = "\<lparr>ae_output_stream_id = 7, ae_queue = zeroed_queue\<lparr>q_buf := [example_raw], q_size := 1\<rparr>, ae_detector = example_left\<rparr>"
  let ?st = "det2_bytes (ae_detector ?e) @ [0, 0, 0, 0]"
  let ?ori = "det2_origins (ae_detector ?e) @ chunk_origins (rf_avfm example_raw) [0, 0, 0, 0]"
  have q: "queue_ok (ae_queue ?e)" "\<not> q_locked (ae_queue ?e)" "queue_list (ae_queue ?e) = [example_raw]"
    by (simp_all add: queue_ok_def queue_list_def zeroed_queue_def)
  have a: "af_data (rf_audio_frame example_raw) = [replicate 64 0]"
      "feed_ok 2 (replicate 64 0, nat (af_num_samples (rf_audio_frame example_raw)))"
    by (simp_all add: example_raw_def feed_ok_def)
  have d: "det2_ok (ae_detector ?e)" "unread (d2_items (ae_detector ?e))"
    by (simp_all add: det2_ok_def det2_bytes_def item_bytes_def example_left_def unread_def)
  have m: "queue_ok (a3_mux_queue example_ac3)" "\<not> q_locked (a3_mux_queue example_ac3)"
      "get_output_stream_by_id (a3_output_streams example_ac3) (ae_output_stream_id ?e) = Some (example_output 7 AUDIO_AC_3_BITSTREAM)"
    using example_ac3_output by (simp_all add: example_ac3_def)
  have o: "hd ?ori = (example_timing, 4)"
    by (simp add: det2_origins_def item_origins_def example_left_def upt_conv_Cons)
  have f: "fst (scan_bursts ?st) = [\<lparr>bu_datamode = 0, bu_datatype = 1, bu_bits = 32, bu_payload = [0x0b, 0x77, 0, 0]\<rparr>]"
      "burst_origins ?st ?ori = [(example_timing, 4)]"
    using example_found(1) [of ?st] example_found(2) [of ?st ?ori] o by simp_all
  have f2: "\<forall>b \<in> set (fst (scan_bursts ?st)). length (bu_payload b) \<notin> {1, 2, 3}"
    unfolding f(1) by simp
  obtain e' h' where r: "ac3_turn (\<lambda>x. 562 * x) 0 ?e example_ac3 = Some (e', h')" "queue_list (ae_queue e') = []"
      "queue_list (a3_mux_queue h') = queue_list (a3_mux_queue example_ac3)
         @ map (ac3_coded (\<lambda>x. 562 * x) 0 (ae_output_stream_id ?e) (example_output 7 AUDIO_AC_3_BITSTREAM))
             (filter intact (zip (fst (scan_bursts ?st)) (burst_origins ?st ?ori)))"
    using ac3_turn_delivers_valid_frames [OF q a example_new d m refl refl refl f2, of "\<lambda>x. 562 * x" 0]
    by (elim exE conjE) (rule that)
  have "queue_list (a3_mux_queue example_ac3) = []"
    by (simp add: example_ac3_def)
  then show ?thesis
    using r(1,2) r(3) [unfolded f] example_valid
    by (simp add: intact_def ac3_coded_def sample_time_def example_timing_def example_output_def coded_frame_zero_def)
qed

theorem damaged_ac3_word_dropped_witness:
  "\<not> ac3_valid [0x0b, 0x77, 0, 1]
    \<and> (\<exists>h'. detector_callback True 0 7 \<lparr>bu_datamode = 0, bu_datatype = 1, bu_bits = 32, bu_payload = [0x0b, 0x77, 0, 1]\<rparr>
         example_timing example_ac3 = Some h' \<and> queue_list (a3_mux_queue h') = [])"
proof -
  let ?b = "\<lparr>bu_datamode = 0, bu_datatype = 1, bu_bits = 32, bu_payload = [0x0b, 0x77, 0, 1]\<rparr>"
  have "burst_ok ?b" "queue_ok (a3_mux_queue example_ac3)" "\<not> q_locked (a3_mux_queue example_ac3)"
      "queue_list (a3_mux_queue example_ac3) = []"
    by (simp_all add: burst_ok_def example_ac3_def)
  then show ?thesis
    using damaged_ac3_word_dropped [OF example_valid, of 1 "[0x0b, 0x77, 0, 1]" 0 1 ?b example_ac3 7
        "example_output 7 AUDIO_AC_3_BITSTREAM" 0 example_timing] example_ac3_output
    by simp
qed

end
