(* ===== verification/Obe_Vbi.thy ===== *)
theory Obe_Vbi
  imports Obe_UserData Obe_Vanc Obe_Queue
begin

text \<open>
  The VBI parser (input/sdi/vbi.c, vbi.h): the services found by libzvbi in the raw lines of a
  standard-definition picture are taken over into the probe result or, when encoding, into the
  user data of the frame, what is left is carried as DVB-VBI and DVB teletext; the video index
  information line gives an AFD code.  libzvbi and the CRC of libavutil are not under src/: the
  values of the service identifiers are the record \<open>zvbi_ids\<close>, the slices the decoder returns and
  the CRC are arguments.  The functions return \<^const>\<open>None\<close> where the code leaves an object.
\<close>

unbundle bit_operations_syntax


section \<open>Services\<close>

(* src: input/sdi/vbi.c 47-64 reverse_tab *)
definition reverse_tab :: "u8 list" where
  "reverse_tab = [
      0x00, 0x80, 0x40, 0xc0, 0x20, 0xa0, 0x60, 0xe0, 0x10, 0x90, 0x50, 0xd0, 0x30, 0xb0, 0x70, 0xf0,
      0x08, 0x88, 0x48, 0xc8, 0x28, 0xa8, 0x68, 0xe8, 0x18, 0x98, 0x58, 0xd8, 0x38, 0xb8, 0x78, 0xf8,
      0x04, 0x84, 0x44, 0xc4, 0x24, 0xa4, 0x64, 0xe4, 0x14, 0x94, 0x54, 0xd4, 0x34, 0xb4, 0x74, 0xf4,
      0x0c, 0x8c, 0x4c, 0xcc, 0x2c, 0xac, 0x6c, 0xec, 0x1c, 0x9c, 0x5c, 0xdc, 0x3c, 0xbc, 0x7c, 0xfc,
      0x02, 0x82, 0x42, 0xc2, 0x22, 0xa2, 0x62, 0xe2, 0x12, 0x92, 0x52, 0xd2, 0x32, 0xb2, 0x72, 0xf2,
      0x0a, 0x8a, 0x4a, 0xca, 0x2a, 0xaa, 0x6a, 0xea, 0x1a, 0x9a, 0x5a, 0xda, 0x3a, 0xba, 0x7a, 0xfa,
      0x06, 0x86, 0x46, 0xc6, 0x26, 0xa6, 0x66, 0xe6, 0x16, 0x96, 0x56, 0xd6, 0x36, 0xb6, 0x76, 0xf6,
      0x0e, 0x8e, 0x4e, 0xce, 0x2e, 0xae, 0x6e, 0xee, 0x1e, 0x9e, 0x5e, 0xde, 0x3e, 0xbe, 0x7e, 0xfe,
      0x01, 0x81, 0x41, 0xc1, 0x21, 0xa1, 0x61, 0xe1, 0x11, 0x91, 0x51, 0xd1, 0x31, 0xb1, 0x71, 0xf1,
      0x09, 0x89, 0x49, 0xc9, 0x29, 0xa9, 0x69, 0xe9, 0x19, 0x99, 0x59, 0xd9, 0x39, 0xb9, 0x79, 0xf9,
      0x05, 0x85, 0x45, 0xc5, 0x25, 0xa5, 0x65, 0xe5, 0x15, 0x95, 0x55, 0xd5, 0x35, 0xb5, 0x75, 0xf5,
      0x0d, 0x8d, 0x4d, 0xcd, 0x2d, 0xad, 0x6d, 0xed, 0x1d, 0x9d, 0x5d, 0xdd, 0x3d, 0xbd, 0x7d, 0xfd,
      0x03, 0x83, 0x43, 0xc3, 0x23, 0xa3, 0x63, 0xe3, 0x13, 0x93, 0x53, 0xd3, 0x33, 0xb3, 0x73, 0xf3,
      0x0b, 0x8b, 0x4b, 0xcb, 0x2b, 0xab, 0x6b, 0xeb, 0x1b, 0x9b, 0x5b, 0xdb, 0x3b, 0xbb, 0x7b, 0xfb,
      0x07, 0x87, 0x47, 0xc7, 0x27, 0xa7, 0x67, 0xe7, 0x17, 0x97, 0x57, 0xd7, 0x37, 0xb7, 0x77, 0xf7,
      0x0f, 0x8f, 0x4f, 0xcf, 0x2f, 0xaf, 0x6f, 0xef, 0x1f, 0x9f, 0x5f, 0xdf, 0x3f, 0xbf, 0x7f, 0xff]"

text \<open>The service identifiers of libzvbi are bit sets; the inverted teletext is missing from older
  versions of the library, which the code allows for.\<close>

record zvbi_ids =
  zv_teletext_b :: int
  zv_teletext_c_625 :: int
  zv_teletext_inverted :: "int option"
  zv_wss_625 :: int
  zv_vps :: int
  zv_caption_525 :: int
  zv_caption_625 :: int
  zv_nabts :: int

(* src: input/sdi/vbi.c 68-81 vbi_type_tab *)
definition vbi_type_tab :: "zvbi_ids \<Rightarrow> (int \<times> stream_formats) list" where
  "vbi_type_tab z =
     [(zv_teletext_b z, MISC_TELETEXT), (zv_teletext_c_625 z, VBI_NABTS)]
     @ (case zv_teletext_inverted z of None \<Rightarrow> [] | Some t \<Rightarrow> [(t, MISC_TELETEXT_INVERTED)])
     @ [(zv_wss_625 z, MISC_WSS), (zv_vps z, MISC_VPS), (zv_caption_525 z, CAPTIONS_CEA_608),
        (zv_nabts z, VBI_NABTS)]"

text \<open>\<^const>\<open>None\<close> is the -1 of an unknown service.\<close>

fun find_vbi_type :: "(int \<times> stream_formats) list \<Rightarrow> int \<Rightarrow> stream_formats option" where
  "find_vbi_type [] sliced_type = None"
| "find_vbi_type ((t, f) # tab) sliced_type =
     (if t AND sliced_type \<noteq> 0 then Some f else find_vbi_type tab sliced_type)"

(* src: input/sdi/vbi.c 95-104 get_vbi_type *)
definition get_vbi_type :: "zvbi_ids \<Rightarrow> int \<Rightarrow> stream_formats option" where
  "get_vbi_type z sliced_type = find_vbi_type (vbi_type_tab z) sliced_type"

(* src: input/sdi/vbi.h 31-45 dvb_vbi_data_unit_id_e *)
datatype dvb_vbi_data_unit_id =
    DATA_UNIT_ID_EBU_TTX_NON_SUB | DATA_UNIT_ID_EBU_TTX_SUB | DATA_UNIT_ID_TTX_INVERTED
  | DATA_UNIT_ID_VPS | DATA_UNIT_ID_WSS | DATA_UNIT_ID_CEA_608 | DATA_UNIT_ID_AMOL_48
  | DATA_UNIT_ID_AMOL_96 | DATA_UNIT_ID_NABTS | DATA_UNIT_ID_TVG2X | DATA_UNIT_ID_CP
  | DATA_UNIT_ID_VITC

fun data_unit_id_val :: "dvb_vbi_data_unit_id \<Rightarrow> u32" where
  "data_unit_id_val DATA_UNIT_ID_EBU_TTX_NON_SUB = 0x02"
| "data_unit_id_val DATA_UNIT_ID_EBU_TTX_SUB = 0x03"
| "data_unit_id_val DATA_UNIT_ID_TTX_INVERTED = 0xc0"
| "data_unit_id_val DATA_UNIT_ID_VPS = 0xc3"
| "data_unit_id_val DATA_UNIT_ID_WSS = 0xc4"
| "data_unit_id_val DATA_UNIT_ID_CEA_608 = 0xc5"
| "data_unit_id_val DATA_UNIT_ID_AMOL_48 = 0xd0"
| "data_unit_id_val DATA_UNIT_ID_AMOL_96 = 0xd1"
| "data_unit_id_val DATA_UNIT_ID_NABTS = 0xd5"
| "data_unit_id_val DATA_UNIT_ID_TVG2X = 0xd6"
| "data_unit_id_val DATA_UNIT_ID_CP = 0xd7"
| "data_unit_id_val DATA_UNIT_ID_VITC = 0xd9"

(* src: input/sdi/vbi.h 50-65 data_indentifier_table *)
definition data_indentifier_table :: "(dvb_vbi_data_unit_id \<times> stream_formats) list" where
  "data_indentifier_table =
     [(DATA_UNIT_ID_EBU_TTX_NON_SUB, MISC_TELETEXT), (DATA_UNIT_ID_EBU_TTX_SUB, MISC_TELETEXT),
      (DATA_UNIT_ID_TTX_INVERTED, MISC_TELETEXT_INVERTED), (DATA_UNIT_ID_VPS, MISC_VPS),
      (DATA_UNIT_ID_WSS, MISC_WSS), (DATA_UNIT_ID_CEA_608, CAPTIONS_CEA_608),
      (DATA_UNIT_ID_AMOL_48, VBI_AMOL_48), (DATA_UNIT_ID_AMOL_96, VBI_AMOL_96),
      (DATA_UNIT_ID_NABTS, VBI_NABTS), (DATA_UNIT_ID_TVG2X, VBI_TVG2X), (DATA_UNIT_ID_CP, VBI_CP),
      (DATA_UNIT_ID_VITC, VBI_VITC)]"

(* src: input/sdi/vbi.c 83-93 write_bytes *)
definition vbi_write_bytes :: "bytes \<Rightarrow> nat \<Rightarrow> bs \<Rightarrow> bs option" where
  "vbi_write_bytes bytes len s =
     do { s \<leftarrow> bs_flush s;
          d \<leftarrow> mem_get 0 len bytes;
          m \<leftarrow> mem_put (bs_p s) d (bs_mem s);
          let p = bs_p s + len;
          let offset = p mod 4;
          w \<leftarrow> load32 m (p - offset);
          Some (s\<lparr>bs_mem := m, bs_p := p - offset,
                  bs_cur := drop_bit ((4 - offset) * 8) (ucast (endian_fix32 w)),
                  bs_left := (8 - offset) * 8\<rparr>) }"


section \<open>State of the parser\<close>

text \<open>The fields of \<open>vbi_raw_decoder\<close> the code sets, the two CRC tables (whether they have been
  initialised), the number of slices in use and the frames under construction.\<close>

(* src: input/sdi/sdi.h 44-74 obe_sdi_non_display_data_t *)
record vbi_parser = non_display_data +
  vp_sampling_format_uyvy :: bool
  vp_sampling_rate :: int
  vp_bytes_per_line :: int
  vp_interlaced :: bool
  vp_synchronous :: bool
  vp_offset :: int
  vp_scanning :: int
  vp_services :: int
  vp_crc_ready :: bool
  vp_num_vbi :: int
  vp_dvb_vbi_frame :: "coded_frame option"
  vp_dvb_ttx_frame :: "coded_frame option"

text \<open>\<open>add_services\<close> is libzvbi's function, which returns the services it accepted; \<open>crc_init\<close> is the
  result of the two calls of \<open>av_crc_init\<close>, of which only the second is looked at.\<close>

(* src: input/sdi/vbi.c 106-148 setup_vbi_parser *)
definition setup_vbi_parser ::
  "zvbi_ids \<Rightarrow> (int \<Rightarrow> int \<Rightarrow> int) \<Rightarrow> int \<times> int \<Rightarrow> vbi_parser \<Rightarrow> int \<times> vbi_parser" where
  "setup_vbi_parser z add_services crc_init nd =
     (let nd = nd\<lparr>vp_sampling_format_uyvy := True, vp_sampling_rate := 13500000,
                  vp_bytes_per_line := 720 * 2, vp_interlaced := True, vp_synchronous := True\<rparr>;
          services = (if \<not> nd_ntsc nd
                      then zv_vps z OR zv_wss_625 z OR zv_caption_625 z OR zv_teletext_b z
                           OR zv_teletext_c_625 z
                      else zv_nabts z OR zv_caption_525 z);
          nd = (if \<not> nd_ntsc nd then nd\<lparr>vp_offset := 128, vp_scanning := 625\<rparr>
                else nd\<lparr>vp_offset := 118, vp_scanning := 525\<rparr>);
          ret = add_services services 2;
          nd = nd\<lparr>vp_services := ret\<rparr>
      in if ret = 0 then (-1, nd)
         else if snd crc_init < 0 then (-1, nd)
         else (0, nd\<lparr>vp_crc_ready := True\<rparr>))"

section \<open>Decoding the raw lines\<close>

text \<open>\<open>vb_decode\<close> is \<open>vbi_raw_decode\<close>; \<open>vb_junk\<close> is the content of a freshly reallocated array
  element before its fields are set.\<close>

record vbi_env = vanc_env +
  vb_ids :: zvbi_ids
  vb_decode :: "bytes \<Rightarrow> vbi_sliced list"
  vb_junk :: user_data

definition zero_slice :: vbi_sliced where
  "zero_slice = \<lparr>vs_id = 0, vs_line = 0, vs_data = replicate 56 0\<rparr>"

definition is_caption_525 :: "zvbi_ids \<Rightarrow> vbi_sliced \<Rightarrow> bool" where
  "is_caption_525 z s \<longleftrightarrow> vs_id s AND zv_caption_525 z \<noteq> 0"

text \<open>The macro, without its \<open>i--\<close>: the caller stays at the same index.\<close>

(* src: input/sdi/vbi.c 150-155 REMOVE_LINES *)
definition remove_lines :: "nat \<Rightarrow> nat \<Rightarrow> vbi_sliced list \<times> nat \<Rightarrow> (vbi_sliced list \<times> nat) option" where
  "remove_lines num_lines i sl =
     (case sl of (sliced, decoded_lines) \<Rightarrow>
        if decoded_lines < i + num_lines then None
        else do { rest \<leftarrow> mem_get (i + num_lines) (decoded_lines - i - num_lines) sliced;
                  sliced \<leftarrow> mem_put i rest sliced;
                  sliced \<leftarrow> mem_put (decoded_lines - num_lines) (replicate num_lines zero_slice) sliced;
                  Some (sliced, decoded_lines - num_lines) })"

lemma remove_lines_less:
  "remove_lines k i sl = Some sl' \<Longrightarrow> 0 < k \<Longrightarrow> snd sl' < snd sl"
  by (auto simp: remove_lines_def bind_eq_Some_conv split: prod.splits if_split_asm)

(* src: input/sdi/vbi.c 170-189 decode_vbi *)
function remove_unsupported ::
  "zvbi_ids \<Rightarrow> nat \<Rightarrow> vbi_sliced list \<times> nat \<Rightarrow> (vbi_sliced list \<times> nat) option" where
  "remove_unsupported z i sl =
     (if \<not> i < snd sl then Some sl
      else do { s \<leftarrow> at (fst sl) i;
                pair \<leftarrow> (if is_caption_525 z s
                         then do { t \<leftarrow> at (fst sl) (i + 1); Some (is_caption_525 z t) }
                         else Some False);
                if pair then remove_unsupported z (i + 2) sl
                else if get_vbi_type z (vs_id s) = None
                then do { sl' \<leftarrow> remove_lines 1 i sl; remove_unsupported z i sl' }
                else remove_unsupported z (i + 1) sl })"
  by pat_completeness auto
termination
  by (relation "measure (\<lambda>(z, i, sl). snd sl - i)") (auto dest: remove_lines_less)

declare remove_unsupported.simps [simp del]

(* src: input/sdi/vbi.c 201-210 decode_vbi *)
fun append_probed_line :: "stream_formats \<Rightarrow> int \<Rightarrow> int_frame_data list \<Rightarrow> int_frame_data list option" where
  "append_probed_line t line [] = None"
| "append_probed_line t line (fd # fds) =
     (if fd_type fd = t
      then do { ls \<leftarrow> mem_put (nat (fd_num_lines fd)) [line] (fd_lines fd);
                Some (fd\<lparr>fd_lines := ls, fd_num_lines := fd_num_lines fd + 1\<rparr> # fds) }
      else map_option ((#) fd) (append_probed_line t line fds))"

text \<open>The probing pass.  A service already known only gains a line; WSS next to a known AFD ends the
  whole pass.\<close>

(* src: input/sdi/vbi.c 194-246 decode_vbi *)
fun probe_vbi :: "vbi_env \<Rightarrow> vbi_sliced list \<Rightarrow> 'a non_display_data_scheme \<Rightarrow> (int \<times> 'a non_display_data_scheme) option" where
  "probe_vbi env [] nd = Some (0, nd\<lparr>nd_has_probed := True\<rparr>)"
| "probe_vbi env (s # sls) nd =
     (let vbi_type = get_vbi_type (vb_ids env) (vs_id s);
          known = (case vbi_type of None \<Rightarrow> False | Some t \<Rightarrow> check_probed_non_display_data nd t)
      in do { fds \<leftarrow> (if known then append_probed_line (the vbi_type) (vs_line s) (nd_frame_data nd)
                      else Some (nd_frame_data nd));
              let nd = nd\<lparr>nd_frame_data := fds\<rparr>;
              if vbi_type = Some MISC_WSS \<and> check_probed_non_display_data nd MISC_AFD
              then Some (0, nd\<lparr>nd_has_probed := True\<rparr>)
              else if known then probe_vbi env sls nd
              else (let nd = (if vbi_type = Some MISC_TELETEXT then nd\<lparr>nd_has_ttx_frame := True\<rparr>
                              else if vbi_type \<noteq> Some CAPTIONS_CEA_608 \<and> vbi_type \<noteq> Some MISC_WSS
                              then nd\<lparr>nd_has_vbi_frame := True\<rparr> else nd)
                    in if vbi_type = Some MISC_WSS
                       then (if \<not> ve_realloc_ok env then Some (-1, nd)
                             else probe_vbi env sls (nd\<lparr>nd_frame_data := nd_frame_data nd @
                               [probed_service MISC_AFD MISC_WSS (vs_line s) USER_DATA_LOCATION_FRAME]\<rparr>))
                       else probe_vbi env sls nd) })"

text \<open>A new element of the user data of the frame; after a failed \<open>malloc\<close> the element counts, without
  data.\<close>

definition vbi_attach :: "vbi_env \<Rightarrow> stream_formats \<Rightarrow> user_data_types \<Rightarrow> bytes \<Rightarrow> user_data list \<Rightarrow> bool \<times> user_data list" where
  "vbi_attach env source t data uds =
     (let u = (vb_junk env)\<lparr>ud_len := int (length data)\<rparr>
      in if \<not> ve_realloc_ok env then (False, uds)
         else if \<not> ve_malloc_ok env then (False, uds @ [u\<lparr>ud_data := []\<rparr>])
         else (True, uds @ [u\<lparr>ud_data := data, ud_type := t, ud_source := source\<rparr>]))"

text \<open>One slice when the picture is encoded: the next index, the slices, the parser and the user data.\<close>

type_synonym vbi_slices = "vbi_sliced list \<times> nat"

(* src: input/sdi/vbi.c 256-297 decode_vbi *)
definition extract_caption ::
  "vbi_env \<Rightarrow> nat \<Rightarrow> vbi_sliced \<Rightarrow> vbi_slices \<Rightarrow> user_data list \<Rightarrow> (int \<times> vbi_slices \<times> user_data list) option" where
  "extract_caption env i s sl uds =
     do { t \<leftarrow> at (fst sl) (i + 1);
          let num_lines = 1 + (if is_caption_525 (vb_ids env) t then 1 else 0);
          let skip = check_active_non_display_data uds USER_DATA_CEA_608
                     \<or> check_active_non_display_data uds USER_DATA_CEA_708_CDP
                     \<or> \<not> check_user_selected_non_display_data (ve_outs env) CAPTIONS_CEA_608 USER_DATA_LOCATION_FRAME;
          d1 \<leftarrow> (if skip then Some [] else mem_get 0 2 (vs_data s));
          d2 \<leftarrow> (if skip \<or> num_lines \<le> 1 then Some [] else mem_get 0 2 (vs_data t));
          let (ok, uds) = (if skip then (True, uds)
                           else vbi_attach env VBI_RAW USER_DATA_CEA_608 (d1 @ d2) uds);
          if \<not> ok then Some (-1, sl, uds)
          else do { sl \<leftarrow> remove_lines num_lines i sl; Some (0, sl, uds) } }"

(* src: input/sdi/vbi.c 298-327 decode_vbi *)
definition extract_wss ::
  "vbi_env \<Rightarrow> nat \<Rightarrow> vbi_sliced \<Rightarrow> vbi_slices \<Rightarrow> user_data list \<Rightarrow> (int \<times> nat \<times> vbi_slices \<times> user_data list) option" where
  "extract_wss env i s sl uds =
     do { d \<leftarrow> at (vs_data s) 0;
          let skip = \<not> check_user_selected_non_display_data (ve_outs env) MISC_WSS USER_DATA_LOCATION_DVB_STREAM;
          let (ok, uds) =
            (if \<not> check_active_non_display_data uds USER_DATA_AFD
                \<and> check_user_selected_non_display_data (ve_outs env) MISC_WSS USER_DATA_LOCATION_FRAME
             then vbi_attach env VBI_RAW USER_DATA_WSS [d AND 0x7] uds else (True, uds));
          if \<not> ok then Some (-1, i, sl, uds)
          else if skip then do { sl \<leftarrow> remove_lines 1 i sl; Some (0, i, sl, uds) }
          else Some (0, i + 1, sl, uds) }"

(* src: input/sdi/vbi.c 328-345 decode_vbi *)
definition extract_other ::
  "vbi_env \<Rightarrow> nat \<Rightarrow> vbi_sliced \<Rightarrow> vbi_slices \<Rightarrow> vbi_parser \<Rightarrow> (nat \<times> vbi_slices \<times> vbi_parser) option" where
  "extract_other env i s sl nd =
     (let vbi_type = get_vbi_type (vb_ids env) (vs_id s);
          selected = (case vbi_type of None \<Rightarrow> False
             | Some t \<Rightarrow> check_user_selected_non_display_data (ve_outs env) t USER_DATA_LOCATION_DVB_STREAM)
      in if vs_id s AND zv_teletext_b (vb_ids env) \<noteq> 0
         then Some (i + 1, sl, nd\<lparr>nd_has_ttx_frame := get_output_stream_by_format (ve_outs env) MISC_TELETEXT \<noteq> None,
                                  nd_has_vbi_frame := selected\<rparr>)
         else if \<not> selected then do { sl \<leftarrow> remove_lines 1 i sl; Some (i, sl, nd) }
         else Some (i + 1, sl, nd\<lparr>nd_has_vbi_frame := True\<rparr>))"

(* src: input/sdi/vbi.c 247-346 decode_vbi *)
definition extract_slice ::
  "vbi_env \<Rightarrow> nat \<Rightarrow> vbi_slices \<Rightarrow> vbi_parser \<Rightarrow> user_data list \<Rightarrow> (int \<times> nat \<times> vbi_slices \<times> vbi_parser \<times> user_data list) option" where
  "extract_slice env i sl nd uds =
     do { s \<leftarrow> at (fst sl) i;
          if is_caption_525 (vb_ids env) s
          then do { (r, sl, uds) \<leftarrow> extract_caption env i s sl uds; Some (r, i, sl, nd, uds) }
          else if vs_id s = zv_wss_625 (vb_ids env)
          then do { (r, i, sl, uds) \<leftarrow> extract_wss env i s sl uds; Some (r, i, sl, nd, uds) }
          else do { (i, sl, nd) \<leftarrow> extract_other env i s sl nd; Some (0, i, sl, nd, uds) } }"

lemma extract_caption_less:
  assumes "extract_caption env i s sl uds = Some (r, sl', uds')" "\<not> r < 0"
  shows "snd sl' < snd sl"
proof -
  have *: "(if \<not> ok then Some (-1, sl, u) else do { sl \<leftarrow> remove_lines (1 + (if b then 1 else 0)) i sl; Some (0, sl, u) })
      = Some (r, sl', uds') \<Longrightarrow> snd sl' < snd sl" for ok b u
    using assms(2) by (auto simp: bind_eq_Some_conv dest!: remove_lines_less split: if_split_asm)
  show ?thesis
    using assms(1) unfolding extract_caption_def Let_def bind_eq_Some_conv
    by (elim exE conjE) (simp only: split: prod.split_asm, elim *)
qed

lemma extract_wss_less:
  assumes "extract_wss env i s sl uds = Some (r, i', sl', uds')" "\<not> r < 0" "i < snd sl"
  shows "snd sl' - i' < snd sl - i"
proof -
  have *: "(if \<not> ok then Some (-1, i, sl, u)
            else if skip then do { sl \<leftarrow> remove_lines 1 i sl; Some (0, i, sl, u) }
            else Some (0, i + 1, sl, u)) = Some (r, i', sl', uds') \<Longrightarrow> snd sl' - i' < snd sl - i" for ok skip u
    using assms(2,3) by (auto simp: bind_eq_Some_conv dest!: remove_lines_less split: if_split_asm)
  show ?thesis
    using assms(1) unfolding extract_wss_def Let_def bind_eq_Some_conv
    by (elim exE conjE) (simp only: split: prod.split_asm, elim *)
qed

lemma extract_other_less:
  assumes "extract_other env i s sl nd = Some (i', sl', nd')" "i < snd sl"
  shows "snd sl' - i' < snd sl - i"
  using assms unfolding extract_other_def Let_def
  by (auto simp: bind_eq_Some_conv dest!: remove_lines_less split: if_split_asm)

lemma extract_slice_progress:
  assumes "extract_slice env i sl nd uds = Some (r, i', sl', nd', uds')" "\<not> r < 0" "i < snd sl"
  shows "snd sl' - i' < snd sl - i"
proof -
  obtain s where s: "at (fst sl) i = Some s"
    using assms(1) by (auto simp: extract_slice_def bind_eq_Some_conv)
  consider (cap) "extract_caption env i s sl uds = Some (r, sl', uds')" "i' = i"
    | (wss) "extract_wss env i s sl uds = Some (r, i', sl', uds')"
    | (other) "extract_other env i s sl nd = Some (i', sl', nd')"
    using assms(1) s
    by (cases "is_caption_525 (vb_ids env) s"; cases "vs_id s = zv_wss_625 (vb_ids env)")
      (auto simp: extract_slice_def bind_eq_Some_conv)
  then show ?thesis
  proof cases
    case cap
    then show ?thesis
      using extract_caption_less [OF cap(1) assms(2)] assms(3) by (simp add: diff_less_mono)
  qed (use assms extract_wss_less extract_other_less in blast)+
qed

(* src: input/sdi/vbi.c 250-347 decode_vbi *)
function extract_vbi ::
  "vbi_env \<Rightarrow> nat \<Rightarrow> vbi_slices \<Rightarrow> vbi_parser \<Rightarrow> user_data list \<Rightarrow> (int \<times> vbi_slices \<times> vbi_parser \<times> user_data list) option" where
  "extract_vbi env i sl nd uds =
     (if \<not> i < snd sl then Some (0, sl, nd, uds)
      else do { (r, i', sl', nd', uds') \<leftarrow> extract_slice env i sl nd uds;
                if r < 0 then Some (r, sl', nd', uds') else extract_vbi env i' sl' nd' uds' })"
  by pat_completeness auto
termination
  by (relation "measure (\<lambda>(env, i, sl, nd, uds). snd sl - i)") (auto dest: extract_slice_progress)

declare extract_vbi.simps [simp del]

(* src: input/sdi/vbi.c 157-353 decode_vbi *)
definition decode_vbi ::
  "vbi_env \<Rightarrow> vbi_parser \<Rightarrow> bytes \<Rightarrow> user_data list \<Rightarrow> (int \<times> vbi_parser \<times> user_data list) option" where
  "decode_vbi env nd lines uds =
     do { let decoded = vb_decode env lines;
          sliced \<leftarrow> mem_put 0 decoded (replicate 100 zero_slice);
          (sliced, decoded_lines) \<leftarrow> remove_unsupported (vb_ids env) 0 (sliced, length decoded);
          let nd = nd\<lparr>nd_vbi_slices := sliced\<rparr>;
          if decoded_lines = 0 then Some (0, nd, uds)
          else if nd_probe nd
          then do { (r, nd) \<leftarrow> probe_vbi env (take decoded_lines sliced) nd; Some (r, nd, uds) }
          else do { (r, (sliced, decoded_lines), nd, uds) \<leftarrow> extract_vbi env 0 (sliced, decoded_lines) nd uds;
                    let nd = nd\<lparr>nd_vbi_slices := sliced\<rparr>;
                    Some (r, if r < 0 then nd else nd\<lparr>vp_num_vbi := int decoded_lines\<rparr>, uds) } }"


section \<open>Video index information\<close>

definition vii_byte :: "u16 list \<Rightarrow> nat \<Rightarrow> u8 option" where
  "vii_byte line i =
     do { bits \<leftarrow> those (map (\<lambda>k. map_option (\<lambda>x. x = 0x204) (at line (16 * i + 2 * k))) [0..<8]);
          Some (fold (\<lambda>k d. d OR push_bit k (of_bool (bits ! k))) [0..<8] 0) }"

text \<open>\<open>crc\<close> and \<open>crc_broken\<close> are \<open>av_crc\<close> with the two tables of \<open>setup_vbi_parser\<close>.\<close>

(* src: input/sdi/vbi.c 355-435 decode_video_index_information *)
definition decode_video_index_information ::
  "vbi_env \<Rightarrow> (bytes \<Rightarrow> u32) \<Rightarrow> (bytes \<Rightarrow> u32) \<Rightarrow> vbi_parser \<Rightarrow> u16 list \<Rightarrow> user_data list \<Rightarrow> int
     \<Rightarrow> (int \<times> vbi_parser \<times> user_data list) option" where
  "decode_video_index_information env crc crc_broken nd line uds line_number =
     do { data \<leftarrow> those (map (vii_byte line) [0..<90]);
          if data ! 0 = 0 \<and> data ! 1 = 0 \<and> data ! 2 = 0 then Some (0, nd, uds)
          else if \<not> (crc (take 3 data) = ucast (data ! 3) \<or> crc_broken (take 3 data) = ucast (data ! 3))
          then Some (0, nd, uds)
          else if nd_probe nd
          then (if check_probed_non_display_data nd MISC_AFD then Some (0, nd, uds)
                else if \<not> ve_realloc_ok env then Some (-1, nd, uds)
                else Some (0, nd\<lparr>nd_frame_data := nd_frame_data nd @
                       [probed_service MISC_AFD VBI_VIDEO_INDEX line_number USER_DATA_LOCATION_FRAME]\<rparr>, uds))
          else if \<not> check_user_selected_non_display_data (ve_outs env) MISC_AFD USER_DATA_LOCATION_FRAME
          then Some (0, nd, uds)
          else if check_active_non_display_data uds USER_DATA_AFD then Some (0, nd, uds)
          else (let afd_code = data ! 0 AND 0x78;
                    scan_system = data ! 0 AND 0x7;
                    is_wide = scan_system = 5 \<or> scan_system = 6;
                    (ok, uds) = vbi_attach env VBI_VIDEO_INDEX USER_DATA_AFD
                                  [afd_code OR push_bit 2 (of_bool is_wide)] uds
                in Some (if ok then 0 else -1, nd, uds)) }"


section \<open>Data units\<close>

(* src: input/sdi/vbi.c 75-75 REVERSE *)
definition REVERSE :: "u8 \<Rightarrow> u32" where
  "REVERSE x = ucast (reverse_tab ! unat x)"

(* src: input/sdi/vbi.c 437-447 write_header_byte *)
definition write_header_byte :: "int \<Rightarrow> bool \<Rightarrow> bs \<Rightarrow> bs option" where
  "write_header_byte smpte_line ntsc s =
     do { (analogue_line, field) \<leftarrow> obe_convert_smpte_to_analogue
             (if \<not> ntsc then INPUT_VIDEO_FORMAT_PAL else INPUT_VIDEO_FORMAT_NTSC) smpte_line;
          s \<leftarrow> bs_write s 2 3;
          s \<leftarrow> bs_write s 1 (of_bool (field = 1));
          bs_write s 5 (word_of_int analogue_line) }"

fun write_reversed :: "nat list \<Rightarrow> bytes \<Rightarrow> bs \<Rightarrow> bs option" where
  "write_reversed [] data s = Some s"
| "write_reversed (i # is) data s =
     do { d \<leftarrow> at data i; s \<leftarrow> bs_write s 8 (REVERSE d); write_reversed is data s }"

(* src: input/sdi/vbi.c 449-458 write_generic_field *)
definition write_generic_field :: "bytes \<Rightarrow> stream_formats \<Rightarrow> bs \<Rightarrow> bs option" where
  "write_generic_field data t s = write_reversed [0..<if t = MISC_VPS then 13 else 0] data s"

(* src: input/sdi/vbi.c 460-474 write_ttx_field *)
definition write_ttx_field :: "bytes \<Rightarrow> stream_formats \<Rightarrow> bs \<Rightarrow> bs option" where
  "write_ttx_field data t s =
     (if t = VBI_NABTS
      then do { s \<leftarrow> bs_write s 8 0xe7; write_reversed [0..<33] data s }
      else do { s \<leftarrow> bs_write s 8 (if t = MISC_TELETEXT then 0xe4 else 0x1b);
                write_reversed [0..<42] data s })"

(* src: input/sdi/vbi.c 476-481 write_wss_field *)
definition write_wss_field :: "bytes \<Rightarrow> bs \<Rightarrow> bs option" where
  "write_wss_field data s =
     do { d0 \<leftarrow> at data 0;
          s \<leftarrow> bs_write s 8 (REVERSE d0);
          d1 \<leftarrow> at data 1;
          s \<leftarrow> bs_write s 6 (drop_bit 2 (REVERSE d1));
          bs_write s 2 3 }"

fun write_fill :: "nat \<Rightarrow> bs \<Rightarrow> bs option" where
  "write_fill 0 s = Some s"
| "write_fill (Suc n) s = do { s \<leftarrow> bs_write s 8 0xff; write_fill n s }"

(* src: input/sdi/vbi.c 483-499 write_stuffing *)
definition write_stuffing :: "bs \<Rightarrow> bs option" where
  "write_stuffing s =
     (if (bs_pos s div 8 + 45) mod 184 \<noteq> 0
      then do { s \<leftarrow> bs_write s 8 0xff;
                let count = (bs_pos s div 8 + 45 + 1) mod 184;
                let count = (if count \<noteq> 0 then 184 - count else 0);
                s \<leftarrow> bs_write s 8 (word_of_int count);
                write_fill (nat count) s }
      else Some s)"


section \<open>DVB-VBI and DVB teletext\<close>

text \<open>The last matching row wins; without a match the identifier of the previous slice stays.\<close>

definition data_unit_id_of :: "stream_formats option \<Rightarrow> u32 \<Rightarrow> u32" where
  "data_unit_id_of vbi_type old =
     fold (\<lambda>(u, f) d. if vbi_type = Some f then data_unit_id_val u else d) data_indentifier_table old"

(* src: input/sdi/vbi.c 550-572 encapsulate_dvb_vbi *)
definition write_vbi_unit :: "zvbi_ids \<Rightarrow> bool \<Rightarrow> vbi_sliced \<Rightarrow> bytes \<Rightarrow> bs option" where
  "write_vbi_unit z ntsc s tmp =
     do { t \<leftarrow> bs_init tmp 0 100;
          t \<leftarrow> write_header_byte (vs_line s) ntsc t;
          let vbi_type = get_vbi_type z (vs_id s);
          t \<leftarrow> (if vbi_type = Some MISC_TELETEXT \<or> vbi_type = Some MISC_TELETEXT_INVERTED \<or> vbi_type = Some VBI_NABTS
               then write_ttx_field (vs_data s) (the vbi_type) t
               else if vbi_type = Some MISC_VPS then write_generic_field (vs_data s) MISC_VPS t
               else if vbi_type = Some MISC_WSS then write_wss_field (vs_data s) t
               else Some t);
          let identifier = (0 :: int);
          t \<leftarrow> (if identifier \<ge> 0x10 \<and> identifier \<le> 0x1f then write_fill (nat (44 - bs_pos t div 8)) t else Some t);
          bs_flush t }"

text \<open>The loop over the slices; \<open>data_unit_id\<close> and the buffer \<open>tmp\<close> live across its turns.\<close>

(* src: input/sdi/vbi.c 521-577 encapsulate_dvb_vbi *)
fun vbi_units ::
  "vbi_env \<Rightarrow> vbi_parser \<Rightarrow> vbi_sliced list \<Rightarrow> u32 \<Rightarrow> bytes \<Rightarrow> bs \<Rightarrow> bs option" where
  "vbi_units env nd [] data_unit_id tmp s = Some s"
| "vbi_units env nd (v # vs) data_unit_id tmp s =
     (let vbi_type = get_vbi_type (vb_ids env) (vs_id v);
          skip = list_ex (\<lambda>a. av_identifier a = (case vbi_type of None \<Rightarrow> -1 | Some f \<Rightarrow> stream_format_val f)) (nd_anc_vbi nd)
                 \<or> \<not> check_user_selected_non_display_data (ve_outs env) MISC_TELETEXT USER_DATA_LOCATION_DVB_STREAM
      in if skip then vbi_units env nd vs data_unit_id tmp s
         else do { let data_unit_id = data_unit_id_of vbi_type data_unit_id;
                   s \<leftarrow> bs_write s 8 data_unit_id;
                   s \<leftarrow> bs_flush s;
                   t \<leftarrow> write_vbi_unit (vb_ids env) (vp_scanning nd = 525) v tmp;
                   s \<leftarrow> bs_write s 8 (word_of_int (bs_pos t div 8));
                   s \<leftarrow> vbi_write_bytes (bs_mem t) (nat (bs_pos t div 8)) s;
                   vbi_units env nd vs data_unit_id (bs_mem t) s })"

text \<open>\<open>cf_data\<close> of the finished frame is the part of the buffer below the length the code stores.\<close>

(* src: input/sdi/vbi.c 501-591 encapsulate_dvb_vbi *)
definition encapsulate_dvb_vbi :: "vbi_env \<Rightarrow> bytes \<Rightarrow> vbi_parser \<Rightarrow> (int \<times> vbi_parser) option" where
  "encapsulate_dvb_vbi env tmp nd =
     (case new_coded_frame (ve_realloc_ok env) (ve_malloc_ok env) 0 65536 of
        None \<Rightarrow> Some (-1, nd\<lparr>vp_dvb_vbi_frame := None\<rparr>)
      | Some f \<Rightarrow>
          do { s \<leftarrow> bs_init (cf_data f) 0 65536;
               s \<leftarrow> bs_write s 8 0x10;
               slices \<leftarrow> mem_get 0 (nat (vp_num_vbi nd)) (nd_vbi_slices nd);
               s \<leftarrow> vbi_units env nd slices 0 tmp s;
               s \<leftarrow> write_stuffing s;
               s \<leftarrow> bs_flush s;
               Some (0, nd\<lparr>vp_dvb_vbi_frame := Some (f\<lparr>cf_data := take (nat (bs_pos s div 8)) (bs_mem s)\<rparr>)\<rparr>) })"

(* src: input/sdi/vbi.c 608-620 encapsulate_dvb_ttx *)
fun ttx_units :: "vbi_env \<Rightarrow> bool \<Rightarrow> vbi_sliced list \<Rightarrow> bs \<Rightarrow> bs option" where
  "ttx_units env ntsc [] s = Some s"
| "ttx_units env ntsc (v # vs) s =
     (if vs_id v AND zv_teletext_b (vb_ids env) \<noteq> 0
      then do { s \<leftarrow> bs_write s 8 (data_unit_id_val DATA_UNIT_ID_EBU_TTX_NON_SUB);
                s \<leftarrow> bs_write s 8 44;
                s \<leftarrow> write_header_byte (vs_line v) ntsc s;
                s \<leftarrow> write_ttx_field (vs_data v) MISC_TELETEXT s;
                ttx_units env ntsc vs s }
      else ttx_units env ntsc vs s)"

(* src: input/sdi/vbi.c 593-630 encapsulate_dvb_ttx *)
definition encapsulate_dvb_ttx :: "vbi_env \<Rightarrow> vbi_parser \<Rightarrow> (int \<times> vbi_parser) option" where
  "encapsulate_dvb_ttx env nd =
     (case new_coded_frame (ve_realloc_ok env) (ve_malloc_ok env) 0 65536 of
        None \<Rightarrow> Some (-1, nd\<lparr>vp_dvb_ttx_frame := None\<rparr>)
      | Some f \<Rightarrow>
          do { s \<leftarrow> bs_init (cf_data f) 0 65536;
               s \<leftarrow> bs_write s 8 0x10;
               slices \<leftarrow> mem_get 0 (nat (vp_num_vbi nd)) (nd_vbi_slices nd);
               s \<leftarrow> ttx_units env (vp_scanning nd = 525) slices s;
               s \<leftarrow> write_stuffing s;
               s \<leftarrow> bs_flush s;
               Some (0, nd\<lparr>vp_dvb_ttx_frame := Some (f\<lparr>cf_data := take (nat (bs_pos s div 8)) (bs_mem s)\<rparr>)\<rparr>) })"

text \<open>Handing a finished frame to the mux: the result, and the queue of the multiplexer.\<close>

definition send_vbi_frame ::
  "bool \<Rightarrow> int \<Rightarrow> int \<Rightarrow> coded_frame option \<Rightarrow> coded_frame obe_queue \<Rightarrow> (int \<times> coded_frame obe_queue) option" where
  "send_vbi_frame grow_ok sid pts frame q =
     do { f \<leftarrow> frame;
          add_to_queue grow_ok (f\<lparr>cf_output_stream_id := sid, cf_pts := pts\<rparr>) q }"

text \<open>\<open>grow_ok\<close> says whether the queue can grow; after a failure the frame is destroyed and the
  pointer to it stays in the parser.\<close>

(* src: input/sdi/vbi.c 632-684 send_vbi_and_ttx *)
definition send_vbi_and_ttx ::
  "vbi_env \<Rightarrow> bytes \<Rightarrow> bool \<Rightarrow> vbi_parser \<Rightarrow> int \<Rightarrow> coded_frame obe_queue
     \<Rightarrow> (int \<times> vbi_parser \<times> coded_frame obe_queue) option" where
  "send_vbi_and_ttx env tmp grow_ok nd pts q =
     do { (r, nd, q) \<leftarrow>
            (if \<not> nd_has_vbi_frame nd then Some (0, nd, q)
             else case get_output_stream_by_format (ve_outs env) VBI_RAW of
                    Some os \<Rightarrow>
                      if os_output_stream_id os < 0
                      then Some (0, nd\<lparr>vp_dvb_vbi_frame := None, nd_has_vbi_frame := False\<rparr>, q)
                      else do { (r, nd) \<leftarrow> encapsulate_dvb_vbi env tmp nd;
                                if r < 0 then Some (-1, nd, q)
                                else do { (r, q) \<leftarrow> send_vbi_frame grow_ok (os_output_stream_id os) pts (vp_dvb_vbi_frame nd) q;
                                          if r < 0 then Some (-1, nd, q)
                                          else Some (0, nd\<lparr>vp_dvb_vbi_frame := None, nd_has_vbi_frame := False\<rparr>, q) } }
                  | None \<Rightarrow> Some (0, nd\<lparr>vp_dvb_vbi_frame := None, nd_has_vbi_frame := False\<rparr>, q));
          if r < 0 then Some (r, nd, q)
          else if \<not> nd_has_ttx_frame nd then Some (0, nd, q)
          else case get_output_stream_by_format (ve_outs env) MISC_TELETEXT of
                 Some os \<Rightarrow>
                   if os_output_stream_id os < 0
                   then Some (0, nd\<lparr>vp_dvb_ttx_frame := None, nd_has_ttx_frame := False\<rparr>, q)
                   else do { (r, nd) \<leftarrow> encapsulate_dvb_ttx env nd;
                             if r < 0 then Some (-1, nd, q)
                             else do { (r, q) \<leftarrow> send_vbi_frame grow_ok (os_output_stream_id os) pts (vp_dvb_ttx_frame nd) q;
                                       if r < 0 then Some (-1, nd, q)
                                       else Some (0, nd\<lparr>vp_dvb_ttx_frame := None, nd_has_ttx_frame := False\<rparr>, q) } }
               | None \<Rightarrow> Some (0, nd\<lparr>vp_dvb_ttx_frame := None, nd_has_ttx_frame := False\<rparr>, q) }"

section \<open>What the data units hold\<close>

lemma reverse_tab_table: "list_all (\<lambda>n. reverse_tab ! n = word_reverse (word_of_nat n)) [0..<256]"
  by code_simp

lemma reverse_tab_reverse: "reverse_tab ! unat b = word_reverse b"
proof -
  have "reverse_tab ! unat b = word_reverse (word_of_nat (unat b))"
    using reverse_tab_table unsigned_less [where 'a = nat, of b] by (simp only: list_all_iff) auto
  then show ?thesis
    by simp
qed

lemma bs_pos_length: "bs_ok s \<Longrightarrow> bs_pos s = int (length (bs_bits s))"
  by (auto simp: bs_pos_def bs_ok_def bs_bits_def)

lemma writes_REVERSE: "writes (\<lambda>s. bs_write s 8 (REVERSE b)) (byte_bits (word_reverse b))"
  unfolding REVERSE_def reverse_tab_reverse by (rule writes_u8)

lemma writes_reversed:
  "\<forall>i \<in> set is. i < length data \<Longrightarrow>
   writes (write_reversed is data) (bytes_bits (map (\<lambda>i. word_reverse (data ! i)) is))"
proof (induction "is")
  case Nil
  then show ?case using writes_Some by (simp add: writes_def)
next
  case (Cons i "is")
  have "writes (\<lambda>s. do { s \<leftarrow> bs_write s 8 (REVERSE (data ! i)); write_reversed is data s })
          (byte_bits (word_reverse (data ! i)) @ bytes_bits (map (\<lambda>i. word_reverse (data ! i)) is))"
    using Cons by (intro writes_bind writes_REVERSE) simp_all
  then show ?case
    using Cons.prems by (simp add: writes_def)
qed

definition rev_bytes :: "nat \<Rightarrow> bytes \<Rightarrow> bytes" where
  "rev_bytes n data = map word_reverse (take n data)"

lemma writes_rev_bytes:
  assumes "n \<le> length data"
  shows "writes (write_reversed [0..<n] data) (bytes_bits (rev_bytes n data))"
proof -
  have "map (\<lambda>i. word_reverse (data ! i)) [0..<n] = rev_bytes n data"
    using assms by (auto simp: rev_bytes_def intro!: nth_equalityI)
  then show ?thesis
    using writes_reversed [of "[0..<n]" data] assms by simp
qed

lemma writes_fill: "writes (write_fill n) (bytes_bits (replicate n 0xff))"
proof (induction n)
  case 0
  then show ?case using writes_Some by (simp add: writes_def)
next
  case (Suc n)
  have "writes (\<lambda>s. do { s \<leftarrow> bs_write s 8 0xff; write_fill n s }) (bytes_bits [0xff] @ bytes_bits (replicate n 0xff))"
    using Suc writes_byte [of "0xff"] by (intro writes_bind) simp_all
  then show ?case
    by (simp add: writes_def)
qed

text \<open>The stuffing unit after \<open>n\<close> bytes.\<close>

definition stuffing :: "nat \<Rightarrow> bytes" where
  "stuffing n = (if (n + 45) mod 184 = 0 then []
                 else let c = (184 - (n + 47) mod 184) mod 184 in [0xff, of_nat c] @ replicate c 0xff)"

lemma pad_mod: "(m + (184 - m mod 184) mod 184) mod 184 = (0 :: nat)"
proof (cases "m mod 184 = 0")
  case False
  then have "(184 - m mod 184) mod 184 = 184 - m mod 184"
    by simp
  moreover have "(m + (184 - m mod 184)) mod 184 = (m mod 184 + (184 - m mod 184)) mod 184"
    by (rule mod_add_left_eq [symmetric])
  ultimately show ?thesis
    by (simp add: less_imp_le)
qed simp

lemma length_stuffing: "(n + length (stuffing n) + 45) mod 184 = 0"
proof (cases "(n + 45) mod 184 = 0")
  case False
  have "n + length (stuffing n) + 45 = n + 47 + (184 - (n + 47) mod 184) mod 184"
    using False by (simp add: stuffing_def Let_def)
  then show ?thesis
    by (simp only: pad_mod)
qed (simp add: stuffing_def)

lemma length_stuffing_le: "length (stuffing n) \<le> 185"
proof -
  have "(184 - (n + 47) mod 184) mod 184 < 184"
    by simp
  then show ?thesis
    unfolding stuffing_def Let_def
    by (cases "(n + 45) mod 184 = 0") (simp_all only: if_True if_False length_append length_replicate list.size, simp_all)
qed


lemma write_stuffing_spec:
  assumes "bs_ok s" "bs_bits s = bytes_bits bs" "bs_room s (8 * 185)"
  obtains s' where "write_stuffing s = Some s'" "bs_ok s'"
    "bs_bits s' = bytes_bits (bs @ stuffing (length bs))" "length (bs_mem s') = length (bs_mem s)"
proof (cases "(length bs + 45) mod 184 = 0")
  case True
  have "(bs_pos s div 8 + 45) mod 184 = int ((length bs + 45) mod 184)"
    using assms(1,2) by (simp add: bs_pos_length zmod_int)
  then show thesis
    using that [of s] True assms(1,2) by (simp add: write_stuffing_def stuffing_def)
next
  case False
  define c where "c = (184 - (length bs + 47) mod 184) mod 184"
  have c: "c < 184"
    by (simp add: c_def)
  have pos: "(bs_pos s div 8 + 45) mod 184 = int ((length bs + 45) mod 184)"
    using assms(1,2) by (simp add: bs_pos_length zmod_int)
  obtain s1 where s1: "bs_write s 8 0xff = Some s1" "bs_ok s1" "bs_bits s1 = bytes_bits (bs @ [0xff])"
    "length (bs_mem s1) = length (bs_mem s)"
    using writesD [OF writes_byte [of "0xff"] assms(1)] assms(2,3) by (auto simp: bs_room_def)
  define k where "k = (let count = (bs_pos s1 div 8 + 45 + 1) mod 184 in if count \<noteq> 0 then 184 - count else 0)"
  have m: "(bs_pos s1 div 8 + 45 + 1) mod 184 = int ((length bs + 47) mod 184)"
    using s1(2,3) by (simp add: bs_pos_length zmod_int add.commute)
  have k: "k = int c"
    unfolding k_def m c_def Let_def
    by (cases "(length bs + 47) mod 184 = 0") (simp_all add: of_nat_diff less_imp_le)
  have c8: "uint (word_of_int (int c) :: u32) < 256"
    unfolding uint_word_of_int using c by simp
  have c9: "ucast (word_of_int (int c) :: u32) = (of_nat c :: u8)"
    by (rule bit_word_eqI) (auto simp: bit_simps)
  obtain s2 where s2: "bs_write s1 8 (word_of_int k) = Some s2" "bs_ok s2"
    "bs_bits s2 = bytes_bits (bs @ [0xff, of_nat c])" "length (bs_mem s2) = length (bs_mem s)"
    using writesD [OF writes_byte [OF c8] s1(2)] assms(2,3) s1(3,4) c9 unfolding k by (auto simp: bs_room_def)
  have "bs_room s2 (length (bytes_bits (replicate c 0xff)))"
    using assms(2,3) s2(3,4) c by (simp add: bs_room_def)
  then obtain s3 where s3: "write_fill c s2 = Some s3" "bs_ok s3"
    "bs_bits s3 = bytes_bits (bs @ stuffing (length bs))" "length (bs_mem s3) = length (bs_mem s)"
    using writesD [OF writes_fill s2(2)] s2(3,4) False
    by (auto simp: stuffing_def Let_def c_def)
  have "write_stuffing s = Some s3"
    using pos False s1(1) s2(1) s3(1) k by (simp add: write_stuffing_def Let_def k_def)
  then show thesis
    using that s3 by blast
qed

definition vbi_line_ok :: "bool \<Rightarrow> int \<Rightarrow> bool" where
  "vbi_line_ok ntsc line \<longleftrightarrow>
     (case obe_convert_smpte_to_analogue (if ntsc then INPUT_VIDEO_FORMAT_NTSC else INPUT_VIDEO_FORMAT_PAL) line of
        None \<Rightarrow> False | Some (a, f) \<Rightarrow> 0 \<le> a \<and> a < 32)"

definition vbi_line_byte :: "bool \<Rightarrow> int \<Rightarrow> u8" where
  "vbi_line_byte ntsc line =
     (case obe_convert_smpte_to_analogue (if ntsc then INPUT_VIDEO_FORMAT_NTSC else INPUT_VIDEO_FORMAT_PAL) line of
        None \<Rightarrow> 0 | Some (a, f) \<Rightarrow> (if f = 1 then 0xe0 else 0xc0) + word_of_int a)"

lemma header_byte_table:
  "list_all (\<lambda>n. bits_be 2 (3 :: u32) @ bits_be 1 (1 :: u32) @ bits_be 5 (word_of_int (int n) :: u32) = byte_bits (0xe0 + word_of_int (int n))
               \<and> bits_be 2 (3 :: u32) @ bits_be 1 (0 :: u32) @ bits_be 5 (word_of_int (int n) :: u32) = byte_bits (0xc0 + word_of_int (int n)))
     [0..<32]"
  by code_simp

lemma writes_header:
  assumes "vbi_line_ok ntsc line"
  shows "writes (write_header_byte line ntsc) (byte_bits (vbi_line_byte ntsc line))"
proof -
  obtain a f where c: "obe_convert_smpte_to_analogue (if ntsc then INPUT_VIDEO_FORMAT_NTSC else INPUT_VIDEO_FORMAT_PAL) line = Some (a, f)"
    and a: "0 \<le> a" "a < 32"
    using assms by (auto simp: vbi_line_ok_def split: option.splits)
  have u: "uint (word_of_int a :: u32) < 2 ^ 5"
    using a by (simp add: uint_word_of_int)
  have "writes (\<lambda>s. do { s \<leftarrow> bs_write s 2 3; s \<leftarrow> bs_write s 1 (of_bool (f = 1)); bs_write s 5 (word_of_int a) })
          (bits_be 2 (3 :: u32) @ bits_be 1 (of_bool (f = 1) :: u32) @ bits_be 5 (word_of_int a :: u32))"
    using u by (intro writes_bind writes_write) simp_all
  moreover have "bits_be 2 (3 :: u32) @ bits_be 1 (of_bool (f = 1) :: u32) @ bits_be 5 (word_of_int a :: u32)
      = byte_bits (vbi_line_byte ntsc line)"
  proof -
    obtain n where n: "a = int n" "n < 32"
      using a by (metis nonneg_int_cases of_nat_less_iff of_nat_numeral)
    then show ?thesis
      using header_byte_table c by (cases "f = 1") (simp_all add: list_all_iff vbi_line_byte_def del: bits_be_zero)
  qed
  moreover have "write_header_byte line ntsc s
      = do { s \<leftarrow> bs_write s 2 3; s \<leftarrow> bs_write s 1 (of_bool (f = 1)); bs_write s 5 (word_of_int a) }" for s
    using c by (cases ntsc) (simp_all add: write_header_byte_def)
  ultimately show ?thesis
    by (simp add: writes_def)
qed

definition ttx_block :: "bool \<Rightarrow> vbi_sliced \<Rightarrow> bytes" where
  "ttx_block ntsc v = [vbi_line_byte ntsc (vs_line v), 0xe4] @ rev_bytes 42 (vs_data v)"

lemma writes_ttx_field:
  assumes "42 \<le> length data"
  shows "writes (write_ttx_field data MISC_TELETEXT) (bytes_bits (0xe4 # rev_bytes 42 data))"
proof -
  have "writes (\<lambda>s. do { s \<leftarrow> bs_write s 8 0xe4; write_reversed [0..<42] data s })
          (bytes_bits [0xe4] @ bytes_bits (rev_bytes 42 data))"
    using writes_byte [of "0xe4"] assms by (intro writes_bind writes_rev_bytes) simp_all
  then show ?thesis
    by (simp add: write_ttx_field_def [abs_def])
qed

lemma finish_pes:
  assumes "bs_ok s" "bs_bits s = bytes_bits bs" "bs_room s (8 * 185 + 32)"
  obtains s1 s2 where "write_stuffing s = Some s1" "bs_flush s1 = Some s2"
    "take (nat (bs_pos s2 div 8)) (bs_mem s2) = bs @ stuffing (length bs)"
proof -
  obtain s1 where s1: "write_stuffing s = Some s1" "bs_ok s1"
    "bs_bits s1 = bytes_bits (bs @ stuffing (length bs))" "length (bs_mem s1) = length (bs_mem s)"
    using write_stuffing_spec [OF assms(1,2)] assms(3) by (auto simp: bs_room_def)
  have p: "bs_p s1 + 4 \<le> length (bs_mem s1)"
  proof -
    have "length (bs_bits s1) + 32 \<le> 8 * length (bs_mem s1)"
      using assms(2,3) s1(3,4) length_stuffing_le [of "length bs"] by (simp add: bs_room_def)
    then show ?thesis
      using s1(2) by (auto simp: bs_bits_def bs_ok_def)
  qed
  have m: "length (bs_bits s1) mod 8 = 0"
    unfolding s1(3) by (simp only: length_bytes_bits) simp
  obtain s2 where s2: "bs_flush s1 = Some s2" "bytes_bits (take (bs_p s2) (bs_mem s2)) = bs_bits s1"
    "bs_left s2 = 64"
    using bs_flush_spec [OF s1(2) m p] by metis
  have "take (bs_p s2) (bs_mem s2) = bs @ stuffing (length bs)"
    using s2(2) s1(3) bytes_bits_inj by metis
  moreover have "nat (bs_pos s2 div 8) = bs_p s2"
    using s2(3) by (simp add: bs_pos_def)
  ultimately show thesis
    using that s1(1) s2(1) by simp
qed

definition is_ttx :: "zvbi_ids \<Rightarrow> vbi_sliced \<Rightarrow> bool" where
  "is_ttx z v \<longleftrightarrow> vs_id v AND zv_teletext_b z \<noteq> 0"

text \<open>A slice the data unit can express: a line of at most 31 in its field, 42 bytes of data.\<close>

definition ttx_ok :: "bool \<Rightarrow> vbi_sliced \<Rightarrow> bool" where
  "ttx_ok ntsc v \<longleftrightarrow> vbi_line_ok ntsc (vs_line v) \<and> 42 \<le> length (vs_data v)"

lemma writes_ttx_units:
  assumes "list_all (ttx_ok ntsc) (filter (is_ttx (vb_ids env)) vs)"
  shows "writes (ttx_units env ntsc vs)
           (bytes_bits (concat (map (\<lambda>v. [0x02, 44] @ ttx_block ntsc v) (filter (is_ttx (vb_ids env)) vs))))"
  using assms
proof (induction vs)
  case Nil
  then show ?case using writes_Some by (simp add: writes_def)
next
  case (Cons v vs)
  show ?case
  proof (cases "is_ttx (vb_ids env) v")
    case False
    then have "ttx_units env ntsc (v # vs) = ttx_units env ntsc vs"
      by (auto simp: is_ttx_def)
    then show ?thesis
      using Cons False by simp
  next
    case True
    then have ok: "vbi_line_ok ntsc (vs_line v)" "42 \<le> length (vs_data v)"
      using Cons.prems by (auto simp: ttx_ok_def)
    have "writes (\<lambda>s. do { s \<leftarrow> bs_write s 8 2; s \<leftarrow> bs_write s 8 44; s \<leftarrow> write_header_byte (vs_line v) ntsc s;
              s \<leftarrow> write_ttx_field (vs_data v) MISC_TELETEXT s; ttx_units env ntsc vs s })
        (bytes_bits [ucast (2 :: u32)] @ bytes_bits [ucast (44 :: u32)] @ byte_bits (vbi_line_byte ntsc (vs_line v))
          @ bytes_bits (0xe4 # rev_bytes 42 (vs_data v))
          @ bytes_bits (concat (map (\<lambda>v. [0x02, 44] @ ttx_block ntsc v) (filter (is_ttx (vb_ids env)) vs))))"
      using Cons True ok by (intro writes_bind writes_byte writes_header writes_ttx_field) simp_all
    moreover have "ttx_units env ntsc (v # vs) = (\<lambda>s. do { s \<leftarrow> bs_write s 8 2; s \<leftarrow> bs_write s 8 44;
        s \<leftarrow> write_header_byte (vs_line v) ntsc s; s \<leftarrow> write_ttx_field (vs_data v) MISC_TELETEXT s; ttx_units env ntsc vs s })"
      using True by (auto simp: is_ttx_def)
    ultimately show ?thesis
      using True by (simp add: ttx_block_def)
  qed
qed

lemma length_ttx_units:
  assumes "list_all (ttx_ok ntsc) vs"
  shows "length (concat (map (\<lambda>v. [0x02, 44] @ ttx_block ntsc v) vs)) = 46 * length vs"
  using assms by (induction vs) (auto simp: ttx_block_def rev_bytes_def ttx_ok_def min_def)

lemma pes_start:
  obtains s s' where "bs_init (replicate 65536 0) 0 65536 = Some s" "bs_write s 8 0x10 = Some s'"
    "bs_ok s'" "bs_bits s' = bytes_bits [0x10]" "length (bs_mem s') = 65536"
proof -
  obtain s where s: "bs_init (replicate 65536 0) 0 65536 = Some s" "bs_ok s" "bs_bits s = []"
    "bs_mem s = replicate 65536 0"
    using bs_init_aligned [of "replicate 65536 0" 65536] by auto
  have l: "length (bs_mem s) = 65536"
    by (simp only: s(4) length_replicate)
  obtain s' where "bs_write s 8 0x10 = Some s'" "bs_ok s'" "bs_bits s' = bytes_bits [0x10]" "length (bs_mem s') = 65536"
    using writesD [OF writes_byte [of "0x10"] s(2)] s(3) l by (auto simp: bs_room_def)
  then show thesis
    using that s(1) by blast
qed

text \<open>C32 The teletext PES payload is, byte for byte, the data identifier 0x10, one data unit of
  46 bytes for each teletext slice of the picture in their order (unit id 2, length 44, the field
  and line number, the framing code 0xe4, the 42 bytes with their bits reversed), and a stuffing
  unit that makes the packet with its header of 45 bytes a multiple of 184, the payload of a
  transport packet.\<close>

theorem ttx_pes_layout:
  assumes "ve_realloc_ok env" "ve_malloc_ok env" "vp_num_vbi nd \<le> 100" "length (nd_vbi_slices nd) = 100"
    and vs: "vs = filter (is_ttx (vb_ids env)) (take (nat (vp_num_vbi nd)) (nd_vbi_slices nd))"
    and "list_all (ttx_ok (vp_scanning nd = 525)) vs"
  shows "\<exists>nd' f. encapsulate_dvb_ttx env nd = Some (0, nd') \<and> vp_dvb_ttx_frame nd' = Some f
     \<and> cf_data f = 0x10 # concat (map (\<lambda>v. [0x02, 44, vbi_line_byte (vp_scanning nd = 525) (vs_line v), 0xe4]
                                       @ map word_reverse (take 42 (vs_data v))) vs)
                   @ stuffing (1 + 46 * length vs)
     \<and> (length (cf_data f) + 45) mod 184 = 0"
proof -
  let ?ntsc = "vp_scanning nd = 525" and ?sl = "take (nat (vp_num_vbi nd)) (nd_vbi_slices nd)"
  define units where "units = concat (map (\<lambda>v. [0x02, 44] @ ttx_block ?ntsc v) vs)"
  have lu: "length units = 46 * length vs"
    unfolding units_def using assms(6) by (rule length_ttx_units)
  have lv: "length vs \<le> 100"
    unfolding vs using assms(3) length_filter_le [of "is_ttx (vb_ids env)" ?sl] by simp arith
  obtain s s1 where s: "bs_init (replicate 65536 0) 0 65536 = Some s" "bs_write s 8 0x10 = Some s1"
    "bs_ok s1" "bs_bits s1 = bytes_bits [0x10]" "length (bs_mem s1) = 65536"
    by (rule pes_start)
  have w: "writes (ttx_units env ?ntsc ?sl) (bytes_bits units)"
    using writes_ttx_units [of ?ntsc env ?sl] assms(6) unfolding units_def vs by simp
  have "bs_room s1 (length (bytes_bits units))"
    using s(4,5) lu lv by (simp add: bs_room_def)
  then obtain s2 where s2: "ttx_units env ?ntsc ?sl s1 = Some s2" "bs_ok s2"
    "bs_bits s2 = bytes_bits (0x10 # units)" "length (bs_mem s2) = 65536"
    using writesD [OF w s(3)] s(4,5) by auto
  have r2: "bs_room s2 (8 * 185 + 32)"
    using s2(3,4) lu lv by (simp add: bs_room_def)
  obtain s3 s4 where s4: "write_stuffing s2 = Some s3" "bs_flush s3 = Some s4"
    "take (nat (bs_pos s4 div 8)) (bs_mem s4) = (0x10 # units) @ stuffing (length (0x10 # units))"
    using finish_pes [OF s2(2,3) r2] by metis
  have sl: "mem_get 0 (nat (vp_num_vbi nd)) (nd_vbi_slices nd) = Some ?sl"
    using assms(3,4) by simp
  define f where "f = coded_frame_zero\<lparr>cf_output_stream_id := 0, cf_data := (0x10 # units) @ stuffing (length (0x10 # units))\<rparr>"
  have e: "encapsulate_dvb_ttx env nd = Some (0, nd\<lparr>vp_dvb_ttx_frame := Some f\<rparr>)"
    using assms(1,2) s s2 s4 sl by (simp add: encapsulate_dvb_ttx_def new_coded_frame_def f_def del: replicate.simps)
  have d: "cf_data f = 0x10 # units @ stuffing (1 + 46 * length vs)"
    using lu by (simp add: f_def)
  have m: "(length (cf_data f) + 45) mod 184 = 0"
    using length_stuffing [of "length (0x10 # units)"] by (simp add: f_def)
  have u: "units = concat (map (\<lambda>v. [0x02, 44, vbi_line_byte ?ntsc (vs_line v), 0xe4]
                                     @ map word_reverse (take 42 (vs_data v))) vs)"
    by (simp add: units_def ttx_block_def rev_bytes_def)
  show ?thesis
    by (intro exI [of _ "nd\<lparr>vp_dvb_ttx_frame := Some f\<rparr>"] exI [of _ f] conjI e m d [unfolded u]) simp
qed

definition vbi_wit_env :: vbi_env where
  "vbi_wit_env = vanc_env.extend vanc_wit_env
     \<lparr>vb_ids = \<lparr>zv_teletext_b = 3, zv_teletext_c_625 = 0x10, zv_teletext_inverted = None, zv_wss_625 = 0x400, zv_vps = 4,
                zv_caption_525 = 0x60, zv_caption_625 = 0x18, zv_nabts = 0x800\<rparr>,
      vb_decode = (\<lambda>_. []),
      vb_junk = \<lparr>ud_type = USER_DATA_DVB_VBI, ud_source = VBI_RAW, ud_field = 0, ud_len = 0, ud_data = []\<rparr>\<rparr>"

definition vbi_wit_parser :: vbi_parser where
  "vbi_wit_parser = non_display_data.extend nd_wit
     \<lparr>vp_sampling_format_uyvy = True, vp_sampling_rate = 13500000, vp_bytes_per_line = 1440, vp_interlaced = True,
      vp_synchronous = True, vp_offset = 128, vp_scanning = 625, vp_services = 1, vp_crc_ready = True,
      vp_num_vbi = 1, vp_dvb_vbi_frame = None, vp_dvb_ttx_frame = None\<rparr>
     \<lparr>nd_vbi_slices := \<lparr>vs_id = 3, vs_line = 20, vs_data = replicate 56 1\<rparr> # replicate 99 zero_slice\<rparr>"

theorem ttx_pes_layout_witness:
  "\<exists>nd' f. encapsulate_dvb_ttx vbi_wit_env vbi_wit_parser = Some (0, nd') \<and> vp_dvb_ttx_frame nd' = Some f
     \<and> take 5 (cf_data f) = [0x10, 0x02, 44, 0xf4, 0xe4] \<and> length (cf_data f) = 139"
proof -
  have h: "ve_realloc_ok vbi_wit_env" "ve_malloc_ok vbi_wit_env" "vp_num_vbi vbi_wit_parser \<le> 100"
    "length (nd_vbi_slices vbi_wit_parser) = 100"
    by (simp_all add: vbi_wit_env_def vbi_wit_parser_def vanc_wit_env_def vanc_env.defs non_display_data.defs nd_wit_def)
  have v: "filter (is_ttx (vb_ids vbi_wit_env)) (take (nat (vp_num_vbi vbi_wit_parser)) (nd_vbi_slices vbi_wit_parser))
      = [\<lparr>vs_id = 3, vs_line = 20, vs_data = replicate 56 1\<rparr>]"
    by (simp add: vbi_wit_env_def vbi_wit_parser_def vanc_wit_env_def vanc_env.defs non_display_data.defs nd_wit_def is_ttx_def)
  have s: "vp_scanning vbi_wit_parser = 625"
    by (simp add: vbi_wit_parser_def non_display_data.defs nd_wit_def)
  have k: "obe_convert_smpte_to_analogue INPUT_VIDEO_FORMAT_PAL 20 = Some (20, 1)"
    by (simp add: obe_convert_smpte_to_analogue_def field_start_lines_def is_interlaced_def)
  have o: "list_all (ttx_ok (vp_scanning vbi_wit_parser = 525)) [\<lparr>vs_id = 3, vs_line = 20, vs_data = replicate 56 1\<rparr>]"
    by (simp add: ttx_ok_def vbi_line_ok_def s k)
  obtain nd' f where "encapsulate_dvb_ttx vbi_wit_env vbi_wit_parser = Some (0, nd')" "vp_dvb_ttx_frame nd' = Some f"
    and d: "cf_data f = 0x10 # concat (map (\<lambda>v. [0x02, 44, vbi_line_byte False (vs_line v), 0xe4]
              @ map word_reverse (take 42 (vs_data v))) [\<lparr>vs_id = 3, vs_line = 20, vs_data = replicate 56 (1 :: u8)\<rparr>])
            @ stuffing 47"
    using ttx_pes_layout [OF h v [symmetric] o] by (auto simp: s)
  moreover have "vbi_line_byte False 20 = 0xf4"
    by (simp add: vbi_line_byte_def k)
  ultimately show ?thesis
    by (intro exI [of _ nd'] exI [of _ f]) (simp add: stuffing_def)
qed

section \<open>What decoding keeps\<close>

definition supported :: "zvbi_ids \<Rightarrow> vbi_sliced \<Rightarrow> bool" where
  "supported z s \<longleftrightarrow> get_vbi_type z (vs_id s) \<noteq> None"

lemma find_vbi_type_in: "(t, f) \<in> set tab \<Longrightarrow> t AND i \<noteq> 0 \<Longrightarrow> find_vbi_type tab i \<noteq> None"
  by (induction tab) auto

lemma caption_supported: "is_caption_525 z s \<Longrightarrow> supported z s"
  unfolding supported_def get_vbi_type_def is_caption_525_def
  by (rule find_vbi_type_in [of "zv_caption_525 z" CAPTIONS_CEA_608]) (auto simp: vbi_type_tab_def and.commute)

lemma zero_not_caption [simp]: "\<not> is_caption_525 z zero_slice"
  by (simp add: is_caption_525_def zero_slice_def)

lemma remove_lines_spec:
  "remove_lines (length r) (length pre) (pre @ r @ xs @ zs, length pre + length r + length xs)
   = Some (pre @ xs @ replicate (length r) zero_slice @ zs, length pre + length xs)"
proof -
  have g: "mem_get (length pre + length r) (length xs) (pre @ r @ xs @ zs) = Some xs"
    by simp
  have p1: "mem_put (length pre) xs (pre @ r @ xs @ zs) = Some (pre @ xs @ drop (length xs) (r @ xs @ zs))"
    by (simp add: splice_def)
  have p2: "mem_put (length pre + length xs) (replicate (length r) zero_slice) (pre @ xs @ drop (length xs) (r @ xs @ zs))
      = Some (pre @ xs @ replicate (length r) zero_slice @ zs)"
    by (simp add: splice_def add.commute)
  show ?thesis
    using g p1 p2 by (simp add: remove_lines_def del: drop_append)
qed

lemma remove_one:
  "remove_lines 1 (length pre) (pre @ x # xs @ zs, length pre + Suc (length xs))
   = Some (pre @ xs @ zero_slice # zs, length pre + length xs)"
  using remove_lines_spec [of "[x]" pre xs zs] by simp

lemma remove_two:
  "remove_lines 2 (length pre) (pre @ x # y # xs @ zs, length pre + Suc (Suc (length xs)))
   = Some (pre @ xs @ zero_slice # zero_slice # zs, length pre + length xs)"
  using remove_lines_spec [of "[x, y]" pre xs zs] by (simp add: numeral_2_eq_2)

lemmas remove_at = remove_one [unfolded One_nat_def add_Suc_right] remove_two [unfolded numeral_2_eq_2 add_Suc_right]

definition zero_tail :: "vbi_sliced list \<Rightarrow> bool" where
  "zero_tail zs \<longleftrightarrow> zs \<noteq> [] \<and> list_all (\<lambda>s. s = zero_slice) zs"

lemma zero_tail_Cons [simp]: "zero_tail zs \<Longrightarrow> zero_tail (zero_slice # zs)"
  by (simp add: zero_tail_def)

lemma zero_tail_hd: "zero_tail zs \<Longrightarrow> \<exists>ys. zs = zero_slice # ys"
  by (cases zs) (auto simp: zero_tail_def)

lemma remove_unsupported_step:
  assumes "at (fst sl) i = Some s" "i < snd sl"
    "(if is_caption_525 z s then do { t \<leftarrow> at (fst sl) (i + 1); Some (is_caption_525 z t) } else Some False) = Some pair"
  shows "remove_unsupported z i sl =
     (if pair then remove_unsupported z (i + 2) sl
      else if get_vbi_type z (vs_id s) = None
      then do { sl' \<leftarrow> remove_lines 1 i sl; remove_unsupported z i sl' }
      else remove_unsupported z (i + 1) sl)"
  by (subst remove_unsupported.simps) (simp only: assms Option.bind.simps not_not if_False simp_thms)

lemma remove_unsupported_spec:
  "zero_tail zs \<Longrightarrow>
   \<exists>zs'. zero_tail zs' \<and> length (filter (supported z) xs) + length zs' = length xs + length zs
     \<and> remove_unsupported z (length pre) (pre @ xs @ zs, length pre + length xs)
       = Some (pre @ filter (supported z) xs @ zs', length pre + length (filter (supported z) xs))"
proof (induction xs arbitrary: pre zs rule: length_induct)
  case (1 xs)
  show ?case
  proof (cases xs)
    case Nil
    then show ?thesis
      using 1(2) by (auto simp: remove_unsupported.simps)
  next
    case (Cons x ys)
    have at0: "at (pre @ x # ys @ zs) (length pre) = Some x"
      by simp
    show ?thesis
    proof (cases "is_caption_525 z x \<and> ys \<noteq> [] \<and> is_caption_525 z (hd ys)")
      case True
      then obtain y ys' where y: "ys = y # ys'" "is_caption_525 z y"
        by (cases ys) auto
      have at1: "at (pre @ x # y # ys' @ zs) (length pre + 1) = Some y"
        by (simp add: nth_append)
      have "remove_unsupported z (length pre) (pre @ xs @ zs, length pre + length xs)
          = remove_unsupported z (length (pre @ [x, y])) ((pre @ [x, y]) @ ys' @ zs, length (pre @ [x, y]) + length ys')"
        using True at0 at1 y Cons by (subst remove_unsupported_step [of _ _ x z True]) simp_all
      moreover have "length ys' < length xs"
        using Cons y by simp
      ultimately show ?thesis
        using 1(1) [rule_format, of ys' zs "pre @ [x, y]"] 1(2) True Cons y caption_supported
        by simp
    next
      case False
      obtain t where t: "at (pre @ x # ys @ zs) (length pre + 1) = Some t" "is_caption_525 z x \<Longrightarrow> \<not> is_caption_525 z t"
        using False zero_tail_hd [OF 1(2)] by (cases ys) (auto simp: nth_append)
      let ?sl = "(pre @ x # ys @ zs, length pre + length (x # ys))"
      have pair: "(if is_caption_525 z x then do { t \<leftarrow> at (fst ?sl) (length pre + 1); Some (is_caption_525 z t) }
                   else Some False) = Some False"
        using t by auto
      have step: "remove_unsupported z (length pre) ?sl
          = (if get_vbi_type z (vs_id x) = None
             then do { sl' \<leftarrow> remove_lines 1 (length pre) ?sl; remove_unsupported z (length pre) sl' }
             else remove_unsupported z (length pre + 1) ?sl)"
        using remove_unsupported_step [OF _ _ pair] by simp
      have l: "length ys < length xs"
        using Cons by simp
      show ?thesis
      proof (cases "supported z x")
        case True
        have "remove_unsupported z (length pre) (pre @ xs @ zs, length pre + length xs)
            = remove_unsupported z (length (pre @ [x])) ((pre @ [x]) @ ys @ zs, length (pre @ [x]) + length ys)"
          using step True Cons by (auto simp: supported_def)
        then show ?thesis
          using 1(1) [rule_format, OF l 1(2), of "pre @ [x]"] True Cons by simp
      next
        case False
        have "remove_unsupported z (length pre) (pre @ xs @ zs, length pre + length xs)
            = remove_unsupported z (length pre) (pre @ ys @ zero_slice # zs, length pre + length ys)"
          using step False Cons remove_one [of pre x ys zs] by (simp add: supported_def)
        then show ?thesis
          using 1(1) [rule_format, OF l zero_tail_Cons [OF 1(2)], of pre] False Cons by simp
      qed
    qed
  qed
qed


definition new_user_data :: "vbi_env \<Rightarrow> user_data_types \<Rightarrow> bytes \<Rightarrow> user_data" where
  "new_user_data env t data =
     (vb_junk env)\<lparr>ud_len := int (length data), ud_data := data, ud_type := t, ud_source := VBI_RAW\<rparr>"

definition add_captions :: "vbi_env \<Rightarrow> bytes \<Rightarrow> user_data list \<Rightarrow> user_data list" where
  "add_captions env data uds =
     (if check_active_non_display_data uds USER_DATA_CEA_608 \<or> check_active_non_display_data uds USER_DATA_CEA_708_CDP
         \<or> \<not> check_user_selected_non_display_data (ve_outs env) CAPTIONS_CEA_608 USER_DATA_LOCATION_FRAME
      then uds else uds @ [new_user_data env USER_DATA_CEA_608 data])"

definition add_wss :: "vbi_env \<Rightarrow> vbi_sliced \<Rightarrow> user_data list \<Rightarrow> user_data list" where
  "add_wss env s uds =
     (if \<not> check_active_non_display_data uds USER_DATA_AFD
         \<and> check_user_selected_non_display_data (ve_outs env) MISC_WSS USER_DATA_LOCATION_FRAME
      then uds @ [new_user_data env USER_DATA_WSS [vs_data s ! 0 AND 0x7]] else uds)"

definition add_single :: "vbi_env \<Rightarrow> vbi_sliced \<Rightarrow> user_data list \<Rightarrow> user_data list" where
  "add_single env s uds =
     (if is_caption_525 (vb_ids env) s then add_captions env (take 2 (vs_data s)) uds
      else if vs_id s = zv_wss_625 (vb_ids env) then add_wss env s uds else uds)"

text \<open>The user data a list of slices gives: two caption slices in a row are the two fields of one
  entry.\<close>

fun vbi_user_data :: "vbi_env \<Rightarrow> vbi_sliced list \<Rightarrow> user_data list \<Rightarrow> user_data list" where
  "vbi_user_data env [] uds = uds"
| "vbi_user_data env [s] uds = add_single env s uds"
| "vbi_user_data env (s # t # ss) uds =
     (if is_caption_525 (vb_ids env) s \<and> is_caption_525 (vb_ids env) t
      then vbi_user_data env ss (add_captions env (take 2 (vs_data s) @ take 2 (vs_data t)) uds)
      else vbi_user_data env (t # ss) (add_single env s uds))"

text \<open>The slices left for DVB-VBI and DVB teletext.\<close>

definition vbi_kept :: "vbi_env \<Rightarrow> vbi_sliced \<Rightarrow> bool" where
  "vbi_kept env s \<longleftrightarrow> \<not> is_caption_525 (vb_ids env) s \<and>
     (if vs_id s = zv_wss_625 (vb_ids env)
      then check_user_selected_non_display_data (ve_outs env) MISC_WSS USER_DATA_LOCATION_DVB_STREAM
      else is_ttx (vb_ids env) s
           \<or> (case get_vbi_type (vb_ids env) (vs_id s) of None \<Rightarrow> False
              | Some t \<Rightarrow> check_user_selected_non_display_data (ve_outs env) t USER_DATA_LOCATION_DVB_STREAM))"

definition alloc_ok :: "vbi_env \<Rightarrow> bool" where
  "alloc_ok env \<longleftrightarrow> ve_realloc_ok env \<and> ve_malloc_ok env"

lemma attach_ok:
  "alloc_ok env \<Longrightarrow> vbi_attach env VBI_RAW t d uds = (True, uds @ [new_user_data env t d])"
  by (simp add: alloc_ok_def vbi_attach_def new_user_data_def)

lemma extract_step:
  assumes "extract_slice env i sl nd uds = Some (0, i', sl', nd', uds')" "i < snd sl"
  shows "extract_vbi env i sl nd uds = extract_vbi env i' sl' nd' uds'"
  using assms by (subst extract_vbi.simps) simp

lemma slice_pair:
  assumes "alloc_ok env" "is_caption_525 (vb_ids env) x" "is_caption_525 (vb_ids env) y"
    "2 \<le> length (vs_data x)" "2 \<le> length (vs_data y)"
  shows "extract_slice env (length pre) (pre @ x # y # ys @ zs, length pre + Suc (Suc (length ys))) nd uds
    = Some (0, length pre, (pre @ ys @ zero_slice # zero_slice # zs, length pre + length ys), nd,
            add_captions env (take 2 (vs_data x) @ take 2 (vs_data y)) uds)"
proof -
  have a: "at (pre @ x # y # ys @ zs) (length pre) = Some x" "at (pre @ x # y # ys @ zs) (Suc (length pre)) = Some y"
    by (simp_all add: nth_append)
  have d: "mem_get 0 2 (vs_data x) = Some (take 2 (vs_data x))" "mem_get 0 2 (vs_data y) = Some (take 2 (vs_data y))"
    using assms(4,5) by simp_all
  show ?thesis
    using assms(1-3) a d remove_at(2) [of pre x y ys zs] attach_ok [OF assms(1)]
    by (simp add: extract_slice_def extract_caption_def add_captions_def)
qed

lemma slice_caption:
  assumes "alloc_ok env" "is_caption_525 (vb_ids env) x" "2 \<le> length (vs_data x)"
    and t: "at (ys @ zs) 0 = Some t" "\<not> is_caption_525 (vb_ids env) t"
  shows "extract_slice env (length pre) (pre @ x # ys @ zs, length pre + Suc (length ys)) nd uds
    = Some (0, length pre, (pre @ ys @ zero_slice # zs, length pre + length ys), nd,
            add_captions env (take 2 (vs_data x)) uds)"
proof -
  have a: "at (pre @ x # ys @ zs) (length pre) = Some x" "at (pre @ x # ys @ zs) (Suc (length pre)) = Some t"
    using t(1) by (simp_all add: nth_append at_eq_Some)
  have d: "mem_get 0 2 (vs_data x) = Some (take 2 (vs_data x))"
    using assms(3) by simp
  show ?thesis
    using assms(1,2) t(2) a d remove_at(1) [of pre x ys zs] attach_ok [OF assms(1)]
    by (simp add: extract_slice_def extract_caption_def add_captions_def)
qed

lemma slice_wss:
  assumes "alloc_ok env" "\<not> is_caption_525 (vb_ids env) x" "vs_id x = zv_wss_625 (vb_ids env)" "2 \<le> length (vs_data x)"
  shows "extract_slice env (length pre) (pre @ x # ys @ zs, length pre + Suc (length ys)) nd uds
    = Some (0, if vbi_kept env x
               then (Suc (length pre), (pre @ x # ys @ zs, length pre + Suc (length ys)), nd, add_wss env x uds)
               else (length pre, (pre @ ys @ zero_slice # zs, length pre + length ys), nd, add_wss env x uds))"
proof -
  have a: "at (pre @ x # ys @ zs) (length pre) = Some x"
    by (simp add: nth_append)
  have d: "at (vs_data x) 0 = Some (vs_data x ! 0)"
    by (rule at_Some) (use assms(4) in linarith)
  show ?thesis
    using assms(1-3) a d remove_at(1) [of pre x ys zs] attach_ok [OF assms(1)]
    by (simp add: extract_slice_def extract_wss_def add_wss_def vbi_kept_def)
qed

lemma slice_other:
  assumes "\<not> is_caption_525 (vb_ids env) x" "vs_id x \<noteq> zv_wss_625 (vb_ids env)"
  shows "\<exists>nd'. extract_slice env (length pre) (pre @ x # ys @ zs, length pre + Suc (length ys)) nd uds
    = Some (0, if vbi_kept env x
               then (Suc (length pre), (pre @ x # ys @ zs, length pre + Suc (length ys)), nd', uds)
               else (length pre, (pre @ ys @ zero_slice # zs, length pre + length ys), nd', uds))"
proof -
  have a: "at (pre @ x # ys @ zs) (length pre) = Some x"
    by (simp add: nth_append)
  show ?thesis
    using assms a remove_at(1) [of pre x ys zs]
    by (cases "is_ttx (vb_ids env) x"; cases "get_vbi_type (vb_ids env) (vs_id x)")
      (auto simp: extract_slice_def extract_other_def vbi_kept_def is_ttx_def Let_def)
qed


lemma vbi_user_data_single:
  "\<not> (is_caption_525 (vb_ids env) x \<and> ys \<noteq> [] \<and> is_caption_525 (vb_ids env) (hd ys)) \<Longrightarrow>
   vbi_user_data env (x # ys) uds = vbi_user_data env ys (add_single env x uds)"
  by (cases ys) auto

lemma caption_not_kept [simp]: "is_caption_525 (vb_ids env) x \<Longrightarrow> \<not> vbi_kept env x"
  by (simp add: vbi_kept_def)

lemma extract_vbi_spec:
  assumes "alloc_ok env"
  shows "zero_tail zs \<Longrightarrow> list_all (\<lambda>s. 2 \<le> length (vs_data s)) xs \<Longrightarrow>
    \<exists>zs' nd'. extract_vbi env (length pre) (pre @ xs @ zs, length pre + length xs) nd uds
      = Some (0, (pre @ filter (vbi_kept env) xs @ zs', length pre + length (filter (vbi_kept env) xs)), nd',
              vbi_user_data env xs uds)"
proof (induction xs arbitrary: pre zs nd uds rule: length_induct)
  case (1 xs)
  show ?case
  proof (cases xs)
    case Nil
    then show ?thesis
      by (auto simp: extract_vbi.simps)
  next
    case (Cons x ys)
    have l: "length ys < length xs" and dx: "2 \<le> length (vs_data x)"
      and dys: "list_all (\<lambda>s. 2 \<le> length (vs_data s)) ys"
      using Cons 1(3) by simp_all
    let ?sl = "(pre @ xs @ zs, length pre + length xs)"
    have IH: "\<exists>zs' nd''. extract_vbi env (length p) (p @ ys @ z, length p + length ys) nd' uds'
        = Some (0, (p @ filter (vbi_kept env) ys @ zs', length p + length (filter (vbi_kept env) ys)), nd'',
              vbi_user_data env ys uds')" if "zero_tail z" for p z nd' uds'
      using 1(1) [rule_format, OF l that dys] .
    have tail: ?thesis
      if step: "extract_slice env (length pre) ?sl nd uds
        = Some (0, if vbi_kept env x then (Suc (length pre), ?sl, nd', add_single env x uds)
                   else (length pre, (pre @ ys @ zero_slice # zs, length pre + length ys), nd', add_single env x uds))"
        and v: "vbi_user_data env (x # ys) uds = vbi_user_data env ys (add_single env x uds)" for nd'
    proof (cases "vbi_kept env x")
      case True
      have "extract_vbi env (length pre) ?sl nd uds = extract_vbi env (Suc (length pre)) ?sl nd' (add_single env x uds)"
        using step True Cons by (intro extract_step) simp_all
      then show ?thesis
        using IH [OF 1(2), of "pre @ [x]" nd' "add_single env x uds"] True Cons v by simp
    next
      case False
      have "extract_vbi env (length pre) ?sl nd uds
          = extract_vbi env (length pre) (pre @ ys @ zero_slice # zs, length pre + length ys) nd' (add_single env x uds)"
        using step False Cons by (intro extract_step) simp_all
      then show ?thesis
        using IH [OF zero_tail_Cons [OF 1(2)], of pre nd' "add_single env x uds"] False Cons v by simp
    qed
    consider (pair) y ys' where "is_caption_525 (vb_ids env) x" "ys = y # ys'" "is_caption_525 (vb_ids env) y"
      | (cap) "is_caption_525 (vb_ids env) x" "\<not> (ys \<noteq> [] \<and> is_caption_525 (vb_ids env) (hd ys))"
      | (wss) "\<not> is_caption_525 (vb_ids env) x" "vs_id x = zv_wss_625 (vb_ids env)"
      | (other) "\<not> is_caption_525 (vb_ids env) x" "vs_id x \<noteq> zv_wss_625 (vb_ids env)"
      by (cases ys) auto
    then show ?thesis
    proof cases
      case pair
      have "extract_slice env (length pre) ?sl nd uds
          = Some (0, length pre, (pre @ ys' @ zero_slice # zero_slice # zs, length pre + length ys'), nd,
              add_captions env (take 2 (vs_data x) @ take 2 (vs_data y)) uds)"
        using slice_pair [OF assms pair(1,3) dx] dys pair Cons by simp
      then have "extract_vbi env (length pre) ?sl nd uds
          = extract_vbi env (length pre) (pre @ ys' @ zero_slice # zero_slice # zs, length pre + length ys') nd
              (add_captions env (take 2 (vs_data x) @ take 2 (vs_data y)) uds)"
        using Cons by (intro extract_step) simp_all
      moreover have "length ys' < length xs" "list_all (\<lambda>s. 2 \<le> length (vs_data s)) ys'"
        using pair Cons dys by simp_all
      ultimately show ?thesis
        using 1(1) [rule_format, of ys' "zero_slice # zero_slice # zs" pre nd
            "add_captions env (take 2 (vs_data x) @ take 2 (vs_data y)) uds"] 1(2) pair Cons
        by simp
    next
      case cap
      obtain t where t: "at (ys @ zs) 0 = Some t" "\<not> is_caption_525 (vb_ids env) t"
        using cap(2) zero_tail_hd [OF 1(2)] by (cases ys) auto
      show ?thesis
        using slice_caption [OF assms cap(1) dx t, of pre nd uds] cap Cons vbi_user_data_single [of env x ys uds]
        by (intro tail [of nd]) (auto simp: add_single_def)
    next
      case wss
      then show ?thesis
        using slice_wss [OF assms wss dx, of pre ys zs nd uds] Cons vbi_user_data_single [of env x ys uds]
        by (intro tail [of nd]) (auto simp: add_single_def)
    next
      case other
      then obtain nd' where "extract_slice env (length pre) (pre @ x # ys @ zs, length pre + Suc (length ys)) nd uds
          = Some (0, if vbi_kept env x
               then (Suc (length pre), (pre @ x # ys @ zs, length pre + Suc (length ys)), nd', uds)
               else (length pre, (pre @ ys @ zero_slice # zs, length pre + length ys), nd', uds))"
        using slice_other by blast
      then show ?thesis
        using other Cons vbi_user_data_single [of env x ys uds]
        by (intro tail [of nd']) (auto simp: add_single_def)
    qed
  qed
qed

text \<open>C31 When a picture is encoded, the in-place passes over the slices libzvbi returned do what a list
  program does: what is left for DVB-VBI and teletext is the sublist of the slices of a supported
  and selected service, in order, and the user data of the frame grows by the captions (two
  slices in a row are the two fields of one entry) and the widescreen signalling the user
  selected, without duplicating captions or an AFD the frame already has.\<close>

theorem decode_vbi_extracts:
  assumes "alloc_ok env" "\<not> nd_probe nd" "length (vb_decode env lines) < 100"
    and d: "list_all (\<lambda>s. 2 \<le> length (vs_data s)) (vb_decode env lines)"
    and ss: "ss = filter (supported (vb_ids env)) (vb_decode env lines)" "ss \<noteq> []"
  shows "\<exists>nd'. decode_vbi env nd lines uds = Some (0, nd', vbi_user_data env ss uds)
     \<and> 0 \<le> vp_num_vbi nd'
     \<and> take (nat (vp_num_vbi nd')) (nd_vbi_slices nd') = filter (vbi_kept env) ss"
proof -
  let ?dec = "vb_decode env lines"
  let ?zs = "replicate (100 - length ?dec) zero_slice"
  have z: "zero_tail ?zs"
    using assms(3) by (auto simp: zero_tail_def list_all_iff)
  have put: "mem_put 0 ?dec (replicate 100 zero_slice) = Some (?dec @ ?zs)"
    using assms(3) by (simp add: splice_def del: replicate.simps)
  obtain zs' where zs': "zero_tail zs'"
    "remove_unsupported (vb_ids env) 0 (?dec @ ?zs, length ?dec) = Some (ss @ zs', length ss)"
    using remove_unsupported_spec [OF z, of "vb_ids env" ?dec "[]"] ss(1) by auto
  have dss: "list_all (\<lambda>s. 2 \<le> length (vs_data s)) ss"
    using d ss(1) by (auto simp: list_all_iff)
  let ?nd = "nd\<lparr>nd_vbi_slices := ss @ zs'\<rparr>"
  obtain zs2 nd' where e: "extract_vbi env 0 (ss @ zs', length ss) ?nd uds
      = Some (0, (filter (vbi_kept env) ss @ zs2, length (filter (vbi_kept env) ss)), nd', vbi_user_data env ss uds)"
    using extract_vbi_spec [OF assms(1) zs'(1) dss, of "[]" ?nd uds] by auto
  have "decode_vbi env nd lines uds
      = Some (0, nd'\<lparr>nd_vbi_slices := filter (vbi_kept env) ss @ zs2,
                    vp_num_vbi := int (length (filter (vbi_kept env) ss))\<rparr>, vbi_user_data env ss uds)"
    using put zs'(2) e ss(2) assms(2) by (simp add: decode_vbi_def Let_def del: replicate.simps)
  then show ?thesis
    by simp
qed

definition caption_wit_env :: vbi_env where
  "caption_wit_env = vbi_wit_env\<lparr>
     ve_outs := [vbi_out\<lparr>os_output_stream_id := 0,
      os_video_anc := \<lparr>fao_cea_608 = True, fao_cea_708 = False, fao_afd = True, fao_wss_to_afd = False\<rparr>\<rparr>],
     vb_decode := (\<lambda>_. [\<lparr>vs_id = 3, vs_line = 20, vs_data = replicate 56 1\<rparr>,
                        \<lparr>vs_id = 0x8000, vs_line = 20, vs_data = replicate 56 1\<rparr>,
                        \<lparr>vs_id = 0x20, vs_line = 21, vs_data = replicate 56 2\<rparr>,
                        \<lparr>vs_id = 0x40, vs_line = 284, vs_data = replicate 56 3\<rparr>])\<rparr>"

theorem decode_vbi_extracts_witness:
  "\<exists>nd'. decode_vbi caption_wit_env vbi_wit_parser [] []
     = Some (0, nd', [new_user_data caption_wit_env USER_DATA_CEA_608 [2, 2, 3, 3]])
     \<and> take (nat (vp_num_vbi nd')) (nd_vbi_slices nd') = [\<lparr>vs_id = 3, vs_line = 20, vs_data = replicate 56 1\<rparr>]"
proof -
  let ?t = "\<lparr>vs_id = 3, vs_line = 20, vs_data = replicate 56 1\<rparr>"
    and ?c = "\<lparr>vs_id = 0x20, vs_line = 21, vs_data = replicate 56 2\<rparr>"
    and ?d = "\<lparr>vs_id = 0x40, vs_line = 284, vs_data = replicate 56 3\<rparr>"
  note e = caption_wit_env_def vbi_wit_env_def vanc_wit_env_def vanc_env.defs
  have a: "alloc_ok caption_wit_env" "\<not> nd_probe vbi_wit_parser" "length (vb_decode caption_wit_env []) < 100"
    "list_all (\<lambda>s. 2 \<le> length (vs_data s)) (vb_decode caption_wit_env [])"
    by (simp_all add: e alloc_ok_def vbi_wit_parser_def nd_wit_def non_display_data.defs)
  have f: "filter (supported (vb_ids caption_wit_env)) (vb_decode caption_wit_env []) = [?t, ?c, ?d]"
    by (simp add: e supported_def get_vbi_type_def vbi_type_tab_def)
  have k: "filter (vbi_kept caption_wit_env) [?t, ?c, ?d] = [?t]"
    by (simp add: e vbi_kept_def is_caption_525_def is_ttx_def)
  have "get_output_stream_by_id (ve_outs caption_wit_env) 0 = Some (hd (ve_outs caption_wit_env))"
    by (simp add: e get_output_stream_by_id_def)
  then have u: "vbi_user_data caption_wit_env [?t, ?c, ?d] []
      = [new_user_data caption_wit_env USER_DATA_CEA_608 [2, 2, 3, 3]]"
    by (simp add: e is_caption_525_def add_single_def add_captions_def check_active_non_display_data_def
        check_user_selected_non_display_data_def numeral_2_eq_2)
  show ?thesis
    using decode_vbi_extracts [OF a f [symmetric], of "[]"] k u by auto
qed

lemma vbi_write_bytes_eq: "vbi_write_bytes = write_bytes"
  by (intro ext) (simp add: vbi_write_bytes_def write_bytes_def)

text \<open>The body of a data unit: the line, and the bytes of the service.\<close>

definition vbi_block :: "zvbi_ids \<Rightarrow> bool \<Rightarrow> vbi_sliced \<Rightarrow> bytes" where
  "vbi_block z ntsc v = vbi_line_byte ntsc (vs_line v) #
     (case get_vbi_type z (vs_id v) of
        Some MISC_TELETEXT \<Rightarrow> 0xe4 # rev_bytes 42 (vs_data v)
      | Some MISC_TELETEXT_INVERTED \<Rightarrow> 0x1b # rev_bytes 42 (vs_data v)
      | Some VBI_NABTS \<Rightarrow> 0xe7 # rev_bytes 33 (vs_data v)
      | Some MISC_VPS \<Rightarrow> rev_bytes 13 (vs_data v)
      | Some MISC_WSS \<Rightarrow> [word_reverse (vs_data v ! 0), (word_reverse (vs_data v ! 1) AND 0xfc) OR 3]
      | _ \<Rightarrow> [])"

definition vbi_slice_ok :: "bool \<Rightarrow> vbi_sliced \<Rightarrow> bool" where
  "vbi_slice_ok ntsc v \<longleftrightarrow> vbi_line_ok ntsc (vs_line v) \<and> 42 \<le> length (vs_data v)"

lemma writes_byte_then:
  assumes "uint v < 256" "writes g (bytes_bits bs)"
  shows "writes (\<lambda>s. do { s \<leftarrow> bs_write s 8 v; g s }) (bytes_bits (ucast v # bs))"
  using writes_bind [OF writes_byte [OF assms(1)] assms(2)] by simp

lemma wss_bits:
  "bits_be 6 (drop_bit 2 (REVERSE d)) @ bits_be 2 (3 :: u32) = byte_bits ((word_reverse d AND 0xfc) OR 3)"
  unfolding REVERSE_def reverse_tab_reverse
  by (simp add: bits_be_def byte_bits_def eval_nat_numeral bit_simps)

lemma writes_wss:
  assumes "2 \<le> length data"
  shows "writes (write_wss_field data) (bytes_bits [word_reverse (data ! 0), (word_reverse (data ! 1) AND 0xfc) OR 3])"
proof -
  have a: "at data 0 = Some (data ! 0)" "at data 1 = Some (data ! 1)"
    using assms by (auto simp: at_def)
  have u: "uint (drop_bit 2 (REVERSE (data ! 1))) < 2 ^ 6"
    unfolding REVERSE_def
    by (rule uint_lt_bitI) (auto simp: bit_simps dest: bit_imp_le_length)
  have "writes (\<lambda>s. do { s \<leftarrow> bs_write s 8 (REVERSE (data ! 0)); s \<leftarrow> bs_write s 6 (drop_bit 2 (REVERSE (data ! 1))); bs_write s 2 3 })
     (byte_bits (word_reverse (data ! 0)) @ bits_be 6 (drop_bit 2 (REVERSE (data ! 1))) @ bits_be 2 (3 :: u32))"
    using u by (intro writes_bind writes_write writes_REVERSE) simp_all
  then show ?thesis
    using wss_bits [of "data ! 1"] by (simp add: writes_def write_wss_field_def a a(2) [unfolded One_nat_def])
qed


lemma writes_vbi_body:
  assumes "vbi_slice_ok ntsc v"
  shows "writes (\<lambda>t. do { t \<leftarrow> write_header_byte (vs_line v) ntsc t;
      if get_vbi_type z (vs_id v) = Some MISC_TELETEXT \<or> get_vbi_type z (vs_id v) = Some MISC_TELETEXT_INVERTED
           \<or> get_vbi_type z (vs_id v) = Some VBI_NABTS
      then write_ttx_field (vs_data v) (the (get_vbi_type z (vs_id v))) t
      else if get_vbi_type z (vs_id v) = Some MISC_VPS then write_generic_field (vs_data v) MISC_VPS t
      else if get_vbi_type z (vs_id v) = Some MISC_WSS then write_wss_field (vs_data v) t
      else Some t }) (bytes_bits (vbi_block z ntsc v))"
proof -
  have l: "42 \<le> length (vs_data v)" "33 \<le> length (vs_data v)" "13 \<le> length (vs_data v)" "2 \<le> length (vs_data v)"
    and h: "vbi_line_ok ntsc (vs_line v)"
    using assms by (simp_all add: vbi_slice_ok_def)
  note t = writes_byte_then [where v = "0xe4", OF _ writes_rev_bytes [OF l(1)]]
    writes_byte_then [where v = "0x1b", OF _ writes_rev_bytes [OF l(1)]]
    writes_byte_then [where v = "0xe7", OF _ writes_rev_bytes [OF l(2)]]
  let ?body = "\<lambda>t. if get_vbi_type z (vs_id v) = Some MISC_TELETEXT \<or> get_vbi_type z (vs_id v) = Some MISC_TELETEXT_INVERTED
           \<or> get_vbi_type z (vs_id v) = Some VBI_NABTS
      then write_ttx_field (vs_data v) (the (get_vbi_type z (vs_id v))) t
      else if get_vbi_type z (vs_id v) = Some MISC_VPS then write_generic_field (vs_data v) MISC_VPS t
      else if get_vbi_type z (vs_id v) = Some MISC_WSS then write_wss_field (vs_data v) t
      else Some t"
  have "writes ?body (bytes_bits (tl (vbi_block z ntsc v)))"
    using t writes_rev_bytes [OF l(3)] writes_wss [OF l(4)] writes_Some
    by (cases "get_vbi_type z (vs_id v)"; cases "the (get_vbi_type z (vs_id v))")
      (simp_all add: vbi_block_def write_ttx_field_def [abs_def] write_generic_field_def [abs_def])
  then have "writes (\<lambda>t. do { t \<leftarrow> write_header_byte (vs_line v) ntsc t; ?body t })
      (byte_bits (vbi_line_byte ntsc (vs_line v)) @ bytes_bits (tl (vbi_block z ntsc v)))"
    by (intro writes_bind writes_header h)
  then show ?thesis
    by (simp add: vbi_block_def)
qed

lemma length_vbi_block: "length (vbi_block z ntsc v) \<le> 44"
  by (auto simp: vbi_block_def rev_bytes_def split: option.splits stream_formats.splits)

lemma write_vbi_unit_spec:
  assumes "vbi_slice_ok ntsc v" "length tmp = 100"
  obtains t where "write_vbi_unit z ntsc v tmp = Some t" "take (nat (bs_pos t div 8)) (bs_mem t) = vbi_block z ntsc v"
    "nat (bs_pos t div 8) = length (vbi_block z ntsc v)" "bs_pos t div 8 = int (length (vbi_block z ntsc v))" "length (bs_mem t) = 100"
proof -
  obtain t0 where t0: "bs_init tmp 0 100 = Some t0" "bs_ok t0" "bs_bits t0 = []" "bs_mem t0 = tmp"
    using bs_init_aligned [of tmp 100] assms(2) by auto
  have r: "bs_room t0 (length (bytes_bits (vbi_block z ntsc v)))"
    using length_vbi_block [of z ntsc v] t0(3,4) assms(2) by (simp add: bs_room_def)
  define body where "body = (\<lambda>t. (if get_vbi_type z (vs_id v) = Some MISC_TELETEXT \<or> get_vbi_type z (vs_id v) = Some MISC_TELETEXT_INVERTED
           \<or> get_vbi_type z (vs_id v) = Some VBI_NABTS
      then write_ttx_field (vs_data v) (the (get_vbi_type z (vs_id v))) t
      else if get_vbi_type z (vs_id v) = Some MISC_VPS then write_generic_field (vs_data v) MISC_VPS t
      else if get_vbi_type z (vs_id v) = Some MISC_WSS then write_wss_field (vs_data v) t
      else Some t))"
  have w: "writes (\<lambda>t. do { t \<leftarrow> write_header_byte (vs_line v) ntsc t; body t }) (bytes_bits (vbi_block z ntsc v))"
    using writes_vbi_body [OF assms(1), of z] unfolding body_def .
  obtain t2 where t1: "do { t \<leftarrow> write_header_byte (vs_line v) ntsc t0; body t } = Some t2"
    and t2: "bs_ok t2" "bs_bits t2 = bytes_bits (vbi_block z ntsc v)" "length (bs_mem t2) = 100"
    using writesD [OF w t0(2) r] t0(3,4) assms(2) by (metis append_Nil)
  have unit: "write_vbi_unit z ntsc v tmp
      = do { t \<leftarrow> do { t \<leftarrow> write_header_byte (vs_line v) ntsc t0; body t }; bs_flush t }"
    unfolding write_vbi_unit_def Let_def t0(1) Option.bind.simps body_def by (simp add: bind_assoc)
  have "length (bs_bits t2) = 8 * length (vbi_block z ntsc v)"
    unfolding t2(2) by simp
  then have p: "bs_p t2 + 4 \<le> length (bs_mem t2)"
    using t2(1,3) length_vbi_block [of z ntsc v] by (auto simp: bs_bits_def bs_ok_def)
  have m: "length (bs_bits t2) mod 8 = 0"
    unfolding t2(2) by (simp only: length_bytes_bits) simp
  obtain t where t: "bs_flush t2 = Some t" "bytes_bits (take (bs_p t) (bs_mem t)) = bs_bits t2"
    "length (bs_mem t) = length (bs_mem t2)" "bs_left t = 64" "bs_p t = length (bs_bits t2) div 8"
    using bs_flush_spec [OF t2(1) m p] by metis
  have pt: "bs_p t = length (vbi_block z ntsc v)"
    using t(5) t2(2) by simp
  have "write_vbi_unit z ntsc v tmp = Some t"
    unfolding unit t1 using t(1) by simp
  moreover have "take (bs_p t) (bs_mem t) = vbi_block z ntsc v"
    using t(2) t2(2) bytes_bits_inj by metis
  moreover have "bs_pos t div 8 = int (bs_p t)"
    using t(4) by (simp add: bs_pos_def)
  ultimately show thesis
    using that t(3) t2(3) pt by simp
qed

text \<open>The data unit identifier of the services DVB-VBI carries; teletext gets the row of the subtitle
  variant, the last one of the table.\<close>

definition vbi_unit_id :: "stream_formats \<Rightarrow> u8" where
  "vbi_unit_id f = (if f = MISC_TELETEXT then 0x03 else if f = MISC_TELETEXT_INVERTED then 0xc0
                    else if f = MISC_VPS then 0xc3 else 0xc4)"

definition dvb_service :: "zvbi_ids \<Rightarrow> vbi_sliced \<Rightarrow> bool" where
  "dvb_service z v \<longleftrightarrow> get_vbi_type z (vs_id v)
      \<in> {Some MISC_TELETEXT, Some MISC_TELETEXT_INVERTED, Some MISC_VPS, Some MISC_WSS}"

definition vbi_unit :: "zvbi_ids \<Rightarrow> bool \<Rightarrow> vbi_sliced \<Rightarrow> bytes" where
  "vbi_unit z ntsc v = [vbi_unit_id (the (get_vbi_type z (vs_id v))), of_nat (length (vbi_block z ntsc v))]
     @ vbi_block z ntsc v"

lemma data_unit_id_service:
  assumes "dvb_service z v"
  shows "uint (data_unit_id_of (get_vbi_type z (vs_id v)) old) < 256"
    and "ucast (data_unit_id_of (get_vbi_type z (vs_id v)) old) = vbi_unit_id (the (get_vbi_type z (vs_id v)))"
  using assms by (auto simp: dvb_service_def data_unit_id_of_def data_indentifier_table_def vbi_unit_id_def)

lemma ucast_word_of_int_u8: "(ucast (word_of_int (int n) :: u32) :: u8) = of_nat n"
  by (rule bit_word_eqI) (auto simp: bit_simps)

lemma bits_room_end:
  assumes "bs_ok s" "bs_bits s = bytes_bits bs" "length bs + 4 \<le> length (bs_mem s)"
  shows "bs_p s + 4 \<le> length (bs_mem s)" "length (bs_bits s) mod 8 = 0"
proof -
  have "length (bs_bits s) = 8 * length bs"
    unfolding assms(2) by simp
  then show "bs_p s + 4 \<le> length (bs_mem s)" "length (bs_bits s) mod 8 = 0"
    using assms(1,3) by (auto simp: bs_bits_def bs_ok_def)
qed

lemma vbi_units_step:
  assumes "dvb_service (vb_ids env) v" "vbi_slice_ok (vp_scanning nd = 525) v" "length tmp = 100"
    and sel: "check_user_selected_non_display_data (ve_outs env) MISC_TELETEXT USER_DATA_LOCATION_DVB_STREAM"
    and anc: "nd_anc_vbi nd = []"
    and s: "bs_ok s" "bs_bits s = bytes_bits bs" "length bs + 100 \<le> length (bs_mem s)"
  shows "\<exists>s' uid' tmp'. vbi_units env nd (v # vs) uid tmp s = vbi_units env nd vs uid' tmp' s' \<and> length tmp' = 100
     \<and> bs_ok s' \<and> bs_bits s' = bytes_bits (bs @ vbi_unit (vb_ids env) (vp_scanning nd = 525) v)
     \<and> length (bs_mem s') = length (bs_mem s)"
proof -
  let ?z = "vb_ids env" and ?ntsc = "vp_scanning nd = 525"
  let ?ty = "get_vbi_type ?z (vs_id v)"
  let ?uid = "data_unit_id_of ?ty uid"
  let ?b = "vbi_block ?z ?ntsc v"
  note u = data_unit_id_service [OF assms(1), of uid]
  obtain s1 where s1: "bs_write s 8 ?uid = Some s1" "bs_ok s1"
    "bs_bits s1 = bytes_bits (bs @ [vbi_unit_id (the ?ty)])" "length (bs_mem s1) = length (bs_mem s)"
    using writesD [OF writes_byte [OF u(1)] s(1)] s(2,3) u(2) by (auto simp: bs_room_def)
  have l1: "length (bs @ [vbi_unit_id (the ?ty)]) + 4 \<le> length (bs_mem s1)"
    using s(3) s1(4) by simp
  obtain s2 where s2: "bs_flush s1 = Some s2" "bs_ok s2"
    "bs_bits s2 = bytes_bits (bs @ [vbi_unit_id (the ?ty)])" "length (bs_mem s2) = length (bs_mem s)"
    using bs_flush_spec [OF s1(2) bits_room_end(2,1) [OF s1(2,3) l1]] s1(3,4) by metis
  obtain t where t: "write_vbi_unit ?z ?ntsc v tmp = Some t" "take (nat (bs_pos t div 8)) (bs_mem t) = ?b"
    "nat (bs_pos t div 8) = length ?b" "bs_pos t div 8 = int (length ?b)" "length (bs_mem t) = 100"
    using write_vbi_unit_spec [OF assms(2,3)] by metis
  have lb: "length ?b \<le> 44"
    by (rule length_vbi_block)
  have c: "uint (word_of_int (int (length ?b)) :: u32) < 256"
    unfolding uint_word_of_int using lb by simp
  obtain s3 where s3: "bs_write s2 8 (word_of_int (bs_pos t div 8)) = Some s3" "bs_ok s3"
    "bs_bits s3 = bytes_bits (bs @ [vbi_unit_id (the ?ty), of_nat (length ?b)])" "length (bs_mem s3) = length (bs_mem s)"
    using writesD [OF writes_byte [OF c] s2(2)] s2(3,4) s(3) ucast_word_of_int_u8 [of "length ?b"] unfolding t(4)
    by (auto simp: bs_room_def)
  have r: "bs_room s3 (8 * length ?b + 32)" and m: "length (bs_bits s3) mod 8 = 0"
    using s3(3,4) s(3) lb by (simp_all add: bs_room_def)
  obtain s4 where s4: "vbi_write_bytes (bs_mem t) (nat (bs_pos t div 8)) s3 = Some s4" "bs_ok s4"
    "bs_bits s4 = bytes_bits (bs @ vbi_unit ?z ?ntsc v)" "length (bs_mem s4) = length (bs_mem s)"
    using write_bytes_spec [OF s3(2) m r, of "bs_mem t"] s3(3,4) t(2,3,5) lb
    by (auto simp: vbi_write_bytes_eq vbi_unit_def)
  have "vbi_units env nd (v # vs) uid tmp s = vbi_units env nd vs ?uid (bs_mem t) s4"
    using s1(1) s2(1) s3(1) s4(1) t(1) sel anc by (simp add: Let_def)
  then show ?thesis
    using s4(2-4) t(5) by blast
qed

lemma vbi_units_spec:
  assumes sel: "check_user_selected_non_display_data (ve_outs env) MISC_TELETEXT USER_DATA_LOCATION_DVB_STREAM"
    and anc: "nd_anc_vbi nd = []"
  shows "list_all (dvb_service (vb_ids env)) vs \<Longrightarrow> list_all (vbi_slice_ok (vp_scanning nd = 525)) vs \<Longrightarrow> length tmp = 100 \<Longrightarrow>
    bs_ok s \<Longrightarrow> bs_bits s = bytes_bits bs \<Longrightarrow> length bs + 46 * length vs + 100 \<le> length (bs_mem s) \<Longrightarrow>
    \<exists>s'. vbi_units env nd vs uid tmp s = Some s' \<and> bs_ok s'
       \<and> bs_bits s' = bytes_bits (bs @ concat (map (vbi_unit (vb_ids env) (vp_scanning nd = 525)) vs))
       \<and> length (bs_mem s') = length (bs_mem s)"
proof (induction vs arbitrary: uid tmp s bs)
  case (Cons v vs)
  let ?u = "vbi_unit (vb_ids env) (vp_scanning nd = 525) v"
  have lu: "length ?u \<le> 46"
    using length_vbi_block [of "vb_ids env" "vp_scanning nd = 525" v] by (simp add: vbi_unit_def)
  have "length bs + 100 \<le> length (bs_mem s)"
    using Cons.prems(6) by simp
  then obtain s1 uid1 tmp1 where s1: "vbi_units env nd (v # vs) uid tmp s = vbi_units env nd vs uid1 tmp1 s1"
    "length tmp1 = 100" "bs_ok s1" "bs_bits s1 = bytes_bits (bs @ ?u)" "length (bs_mem s1) = length (bs_mem s)"
    using vbi_units_step [OF _ _ Cons.prems(3) sel anc Cons.prems(4,5), of v vs uid] Cons.prems(1,2) by auto
  have l: "length (bs @ ?u) + 46 * length vs + 100 \<le> length (bs_mem s1)"
    using Cons.prems(6) lu s1(5) by simp
  show ?case
    using Cons.IH [OF _ _ s1(2-4) l, of uid1] Cons.prems(1,2) s1(1,5) by simp
qed simp


lemma encapsulate_dvb_vbi_frame:
  assumes "alloc_ok env" "vp_num_vbi nd \<le> 100" "length (nd_vbi_slices nd) = 100"
    and units: "\<And>s. bs_ok s \<Longrightarrow> bs_bits s = bytes_bits [0x10] \<Longrightarrow> length (bs_mem s) = 65536 \<Longrightarrow>
      \<exists>s'. vbi_units env nd (take (nat (vp_num_vbi nd)) (nd_vbi_slices nd)) 0 tmp s = Some s' \<and> bs_ok s'
         \<and> bs_bits s' = bytes_bits ([0x10] @ units) \<and> length (bs_mem s') = 65536"
    and l: "length units \<le> 60000"
  shows "\<exists>nd' f. encapsulate_dvb_vbi env tmp nd = Some (0, nd') \<and> vp_dvb_vbi_frame nd' = Some f
     \<and> cf_data f = 0x10 # units @ stuffing (1 + length units) \<and> (length (cf_data f) + 45) mod 184 = 0"
proof -
  obtain s s1 where s: "bs_init (replicate 65536 0) 0 65536 = Some s" "bs_write s 8 0x10 = Some s1"
    "bs_ok s1" "bs_bits s1 = bytes_bits [0x10]" "length (bs_mem s1) = 65536"
    by (rule pes_start)
  obtain s2 where s2: "vbi_units env nd (take (nat (vp_num_vbi nd)) (nd_vbi_slices nd)) 0 tmp s1 = Some s2"
    "bs_ok s2" "bs_bits s2 = bytes_bits ([0x10] @ units)" "length (bs_mem s2) = 65536"
    using units [OF s(3-5)] by blast
  have "bs_room s2 (8 * 185 + 32)"
    using s2(3,4) l by (simp add: bs_room_def)
  then obtain s3 s4 where s4: "write_stuffing s2 = Some s3" "bs_flush s3 = Some s4"
    "take (nat (bs_pos s4 div 8)) (bs_mem s4) = ([0x10] @ units) @ stuffing (length ([0x10] @ units))"
    using finish_pes [OF s2(2,3)] by metis
  have sl: "mem_get 0 (nat (vp_num_vbi nd)) (nd_vbi_slices nd) = Some (take (nat (vp_num_vbi nd)) (nd_vbi_slices nd))"
    using assms(2,3) by simp
  define f where "f = coded_frame_zero\<lparr>cf_output_stream_id := 0, cf_data := ([0x10] @ units) @ stuffing (length ([0x10] @ units))\<rparr>"
  have e: "encapsulate_dvb_vbi env tmp nd = Some (0, nd\<lparr>vp_dvb_vbi_frame := Some f\<rparr>)"
    using assms(1) s s2(1) s4 sl
    by (simp add: encapsulate_dvb_vbi_def new_coded_frame_def f_def alloc_ok_def del: replicate.simps)
  have d: "cf_data f = 0x10 # units @ stuffing (1 + length units)"
    by (simp add: f_def)
  have m: "(length (cf_data f) + 45) mod 184 = 0"
    using length_stuffing [of "length ([0x10] @ units)"] by (simp add: f_def)
  show ?thesis
    by (intro exI [of _ "nd\<lparr>vp_dvb_vbi_frame := Some f\<rparr>"] exI [of _ f] conjI e m d) simp
qed

text \<open>C33 With teletext selected for DVB-VBI and no VBI in the ancillary data, the DVB-VBI payload has one
  data unit for each slice left by the decoder, in order: the identifier of its service (teletext
  goes out as subtitle teletext), its length, the line and the bytes of the service with their bits
  reversed; a stuffing unit makes the packet a multiple of 184.  The units are as long as their
  content, not the 44 bytes the data identifier 0x10 asks for.\<close>

theorem vbi_pes_layout:
  assumes "alloc_ok env" "vp_num_vbi nd \<le> 100" "length (nd_vbi_slices nd) = 100" "length tmp = 100"
    and "check_user_selected_non_display_data (ve_outs env) MISC_TELETEXT USER_DATA_LOCATION_DVB_STREAM"
    and "nd_anc_vbi nd = []"
    and vs: "vs = take (nat (vp_num_vbi nd)) (nd_vbi_slices nd)"
    and "list_all (dvb_service (vb_ids env)) vs" "list_all (vbi_slice_ok (vp_scanning nd = 525)) vs"
  shows "\<exists>nd' f units. encapsulate_dvb_vbi env tmp nd = Some (0, nd') \<and> vp_dvb_vbi_frame nd' = Some f
     \<and> units = concat (map (vbi_unit (vb_ids env) (vp_scanning nd = 525)) vs)
     \<and> cf_data f = 0x10 # units @ stuffing (1 + length units)
     \<and> (length (cf_data f) + 45) mod 184 = 0"
proof -
  let ?units = "concat (map (vbi_unit (vb_ids env) (vp_scanning nd = 525)) vs)"
  have lv: "length vs \<le> 100"
    unfolding vs using assms(3) by simp
  have "length (vbi_unit (vb_ids env) (vp_scanning nd = 525) v) \<le> 46" for v
    using length_vbi_block [of "vb_ids env" "vp_scanning nd = 525" v] by (simp add: vbi_unit_def)
  then have "length ?units \<le> 46 * length vs"
    by (induction vs) (simp_all add: add_le_mono)
  then have lu: "length ?units \<le> 60000"
    using lv by simp
  have u: "\<exists>s'. vbi_units env nd (take (nat (vp_num_vbi nd)) (nd_vbi_slices nd)) 0 tmp s = Some s' \<and> bs_ok s'
         \<and> bs_bits s' = bytes_bits ([0x10] @ ?units) \<and> length (bs_mem s') = 65536"
    if h: "bs_ok s" "bs_bits s = bytes_bits [0x10]" "length (bs_mem s) = 65536" for s
  proof -
    have l: "length [0x10 :: u8] + 46 * length vs + 100 \<le> length (bs_mem s)"
      using lv h(3) by simp
    show ?thesis
      using vbi_units_spec [OF assms(5,6,8,9,4) h(1,2) l, of 0] unfolding vs h(3) .
  qed
  have "\<exists>nd' f. encapsulate_dvb_vbi env tmp nd = Some (0, nd') \<and> vp_dvb_vbi_frame nd' = Some f
     \<and> cf_data f = 0x10 # ?units @ stuffing (1 + length ?units) \<and> (length (cf_data f) + 45) mod 184 = 0"
    by (rule encapsulate_dvb_vbi_frame [OF assms(1-3) _ lu]) (rule u)
  then obtain nd' f where f: "encapsulate_dvb_vbi env tmp nd = Some (0, nd')" "vp_dvb_vbi_frame nd' = Some f"
     "cf_data f = 0x10 # ?units @ stuffing (1 + length ?units)" "(length (cf_data f) + 45) mod 184 = 0"
    by (elim exE conjE)
  show ?thesis
    by (intro exI [of _ nd'] exI [of _ f] exI [of _ ?units] conjI f refl)
qed

text \<open>Unless teletext is selected for DVB-VBI, every slice is skipped, whatever its service: the widescreen
  signalling or the programme delivery data the user did select leaves as an empty packet.\<close>

theorem vbi_needs_teletext:
  assumes "alloc_ok env" "vp_num_vbi nd \<le> 100" "length (nd_vbi_slices nd) = 100"
    and "\<not> check_user_selected_non_display_data (ve_outs env) MISC_TELETEXT USER_DATA_LOCATION_DVB_STREAM"
  shows "\<exists>nd' f. encapsulate_dvb_vbi env tmp nd = Some (0, nd') \<and> vp_dvb_vbi_frame nd' = Some f
     \<and> cf_data f = 0x10 # stuffing 1"
proof -
  have "vbi_units env nd vs uid tmp s = Some s" for vs uid s
    using assms(4) by (induction vs) (simp_all add: Let_def)
  then show ?thesis
    using encapsulate_dvb_vbi_frame [OF assms(1-3), of tmp "[]"] by auto
qed

definition vbi_sel_env :: "bool \<Rightarrow> vbi_env" where
  "vbi_sel_env ttx = vbi_wit_env\<lparr>ve_outs := [vbi_out\<lparr>os_output_stream_id := 19,
      os_dvb_vbi_opts := \<lparr>dvo_ttx = ttx, dvo_inverted_ttx = False, dvo_vps = True, dvo_wss = True\<rparr>\<rparr>]\<rparr>"

definition vps_wit_parser :: vbi_parser where
  "vps_wit_parser = vbi_wit_parser\<lparr>nd_vbi_slices := \<lparr>vs_id = 4, vs_line = 16, vs_data = replicate 56 1\<rparr> # replicate 99 zero_slice\<rparr>"

lemma vbi_wit_facts:
  "alloc_ok (vbi_sel_env b)" "vp_num_vbi vps_wit_parser = 1" "length (nd_vbi_slices vps_wit_parser) = 100"
  "check_user_selected_non_display_data (ve_outs (vbi_sel_env b)) MISC_TELETEXT USER_DATA_LOCATION_DVB_STREAM = b"
  "nd_anc_vbi vps_wit_parser = []" "vp_scanning vps_wit_parser = 625"
  "vb_ids (vbi_sel_env b) = vb_ids vbi_wit_env"
proof -
  have v: "stream_format_val VBI_RAW = 19"
    by (simp add: stream_format_val_def stream_formats_list_def)
  note e = vbi_sel_env_def vbi_wit_env_def vanc_wit_env_def vanc_env.defs vps_wit_parser_def vbi_wit_parser_def
    non_display_data.defs nd_wit_def
  show "alloc_ok (vbi_sel_env b)" "vp_num_vbi vps_wit_parser = 1" "length (nd_vbi_slices vps_wit_parser) = 100"
    "nd_anc_vbi vps_wit_parser = []" "vp_scanning vps_wit_parser = 625" "vb_ids (vbi_sel_env b) = vb_ids vbi_wit_env"
    by (simp_all add: e alloc_ok_def)
  show "check_user_selected_non_display_data (ve_outs (vbi_sel_env b)) MISC_TELETEXT USER_DATA_LOCATION_DVB_STREAM = b"
    by (simp add: e v check_user_selected_non_display_data_def get_output_stream_by_id_def)
qed

lemma word_reverse_1: "word_reverse (1 :: u8) = 0x80"
  by code_simp

theorem vbi_pes_layout_witness:
  "\<exists>nd' f. encapsulate_dvb_vbi (vbi_sel_env True) (replicate 100 0) vps_wit_parser = Some (0, nd')
     \<and> vp_dvb_vbi_frame nd' = Some f
     \<and> take 5 (cf_data f) = [0x10, 0xc3, 14, 0xf0, 0x80] \<and> (length (cf_data f) + 45) mod 184 = 0"
proof -
  let ?v = "\<lparr>vs_id = 4, vs_line = 16, vs_data = replicate 56 (1 :: u8)\<rparr>"
  have vs: "[?v] = take (nat (vp_num_vbi vps_wit_parser)) (nd_vbi_slices vps_wit_parser)"
    by (simp add: vbi_wit_facts(2)) (simp add: vps_wit_parser_def)
  have ty: "get_vbi_type (vb_ids (vbi_sel_env True)) 4 = Some MISC_VPS"
    unfolding vbi_wit_facts(7)
    by (simp add: vbi_wit_env_def vanc_wit_env_def vanc_env.defs get_vbi_type_def vbi_type_tab_def)
  have k: "obe_convert_smpte_to_analogue INPUT_VIDEO_FORMAT_PAL 16 = Some (16, 1)"
    by (simp add: obe_convert_smpte_to_analogue_def field_start_lines_def is_interlaced_def)
  have o: "list_all (vbi_slice_ok (vp_scanning vps_wit_parser = 525)) [?v]"
    by (simp add: vbi_slice_ok_def vbi_line_ok_def vbi_wit_facts(6) k)
  have lb: "vbi_line_byte False 16 = 0xf0"
    by (simp add: vbi_line_byte_def k)
  have u: "vbi_unit (vb_ids (vbi_sel_env True)) False ?v = [0xc3, 14, 0xf0] @ replicate 13 0x80"
    by (simp add: vbi_unit_def vbi_unit_id_def vbi_block_def ty lb rev_bytes_def word_reverse_1)
  have "\<exists>nd' f units. encapsulate_dvb_vbi (vbi_sel_env True) (replicate 100 0) vps_wit_parser = Some (0, nd')
     \<and> vp_dvb_vbi_frame nd' = Some f \<and> units = concat (map (vbi_unit (vb_ids (vbi_sel_env True)) (vp_scanning vps_wit_parser = 525)) [?v])
     \<and> cf_data f = 0x10 # units @ stuffing (1 + length units) \<and> (length (cf_data f) + 45) mod 184 = 0"
    by (rule vbi_pes_layout [OF _ _ _ _ _ _ vs _ o])
      (simp_all add: vbi_wit_facts dvb_service_def ty [unfolded vbi_wit_facts(7)])
  then show ?thesis
    by (elim exE conjE) (simp add: vbi_wit_facts(6) u)
qed

theorem vbi_needs_teletext_witness:
  "\<exists>nd' f. encapsulate_dvb_vbi (vbi_sel_env False) (replicate 100 0) vps_wit_parser = Some (0, nd')
     \<and> vp_dvb_vbi_frame nd' = Some f \<and> take 1 (cf_data f) = [0x10] \<and> length (cf_data f) = 139"
proof -
  obtain nd' f where "encapsulate_dvb_vbi (vbi_sel_env False) (replicate 100 0) vps_wit_parser = Some (0, nd')"
     "vp_dvb_vbi_frame nd' = Some f" "cf_data f = 0x10 # stuffing 1"
    using vbi_needs_teletext [of "vbi_sel_env False" vps_wit_parser "replicate 100 0"] by (auto simp: vbi_wit_facts)
  then show ?thesis
    by (intro exI [of _ nd'] exI [of _ f]) (simp add: stuffing_def)
qed

end
