(* ===== verification/Obe_Audio.thy ===== *)
theory Obe_Audio
  imports Obe_Core Obe_Bitstream
begin

text \<open>
  The audio filter (filters/audio/audio.c): one turn of its thread, which splits a frame with the
  channels of the whole SDI signal into one frame for each encoder, and the test effects and the gain
  that are applied on the way.  The samples are 32 bit words in planes of one allocation, as the code
  assumes.  Arguments of the model: the number of channels of a layout, the padded plane size of
  \<open>av_samples_alloc\<close>, the multiplication of a sample with the gain in floating point, and the values of
  \<open>rand\<close>.
\<close>

unbundle bit_operations_syntax


section \<open>Samples in planes\<close>

type_synonym samples32 = "u32 list"

fun words_of_bytes :: "bytes \<Rightarrow> samples32" where
  "words_of_bytes (a # b # c # d # bs) = un_le32 [a, b, c, d] # words_of_bytes bs"
| "words_of_bytes _ = []"

definition bytes_of_words :: "samples32 \<Rightarrow> bytes" where
  "bytes_of_words ws = concat (map le32 ws)"

text \<open>One write through a plane pointer for each position.\<close>

fun poke_all :: "nat list \<Rightarrow> (nat \<Rightarrow> u32 \<Rightarrow> u32) \<Rightarrow> nat \<Rightarrow> samples32 \<Rightarrow> samples32 option" where
  "poke_all [] f base m = Some m"
| "poke_all (p # ps) f base m =
     do { v \<leftarrow> at m (base + p); m \<leftarrow> mem_put (base + p) [f p v] m; poke_all ps f base m }"

text \<open>The loop all effects share: in each turn first the right plane, then the left one; \<open>pos\<close> gives the
  places of a turn.  A missing plane is a null pointer.\<close>

fun effect_loop ::
  "nat list \<Rightarrow> (nat \<Rightarrow> nat list) \<Rightarrow> (nat \<Rightarrow> u32 \<Rightarrow> u32) option \<Rightarrow> (nat \<Rightarrow> u32 \<Rightarrow> u32) option
     \<Rightarrow> nat option \<Rightarrow> nat option \<Rightarrow> samples32 \<Rightarrow> samples32 option" where
  "effect_loop [] pos fr fl l r m = Some m"
| "effect_loop (i # is) pos fr fl l r m =
     do { m \<leftarrow> (case fr of None \<Rightarrow> Some m | Some f \<Rightarrow> do { b \<leftarrow> r; poke_all (pos i) f b m });
          m \<leftarrow> (case fl of None \<Rightarrow> Some m | Some f \<Rightarrow> do { b \<leftarrow> l; poke_all (pos i) f b m });
          effect_loop is pos fr fl l r m }"

definition if_bit :: "nat \<Rightarrow> int \<Rightarrow> 'a \<Rightarrow> 'a option" where
  "if_bit k effect f = (if bit effect k then Some f else None)"

text \<open>\<open>rnd\<close> are the successive values of \<open>rand\<close>.  The product of the last effect wraps, where the
  name promises clipping.\<close>

(* src: filters/audio/audio.c 95-174 applyEffects *)
definition applyEffects ::
  "int \<Rightarrow> (nat \<Rightarrow> u32) \<Rightarrow> nat \<Rightarrow> nat option \<Rightarrow> nat option \<Rightarrow> samples32 \<Rightarrow> samples32 option" where
  "applyEffects effect rnd num_samples l r m =
     do { m \<leftarrow> (if effect AND 0x03 \<noteq> 0
               then effect_loop [0..<num_samples] (\<lambda>i. [i]) (if_bit 0 effect (\<lambda>_ _. 0)) (if_bit 1 effect (\<lambda>_ _. 0)) l r m
               else Some m);
          m \<leftarrow> (if effect AND 0x0c \<noteq> 0
               then effect_loop [0..<num_samples] (\<lambda>i. [i])
                      (if_bit 2 effect (\<lambda>i _. rnd (if bit effect 3 then 2 * i else i)))
                      (if_bit 3 effect (\<lambda>i _. rnd (if bit effect 2 then 2 * i + 1 else i))) l r m
               else Some m);
          m \<leftarrow> (if effect AND 0x30 \<noteq> 0
               then effect_loop [0..<num_samples div 16] (\<lambda>i. [16 * i..<16 * i + 4])
                      (if_bit 4 effect (\<lambda>_ _. - 200000000)) (if_bit 5 effect (\<lambda>_ _. - 200000000)) l r m
               else Some m);
          m \<leftarrow> (if effect AND 0xf0 \<noteq> 0
               then effect_loop [0..<num_samples] (\<lambda>i. [i])
                      (if_bit 6 effect (\<lambda>_ v. word_of_int (sint v sdiv 4)))
                      (if_bit 7 effect (\<lambda>_ v. word_of_int (sint v sdiv 4))) l r m
               else Some m);
          (if effect AND 0x300 \<noteq> 0
           then effect_loop [0..<num_samples] (\<lambda>i. [i])
                  (if_bit 8 effect (\<lambda>_ v. v * 8)) (if_bit 9 effect (\<lambda>_ v. v * 8)) l r m
           else Some m) }"

text \<open>The loop runs over \<open>num_samples * num_channels\<close> consecutive words from the first plane on.\<close>

(* src: filters/audio/audio.c 79-93 applyGain *)
definition applyGain :: "(u32 \<Rightarrow> u32) \<Rightarrow> nat \<Rightarrow> nat \<Rightarrow> samples32 \<Rightarrow> samples32 option" where
  "applyGain scale num_samples num_channels m = poke_all [0..<num_samples * num_channels] (\<lambda>_. scale) 0 m"


section \<open>A turn of the filter thread\<close>

text \<open>\<open>ae_gain\<close> is the gain of a stream with a non-empty gain setting, as a function on samples.\<close>

record audio_env =
  ae_nb_channels :: "u64 \<Rightarrow> nat"
  ae_padded :: "nat \<Rightarrow> nat"
  ae_junk :: u32
  ae_effect :: int
  ae_rand :: "nat \<Rightarrow> u32"
  ae_gain :: "output_stream \<Rightarrow> (u32 \<Rightarrow> u32) option"

definition AV_SAMPLE_FMT_NONE :: int where
  "AV_SAMPLE_FMT_NONE = -1"

fun chunks :: "nat \<Rightarrow> nat \<Rightarrow> 'a list \<Rightarrow> 'a list list" where
  "chunks 0 k xs = []"
| "chunks (Suc n) k xs = take k xs # chunks n k (drop k xs)"

text \<open>The first plane copied for an output stream: the pair counts from one.\<close>

definition first_channel :: "output_stream \<Rightarrow> int" where
  "first_channel os = (os_sdi_audio_pair os - 1) * 2 + os_mono_channel os"

definition copied_planes :: "audio_env \<Rightarrow> nat \<Rightarrow> nat \<Rightarrow> int \<Rightarrow> bytes list \<Rightarrow> samples32 option" where
  "copied_planes env num_channels n first planes =
     (if first < 0 then None
      else do { srcs \<leftarrow> those (map (\<lambda>c. do { p \<leftarrow> at planes (nat first + c); mem_get 0 (4 * n) p }) [0..<num_channels]);
                Some (concat (map (\<lambda>s. words_of_bytes s @ replicate (ae_padded env n - n) (ae_junk env)) srcs)) })"

(* src: filters/audio/audio.c 243-295 start_filter_audio *)
definition split_audio_frame :: "audio_env \<Rightarrow> output_stream \<Rightarrow> raw_frame \<Rightarrow> raw_frame option" where
  "split_audio_frame env os rf =
     (let num_channels = ae_nb_channels env (os_channel_layout os);
          a = rf_audio_frame rf;
          n = nat (af_num_samples a);
          stride = ae_padded env n
      in do { m \<leftarrow> copied_planes env num_channels n (first_channel os) (af_data a);
              m \<leftarrow> applyEffects (ae_effect env) (ae_rand env) n (if 1 \<le> num_channels then Some 0 else None)
                     (if 2 \<le> num_channels then Some stride else None) m;
              m \<leftarrow> (case ae_gain env os of
                     Some scale \<Rightarrow> if num_channels = 2 \<or> num_channels = 6
                                   then applyGain scale n num_channels m else Some m
                   | None \<Rightarrow> Some m);
              Some (rf\<lparr>rf_audio_frame := a\<lparr>af_num_channels := int num_channels, af_linesize := int (4 * stride),
                     af_data := map bytes_of_words (chunks num_channels stride m)\<rparr>\<rparr>) })"

text \<open>The first loop over the encoders; element 0 is the video encoder.\<close>

(* src: filters/audio/audio.c 235-298 start_filter_audio *)
fun pcm_encoders :: "audio_env \<Rightarrow> raw_frame \<Rightarrow> nat list \<Rightarrow> obe_t \<Rightarrow> obe_t option" where
  "pcm_encoders env rf [] h = Some h"
| "pcm_encoders env rf (i # is) h =
     do { e \<leftarrow> at (h_encoders h) i;
          os \<leftarrow> get_output_stream_by_id (h_output_streams h) (en_output_stream_id e);
          if os_stream_format os = AUDIO_AC_3_BITSTREAM \<or> af_sample_fmt (rf_audio_frame rf) = AV_SAMPLE_FMT_NONE
          then pcm_encoders env rf is h
          else do { split \<leftarrow> split_audio_frame env os rf;
                    (_, h) \<leftarrow> add_to_encode_queue True h split (en_output_stream_id e);
                    pcm_encoders env rf is h } }"

text \<open>The second loop: the AC-3 bitstream encoder the frame goes to, if any, with the time stamp moved.\<close>

(* src: filters/audio/audio.c 307-338 start_filter_audio *)
fun find_ac3_encoder :: "raw_frame \<Rightarrow> nat list \<Rightarrow> obe_t \<Rightarrow> (raw_frame \<times> int) option option" where
  "find_ac3_encoder rf [] h = Some None"
| "find_ac3_encoder rf (i # is) h =
     do { e \<leftarrow> at (h_encoders h) i;
          os \<leftarrow> get_output_stream_by_id (h_output_streams h) (en_output_stream_id e);
          if os_stream_format os \<noteq> AUDIO_AC_3_BITSTREAM \<or> af_sample_fmt (rf_audio_frame rf) \<noteq> AV_SAMPLE_FMT_NONE
             \<or> rf_input_stream_id rf \<noteq> os_sdi_audio_pair os
          then find_ac3_encoder rf is h
          else Some (Some (rf\<lparr>rf_pts := rf_pts rf + os_audio_offset_ms os * (27000000 div 1000)\<rparr>, en_output_stream_id e)) }"

definition remove_filter_frame :: "nat \<Rightarrow> obe_t \<Rightarrow> obe_t option" where
  "remove_filter_frame k h =
     do { f \<leftarrow> at (h_filters h) k;
          (_, q) \<leftarrow> remove_from_queue True (fl_queue f);
          Some (h\<lparr>h_filters := (h_filters h)[k := f\<lparr>fl_queue := q\<rparr>]\<rparr>) }"

text \<open>\<open>k\<close> is the filter of the thread.  A frame that no AC-3 encoder takes is freed.\<close>

(* src: filters/audio/audio.c 208-346 start_filter_audio *)
definition audio_filter_turn :: "audio_env \<Rightarrow> nat \<Rightarrow> obe_t \<Rightarrow> obe_t option" where
  "audio_filter_turn env k h =
     do { f \<leftarrow> at (h_filters h) k;
          if q_size (fl_queue f) = 0 \<or> fl_cancel_thread f then Some h
          else do { rf \<leftarrow> at (q_buf (fl_queue f)) 0;
                    h \<leftarrow> pcm_encoders env rf [1..<length (h_encoders h)] h;
                    target \<leftarrow> find_ac3_encoder rf [1..<length (h_encoders h)] h;
                    h \<leftarrow> remove_filter_frame k h;
                    (case target of
                       None \<Rightarrow> Some h
                     | Some (rf, sid) \<Rightarrow> map_option snd (add_to_encode_queue True h rf sid)) } }"

section \<open>Writes through plane pointers\<close>

lemma poke_all_spec:
  "distinct ps \<Longrightarrow> \<forall>p \<in> set ps. base + p < length m \<Longrightarrow>
   \<exists>m'. poke_all ps f base m = Some m' \<and> length m' = length m
      \<and> (\<forall>j < length m. m' ! j = (if base \<le> j \<and> j - base \<in> set ps then f (j - base) (m ! j) else m ! j))"
proof (induction ps arbitrary: m)
  case (Cons p ps)
  let ?m1 = "m[base + p := f p (m ! (base + p))]"
  have p: "base + p < length m"
    using Cons.prems by simp
  then have "mem_put (base + p) [f p (m ! (base + p))] m = Some ?m1"
    by (simp add: splice_def upd_conv_take_nth_drop)
  moreover obtain m' where "poke_all ps f base ?m1 = Some m'" "length m' = length m"
    "\<forall>j < length m. m' ! j = (if base \<le> j \<and> j - base \<in> set ps then f (j - base) (?m1 ! j) else ?m1 ! j)"
    using Cons.IH [of ?m1] Cons.prems by auto
  ultimately show ?case
    using p Cons.prems(1) by (intro exI [of _ m']) (auto simp: nth_list_update)
qed simp

text \<open>C36 The gain of a stereo frame runs over twice the number of samples from the first plane on, but the second plane
  begins only after the padding of the first: the first channel and its padding are scaled, the last samples of the
  second channel, as many as a plane has padding words, keep their value.\<close>

theorem gain_misses_channel_end:
  assumes "length L = stride" "length R = stride" "n \<le> stride" "stride \<le> 2 * n"
  shows "\<exists>R'. applyGain scale n 2 (L @ R) = Some (map scale L @ R') \<and> length R' = stride
     \<and> (\<forall>i < n. R' ! i = (if i < 2 * n - stride then scale (R ! i) else R ! i))"
proof -
  have "\<forall>p \<in> set [0..<n * 2]. 0 + p < length (L @ R)"
    using assms by auto
  then obtain m where m: "applyGain scale n 2 (L @ R) = Some m" "length m = 2 * stride"
    "\<forall>j < 2 * stride. m ! j = (if j < n * 2 then scale ((L @ R) ! j) else (L @ R) ! j)"
    using poke_all_spec [of "[0..<n * 2]" 0 "L @ R" "\<lambda>_. scale"] assms by (auto simp: applyGain_def)
  have t: "take stride m = map scale L"
    using m assms by (intro nth_equalityI) (auto simp: nth_append)
  have "m = map scale L @ drop stride m"
    using t by (metis append_take_drop_id)
  moreover have "length (drop stride m) = stride"
    using m(2) by simp
  moreover have "\<forall>i < n. drop stride m ! i = (if i < 2 * n - stride then scale (R ! i) else R ! i)"
    using m assms by (auto simp: nth_append)
  ultimately show ?thesis
    using m(1) by (intro exI [of _ "drop stride m"]) simp
qed

theorem gain_misses_channel_end_witness:
  "\<exists>R'. applyGain (\<lambda>v. v + v) 3 2 ([1, 2, 3, 0] @ [1, 2, 3, 0]) = Some ([2, 4, 6, 0] @ R') \<and> R' ! 2 = 3"
  using gain_misses_channel_end [of "[1, 2, 3, 0]" 4 "[1, 2, 3, 0]" 3 "\<lambda>v. v + v"] by auto

section \<open>Splitting a frame\<close>

lemma le32_un_le32: "le32 (un_le32 [a, b, c, d]) = [a, b, c, d]"
  unfolding le32_def un_le32_def by (simp, safe; rule bit_word_eqI; auto simp: bit_simps dest: bit_imp_le_length)

lemma bytes_of_words_of_bytes: "length bs mod 4 = 0 \<Longrightarrow> bytes_of_words (words_of_bytes bs) = bs"
proof (induction bs rule: words_of_bytes.induct)
  case (1 a b c d bs)
  have "length bs mod 4 = 0"
    using 1(2) by (simp only: list.size) presburger
  then show ?case
    using 1(1) by (simp add: bytes_of_words_def le32_un_le32)
qed (auto simp: bytes_of_words_def)

lemma length_words_of_bytes: "length bs = 4 * n \<Longrightarrow> length (words_of_bytes bs) = n"
proof (induction bs arbitrary: n rule: words_of_bytes.induct)
  case (1 a b c d bs)
  then show ?case
    by (cases n) auto
qed auto

lemma chunks_concat: "\<forall>x \<in> set xs. length x = k \<Longrightarrow> chunks (length xs) k (concat xs) = xs"
  by (induction xs) auto

lemma those_Some_list: "\<forall>x \<in> set xs. f x = Some (g x) \<Longrightarrow> those (map f xs) = Some (map g xs)"
  by (induction xs) auto

lemma applyEffects_none: "applyEffects 0 rnd n l r m = Some m"
  by (simp add: applyEffects_def)

text \<open>Without effects and gain the frame made for an output stream has as many planes as its layout has channels, and
  plane \<open>c\<close> begins with the samples of the channel \<open>c\<close> places after the first one of the selected pair; the
  time stamp and everything else is that of the input frame.\<close>

theorem split_frame_selects_channels:
  assumes "ae_effect env = 0" "ae_gain env os = None" "0 \<le> first_channel os"
    and n: "n = nat (af_num_samples (rf_audio_frame rf))" "n \<le> ae_padded env n"
    and ch: "ch = ae_nb_channels env (os_channel_layout os)"
    and src: "nat (first_channel os) + ch \<le> length (af_data (rf_audio_frame rf))"
      "\<forall>p \<in> set (af_data (rf_audio_frame rf)). 4 * n \<le> length p"
  shows "\<exists>planes. split_audio_frame env os rf = Some (rf\<lparr>rf_audio_frame := (rf_audio_frame rf)\<lparr>
            af_num_channels := int ch, af_linesize := int (4 * ae_padded env n), af_data := planes\<rparr>\<rparr>)
     \<and> length planes = ch
     \<and> (\<forall>c < ch. take (4 * n) (planes ! c) = take (4 * n) (af_data (rf_audio_frame rf) ! (nat (first_channel os) + c)))"
proof -
  let ?a = "rf_audio_frame rf" and ?f = "nat (first_channel os)"
  let ?pad = "replicate (ae_padded env n - n) (ae_junk env)"
  define srcs where "srcs = map (\<lambda>c. take (4 * n) (af_data ?a ! (?f + c))) [0..<ch]"
  define blocks where "blocks = map (\<lambda>s. words_of_bytes s @ ?pad) srcs"
  have ls: "\<forall>s \<in> set srcs. length s = 4 * n"
  proof -
    have "4 * n \<le> length (af_data ?a ! (?f + c))" if "c < ch" for c
      using src that by simp
    then show ?thesis
      by (auto simp: srcs_def)
  qed
  have "those (map (\<lambda>c. do { p \<leftarrow> at (af_data ?a) (?f + c); mem_get 0 (4 * n) p }) [0..<ch]) = Some srcs"
    unfolding srcs_def using src by (intro those_Some_list) auto
  then have c: "copied_planes env ch n (first_channel os) (af_data ?a) = Some (concat blocks)"
    using assms(3) by (simp add: copied_planes_def blocks_def)
  have lb: "\<forall>b \<in> set blocks. length b = ae_padded env n" "length blocks = ch"
    using ls n(2) by (auto simp: blocks_def length_words_of_bytes srcs_def)
  have ck: "chunks ch (ae_padded env n) (concat blocks) = blocks"
    using chunks_concat [OF lb(1)] lb(2) by simp
  have "split_audio_frame env os rf = Some (rf\<lparr>rf_audio_frame := ?a\<lparr>af_num_channels := int ch,
      af_linesize := int (4 * ae_padded env n), af_data := map bytes_of_words blocks\<rparr>\<rparr>)"
    using assms(1,2) c ck unfolding split_audio_frame_def ch [symmetric] n(1) [symmetric] Let_def
    by (simp add: applyEffects_none)
  moreover have "take (4 * n) (bytes_of_words (blocks ! c)) = take (4 * n) (af_data ?a ! (?f + c))" if "c < ch" for c
  proof -
    have s: "srcs ! c \<in> set srcs" "srcs ! c = take (4 * n) (af_data ?a ! (?f + c))"
      using that by (auto simp: srcs_def)
    have "bytes_of_words (blocks ! c) = srcs ! c @ bytes_of_words ?pad"
      using that s(1) ls bytes_of_words_of_bytes [of "srcs ! c"] lb(2)
      by (simp add: blocks_def bytes_of_words_def)
    moreover have "length (srcs ! c) = 4 * n"
      using ls s(1) by blast
    ultimately show ?thesis
      by (simp add: s(2) [symmetric])
  qed
  ultimately show ?thesis
    using lb(2) by (intro exI [of _ "map bytes_of_words blocks"]) simp
qed


section \<open>The turn\<close>

lemma first_match_distinct:
  "distinct (map f xs) \<Longrightarrow> i < length xs \<Longrightarrow> first_match (\<lambda>e. f e = f (xs ! i)) xs k = Some (k + i)"
proof (induction xs arbitrary: i k)
  case (Cons x xs)
  show ?case
  proof (cases i)
    case (Suc j)
    have "f x \<noteq> f (xs ! j)"
      using Cons.prems Suc by (metis distinct.simps(2) length_Cons length_map list.simps(9) nth_map nth_mem Suc_less_SucD)
    then show ?thesis
      using Cons.IH [of j "k + 1"] Cons.prems Suc by simp
  qed simp
qed simp

definition encoders_ok :: "obe_t \<Rightarrow> bool" where
  "encoders_ok h \<longleftrightarrow> distinct (map en_output_stream_id (h_encoders h))
     \<and> (\<forall>e \<in> set (h_encoders h). queue_ok (en_queue e) \<and> \<not> q_locked (en_queue e))"

text \<open>The handles reached from \<open>h\<close> by putting frames into encoder queues; \<open>new i\<close> are the frames encoder
  \<open>i\<close> has got.\<close>

definition frames_added :: "obe_t \<Rightarrow> (nat \<Rightarrow> raw_frame list) \<Rightarrow> obe_t \<Rightarrow> bool" where
  "frames_added h new h' \<longleftrightarrow> encoders_ok h' \<and> length (h_encoders h') = length (h_encoders h)
     \<and> h_filters h' = h_filters h \<and> h_output_streams h' = h_output_streams h
     \<and> (\<forall>i < length (h_encoders h). en_output_stream_id (h_encoders h' ! i) = en_output_stream_id (h_encoders h ! i)
          \<and> queue_list (en_queue (h_encoders h' ! i)) = queue_list (en_queue (h_encoders h ! i)) @ new i)"

lemma frames_added_refl: "encoders_ok h \<Longrightarrow> frames_added h (\<lambda>_. []) h"
  by (simp add: frames_added_def)

lemma add_to_encode_queue_ok:
  assumes "encoders_ok h" "i < length (h_encoders h)"
  shows "\<exists>h'. add_to_encode_queue True h rf (en_output_stream_id (h_encoders h ! i)) = Some (0, h')
     \<and> frames_added h (\<lambda>j. if j = i then [rf] else []) h'"
proof -
  let ?e = "h_encoders h ! i"
  have e: "queue_ok (en_queue ?e)" "\<not> q_locked (en_queue ?e)" and d: "distinct (map en_output_stream_id (h_encoders h))"
    using assms by (auto simp: encoders_ok_def)
  obtain q where q: "add_to_queue True rf (en_queue ?e) = Some (0, q)" "queue_ok q" "\<not> q_locked q"
    "queue_list q = queue_list (en_queue ?e) @ [rf]"
    using add_ok [OF e] by metis
  let ?h' = "h\<lparr>h_encoders := (h_encoders h)[i := ?e\<lparr>en_queue := q\<rparr>]\<rparr>"
  have ids: "map en_output_stream_id ((h_encoders h)[i := ?e\<lparr>en_queue := q\<rparr>]) = map en_output_stream_id (h_encoders h)"
    using assms(2) by (intro nth_equalityI) (auto simp: nth_list_update)
  have "first_match (\<lambda>x. en_output_stream_id x = en_output_stream_id ?e) (h_encoders h) 0 = Some i"
    using first_match_distinct [OF d assms(2), of 0] by simp
  then have "add_to_encode_queue True h rf (en_output_stream_id ?e) = Some (0, ?h')"
    using q(1) by (simp add: add_to_encode_queue_def Let_def)
  moreover have "encoders_ok ?h'"
    using assms q(2,3) d ids unfolding encoders_ok_def
    by (auto dest!: subsetD [OF set_update_subset_insert])
  moreover have "frames_added h (\<lambda>j. if j = i then [rf] else []) ?h'"
    using calculation(2) q(4) by (auto simp: frames_added_def nth_list_update)
  ultimately show ?thesis
    by blast
qed

lemma frames_added_trans:
  assumes "frames_added h a h1" "frames_added h1 b h2"
  shows "frames_added h (\<lambda>i. a i @ b i) h2"
  using assms by (simp add: frames_added_def)

definition takes_pcm :: "obe_t \<Rightarrow> nat \<Rightarrow> bool" where
  "takes_pcm h i \<longleftrightarrow> (case get_output_stream_by_id (h_output_streams h) (en_output_stream_id (h_encoders h ! i)) of
     None \<Rightarrow> False | Some os \<Rightarrow> os_stream_format os \<noteq> AUDIO_AC_3_BITSTREAM)"

definition stream_of :: "obe_t \<Rightarrow> nat \<Rightarrow> output_stream" where
  "stream_of h i = the (get_output_stream_by_id (h_output_streams h) (en_output_stream_id (h_encoders h ! i)))"

definition streams_found :: "obe_t \<Rightarrow> bool" where
  "streams_found h \<longleftrightarrow> (\<forall>i < length (h_encoders h).
     get_output_stream_by_id (h_output_streams h) (en_output_stream_id (h_encoders h ! i)) \<noteq> None)"

lemma frames_added_keeps:
  assumes "frames_added h new h'" "i < length (h_encoders h)"
  shows "stream_of h' i = stream_of h i" "takes_pcm h' i = takes_pcm h i"
  using assms by (simp_all add: frames_added_def stream_of_def takes_pcm_def)

lemma frames_added_found: "frames_added h new h' \<Longrightarrow> streams_found h' = streams_found h"
  by (auto simp: frames_added_def streams_found_def)

lemma pcm_encoders_spec:
  assumes "af_sample_fmt (rf_audio_frame rf) \<noteq> AV_SAMPLE_FMT_NONE"
  shows "distinct is \<Longrightarrow> \<forall>i \<in> set is. i < length (h_encoders h) \<Longrightarrow> encoders_ok h \<Longrightarrow> streams_found h \<Longrightarrow>
    \<forall>i \<in> set is. takes_pcm h i \<longrightarrow> split_audio_frame env (stream_of h i) rf \<noteq> None \<Longrightarrow>
    \<exists>h'. pcm_encoders env rf is h = Some h'
       \<and> frames_added h (\<lambda>i. if i \<in> set is \<and> takes_pcm h i then [the (split_audio_frame env (stream_of h i) rf)] else []) h'"
proof (induction "is" arbitrary: h)
  case Nil
  then show ?case
    by (simp add: frames_added_refl)
next
  case (Cons i "is")
  have i: "i < length (h_encoders h)"
    using Cons.prems by simp
  obtain os where os: "get_output_stream_by_id (h_output_streams h) (en_output_stream_id (h_encoders h ! i)) = Some os"
    using Cons.prems(4) i by (auto simp: streams_found_def)
  show ?case
  proof (cases "takes_pcm h i")
    case False
    then have "pcm_encoders env rf (i # is) h = pcm_encoders env rf is h"
      using i os by (simp add: takes_pcm_def)
    moreover have "(\<lambda>j. if j \<in> set (i # is) \<and> takes_pcm h j then [the (split_audio_frame env (stream_of h j) rf)] else [])
        = (\<lambda>j. if j \<in> set is \<and> takes_pcm h j then [the (split_audio_frame env (stream_of h j) rf)] else [])"
      using False by auto
    ultimately show ?thesis
      using Cons.IH [of h] Cons.prems by simp
  next
    case True
    then obtain sp where sp: "split_audio_frame env (stream_of h i) rf = Some sp"
      using Cons.prems(5) by auto
    obtain h1 where h1: "add_to_encode_queue True h sp (en_output_stream_id (h_encoders h ! i)) = Some (0, h1)"
      "frames_added h (\<lambda>j. if j = i then [sp] else []) h1"
      using add_to_encode_queue_ok [OF Cons.prems(3) i] by blast
    have step: "pcm_encoders env rf (i # is) h = pcm_encoders env rf is h1"
      using i os True sp h1(1) assms by (simp add: takes_pcm_def stream_of_def)
    have l: "length (h_encoders h1) = length (h_encoders h)" "encoders_ok h1" "streams_found h1"
      using h1(2) Cons.prems(4) frames_added_found by (auto simp: frames_added_def)
    have k: "\<forall>j \<in> set is. stream_of h1 j = stream_of h j \<and> takes_pcm h1 j = takes_pcm h j"
      using frames_added_keeps [OF h1(2)] Cons.prems(2) by simp
    obtain h2 where h2: "pcm_encoders env rf is h1 = Some h2"
      "frames_added h1 (\<lambda>j. if j \<in> set is \<and> takes_pcm h1 j then [the (split_audio_frame env (stream_of h1 j) rf)] else []) h2"
      using Cons.IH [of h1] Cons.prems l k by auto
    have "(\<lambda>j. (if j = i then [sp] else []) @ (if j \<in> set is \<and> takes_pcm h1 j then [the (split_audio_frame env (stream_of h1 j) rf)] else []))
        = (\<lambda>j. if j \<in> set (i # is) \<and> takes_pcm h j then [the (split_audio_frame env (stream_of h j) rf)] else [])"
      using Cons.prems(1) k sp True by (auto simp: fun_eq_iff)
    then show ?thesis
      using step h2(1) frames_added_trans [OF h1(2) h2(2)] by auto
  qed
qed


definition filter_has :: "obe_t \<Rightarrow> nat \<Rightarrow> raw_frame \<Rightarrow> raw_frame list \<Rightarrow> bool" where
  "filter_has h k rf rest \<longleftrightarrow> k < length (h_filters h) \<and> \<not> fl_cancel_thread (h_filters h ! k)
     \<and> queue_ok (fl_queue (h_filters h ! k)) \<and> \<not> q_locked (fl_queue (h_filters h ! k))
     \<and> queue_list (fl_queue (h_filters h ! k)) = rf # rest"

lemma filter_has_head:
  assumes "filter_has h k rf rest"
  shows "at (h_filters h) k = Some (h_filters h ! k)" "\<not> (q_size (fl_queue (h_filters h ! k)) = 0 \<or> fl_cancel_thread (h_filters h ! k))"
    "at (q_buf (fl_queue (h_filters h ! k))) 0 = Some rf"
  using assms queue_head [of "fl_queue (h_filters h ! k)" rf rest] by (simp_all add: filter_has_def)

lemma remove_filter_frame_ok:
  assumes "filter_has h k rf rest" "h_filters h1 = h_filters h"
  shows "\<exists>h2. remove_filter_frame k h1 = Some h2 \<and> queue_list (fl_queue (h_filters h2 ! k)) = rest
     \<and> h_encoders h2 = h_encoders h1 \<and> h_output_streams h2 = h_output_streams h1"
proof -
  obtain q where "remove_from_queue True (fl_queue (h_filters h ! k)) = Some (0, q)" "queue_list q = rest"
    using remove_ok [of "fl_queue (h_filters h ! k)" rf rest] assms(1) by (auto simp: filter_has_def)
  then show ?thesis
    using assms by (auto simp: remove_filter_frame_def filter_has_def)
qed

lemma find_ac3_pcm:
  "af_sample_fmt (rf_audio_frame rf) \<noteq> AV_SAMPLE_FMT_NONE \<Longrightarrow> streams_found h \<Longrightarrow>
   \<forall>i \<in> set is. i < length (h_encoders h) \<Longrightarrow> find_ac3_encoder rf is h = Some None"
  by (induction "is") (auto simp: streams_found_def)

text \<open>C34 A turn on a frame of samples takes it from the filter's queue and gives every encoder after the first, the one of the
  video, whose stream is not an AC-3 bitstream exactly one new frame, split for its stream; no other
  queue changes.\<close>

theorem audio_turn_feeds_encoders:
  assumes "filter_has h k rf rest" "encoders_ok h" "streams_found h"
    and "af_sample_fmt (rf_audio_frame rf) \<noteq> AV_SAMPLE_FMT_NONE"
    and "\<forall>i < length (h_encoders h). 1 \<le> i \<and> takes_pcm h i \<longrightarrow> split_audio_frame env (stream_of h i) rf \<noteq> None"
  shows "\<exists>h'. audio_filter_turn env k h = Some h' \<and> queue_list (fl_queue (h_filters h' ! k)) = rest
     \<and> length (h_encoders h') = length (h_encoders h)
     \<and> (\<forall>i < length (h_encoders h). queue_list (en_queue (h_encoders h' ! i)) = queue_list (en_queue (h_encoders h ! i))
          @ (if 1 \<le> i \<and> takes_pcm h i then [the (split_audio_frame env (stream_of h i) rf)] else []))"
proof -
  let ?is = "[1..<length (h_encoders h)]"
  note f = filter_has_head [OF assms(1)]
  have "\<forall>i \<in> set ?is. i < length (h_encoders h)"
    "\<forall>i \<in> set ?is. takes_pcm h i \<longrightarrow> split_audio_frame env (stream_of h i) rf \<noteq> None"
    using assms(5) by auto
  then obtain h1 where h1: "pcm_encoders env rf ?is h = Some h1"
    "frames_added h (\<lambda>i. if i \<in> set ?is \<and> takes_pcm h i then [the (split_audio_frame env (stream_of h i) rf)] else []) h1"
    using pcm_encoders_spec [OF assms(4), of ?is h env] assms(2,3) by auto
  have l: "length (h_encoders h1) = length (h_encoders h)" "h_filters h1 = h_filters h" "streams_found h1"
    using h1(2) assms(3) frames_added_found by (auto simp: frames_added_def)
  have a: "find_ac3_encoder rf [1..<length (h_encoders h1)] h1 = Some None"
    by (rule find_ac3_pcm [OF assms(4) l(3)]) simp
  obtain h2 where h2: "remove_filter_frame k h1 = Some h2" "queue_list (fl_queue (h_filters h2 ! k)) = rest"
    "h_encoders h2 = h_encoders h1"
    using remove_filter_frame_ok [OF assms(1) l(2)] by blast
  have "audio_filter_turn env k h = Some h2"
    using f h1(1) a h2(1) by (simp add: audio_filter_turn_def del: upt_Suc)
  then show ?thesis
    using h1(2) h2(2,3) l(1) by (intro exI [of _ h2]) (auto simp: frames_added_def)
qed

definition ac3_match :: "obe_t \<Rightarrow> raw_frame \<Rightarrow> nat \<Rightarrow> bool" where
  "ac3_match h rf i \<longleftrightarrow> os_stream_format (stream_of h i) = AUDIO_AC_3_BITSTREAM
     \<and> rf_input_stream_id rf = os_sdi_audio_pair (stream_of h i)"

lemma pcm_encoders_none:
  "af_sample_fmt (rf_audio_frame rf) = AV_SAMPLE_FMT_NONE \<Longrightarrow> streams_found h \<Longrightarrow>
   \<forall>i \<in> set is. i < length (h_encoders h) \<Longrightarrow> pcm_encoders env rf is h = Some h"
  by (induction "is") (auto simp: streams_found_def)

lemma find_ac3_first:
  "af_sample_fmt (rf_audio_frame rf) = AV_SAMPLE_FMT_NONE \<Longrightarrow> streams_found h \<Longrightarrow>
   \<forall>i \<in> set is. i < length (h_encoders h) \<Longrightarrow>
   find_ac3_encoder rf is h = Some (map_option (\<lambda>i. (rf\<lparr>rf_pts := rf_pts rf + os_audio_offset_ms (stream_of h i) * 27000\<rparr>,
        en_output_stream_id (h_encoders h ! i))) (find (ac3_match h rf) is))"
proof (induction "is")
  case (Cons i "is")
  then obtain os where "get_output_stream_by_id (h_output_streams h) (en_output_stream_id (h_encoders h ! i)) = Some os"
    by (auto simp: streams_found_def)
  then show ?case
    using Cons by (simp add: ac3_match_def stream_of_def)
qed simp

text \<open>C35 A turn on an AC-3 bitstream frame moves it from the filter's queue to the first encoder of such a stream whose audio
  pair is the frame's, with the time stamp shifted by the audio offset of the stream, and to no other;
  a frame of a pair nobody encodes is dropped.\<close>

theorem audio_turn_routes_bitstream:
  assumes "filter_has h k rf rest" "encoders_ok h" "streams_found h"
    and "af_sample_fmt (rf_audio_frame rf) = AV_SAMPLE_FMT_NONE"
  shows "\<exists>h'. audio_filter_turn env k h = Some h' \<and> queue_list (fl_queue (h_filters h' ! k)) = rest
     \<and> length (h_encoders h') = length (h_encoders h)
     \<and> (\<forall>i < length (h_encoders h). queue_list (en_queue (h_encoders h' ! i)) = queue_list (en_queue (h_encoders h ! i))
          @ (if find (ac3_match h rf) [1..<length (h_encoders h)] = Some i
             then [rf\<lparr>rf_pts := rf_pts rf + os_audio_offset_ms (stream_of h i) * 27000\<rparr>] else []))"
proof -
  let ?is = "[1..<length (h_encoders h)]"
  note f = filter_has_head [OF assms(1)]
  have i: "\<forall>i \<in> set ?is. i < length (h_encoders h)"
    by simp
  note p = pcm_encoders_none [OF assms(4,3) i, of env] and a = find_ac3_first [OF assms(4,3) i]
  obtain h2 where h2: "remove_filter_frame k h = Some h2" "queue_list (fl_queue (h_filters h2 ! k)) = rest"
    "h_encoders h2 = h_encoders h" "h_output_streams h2 = h_output_streams h"
    using remove_filter_frame_ok [OF assms(1) refl] by blast
  show ?thesis
  proof (cases "find (ac3_match h rf) ?is")
    case None
    have "audio_filter_turn env k h = Some h2"
      using f p a h2(1) None by (simp add: audio_filter_turn_def del: upt_Suc)
    then show ?thesis
      using h2 None by (intro exI [of _ h2]) simp
  next
    case (Some j)
    then have j: "j < length (h_encoders h)"
      by (metis i find_Some_iff nth_mem)
    have ok2: "encoders_ok h2"
      using assms(2) h2(3) by (simp add: encoders_ok_def)
    obtain h3 where h3: "add_to_encode_queue True h2 (rf\<lparr>rf_pts := rf_pts rf + os_audio_offset_ms (stream_of h j) * 27000\<rparr>)
        (en_output_stream_id (h_encoders h ! j)) = Some (0, h3)"
      "frames_added h2 (\<lambda>i. if i = j then [rf\<lparr>rf_pts := rf_pts rf + os_audio_offset_ms (stream_of h j) * 27000\<rparr>] else []) h3"
      using add_to_encode_queue_ok [OF ok2, of j] j h2(3) by auto
    have "audio_filter_turn env k h = Some h3"
      using f p a h2(1) Some h3(1) by (simp add: audio_filter_turn_def del: upt_Suc)
    then show ?thesis
      using h3(2) h2 Some by (intro exI [of _ h3]) (auto simp: frames_added_def)
  qed
qed

definition audio_wit_env :: audio_env where
  "audio_wit_env = \<lparr>ae_nb_channels = (\<lambda>_. 2), ae_padded = (\<lambda>n. n + 1), ae_junk = 0, ae_effect = 0, ae_rand = (\<lambda>_. 0),
     ae_gain = (\<lambda>_. None)\<rparr>"

definition audio_wit_frame :: "int \<Rightarrow> raw_frame" where
  "audio_wit_frame fmt = (the (new_raw_frame True))\<lparr>rf_input_stream_id := 2,
     rf_audio_frame := \<lparr>af_num_samples = 1, af_num_channels = 4, af_linesize = 4, af_sample_fmt = fmt,
       af_data = [[1, 0, 0, 0], [2, 0, 0, 0], [3, 0, 0, 0], [4, 0, 0, 0]]\<rparr>\<rparr>"

definition audio_wit_pair :: "int \<Rightarrow> output_stream" where
  "audio_wit_pair i = (example_output i AUDIO_MP2)\<lparr>os_sdi_audio_pair := i\<rparr>"

theorem split_frame_selects_channels_witness:
  "\<exists>planes. split_audio_frame audio_wit_env (audio_wit_pair 2) (audio_wit_frame 3) = Some ((audio_wit_frame 3)\<lparr>rf_audio_frame :=
       (rf_audio_frame (audio_wit_frame 3))\<lparr>af_num_channels := 2, af_linesize := 8, af_data := planes\<rparr>\<rparr>)
     \<and> map (take 4) planes = [[3, 0, 0, 0], [4, 0, 0, 0]]"
proof -
  have h: "ae_effect audio_wit_env = 0" "ae_gain audio_wit_env (audio_wit_pair 2) = None" "0 \<le> first_channel (audio_wit_pair 2)"
    "1 = nat (af_num_samples (rf_audio_frame (audio_wit_frame 3)))" "1 \<le> ae_padded audio_wit_env 1"
    "2 = ae_nb_channels audio_wit_env (os_channel_layout (audio_wit_pair 2))"
    "nat (first_channel (audio_wit_pair 2)) + 2 \<le> length (af_data (rf_audio_frame (audio_wit_frame 3)))"
    "\<forall>p \<in> set (af_data (rf_audio_frame (audio_wit_frame 3))). 4 * 1 \<le> length p"
    by (simp_all add: audio_wit_env_def audio_wit_pair_def audio_wit_frame_def first_channel_def example_output_def)
  obtain planes where p: "split_audio_frame audio_wit_env (audio_wit_pair 2) (audio_wit_frame 3) = Some ((audio_wit_frame 3)\<lparr>rf_audio_frame :=
       (rf_audio_frame (audio_wit_frame 3))\<lparr>af_num_channels := int 2, af_linesize := int (4 * ae_padded audio_wit_env 1), af_data := planes\<rparr>\<rparr>)"
    "length planes = 2"
    "\<forall>c < 2. take (4 * 1) (planes ! c) = take (4 * 1) (af_data (rf_audio_frame (audio_wit_frame 3)) ! (nat (first_channel (audio_wit_pair 2)) + c))"
    using split_frame_selects_channels [OF h] by blast
  obtain a b where ab: "planes = [a, b]"
    using p(2) by (auto simp: length_Suc_conv numeral_2_eq_2)
  have f: "nat (first_channel (audio_wit_pair 2)) = 2" "ae_padded audio_wit_env 1 = 2"
    "af_data (rf_audio_frame (audio_wit_frame 3)) = [[1, 0, 0, 0], [2, 0, 0, 0], [3, 0, 0, 0], [4, 0, 0, 0]]"
    by (simp_all add: audio_wit_env_def audio_wit_pair_def audio_wit_frame_def first_channel_def example_output_def)
  have "take 4 a = [3, 0, 0, 0]" "take 4 b = [4, 0, 0, 0]"
    using spec [OF p(3), of 0] spec [OF p(3), of 1] by (simp_all add: ab f)
  then show ?thesis
    using p(1) ab f(2) by (intro exI [of _ planes]) simp
qed

definition audio_wit_encoder :: "int \<Rightarrow> stream_formats \<Rightarrow> obe_encoder" where
  "audio_wit_encoder i f = \<lparr>en_output_stream_id = i, en_is_ready = True, en_is_video = (i = 0), en_format = f,
     en_queue = zeroed_queue, en_cancel_thread = False, en_num_samples = 0\<rparr>"

definition audio_wit_handle :: "raw_frame \<Rightarrow> obe_t" where
  "audio_wit_handle rf = example_state\<lparr>
     h_output_streams := [example_output 0 VIDEO_AVC, audio_wit_pair 1, (audio_wit_pair 2)\<lparr>os_stream_format := AUDIO_AC_3_BITSTREAM\<rparr>],
     h_filters := [\<lparr>fl_target_csp = None, fl_stream_id_list = [1, 2], fl_queue = zeroed_queue\<lparr>q_buf := [rf], q_size := 1\<rparr>,
                    fl_cancel_thread = False\<rparr>],
     h_encoders := [audio_wit_encoder 0 VIDEO_AVC, audio_wit_encoder 1 AUDIO_MP2, audio_wit_encoder 2 AUDIO_AC_3_BITSTREAM]\<rparr>"

lemma audio_wit_facts:
  "filter_has (audio_wit_handle rf) 0 rf []" "encoders_ok (audio_wit_handle rf)" "streams_found (audio_wit_handle rf)"
  "length (h_encoders (audio_wit_handle rf)) = 3"
  "stream_of (audio_wit_handle rf) 1 = audio_wit_pair 1"
  "stream_of (audio_wit_handle rf) 2 = (audio_wit_pair 2)\<lparr>os_stream_format := AUDIO_AC_3_BITSTREAM\<rparr>"
  "takes_pcm (audio_wit_handle rf) 1" "\<not> takes_pcm (audio_wit_handle rf) 2"
  "queue_list (en_queue (h_encoders (audio_wit_handle rf) ! 0)) = []" "queue_list (en_queue (h_encoders (audio_wit_handle rf) ! 1)) = []"
  "queue_list (en_queue (h_encoders (audio_wit_handle rf) ! 2)) = []"
  by (simp_all add: audio_wit_handle_def filter_has_def encoders_ok_def streams_found_def stream_of_def takes_pcm_def
      audio_wit_encoder_def audio_wit_pair_def example_output_def get_output_stream_by_id_def queue_ok_def queue_list_def
      zeroed_queue_def less_Suc_eq numeral_3_eq_3)

theorem audio_turn_feeds_encoders_witness:
  "\<exists>h' s. audio_filter_turn audio_wit_env 0 (audio_wit_handle (audio_wit_frame 3)) = Some h'
     \<and> queue_list (en_queue (h_encoders h' ! 1)) = [s] \<and> queue_list (en_queue (h_encoders h' ! 2)) = []"
proof -
  let ?rf = "audio_wit_frame 3"
  have n: "af_sample_fmt (rf_audio_frame ?rf) \<noteq> AV_SAMPLE_FMT_NONE"
    by (simp add: audio_wit_frame_def AV_SAMPLE_FMT_NONE_def)
  have s: "split_audio_frame audio_wit_env (audio_wit_pair 1) ?rf \<noteq> None"
    by (simp add: split_audio_frame_def copied_planes_def audio_wit_env_def audio_wit_pair_def audio_wit_frame_def
        first_channel_def example_output_def applyEffects_none numeral_2_eq_2)
  have "\<forall>i < length (h_encoders (audio_wit_handle ?rf)). 1 \<le> i \<and> takes_pcm (audio_wit_handle ?rf) i \<longrightarrow>
      split_audio_frame audio_wit_env (stream_of (audio_wit_handle ?rf) i) ?rf \<noteq> None"
    using s audio_wit_facts [of ?rf] by (auto simp: less_Suc_eq numeral_3_eq_3 numeral_2_eq_2)
  then obtain h' where "audio_filter_turn audio_wit_env 0 (audio_wit_handle ?rf) = Some h'"
    and q: "\<forall>i < length (h_encoders (audio_wit_handle ?rf)). queue_list (en_queue (h_encoders h' ! i))
        = queue_list (en_queue (h_encoders (audio_wit_handle ?rf) ! i))
          @ (if 1 \<le> i \<and> takes_pcm (audio_wit_handle ?rf) i
             then [the (split_audio_frame audio_wit_env (stream_of (audio_wit_handle ?rf) i) ?rf)] else [])"
    using audio_turn_feeds_encoders [OF audio_wit_facts(1-3) n] by blast
  then show ?thesis
    using spec [OF q, of 1] spec [OF q, of 2] audio_wit_facts [of ?rf] by auto
qed

theorem audio_turn_routes_bitstream_witness:
  "\<exists>h' s. audio_filter_turn audio_wit_env 0 (audio_wit_handle (audio_wit_frame (-1))) = Some h'
     \<and> queue_list (en_queue (h_encoders h' ! 1)) = [] \<and> queue_list (en_queue (h_encoders h' ! 2)) = [s]"
proof -
  let ?rf = "audio_wit_frame (-1)" and ?h = "audio_wit_handle (audio_wit_frame (-1))"
  have n: "af_sample_fmt (rf_audio_frame ?rf) = AV_SAMPLE_FMT_NONE"
    by (simp add: audio_wit_frame_def AV_SAMPLE_FMT_NONE_def)
  have m: "\<not> ac3_match ?h ?rf 1" "ac3_match ?h ?rf 2"
    unfolding ac3_match_def audio_wit_facts
    by (simp_all add: audio_wit_pair_def example_output_def audio_wit_frame_def)
  have "[1..<3 :: nat] = [1, 2]"
    by (simp add: upt_rec)
  then have f: "find (ac3_match ?h ?rf) [1..<length (h_encoders ?h)] = Some 2"
    using m by (simp add: audio_wit_facts)
  obtain h' where "audio_filter_turn audio_wit_env 0 ?h = Some h'"
    and q: "\<forall>i < length (h_encoders ?h). queue_list (en_queue (h_encoders h' ! i)) = queue_list (en_queue (h_encoders ?h ! i))
          @ (if find (ac3_match ?h ?rf) [1..<length (h_encoders ?h)] = Some i
             then [?rf\<lparr>rf_pts := rf_pts ?rf + os_audio_offset_ms (stream_of ?h i) * 27000\<rparr>] else [])"
    using audio_turn_routes_bitstream [OF audio_wit_facts(1-3) n] by blast
  then show ?thesis
    using spec [OF q, of 1] spec [OF q, of 2] audio_wit_facts [of ?rf] unfolding f by auto
qed

end
