(* ===== verification/Obe_AudioEnc.thy ===== *)
theory Obe_AudioEnc
  imports Obe_Audio
begin

text \<open>
  The audio encoders that drive a codec library: MPEG layer 2 (encoders/audio/mp2/twolame.c) and AAC,
  AC-3 and E-AC-3 (encoders/audio/lavc/lavc.c).  Modelled is what the code itself does: the time base
  taken from the hardware and its reset, the correction of the clock drift, the fifos, and the cutting
  of the codec output into PES payloads with time stamps.  The codecs and the resampler are arguments
  (functions on a codec state).  \<^const>\<open>None\<close> is a loop that never ends or an access outside a fifo.
\<close>

unbundle bit_operations_syntax


section \<open>The drift correction\<close>

text \<open>The correction of the hardware clock drift, computed once after a reset while it is still zero; the
  same lines stand in both encoders.\<close>

definition drift_correction :: "int \<Rightarrow> int \<Rightarrow> int" where
  "drift_correction drift clk =
     (let drifted_frames = drift sdiv clk;
          ptsfixup = drift smod clk;
          drifted_frames =
            (if drifted_frames = 0
             then (if ptsfixup < -181000 then drifted_frames + 1
                   else if ptsfixup > clk - 181000 then drifted_frames - 1 else drifted_frames)
             else if drift > 0 then (if ptsfixup > clk - 181000 then -1 else 0)
             else drifted_frames * -1)
      in ptsfixup + drifted_frames * clk)"

(* src: encoders/audio/mp2/twolame.c 318-347 start_encoder_mp2 *)
definition mp2_ptsfixup :: "avfm \<Rightarrow> int \<Rightarrow> int" where
  "mp2_ptsfixup s ptsfixup =
     (if ptsfixup = 0 \<and> avfm_get_hw_status_mask s 1 \<noteq> 0 \<and> av_video_interval_clk s = 900900
      then drift_correction (av_drift s) (av_video_interval_clk s) else ptsfixup)"

(* src: encoders/audio/lavc/lavc.c 122-149 processCodecOutput *)
definition lavc_ptsfixup :: "avfm \<Rightarrow> int \<Rightarrow> int" where
  "lavc_ptsfixup s ptsfixup =
     (if ptsfixup = 0 \<and> avfm_get_hw_status_mask s 1 \<noteq> 0 \<and> av_video_interval_clk s = 900900
      then drift_correction (av_drift s) (av_video_interval_clk s) else ptsfixup)"


section \<open>MPEG layer 2\<close>

text \<open>\<open>mp_encode\<close> is the resampling and \<open>twolame_encode_buffer_float32_interleaved\<close>, which give no
  bytes when they fail; \<open>mp_flush\<close> is what the reset of the time base does to the codec; \<open>mp_mem\<close> tells
  whether the fifo and the coded frame can be allocated.\<close>

record 'c mp2_env =
  mp_encode :: "'c \<Rightarrow> raw_frame \<Rightarrow> 'c \<times> bytes option"
  mp_flush :: "'c \<Rightarrow> 'c"
  mp_fifo_mem :: bool
  mp_mem :: bool
  mp_framelength :: nat
  mp_frames_per_pes :: nat
  mp_output_stream_id :: int
  mp_audio_offset_ms :: int
  mp_mp2_offset_ms :: int

record 'c mp2_state =
  ms_codec :: 'c
  ms_fifo :: bytes
  ms_cur_pts :: int
  ms_ptsfixup :: int
  ms_avfm :: avfm
  ms_queue :: "raw_frame obe_queue"
  ms_mux_queue :: "coded_frame obe_queue"

definition mp2_frame_size :: "'c mp2_env \<Rightarrow> nat" where
  "mp2_frame_size env = mp_framelength env * mp_frames_per_pes env"

definition mp2_pts_increment :: "'c mp2_env \<Rightarrow> int" where
  "mp2_pts_increment env = 648000 * int (mp_frames_per_pes env)"

(* src: encoders/audio/mp2/twolame.c 299-359 start_encoder_mp2 *)
definition mp2_coded_frame :: "'c mp2_env \<Rightarrow> 'c mp2_state \<Rightarrow> coded_frame \<Rightarrow> coded_frame" where
  "mp2_coded_frame env st cf =
     (let s = ms_avfm st;
          pts = ms_cur_pts st + mp2_ptsfixup s (ms_ptsfixup st) * -1;
          pts = (if av_video_interval_clk s = 450450 then pts - 16 * 27000 - 67 * 270 else pts);
          pts = pts + mp_audio_offset_ms env * 27000 + mp_mp2_offset_ms env * 27000
      in cf\<lparr>cf_data := take (mp2_frame_size env) (ms_fifo st), cf_avfm := s, cf_pts := pts,
            cf_random_access := 1, cf_type := CF_AUDIO\<rparr>)"

text \<open>The result says whether the thread goes on.\<close>

(* src: encoders/audio/mp2/twolame.c 295-377 start_encoder_mp2 *)
function mp2_output :: "'c mp2_env \<Rightarrow> 'c mp2_state \<Rightarrow> (bool \<times> 'c mp2_state) option" where
  "mp2_output env st =
     (if length (ms_fifo st) < mp2_frame_size env then Some (True, st)
      else if mp2_frame_size env = 0 then None
      else case new_coded_frame (mp_mem env) (mp_mem env) (mp_output_stream_id env) (mp2_frame_size env) of
             None \<Rightarrow> Some (False, st)
           | Some cf \<Rightarrow>
               do { (_, q) \<leftarrow> add_to_queue True (mp2_coded_frame env st cf) (ms_mux_queue st);
                    mp2_output env (st\<lparr>ms_fifo := drop (mp2_frame_size env) (ms_fifo st),
                       ms_ptsfixup := mp2_ptsfixup (ms_avfm st) (ms_ptsfixup st),
                       ms_mux_queue := q, ms_cur_pts := ms_cur_pts st + mp2_pts_increment env\<rparr>) })"
  by pat_completeness auto
termination
  by (relation "measure (\<lambda>(env, st). length (ms_fifo st))") auto

declare mp2_output.simps [simp del]

(* src: encoders/audio/mp2/twolame.c 195-236 start_encoder_mp2 *)
definition mp2_time_base :: "'c mp2_env \<Rightarrow> raw_frame \<Rightarrow> 'c mp2_state \<Rightarrow> 'c mp2_state" where
  "mp2_time_base env rf st =
     (let cur_pts = (if av_audio_pts (rf_avfm rf) - av_audio_pts (ms_avfm st) \<ge> 4 * 648000 then -1 else ms_cur_pts st);
          st = st\<lparr>ms_avfm := rf_avfm rf, ms_cur_pts := cur_pts\<rparr>
      in if cur_pts = -1
         then st\<lparr>ms_cur_pts := av_audio_pts (rf_avfm rf), ms_ptsfixup := 0, ms_fifo := [],
                 ms_codec := mp_flush env (ms_codec st)\<rparr>
         else st)"

(* src: encoders/audio/mp2/twolame.c 182-378 start_encoder_mp2 *)
definition mp2_turn :: "'c mp2_env \<Rightarrow> 'c mp2_state \<Rightarrow> (bool \<times> 'c mp2_state) option" where
  "mp2_turn env st =
     (if q_size (ms_queue st) = 0 then Some (True, st)
      else do { rf \<leftarrow> at (q_buf (ms_queue st)) 0;
                let st = mp2_time_base env rf st;
                (case mp_encode env (ms_codec st) rf of
                   (c, None) \<Rightarrow> Some (False, st\<lparr>ms_codec := c\<rparr>)
                 | (c, Some output) \<Rightarrow>
                     do { (_, q) \<leftarrow> remove_from_queue True (ms_queue st);
                          let st = st\<lparr>ms_codec := c, ms_queue := q\<rparr>;
                          if \<not> mp_fifo_mem env then Some (False, st)
                          else mp2_output env (st\<lparr>ms_fifo := ms_fifo st @ output\<rparr>) }) })"


section \<open>AAC, AC-3 and E-AC-3\<close>

datatype lavc_codec = AV_CODEC_ID_AC3 | AV_CODEC_ID_EAC3 | AV_CODEC_ID_AAC

(* src: encoders/audio/lavc/lavc.c 69-75 lavc_encoders *)
definition lavc_encoders :: "(stream_formats \<times> lavc_codec \<times> string) list" where
  "lavc_encoders = [(AUDIO_AC_3, AV_CODEC_ID_AC3, ''AC_3''), (AUDIO_E_AC_3, AV_CODEC_ID_EAC3, ''E_AC_3''),
                    (AUDIO_AAC, AV_CODEC_ID_AAC, ''AAC'')]"

text \<open>The codec of a stream and the ticks of one of its frames.\<close>

(* src: encoders/audio/lavc/lavc.c 255-297 aac_start_encoder *)
definition lavc_select :: "stream_formats \<Rightarrow> (lavc_codec \<times> int) option" where
  "lavc_select f =
     map_option (\<lambda>(_, c, _). (c, if c = AV_CODEC_ID_AAC then 576000 else 864000))
       (find (\<lambda>e. fst e = f) lavc_encoders)"

text \<open>\<open>lc_convert\<close> is the resampler, \<open>lc_encode\<close> the codec, which turns one frame of samples into packets.
  \<open>lc_fifo_mem\<close> and \<open>lc_mem\<close> tell whether the fifo and the coded frame of a packet can be allocated.\<close>

record ('c, 's) lavc_env =
  lc_convert :: "raw_frame \<Rightarrow> 's list option"
  lc_encode :: "'c \<Rightarrow> 's list \<Rightarrow> 'c \<times> bytes list"
  lc_frame_size :: nat
  lc_sample_rate :: int
  lc_frames_per_pes :: nat
  lc_mode :: lavc_codec
  lc_frame_length_ticks :: int
  lc_output_stream_id :: int
  lc_audio_offset_ms :: int

(* src: encoders/audio/lavc/lavc.c 40-60 context_s *)
record ('c, 's) lavc_ctx =
  lx_codec :: 'c
  lx_pcm_fifo :: "'s list"
  lx_out_fifo :: bytes
  lx_avfm :: avfm
  lx_cur_pts :: int
  lx_ptsfixup :: int
  lx_last_output_pts :: int
  lx_num_frames :: nat
  lx_total_size_bytes :: nat
  lx_queue :: "raw_frame obe_queue"
  lx_mux_queue :: "coded_frame obe_queue"

(* src: encoders/audio/lavc/lavc.c 374-374 aac_start_encoder *)
definition lavc_pts_increment :: "('c, 's) lavc_env \<Rightarrow> int" where
  "lavc_pts_increment env =
     (int (lc_frame_size env) * 27000000 * int (lc_frames_per_pes env)) sdiv lc_sample_rate env"

text \<open>The time stamp of a payload: 33.2 ms of latency are taken off, 38 ms are added for AC-3.\<close>

definition lavc_output_pts :: "('c, 's) lavc_env \<Rightarrow> int \<Rightarrow> int \<Rightarrow> int" where
  "lavc_output_pts env cur_pts fixup =
     (let pts = cur_pts - 33 * 27000 - 2 * 2700;
          pts = (if lc_mode env = AV_CODEC_ID_AC3 then pts + 38 * 27000 else pts)
      in pts + fixup * -1 + lc_audio_offset_ms env * 27000)"

(* src: encoders/audio/lavc/lavc.c 80-223 processCodecOutput *)
definition processCodecOutput ::
  "bool \<times> bool \<Rightarrow> ('c, 's) lavc_env \<Rightarrow> ('c, 's) lavc_ctx \<Rightarrow> bytes \<Rightarrow> ('c, 's) lavc_ctx option" where
  "processCodecOutput mem env ctx pkt =
     (if \<not> fst mem then Some ctx
      else let ctx = ctx\<lparr>lx_out_fifo := lx_out_fifo ctx @ pkt\<rparr>
           in if lx_num_frames ctx \<noteq> lc_frames_per_pes env then Some ctx
              else case new_coded_frame (snd mem) (snd mem) (lc_output_stream_id env) (lx_total_size_bytes ctx) of
                     None \<Rightarrow> Some ctx
                   | Some cf \<Rightarrow>
                       do { data \<leftarrow> mem_get 0 (lx_total_size_bytes ctx) (lx_out_fifo ctx);
                            let fixup = lavc_ptsfixup (lx_avfm ctx) (lx_ptsfixup ctx);
                            let pts = lavc_output_pts env (lx_cur_pts ctx) fixup;
                            (_, q) \<leftarrow> add_to_queue True (cf\<lparr>cf_data := data, cf_pts := pts,
                                        cf_random_access := 1, cf_type := CF_AUDIO\<rparr>) (lx_mux_queue ctx);
                            Some (ctx\<lparr>lx_out_fifo := drop (lx_total_size_bytes ctx) (lx_out_fifo ctx),
                                      lx_ptsfixup := fixup, lx_last_output_pts := pts, lx_mux_queue := q,
                                      lx_cur_pts := lx_cur_pts ctx + lavc_pts_increment env,
                                      lx_total_size_bytes := 0, lx_num_frames := 0\<rparr>) })"

text \<open>The packets of one frame of samples; \<open>mem\<close> gives the outcome of the allocations of each.\<close>

(* src: encoders/audio/lavc/lavc.c 604-621 aac_start_encoder *)
fun lavc_packets ::
  "('c, 's) lavc_env \<Rightarrow> (bytes \<times> bool \<times> bool) list \<Rightarrow> ('c, 's) lavc_ctx \<Rightarrow> ('c, 's) lavc_ctx option" where
  "lavc_packets env [] ctx = Some ctx"
| "lavc_packets env ((pkt, mem) # pkts) ctx =
     do { let ctx = ctx\<lparr>lx_total_size_bytes := lx_total_size_bytes ctx + length pkt,
                        lx_num_frames := lx_num_frames ctx + 1\<rparr>;
          ctx \<leftarrow> processCodecOutput mem env ctx pkt;
          lavc_packets env pkts ctx }"

lemma processCodecOutput_pcm: "processCodecOutput mem env ctx pkt = Some ctx' \<Longrightarrow> lx_pcm_fifo ctx' = lx_pcm_fifo ctx"
  by (auto simp: processCodecOutput_def Let_def bind_eq_Some_conv split: if_split_asm option.split_asm)

lemma lavc_packets_pcm: "lavc_packets env pkts ctx = Some ctx' \<Longrightarrow> lx_pcm_fifo ctx' = lx_pcm_fifo ctx"
  by (induction pkts arbitrary: ctx) (auto simp: Let_def bind_eq_Some_conv dest!: processCodecOutput_pcm)

(* src: encoders/audio/lavc/lavc.c 580-622 aac_start_encoder *)
function lavc_compress ::
  "(bytes \<Rightarrow> bool \<times> bool) \<Rightarrow> ('c, 's) lavc_env \<Rightarrow> ('c, 's) lavc_ctx \<Rightarrow> ('c, 's) lavc_ctx option" where
  "lavc_compress mem env ctx =
     (if length (lx_pcm_fifo ctx) < lc_frame_size env then Some ctx
      else if lc_frame_size env = 0 then None
      else case lc_encode env (lx_codec ctx) (take (lc_frame_size env) (lx_pcm_fifo ctx)) of
             (c, pkts) \<Rightarrow>
               do { ctx' \<leftarrow> lavc_packets env (map (\<lambda>p. (p, mem p)) pkts)
                              (ctx\<lparr>lx_codec := c, lx_pcm_fifo := drop (lc_frame_size env) (lx_pcm_fifo ctx)\<rparr>);
                    lavc_compress mem env ctx' })"
  by pat_completeness auto
termination
  by (relation "measure (\<lambda>(mem, env, ctx). length (lx_pcm_fifo ctx))") (auto dest: lavc_packets_pcm)

declare lavc_compress.simps [simp del]

(* src: encoders/audio/lavc/lavc.c 421-466 aac_start_encoder *)
definition lavc_time_base :: "('c, 's) lavc_env \<Rightarrow> raw_frame \<Rightarrow> ('c, 's) lavc_ctx \<Rightarrow> ('c, 's) lavc_ctx" where
  "lavc_time_base env rf ctx =
     (let cur_pts = (if av_audio_pts (rf_avfm rf) - av_audio_pts (lx_avfm ctx) \<ge> 2 * lc_frame_length_ticks env
                     then -1 else lx_cur_pts ctx);
          ctx = ctx\<lparr>lx_avfm := rf_avfm rf, lx_cur_pts := cur_pts\<rparr>
      in if cur_pts = -1
         then ctx\<lparr>lx_cur_pts := av_audio_pts (rf_avfm rf), lx_ptsfixup := 0, lx_out_fifo := [], lx_pcm_fifo := [],
                  lx_num_frames := 0, lx_total_size_bytes := 0\<rparr>
         else ctx)"

(* src: encoders/audio/lavc/lavc.c 407-628 aac_start_encoder *)
definition lavc_turn ::
  "(bytes \<Rightarrow> bool \<times> bool) \<Rightarrow> ('c, 's) lavc_env \<Rightarrow> ('c, 's) lavc_ctx \<Rightarrow> (bool \<times> ('c, 's) lavc_ctx) option" where
  "lavc_turn mem env ctx =
     (if q_size (lx_queue ctx) = 0 then Some (True, ctx)
      else do { rf \<leftarrow> at (q_buf (lx_queue ctx)) 0;
                let ctx = lavc_time_base env rf ctx;
                (case lc_convert env rf of
                   None \<Rightarrow> Some (False, ctx)
                 | Some samples \<Rightarrow>
                     do { (_, q) \<leftarrow> remove_from_queue True (lx_queue ctx);
                          ctx \<leftarrow> lavc_compress mem env (ctx\<lparr>lx_queue := q, lx_pcm_fifo := lx_pcm_fifo ctx @ samples\<rparr>);
                          Some (True, ctx) }) })"

section \<open>Properties of the drift correction\<close>

lemma smod_small:
  assumes "0 < b"
  shows "\<bar>(a :: int) smod b\<bar> < b" "0 \<le> a \<Longrightarrow> 0 \<le> a smod b" "a \<le> 0 \<Longrightarrow> a smod b \<le> 0"
proof -
  have m: "0 \<le> c mod b" "c mod b < b" for c
    using assms by simp_all
  show "\<bar>a smod b\<bar> < b" "0 \<le> a \<Longrightarrow> 0 \<le> a smod b" "a \<le> 0 \<Longrightarrow> a smod b \<le> 0"
    using assms m [of a] m [of "- a"]
    by (cases "0 < a"; cases "a = 0"; simp add: signed_modulo_int_def sgn_if)+
qed

lemma drift_correction_mod:
  assumes "0 < clk"
  shows "\<exists>k. drift_correction drift clk = drift + k * clk"
proof -
  have e: "drift smod clk + d * clk = drift + (d - drift sdiv clk) * clk" for d
    using sdiv_mult_smod_eq [of drift clk] by (simp add: algebra_simps)
  show ?thesis
    unfolding drift_correction_def Let_def e by (rule exI) (rule refl)
qed

lemma drift_correction_bounds:
  assumes c: "362000 \<le> clk" and d: "- clk < drift"
  shows "-181000 \<le> drift_correction drift clk \<and> drift_correction drift clk \<le> clk - 181000"
proof -
  have pos: "0 < clk"
    using c by simp
  note s = smod_small [OF pos, of drift]
  have q: "drift sdiv clk = 0 \<longleftrightarrow> \<bar>drift\<bar> < clk"
    using pos by (auto simp: signed_divide_int_def sgn_if abs_if div_pos_pos_trivial)
      (smt (verit) div_pos_pos_trivial pos_imp_zdiv_pos_iff)+
  show ?thesis
  proof (cases "drift sdiv clk = 0")
    case True
    then have "drift smod clk = drift"
      using sdiv_mult_smod_eq [of drift clk] by simp
    then show ?thesis
      using True q c d by (simp add: drift_correction_def Let_def abs_if split: if_splits)
  next
    case False
    then have "0 < drift"
      using q d pos by (auto simp: abs_if split: if_splits)
    then show ?thesis
      using False s c by (auto simp: drift_correction_def Let_def)
  qed
qed

lemma residue_unique:
  assumes "(x :: int) mod 900900 = 99100" "-181000 \<le> x" "x \<le> 719900"
  shows "x = 99100"
proof (cases "0 \<le> x")
  case True
  then have "x mod 900900 = x"
    using assms(3) by simp
  then show ?thesis
    using assms(1) by simp
next
  case False
  then have "(x + 900900) mod 900900 = x + 900900"
    using assms(2) by (intro mod_pos_pos_trivial) simp_all
  then have "x mod 900900 = x + 900900"
    by simp
  then show ?thesis
    using assms by simp
qed

text \<open>C40 In half duplex mode at 29.97 frames both encoders correct the audio clock by the drift reduced by whole video
  frames; unless the audio is a frame or more behind, the correction lies between -181000 and one
  frame less 181000 ticks.\<close>

theorem drift_correction_residue:
  assumes "avfm_get_hw_status_mask s 1 \<noteq> 0" "av_video_interval_clk s = 900900"
  shows "mp2_ptsfixup s 0 = lavc_ptsfixup s 0
     \<and> mp2_ptsfixup s 0 mod 900900 = av_drift s mod 900900
     \<and> (-900900 < av_drift s \<longrightarrow> -181000 \<le> mp2_ptsfixup s 0 \<and> mp2_ptsfixup s 0 \<le> 900900 - 181000)"
proof -
  have e: "mp2_ptsfixup s 0 = drift_correction (av_drift s) 900900" "lavc_ptsfixup s 0 = drift_correction (av_drift s) 900900"
    using assms by (simp_all add: mp2_ptsfixup_def lavc_ptsfixup_def)
  obtain k where "drift_correction (av_drift s) 900900 = av_drift s + k * 900900"
    using drift_correction_mod [of 900900 "av_drift s"] by auto
  then show ?thesis
    using e drift_correction_bounds [of 900900 "av_drift s"] by simp
qed

theorem drift_correction_residue_witness:
  "mp2_ptsfixup (avfm_set_hw_status_mask (avfm_zero\<lparr>av_video_interval_clk := 900900, av_drift := 1000000\<rparr>) 1) 0 = 99100"
proof -
  let ?s = "avfm_set_hw_status_mask (avfm_zero\<lparr>av_video_interval_clk := 900900, av_drift := 1000000\<rparr>) 1"
  have h: "avfm_get_hw_status_mask ?s 1 \<noteq> 0" "av_video_interval_clk ?s = 900900" and d: "av_drift ?s = 1000000"
    by (simp_all add: avfm_get_hw_status_mask_def avfm_set_hw_status_mask_def avfm_zero_def)
  have "mp2_ptsfixup ?s 0 mod 900900 = 99100" "-181000 \<le> mp2_ptsfixup ?s 0" "mp2_ptsfixup ?s 0 \<le> 719900"
    using conjunct2 [OF drift_correction_residue [OF h]] unfolding d by simp_all
  then show ?thesis
    by (rule residue_unique)
qed

text \<open>Audio further behind than two frames is corrected by whole frames too many.\<close>

lemma drift_correction_behind: "drift_correction (-3153150) 900900 = 2252250"
  by (simp add: drift_correction_def Let_def)


section \<open>The layer 2 stream\<close>

lemma mp2_ptsfixup_idem [simp]: "mp2_ptsfixup s (mp2_ptsfixup s x) = mp2_ptsfixup s x"
  by (simp add: mp2_ptsfixup_def)

lemma lavc_ptsfixup_idem [simp]: "lavc_ptsfixup s (lavc_ptsfixup s x) = lavc_ptsfixup s x"
  by (simp add: lavc_ptsfixup_def)

text \<open>The frames cut from the fifo, and the \<open>k\<close>-th of them.\<close>

definition mp2_pts :: "'c mp2_env \<Rightarrow> avfm \<Rightarrow> int \<Rightarrow> int \<Rightarrow> int" where
  "mp2_pts env s fixup cur =
     cur - mp2_ptsfixup s fixup - (if av_video_interval_clk s = 450450 then 450090 else 0)
     + (mp_audio_offset_ms env + mp_mp2_offset_ms env) * 27000"

definition mp2_frame :: "'c mp2_env \<Rightarrow> 'c mp2_state \<Rightarrow> nat \<Rightarrow> coded_frame" where
  "mp2_frame env st k = coded_frame_zero\<lparr>cf_output_stream_id := mp_output_stream_id env,
     cf_data := take (mp2_frame_size env) (drop (k * mp2_frame_size env) (ms_fifo st)), cf_avfm := ms_avfm st,
     cf_pts := mp2_pts env (ms_avfm st) (ms_ptsfixup st) (ms_cur_pts st + int k * mp2_pts_increment env),
     cf_random_access := 1, cf_type := CF_AUDIO\<rparr>"

lemma mp2_output_spec:
  assumes "0 < mp2_frame_size env" "mp_mem env"
  shows "queue_ok (ms_mux_queue st) \<Longrightarrow> \<not> q_locked (ms_mux_queue st) \<Longrightarrow>
    \<exists>st'. mp2_output env st = Some (True, st')
      \<and> queue_ok (ms_mux_queue st') \<and> \<not> q_locked (ms_mux_queue st')
      \<and> queue_list (ms_mux_queue st') = queue_list (ms_mux_queue st)
          @ map (mp2_frame env st) [0..<length (ms_fifo st) div mp2_frame_size env]
      \<and> ms_fifo st' = drop (length (ms_fifo st) div mp2_frame_size env * mp2_frame_size env) (ms_fifo st)
      \<and> ms_cur_pts st' = ms_cur_pts st + int (length (ms_fifo st) div mp2_frame_size env) * mp2_pts_increment env
      \<and> ms_queue st' = ms_queue st \<and> ms_codec st' = ms_codec st \<and> ms_avfm st' = ms_avfm st"
proof (induction "length (ms_fifo st)" arbitrary: st rule: less_induct)
  case less
  let ?fs = "mp2_frame_size env"
  show ?case
  proof (cases "length (ms_fifo st) < ?fs")
    case True
    then show ?thesis
      using less.prems by (subst mp2_output.simps) simp
  next
    case False
    define cf where "cf = coded_frame_zero\<lparr>cf_output_stream_id := mp_output_stream_id env, cf_data := replicate ?fs 0\<rparr>"
    have f0: "mp2_coded_frame env st cf = mp2_frame env st 0"
      by (simp add: mp2_coded_frame_def mp2_frame_def mp2_pts_def cf_def Let_def algebra_simps)
    obtain q where q: "add_to_queue True (mp2_frame env st 0) (ms_mux_queue st) = Some (0, q)" "queue_ok q" "\<not> q_locked q"
      "queue_list q = queue_list (ms_mux_queue st) @ [mp2_frame env st 0]"
      using add_ok [OF less.prems] by metis
    define st1 where "st1 = st\<lparr>ms_fifo := drop ?fs (ms_fifo st), ms_ptsfixup := mp2_ptsfixup (ms_avfm st) (ms_ptsfixup st),
                       ms_mux_queue := q, ms_cur_pts := ms_cur_pts st + mp2_pts_increment env\<rparr>"
    have step: "mp2_output env st = mp2_output env st1"
      using False assms q(1) f0
      by (subst mp2_output.simps) (simp add: new_coded_frame_def st1_def cf_def [symmetric])
    have n: "length (ms_fifo st) div ?fs = Suc (length (ms_fifo st1) div ?fs)"
      using False assms(1) by (simp add: st1_def le_div_geq)
    have fk: "mp2_frame env st1 k = mp2_frame env st (Suc k)" for k
      by (simp add: mp2_frame_def st1_def mp2_pts_def add.commute algebra_simps)
    have "length (ms_fifo st1) < length (ms_fifo st)"
      using False assms(1) by (simp add: st1_def)
    moreover have "queue_ok (ms_mux_queue st1)" "\<not> q_locked (ms_mux_queue st1)"
      using q by (simp_all add: st1_def)
    ultimately obtain st' where IH: "mp2_output env st1 = Some (True, st')"
      "queue_ok (ms_mux_queue st') \<and> \<not> q_locked (ms_mux_queue st')
      \<and> queue_list (ms_mux_queue st') = queue_list (ms_mux_queue st1)
          @ map (mp2_frame env st1) [0..<length (ms_fifo st1) div ?fs]
      \<and> ms_fifo st' = drop (length (ms_fifo st1) div ?fs * ?fs) (ms_fifo st1)
      \<and> ms_cur_pts st' = ms_cur_pts st1 + int (length (ms_fifo st1) div ?fs) * mp2_pts_increment env
      \<and> ms_queue st' = ms_queue st1 \<and> ms_codec st' = ms_codec st1 \<and> ms_avfm st' = ms_avfm st1"
      using less.hyps by blast
    have m: "map (mp2_frame env st) [0..<Suc n] = mp2_frame env st 0 # map (mp2_frame env st1) [0..<n]" for n
      unfolding map_upt_Suc fk ..
    have "queue_list (ms_mux_queue st1) = queue_list (ms_mux_queue st) @ [mp2_frame env st 0]"
      "ms_fifo st1 = drop ?fs (ms_fifo st)" "ms_cur_pts st1 = ms_cur_pts st + mp2_pts_increment env"
      "ms_queue st1 = ms_queue st" "ms_codec st1 = ms_codec st" "ms_avfm st1 = ms_avfm st"
      using q by (simp_all add: st1_def)
    then show ?thesis
      using IH unfolding step n m by (intro exI [of _ st']) (simp add: algebra_simps)
  qed
qed


text \<open>C37 A turn of the layer 2 encoder takes one frame of samples from its queue and appends to the mux queue
  the codec output since the last cut in PES payloads of exactly the frame length times the frames
  per PES, in order and without gap; what is left, less than one payload, stays in the fifo.  The time
  stamps start at the current time base, step by 24 ms for each codec frame, and all have the same
  drift correction and offsets.\<close>

theorem mp2_turn_cuts_stream:
  assumes "queue_ok (ms_queue st)" "queue_list (ms_queue st) = rf # rest" "\<not> q_locked (ms_queue st)"
    and "queue_ok (ms_mux_queue st)" "\<not> q_locked (ms_mux_queue st)"
    and "0 < mp2_frame_size env" "mp_mem env" "mp_fifo_mem env"
    and st1: "st1 = mp2_time_base env rf st"
    and "mp_encode env (ms_codec st1) rf = (c, Some output)"
    and stream: "stream = ms_fifo st1 @ output"
    and n: "n = length stream div mp2_frame_size env"
  shows "\<exists>st'. mp2_turn env st = Some (True, st')
     \<and> queue_list (ms_queue st') = rest
     \<and> queue_list (ms_mux_queue st') = queue_list (ms_mux_queue st) @
         map (\<lambda>k. coded_frame_zero\<lparr>cf_output_stream_id := mp_output_stream_id env,
           cf_data := take (mp2_frame_size env) (drop (k * mp2_frame_size env) stream), cf_avfm := rf_avfm rf,
           cf_pts := mp2_pts env (rf_avfm rf) (ms_ptsfixup st1) (ms_cur_pts st1 + int k * mp2_pts_increment env),
           cf_random_access := 1, cf_type := CF_AUDIO\<rparr>) [0..<n]
     \<and> ms_fifo st' = drop (n * mp2_frame_size env) stream \<and> length (ms_fifo st') < mp2_frame_size env
     \<and> ms_cur_pts st' = ms_cur_pts st1 + int n * mp2_pts_increment env"
proof -
  note h = queue_head [OF assms(1,2)]
  have b: "ms_queue st1 = ms_queue st" "ms_mux_queue st1 = ms_mux_queue st" "ms_avfm st1 = rf_avfm rf"
    by (simp_all add: st1 mp2_time_base_def Let_def)
  obtain q where q: "remove_from_queue True (ms_queue st) = Some (0, q)" "queue_list q = rest"
    using remove_ok [OF assms(1,2,3)] by metis
  let ?st2 = "st1\<lparr>ms_codec := c, ms_queue := q, ms_fifo := stream\<rparr>"
  have mq: "queue_ok (ms_mux_queue ?st2)" "\<not> q_locked (ms_mux_queue ?st2)"
    using assms(4,5) b by simp_all
  obtain st' where e: "mp2_output env ?st2 = Some (True, st')"
    "queue_list (ms_mux_queue st') = queue_list (ms_mux_queue ?st2) @ map (mp2_frame env ?st2) [0..<n]"
    "ms_fifo st' = drop (n * mp2_frame_size env) stream"
    "ms_cur_pts st' = ms_cur_pts ?st2 + int n * mp2_pts_increment env" "ms_queue st' = ms_queue ?st2"
    using mp2_output_spec [OF assms(6,7) mq] unfolding n by auto
  have turn: "mp2_turn env st = Some (True, st')"
    using h q(1) assms(8,10) e(1) b unfolding stream st1 by (simp add: mp2_turn_def Let_def)
  have l: "length (ms_fifo st') < mp2_frame_size env"
    unfolding e(3) n using assms(6) by (simp add: minus_div_mult_eq_mod)
  have "map (mp2_frame env ?st2) [0..<n] = map (\<lambda>k. coded_frame_zero\<lparr>cf_output_stream_id := mp_output_stream_id env,
           cf_data := take (mp2_frame_size env) (drop (k * mp2_frame_size env) stream), cf_avfm := rf_avfm rf,
           cf_pts := mp2_pts env (rf_avfm rf) (ms_ptsfixup st1) (ms_cur_pts st1 + int k * mp2_pts_increment env),
           cf_random_access := 1, cf_type := CF_AUDIO\<rparr>) [0..<n]"
    by (simp add: mp2_frame_def b(3))
  then show ?thesis
    using turn e(2-5) l b q(2) by (intro exI [of _ st']) simp
qed

section \<open>PES payloads of whole packets\<close>

definition lavc_frame :: "('c, 's) lavc_env \<Rightarrow> ('c, 's) lavc_ctx \<Rightarrow> bytes \<Rightarrow> nat \<Rightarrow> coded_frame" where
  "lavc_frame env ctx data k = coded_frame_zero\<lparr>cf_output_stream_id := lc_output_stream_id env, cf_data := data,
     cf_pts := lavc_output_pts env (lx_cur_pts ctx + int k * lavc_pts_increment env)
                 (lavc_ptsfixup (lx_avfm ctx) (lx_ptsfixup ctx)),
     cf_random_access := 1, cf_type := CF_AUDIO\<rparr>"

text \<open>The packets collected for the next payload are \<open>pend\<close>.\<close>

definition lavc_pending :: "('c, 's) lavc_env \<Rightarrow> ('c, 's) lavc_ctx \<Rightarrow> bytes list \<Rightarrow> bool" where
  "lavc_pending env ctx pend \<longleftrightarrow> lx_num_frames ctx = length pend \<and> lx_out_fifo ctx = concat pend
     \<and> lx_total_size_bytes ctx = length (concat pend) \<and> length pend < lc_frames_per_pes env
     \<and> queue_ok (lx_mux_queue ctx) \<and> \<not> q_locked (lx_mux_queue ctx)"

lemma lavc_packet_pends:
  assumes "lavc_pending env ctx pend" "Suc (length pend) < lc_frames_per_pes env"
  shows "\<exists>ctx'. lavc_packets env ((p, True, True) # ps) ctx = lavc_packets env ps ctx'
     \<and> lavc_pending env ctx' (pend @ [p]) \<and> lx_mux_queue ctx' = lx_mux_queue ctx
     \<and> (\<forall>d k. lavc_frame env ctx' d k = lavc_frame env ctx d k)"
  using assms by (auto simp: lavc_pending_def processCodecOutput_def lavc_frame_def Let_def)

lemma lavc_packet_emits:
  assumes "lavc_pending env ctx pend" "Suc (length pend) = lc_frames_per_pes env"
  shows "\<exists>ctx'. lavc_packets env ((p, True, True) # ps) ctx = lavc_packets env ps ctx'
     \<and> lavc_pending env ctx' []
     \<and> queue_list (lx_mux_queue ctx') = queue_list (lx_mux_queue ctx) @ [lavc_frame env ctx (concat (pend @ [p])) 0]
     \<and> (\<forall>d k. lavc_frame env ctx' d k = lavc_frame env ctx d (Suc k))"
proof -
  have p: "lx_num_frames ctx = length pend" "lx_out_fifo ctx = concat pend" "lx_total_size_bytes ctx = length (concat pend)"
    "queue_ok (lx_mux_queue ctx)" "\<not> q_locked (lx_mux_queue ctx)"
    using assms(1) by (simp_all add: lavc_pending_def)
  let ?d = "concat (pend @ [p])"
  obtain q where q: "add_to_queue True (lavc_frame env ctx ?d 0) (lx_mux_queue ctx) = Some (0, q)" "queue_ok q"
    "\<not> q_locked q" "queue_list q = queue_list (lx_mux_queue ctx) @ [lavc_frame env ctx ?d 0]"
    using add_ok [OF p(4,5)] by metis
  let ?ctx' = "ctx\<lparr>lx_out_fifo := [], lx_ptsfixup := lavc_ptsfixup (lx_avfm ctx) (lx_ptsfixup ctx),
      lx_last_output_pts := lavc_output_pts env (lx_cur_pts ctx) (lavc_ptsfixup (lx_avfm ctx) (lx_ptsfixup ctx)),
      lx_mux_queue := q, lx_cur_pts := lx_cur_pts ctx + lavc_pts_increment env, lx_total_size_bytes := 0,
      lx_num_frames := 0\<rparr>"
  have "lavc_packets env ((p, True, True) # ps) ctx = lavc_packets env ps ?ctx'"
    using p q(1) [unfolded lavc_frame_def] assms(2)
    by (simp add: processCodecOutput_def new_coded_frame_def Let_def)
  moreover have "lavc_pending env ?ctx' []"
    using q assms(2) by (auto simp: lavc_pending_def)
  moreover have "lavc_frame env ?ctx' d k = lavc_frame env ctx d (Suc k)" for d k
    by (simp add: lavc_frame_def algebra_simps)
  ultimately show ?thesis
    using q(4) by (intro exI [of _ ?ctx']) simp
qed


text \<open>The packets in groups of \<open>n\<close>, without an incomplete last group.\<close>

definition packet_groups :: "nat \<Rightarrow> bytes list \<Rightarrow> bytes list" where
  "packet_groups n ps = map (\<lambda>k. concat (take n (drop (k * n) ps))) [0..<length ps div n]"

lemma packet_groups_Cons:
  assumes "0 < n" "length pend = n"
  shows "packet_groups n (pend @ ps) = concat pend # packet_groups n ps"
proof -
  have "(length pend + length ps) div n = Suc (length ps div n)"
    using assms div_add_self1 [of n "length ps"] by simp
  then show ?thesis
    using assms by (simp add: packet_groups_def map_upt_Suc del: upt_Suc)
qed

lemma packet_groups_short: "length ps < n \<Longrightarrow> packet_groups n ps = []"
  by (simp add: packet_groups_def)

lemma lavc_packets_spec:
  "lavc_pending env ctx pend \<Longrightarrow>
   \<exists>ctx'. lavc_packets env (map (\<lambda>p. (p, True, True)) ps) ctx = Some ctx'
     \<and> lavc_pending env ctx' (drop ((length pend + length ps) div lc_frames_per_pes env * lc_frames_per_pes env) (pend @ ps))
     \<and> queue_list (lx_mux_queue ctx') = queue_list (lx_mux_queue ctx)
         @ map (\<lambda>(d, k). lavc_frame env ctx d k)
             (zip (packet_groups (lc_frames_per_pes env) (pend @ ps)) [0..<length (pend @ ps) div lc_frames_per_pes env])"
proof (induction ps arbitrary: pend ctx)
  case Nil
  then have "length pend < lc_frames_per_pes env"
    by (simp add: lavc_pending_def)
  then show ?case
    using Nil by (simp add: packet_groups_short)
next
  case (Cons p ps)
  let ?n = "lc_frames_per_pes env"
  have lt: "length pend < ?n"
    using Cons.prems by (simp add: lavc_pending_def)
  show ?case
  proof (cases "Suc (length pend) = ?n")
    case False
    then obtain ctx1 where c: "lavc_packets env ((p, True, True) # map (\<lambda>p. (p, True, True)) ps) ctx
          = lavc_packets env (map (\<lambda>p. (p, True, True)) ps) ctx1"
      "lavc_pending env ctx1 (pend @ [p])" "lx_mux_queue ctx1 = lx_mux_queue ctx"
      "\<forall>d k. lavc_frame env ctx1 d k = lavc_frame env ctx d k"
      using lavc_packet_pends [OF Cons.prems, of p "map (\<lambda>p. (p, True, True)) ps"] lt by auto
    show ?thesis
      using Cons.IH [OF c(2)] c(1,3,4) by simp
  next
    case True
    then obtain ctx1 where c: "lavc_packets env ((p, True, True) # map (\<lambda>p. (p, True, True)) ps) ctx
          = lavc_packets env (map (\<lambda>p. (p, True, True)) ps) ctx1"
      "lavc_pending env ctx1 []"
      "queue_list (lx_mux_queue ctx1) = queue_list (lx_mux_queue ctx) @ [lavc_frame env ctx (concat (pend @ [p])) 0]"
      "\<forall>d k. lavc_frame env ctx1 d k = lavc_frame env ctx d (Suc k)"
      using lavc_packet_emits [OF Cons.prems True] by blast
    have e: "length pend + length (p # ps) = ?n + length ps"
      using True by simp
    have n: "(length pend + length (p # ps)) div ?n = Suc (length ps div ?n)" "length (pend @ [p]) = ?n" "0 < ?n"
      unfolding e using True lt div_add_self1 [of ?n "length ps"] by simp_all
    have g: "packet_groups ?n (pend @ p # ps) = concat (pend @ [p]) # packet_groups ?n ps"
      using packet_groups_Cons [OF n(3,2), of ps] by simp
    have d: "drop (Suc (length ps div ?n) * ?n) (pend @ p # ps) = drop (length ps div ?n * ?n) ps"
      using n(2) by (simp add: drop_Cons' split: nat_diff_split)
    have z: "map (\<lambda>(d, k). lavc_frame env ctx d k) (zip (a # gs) [0..<Suc m])
        = lavc_frame env ctx a 0 # map (\<lambda>(d, k). lavc_frame env ctx1 d k) (zip gs [0..<m])" for a gs m
      by (simp add: c(4) upt_conv_Cons zip_map2 map_Suc_upt [symmetric] del: upt_Suc map_Suc_upt) (auto simp: c(4))
    obtain ctx' where I: "lavc_packets env (map (\<lambda>p. (p, True, True)) ps) ctx1 = Some ctx'"
      "lavc_pending env ctx' (drop (length ps div ?n * ?n) ps)"
      "queue_list (lx_mux_queue ctx') = queue_list (lx_mux_queue ctx1)
         @ map (\<lambda>(d, k). lavc_frame env ctx1 d k) (zip (packet_groups ?n ps) [0..<length ps div ?n])"
      using Cons.IH [OF c(2)] by auto
    show ?thesis
    proof (intro exI [of _ ctx'] conjI)
      show "lavc_packets env (map (\<lambda>p. (p, True, True)) (p # ps)) ctx = Some ctx'"
        unfolding list.map c(1) by (rule I(1))
      show "lavc_pending env ctx' (drop ((length pend + length (p # ps)) div ?n * ?n) (pend @ p # ps))"
        unfolding n(1) d by (rule I(2))
      show "queue_list (lx_mux_queue ctx') = queue_list (lx_mux_queue ctx)
          @ map (\<lambda>(d, k). lavc_frame env ctx d k) (zip (packet_groups ?n (pend @ p # ps)) [0..<length (pend @ p # ps) div ?n])"
        unfolding length_append n(1) g z I(3) c(3) by simp
    qed
  qed
qed


text \<open>C38 When memory does not run out, the AAC, AC-3 or E-AC-3 encoder puts each number of packets the user
  set per PES into one payload, in order: the payloads are the packets in groups, beginning with those
  kept from the turns before; an incomplete group stays behind.  The time stamps step by the length of
  a payload.\<close>

theorem lavc_pes_groups:
  assumes "lavc_pending env ctx pend" "n = lc_frames_per_pes env"
  shows "\<exists>ctx'. lavc_packets env (map (\<lambda>p. (p, True, True)) ps) ctx = Some ctx'
     \<and> lavc_pending env ctx' (drop (length (pend @ ps) div n * n) (pend @ ps))
     \<and> queue_list (lx_mux_queue ctx') = queue_list (lx_mux_queue ctx)
         @ map (\<lambda>k. coded_frame_zero\<lparr>cf_output_stream_id := lc_output_stream_id env,
               cf_data := concat (take n (drop (k * n) (pend @ ps))),
               cf_pts := lavc_output_pts env (lx_cur_pts ctx + int k * lavc_pts_increment env)
                           (lavc_ptsfixup (lx_avfm ctx) (lx_ptsfixup ctx)),
               cf_random_access := 1, cf_type := CF_AUDIO\<rparr>) [0..<length (pend @ ps) div n]"
proof -
  have z: "map (\<lambda>(d, k). lavc_frame env ctx d k) (zip (packet_groups n qs) [0..<length qs div n])
      = map (\<lambda>k. lavc_frame env ctx (concat (take n (drop (k * n) qs))) k) [0..<length qs div n]" for qs
    unfolding packet_groups_def by (rule nth_equalityI) simp_all
  show ?thesis
    using lavc_packets_spec [OF assms(1), of ps]
    unfolding assms(2) [symmetric] length_append [symmetric] z unfolding lavc_frame_def .
qed

lemma processCodecOutput_waits:
  "lx_num_frames ctx \<noteq> lc_frames_per_pes env \<Longrightarrow>
   processCodecOutput m env ctx p = Some (if fst m then ctx\<lparr>lx_out_fifo := lx_out_fifo ctx @ p\<rparr> else ctx)"
  by (simp add: processCodecOutput_def)

text \<open>C39 After one coded frame could not be allocated the packet count has passed the number per PES, and no
  later packet makes a payload, whatever memory there is: the stream stays silent until the time base
  is reset.\<close>

theorem lavc_alloc_failure_stalls:
  assumes "Suc (lx_num_frames ctx) = lc_frames_per_pes env"
  shows "\<exists>ctx'. lavc_packets env ((pkt, True, False) # pkts) ctx = Some ctx' \<and> lx_mux_queue ctx' = lx_mux_queue ctx"
proof -
  have s: "lc_frames_per_pes env \<le> lx_num_frames c \<Longrightarrow>
    \<exists>c'. lavc_packets env ps c = Some c' \<and> lx_mux_queue c' = lx_mux_queue c" for ps and c :: "('a, 'b) lavc_ctx"
  proof (induction ps arbitrary: c)
    case (Cons a ps)
    obtain p m where a: "a = (p, m)"
      by (cases a)
    let ?c = "c\<lparr>lx_total_size_bytes := lx_total_size_bytes c + length p, lx_num_frames := lx_num_frames c + 1\<rparr>"
    have c1: "processCodecOutput m env ?c p = Some (if fst m then ?c\<lparr>lx_out_fifo := lx_out_fifo ?c @ p\<rparr> else ?c)"
      using Cons.prems by (intro processCodecOutput_waits) simp
    show ?case
      using Cons.IH [of "if fst m then ?c\<lparr>lx_out_fifo := lx_out_fifo ?c @ p\<rparr> else ?c"] Cons.prems c1
      unfolding a by (cases "fst m") simp_all
  qed simp
  show ?thesis
    using s [of "ctx\<lparr>lx_total_size_bytes := lx_total_size_bytes ctx + length pkt, lx_num_frames := Suc (lx_num_frames ctx),
                 lx_out_fifo := lx_out_fifo ctx @ pkt\<rparr>" pkts] assms
    by (simp add: processCodecOutput_def new_coded_frame_def Let_def)
qed

definition mp2_wit_env :: "unit mp2_env" where
  "mp2_wit_env = \<lparr>mp_encode = (\<lambda>c rf. (c, Some [1, 2, 3, 4, 5])), mp_flush = (\<lambda>c. c), mp_fifo_mem = True, mp_mem = True,
     mp_framelength = 2, mp_frames_per_pes = 1, mp_output_stream_id = 1, mp_audio_offset_ms = 0, mp_mp2_offset_ms = 0\<rparr>"

definition mp2_wit_frame :: raw_frame where
  "mp2_wit_frame = (the (new_raw_frame True))\<lparr>rf_avfm := avfm_zero\<lparr>av_audio_pts := 648000\<rparr>\<rparr>"

definition mp2_wit_state :: "unit mp2_state" where
  "mp2_wit_state = \<lparr>ms_codec = (), ms_fifo = [9], ms_cur_pts = 1000, ms_ptsfixup = 0, ms_avfm = avfm_zero,
     ms_queue = zeroed_queue\<lparr>q_buf := [mp2_wit_frame], q_size := 1\<rparr>, ms_mux_queue = zeroed_queue\<rparr>"

theorem mp2_turn_cuts_stream_witness:
  "\<exists>st'. mp2_turn mp2_wit_env mp2_wit_state = Some (True, st') \<and> ms_fifo st' = []
     \<and> map cf_data (queue_list (ms_mux_queue st')) = [[9, 1], [2, 3], [4, 5]]
     \<and> map cf_pts (queue_list (ms_mux_queue st')) = [1000, 649000, 1297000]"
proof -
  let ?st1 = "mp2_time_base mp2_wit_env mp2_wit_frame mp2_wit_state"
  have s1: "ms_fifo ?st1 = [9]" "ms_cur_pts ?st1 = 1000" "ms_ptsfixup ?st1 = 0"
    by (simp_all add: mp2_time_base_def mp2_wit_state_def mp2_wit_frame_def avfm_zero_def)
  have q: "queue_ok (ms_queue mp2_wit_state)" "queue_list (ms_queue mp2_wit_state) = mp2_wit_frame # []"
    "\<not> q_locked (ms_queue mp2_wit_state)" "queue_ok (ms_mux_queue mp2_wit_state)" "\<not> q_locked (ms_mux_queue mp2_wit_state)"
    "queue_list (ms_mux_queue mp2_wit_state) = []"
    by (simp_all add: mp2_wit_state_def queue_ok_def queue_list_def zeroed_queue_def)
  have e: "0 < mp2_frame_size mp2_wit_env" "mp_mem mp2_wit_env" "mp_fifo_mem mp2_wit_env"
    "mp_encode mp2_wit_env (ms_codec ?st1) mp2_wit_frame = ((), Some [1, 2, 3, 4, 5])"
    by (simp_all add: mp2_wit_env_def mp2_frame_size_def)
  have a: "av_video_interval_clk (rf_avfm mp2_wit_frame) = 0" "mp2_ptsfixup (rf_avfm mp2_wit_frame) 0 = 0"
    by (simp_all add: mp2_wit_frame_def avfm_zero_def mp2_ptsfixup_def)
  have f: "mp2_frame_size mp2_wit_env = 2" "mp2_pts_increment mp2_wit_env = 648000"
    "mp_audio_offset_ms mp2_wit_env = 0" "mp_mp2_offset_ms mp2_wit_env = 0"
    by (simp_all add: mp2_wit_env_def mp2_frame_size_def mp2_pts_increment_def)
  obtain st' where "mp2_turn mp2_wit_env mp2_wit_state = Some (True, st')"
    "queue_list (ms_mux_queue st') = queue_list (ms_mux_queue mp2_wit_state) @
         map (\<lambda>k. coded_frame_zero\<lparr>cf_output_stream_id := mp_output_stream_id mp2_wit_env,
           cf_data := take (mp2_frame_size mp2_wit_env) (drop (k * mp2_frame_size mp2_wit_env) [9, 1, 2, 3, 4, 5]), cf_avfm := rf_avfm mp2_wit_frame,
           cf_pts := mp2_pts mp2_wit_env (rf_avfm mp2_wit_frame) (ms_ptsfixup ?st1) (ms_cur_pts ?st1 + int k * mp2_pts_increment mp2_wit_env),
           cf_random_access := 1, cf_type := CF_AUDIO\<rparr>) [0..<3]"
    "ms_fifo st' = drop (3 * mp2_frame_size mp2_wit_env) [9, 1, 2, 3, 4, 5]"
    using mp2_turn_cuts_stream [OF q(1-5) e(1-3) refl e(4), of "[9, 1, 2, 3, 4, 5]" 3] s1 f by auto
  then show ?thesis
    by (intro exI [of _ st']) (simp add: q(6) f s1 a mp2_pts_def upt_rec)
qed

definition lavc_wit_env :: "(unit, unit) lavc_env" where
  "lavc_wit_env = \<lparr>lc_convert = (\<lambda>_. None), lc_encode = (\<lambda>c _. (c, [])), lc_frame_size = 1024, lc_sample_rate = 48000,
     lc_frames_per_pes = 2, lc_mode = AV_CODEC_ID_AAC, lc_frame_length_ticks = 576000, lc_output_stream_id = 1,
     lc_audio_offset_ms = 0\<rparr>"

definition lavc_wit_ctx :: "(unit, unit) lavc_ctx" where
  "lavc_wit_ctx = \<lparr>lx_codec = (), lx_pcm_fifo = [], lx_out_fifo = [7], lx_avfm = avfm_zero, lx_cur_pts = 1000000,
     lx_ptsfixup = 0, lx_last_output_pts = 0, lx_num_frames = 1, lx_total_size_bytes = 1, lx_queue = zeroed_queue,
     lx_mux_queue = zeroed_queue\<rparr>"

theorem lavc_pes_groups_witness:
  "\<exists>ctx'. lavc_packets lavc_wit_env [([1], True, True), ([2, 3], True, True), ([4], True, True), ([5], True, True)] lavc_wit_ctx = Some ctx'
     \<and> map cf_data (queue_list (lx_mux_queue ctx')) = [[7, 1], [2, 3, 4]]
     \<and> map cf_pts (queue_list (lx_mux_queue ctx')) = [103600, 1255600] \<and> lavc_pending lavc_wit_env ctx' [[5]]"
proof -
  have p: "lavc_pending lavc_wit_env lavc_wit_ctx [[7]]"
    by (simp add: lavc_pending_def lavc_wit_env_def lavc_wit_ctx_def zeroed_queue_def queue_ok_def)
  have e: "lc_frames_per_pes lavc_wit_env = 2" "lavc_pts_increment lavc_wit_env = 1152000"
    "queue_list (lx_mux_queue lavc_wit_ctx) = []" "lx_cur_pts lavc_wit_ctx = 1000000"
    "lavc_ptsfixup (lx_avfm lavc_wit_ctx) (lx_ptsfixup lavc_wit_ctx) = 0"
    by (simp_all add: lavc_wit_env_def lavc_wit_ctx_def zeroed_queue_def queue_list_def lavc_pts_increment_def
        lavc_ptsfixup_def avfm_zero_def)
  have o: "lavc_output_pts lavc_wit_env c 0 = c - 896400" for c
    by (simp add: lavc_output_pts_def lavc_wit_env_def)
  obtain ctx' where "lavc_packets lavc_wit_env (map (\<lambda>p. (p, True, True)) [[1], [2, 3], [4], [5]]) lavc_wit_ctx = Some ctx'"
    "lavc_pending lavc_wit_env ctx' (drop (length ([[7]] @ [[1], [2, 3], [4], [5 :: u8]]) div 2 * 2) ([[7]] @ [[1], [2, 3], [4], [5]]))"
    "queue_list (lx_mux_queue ctx') = queue_list (lx_mux_queue lavc_wit_ctx)
         @ map (\<lambda>k. coded_frame_zero\<lparr>cf_output_stream_id := lc_output_stream_id lavc_wit_env,
               cf_data := concat (take 2 (drop (k * 2) ([[7]] @ [[1], [2, 3], [4], [5]]))),
               cf_pts := lavc_output_pts lavc_wit_env (lx_cur_pts lavc_wit_ctx + int k * lavc_pts_increment lavc_wit_env)
                           (lavc_ptsfixup (lx_avfm lavc_wit_ctx) (lx_ptsfixup lavc_wit_ctx)),
               cf_random_access := 1, cf_type := CF_AUDIO\<rparr>) [0..<length ([[7]] @ [[1], [2, 3], [4], [5 :: u8]]) div 2]"
    using lavc_pes_groups [OF p e(1) [symmetric], of "[[1], [2, 3], [4], [5]]"] by blast
  then show ?thesis
    by (intro exI [of _ ctx']) (simp add: e o upt_rec)
qed

theorem lavc_alloc_failure_stalls_witness:
  "\<exists>ctx'. lavc_packets lavc_wit_env [([1], True, False), ([2], True, True), ([3], True, True)] lavc_wit_ctx = Some ctx'
     \<and> lx_mux_queue ctx' = zeroed_queue"
  using lavc_alloc_failure_stalls [of lavc_wit_ctx lavc_wit_env "[1]" "[([2], True, True), ([3], True, True)]"]
  by (simp add: lavc_wit_ctx_def lavc_wit_env_def)

end
