(* ===== verification/Spec2Isabelle.thy ===== *)
theory Spec2Isabelle
  imports Obe_Queue Obe_Bitstream Obe_Ring Obe_Sei Obe_Types Obe_Sdi Obe_Vanc Obe_UserData Obe_Video Obe_Core Obe_Metadata Obe_Scte104 Obe_Mux Obe_Smoothing Obe_Output Obe_Ac3 Obe_Vbi Obe_Audio Obe_AudioEnc
begin

text \<open>
  A verification development for obe-rt, the realtime broadcast encoder.

  \<^bold>\<open>The program\<close>

  obe-rt is a pipeline of threads joined by queues.  A capture thread (input/) delivers raw frames: a
  picture with its ancillary data, or the samples of all SDI audio channels.  The core (obe/obe.c) puts a
  frame on the queue of a filter thread.  The video filter (filters/video/) brings the picture into the
  format of the encoder and turns the ancillary data into encoder user data; the audio filter
  (filters/audio/) splits the channels into one frame for each encoder.  The encoder threads (encoders/)
  put coded frames on the mux queue, in low latency mode directly, otherwise through the encoder smoothing
  thread.  The multiplexer (mux/ts/ts.c) takes the frames that are due and hands them to libmpegts, the mux
  smoothing thread (mux/smoothing.c) cuts the transport stream into groups of packets and paces them by
  their PCRs, and the output threads (output/ip/) send the groups as UDP or RTP datagrams.  VBI and teletext
  data and SCTE-104 messages bypass the encoders on their way to the mux queue.

  \<^bold>\<open>Conventions of the model\<close>

  A structure is a record with the names of the source behind a short prefix, an enumeration a datatype (or
  a number, where the code computes with it), a C integer whose width matters a word and otherwise an int or
  nat.  A memory block is a list of cells that is read and written with bounds checks; \<^const>\<open>None\<close> is
  what the code has no defined result for: an access outside a block, a null pointer, or a wait that never
  ends.  So a statement that an operation gives \<open>Some\<close> also says that it is memory safe and returns.
  Return codes of the source are numbers or Booleans in the result.  A thread is modelled by one turn of its
  loop, as a function on its state; where two threads meet, by a step relation whose reachable states are
  all interleavings.  Allocation outcomes are arguments where the code looks at them (the ring buffer and
  the splitting of audio frames are modelled with allocations that succeed).  Comments of the form
  \<open>src: file lines symbol\<close> stand before each definition that translates code.

  \<^bold>\<open>Theories\<close>

  \<^item> Obe_Prelude: integer types, memory blocks (\<open>mem_put\<close>, \<open>mem_get\<close>, \<open>at\<close>), bit strings, and the lemmas
    and lemma collections the other theories share.
  \<^item> Obe_Queue: common/queue.c.  The record \<open>obe_queue\<close> has the array, the fill count and the mutex; all six
    operations.  The locale \<open>fifo\<close> states what a client may rely on and is interpreted on the operations;
    \<open>qstep\<close> is a producer and a consumer thread sharing one queue.
  \<^item> Obe_Bitstream: common/bitstream.h and bs_read.h, with the locales \<open>bit_sink\<close> and \<open>bit_source\<close> for the
    writer and the reader, and Golomb codes.
  \<^item> Obe_Ring: encoders/audio/ac3bitstream/klringbuffer.c, with the locale \<open>byte_fifo\<close> (interpreted on
    its operations) for a ring that does not have to grow, and what growing does to wrapped contents.
  \<^item> Obe_Sei: encoders/video/sei-timestamp.c, payload of the latency message and timeval arithmetic.
  \<^item> Obe_Types: the enumerations and structures of obe/obe.h, obe/stream_formats.h and common/common.h.
  \<^item> Obe_Sdi: input/sdi/sdi.c, packing and unpacking of v210, line numbers, the selection of services.
  \<^item> Obe_Vanc: input/sdi/ancillary.c, the scan of a line for ancillary packets and the packet parsers.
  \<^item> Obe_Vbi: input/sdi/vbi.c, decoding of VBI lines and the DVB-VBI and DVB teletext payloads.
  \<^item> Obe_UserData: filters/video/cc.c and the user data payloads of filters/video/video.c (captions, AFD, bar
    data).
  \<^item> Obe_Video: filters/video/video.c, row kernels, conversions of an image, user data of a frame, and a turn
    of the filter thread.
  \<^item> Obe_Audio: filters/audio/audio.c, effects, gain, splitting and a turn of the thread.
  \<^item> Obe_AudioEnc: encoders/audio/mp2/twolame.c and encoders/audio/lavc/lavc.c, time base, drift correction,
    fifos, and the cutting of codec output into PES payloads.
  \<^item> Obe_Ac3: input/sdi/smpte337_detector.c and smpte337_detector2.c, and
    encoders/audio/ac3bitstream/ac3bitstream.c: burst detection, checksums, a turn of the thread.
  \<^item> Obe_Core: obe/obe.c.  The record \<open>obe_t\<close> is the handle with its stages; look-ups, clocks, probing, set-up,
    start (the threads created) and close (the threads joined).
  \<^item> Obe_Metadata: common/metadata.c and the frame copies of obe.c, over a heap of allocated blocks.
  \<^item> Obe_Scte104: common/scte104filtering.c, common/vancprocessor.c and the loop of encoders/video/avc/x264.c
    that feeds them.
  \<^item> Obe_Smoothing: encoders/encoder_smoothing.c (with \<open>es_step\<close>, the thread against the encoders that fill its
    queue) and mux/smoothing.c.
  \<^item> Obe_Mux: mux/ts/ts.c, set-up of the streams and a turn of the thread.
  \<^item> Obe_Output: output/ip/ip.c and common/network/udp/udp.c, sockets, datagrams and a turn of the thread.

  \<^bold>\<open>What the theorems show\<close>

  \<^item> Containers.  The queue keeps its invariant and is a FIFO under any interleaving of two threads
    (\<open>queue_threads_fifo\<close>); a failed allocation leaves its mutex locked (\<open>add_failure_wedges_queue\<close>).  The ring
    returns what a plain byte list would while its contents stay within the initial capacity
    (\<open>ring_is_byte_fifo\<close>).  What the bit writer writes, the bit reader reads
    (\<open>bitstream_roundtrip\<close>, \<open>ue_writers_golomb\<close>); SEI fields are read back (\<open>sei_field_roundtrip\<close>).
  \<^item> Ancillary data.  The scan of a line is memory safe and finds a caption packet wherever it is
    (\<open>vanc_scan_memory_safe\<close>, \<open>vanc_caption_packet_found\<close>), captions reach the user data unchanged
    (\<open>cdp_captions_delivered\<close>, \<open>eia608_payload\<close>), and an error return deletes the next item
    (\<open>rejected_packet_deletes_next\<close>).  VBI decoding keeps exactly the selected services
    (\<open>decode_vbi_extracts\<close>), and its payloads have the layout of the standards where the code intends it
    (\<open>ttx_pes_layout\<close>, \<open>vbi_pes_layout\<close>).
  \<^item> Pictures.  The pixel conversions deliver the samples a v210 line stands for, and the row kernels agree
    with their formulas (\<open>v210_conversions_agree\<close>, \<open>dither_row_reference\<close>, \<open>downconvert_keeps_fields\<close>).  The
    format in which a frame leaves the filter is known for every format the capture cards deliver
    (\<open>filter_delivers_target_format\<close>): that of the encoder, except for scaled progressive pictures.
  \<^item> Audio.  Each encoder gets one frame per input frame, split for its stream
    (\<open>audio_turn_feeds_encoders\<close>, \<open>audio_turn_routes_bitstream\<close>, \<open>gain_misses_channel_end\<close>).  The encoders cut
    the codec output into payloads without gap and with regular time stamps (\<open>mp2_turn_cuts_stream\<close>,
    \<open>lavc_pes_groups\<close>, \<open>lavc_alloc_failure_stalls\<close>, \<open>drift_correction_residue\<close>).  Both burst detectors find
    exactly the bursts of one scan of the stream, and exactly the intact ones reach the mux queue, each
    with the time at which it began
    (\<open>detectors_find_same_bursts\<close>, \<open>detector_loop_ends\<close>, \<open>ac3_turn_delivers_valid_frames\<close>).
  \<^item> Core and metadata.  A started encoder routes frames by its streams and closing joins every thread once
    (\<open>started_pipeline_routes_frames\<close>, \<open>obe_close_joins_started_threads\<close>, \<open>remove_early_frames_filters\<close>);
    metadata copies are deep, and messages reach the multiplexer with every block used on the way freed once
    (\<open>metadata_clone_is_deep\<close>, \<open>scte104_messages_reach_mux\<close>).
  \<^item> From the encoders to the network.  Encoder smoothing keeps the order of the frames under any interleaving
    (\<open>enc_smoothing_keeps_order\<close>); the multiplexer takes the frames due at the first video frame
    and gives streams different PIDs
    (\<open>mux_turn_takes_due_frames\<close>, \<open>mux_pids_distinct\<close>); mux smoothing sends the packets in groups at the time of
    their PCRs (\<open>mux_smoothing_keeps_packets\<close>); the outputs send each group once
    (\<open>output_sends_groups\<close>, \<open>udp_open_leaves_no_socket\<close>), so that the datagrams, joined, are the transport
    stream (\<open>smoothed_stream_reaches_network\<close>, which composes the two threads).

  Theorems whose hypotheses exclude a case often stand beside a lemma or theorem that shows what goes wrong in
  it, such as \<open>vanc_scan_overruns_exact_line\<close>, \<open>ring_grow_wrapped_loses_data\<close> or \<open>rtp_payload_overruns\<close>.

  \<^bold>\<open>Termination and fuel\<close>

  Loops are structural recursions, or recursions with a measure (the bytes, samples or queue items left).  Two
  loops have fuel.  \<open>run_detector1\<close> searches a ring and is called with one unit more than the bytes in it; each
  pass that goes on discards at least one byte.  \<open>ms_drain\<close> sends groups while the data fifo has enough and is
  called with one unit more than the bytes in it; each pass removes a payload, so fuel runs out only for a
  payload size of 0, for which the loop of the code does not end either.  The theorems that use them show
  \<open>Some\<close>, hence that the fuel suffices.

  \<^bold>\<open>Arguments of the model\<close>

  Code that is not under src/ is an argument: the byte fifos of libavutil with the laws of their
  documentation (\<open>av_fifo_laws\<close>, interpreted by lists in the witnesses), libzvbi's slices and service
  identifiers, the checksum of libavutil, libklvanc's packets and libklscte35's sections, libmpegts, the audio
  codecs and the resampler, the padded plane size of \<open>av_samples_alloc\<close>, floating point products, libswscale,
  and the answers of the operating system for sockets and clocks.  The creation of threads is taken to
  succeed: the code tests its results for negative values, which never occur.

  \<^bold>\<open>What is not modelled\<close>

  The video encoders (x264, x265, avcodec, the VA-API samples) apart from the metadata loop of x264.c, the
  set-up of the audio codecs, the capture cards and SDKs in C++ and Linsys apart from the attachment of SCTE-104
  messages in decklink.cpp, VapourSynth, Kafka and JPEG thumbnails, and the web service drive third-party code
  and have little logic of their own.  The on-screen display painters, the statistics and debug printers,
  histograms and dumps only print or draw.  The command line of obe/obecli.c parses options and calls the
  operations of obe.c.  The assembly kernels are outside the language of the development; the C versions of the
  same kernels are modelled.  The file output, the 337M filter stub and the deinterleaver tool pass data
  through.  Real time is not modelled: a sleep is the value it is called with, a wait on a condition variable a
  disabled step, and the order of memory operations within a critical section is the order of the source.
\<close>

end
